(* ===== verification/BTP_Prelude.thy ===== *)
theory BTP_Prelude
  imports Main "HOL-Library.Word"
begin

text \<open>
  Shared vocabulary of the development: byte strings, the outcome of a Go call (a value, an
  error, a run-time panic, or no result within the fuel given to a loop), procedures that
  thread an explicit state through such calls, and the list, arithmetic and big-endian
  lemmas several components use.
\<close>

section \<open>Types\<close>

type_synonym byte = "8 word"
type_synonym bytes = "8 word list"

text \<open>
  A Go call that mutates its receiver and may fail is a procedure: it maps a state to an
  outcome and the state it leaves behind. \<open>Fail\<close> is a returned non-nil error, \<open>Panic\<close> a
  run-time panic (nil dereference, index out of range, explicit panic), \<open>OutOfFuel\<close> means that
  a loop did not finish within its fuel.
\<close>

datatype ('e, 'a) outcome = Ret 'a | Fail 'e | Panic | OutOfFuel

type_synonym ('s, 'e, 'a) proc = "'s \<Rightarrow> ('e, 'a) outcome \<times> 's"

definition ret_p :: "'a \<Rightarrow> ('s, 'e, 'a) proc" where
  "ret_p x = (\<lambda>s. (Ret x, s))"

definition fail_p :: "'e \<Rightarrow> ('s, 'e, 'a) proc" where
  "fail_p e = (\<lambda>s. (Fail e, s))"

definition panic_p :: "('s, 'e, 'a) proc" where
  "panic_p = (\<lambda>s. (Panic, s))"

definition modify_p :: "('s \<Rightarrow> 's) \<Rightarrow> ('s, 'e, unit) proc" where
  "modify_p f = (\<lambda>s. (Ret (), f s))"

definition get_p :: "('s \<Rightarrow> ('s, 'e, 'a) proc) \<Rightarrow> ('s, 'e, 'a) proc" where
  "get_p k = (\<lambda>s. k s s)"

definition lift_p :: "('e, 'a) outcome \<Rightarrow> ('s, 'e, 'a) proc" where
  "lift_p r = (\<lambda>s. (r, s))"

text \<open>Sequencing: the continuation runs only when the first call returned.\<close>

definition bind_p :: "('s, 'e, 'a) proc \<Rightarrow> ('a \<Rightarrow> ('s, 'e, 'b) proc) \<Rightarrow> ('s, 'e, 'b) proc" where
  "bind_p m k = (\<lambda>s. case m s of
      (Ret x, s') \<Rightarrow> k x s'
    | (Fail e, s') \<Rightarrow> (Fail e, s')
    | (Panic, s') \<Rightarrow> (Panic, s')
    | (OutOfFuel, s') \<Rightarrow> (OutOfFuel, s'))"

abbreviation then_p :: "('s, 'e, unit) proc \<Rightarrow> ('s, 'e, 'b) proc \<Rightarrow> ('s, 'e, 'b) proc" where
  "then_p m k \<equiv> bind_p m (\<lambda>_. k)"

text \<open>The same for calls without a state.\<close>

definition bind_r :: "('e, 'a) outcome \<Rightarrow> ('a \<Rightarrow> ('e, 'b) outcome) \<Rightarrow> ('e, 'b) outcome" where
  "bind_r m k = (case m of Ret x \<Rightarrow> k x | Fail e \<Rightarrow> Fail e | Panic \<Rightarrow> Panic | OutOfFuel \<Rightarrow> OutOfFuel)"

lemma bind_r_simps [simp]:
  "bind_r (Ret x) k = k x" "bind_r (Fail e) k = Fail e" "bind_r Panic k = Panic" "bind_r OutOfFuel k = OutOfFuel"
  by (simp_all add: bind_r_def)

lemma bind_r_Ret: "bind_r m k = Ret y \<longleftrightarrow> (\<exists>x. m = Ret x \<and> k x = Ret y)"
  by (cases m) simp_all

named_theorems proc_defs "unfolding of the state-and-outcome combinators"
named_theorems keeps_intros "introduction rules for invariants of procedures"

declare ret_p_def [proc_defs] fail_p_def [proc_defs] panic_p_def [proc_defs]
  modify_p_def [proc_defs] get_p_def [proc_defs] lift_p_def [proc_defs]

lemma bind_p_simps [simp]:
  "m s = (Ret x, s') \<Longrightarrow> bind_p m k s = k x s'"
  "m s = (Fail e, s') \<Longrightarrow> bind_p m k s = (Fail e, s')"
  "m s = (Panic, s') \<Longrightarrow> bind_p m k s = (Panic, s')"
  "m s = (OutOfFuel, s') \<Longrightarrow> bind_p m k s = (OutOfFuel, s')"
  by (simp_all add: bind_p_def)

lemma bind_p_RetE:
  assumes "bind_p m k s = (Ret y, t)"
  obtains x s' where "m s = (Ret x, s')" and "k x s' = (Ret y, t)"
  using assms by (auto simp: bind_p_def split: prod.splits outcome.splits)

section \<open>Invariants of procedures\<close>

text \<open>
  \<open>keeps I m\<close>: whatever the outcome of \<open>m\<close>, the state it leaves satisfies \<open>I\<close> when the state it
  started from did. The rules compose along the structure of a procedure.
\<close>

definition keeps :: "('s \<Rightarrow> bool) \<Rightarrow> ('s, 'e, 'a) proc \<Rightarrow> bool" where
  "keeps I m \<longleftrightarrow> (\<forall>s. I s \<longrightarrow> I (snd (m s)))"

lemma keepsI: "(\<And>s. I s \<Longrightarrow> I (snd (m s))) \<Longrightarrow> keeps I m"
  by (simp add: keeps_def)

lemma keepsD: "keeps I m \<Longrightarrow> I s \<Longrightarrow> m s = (r, t) \<Longrightarrow> I t"
  by (metis keeps_def snd_conv)

lemma keeps_ret_p [keeps_intros]: "keeps I (ret_p x)"
  by (simp add: keeps_def ret_p_def)

lemma keeps_fail_p [keeps_intros]: "keeps I (fail_p e)"
  by (simp add: keeps_def fail_p_def)

lemma keeps_panic_p [keeps_intros]: "keeps I panic_p"
  by (simp add: keeps_def panic_p_def)

lemma keeps_lift_p [keeps_intros]: "keeps I (lift_p r)"
  by (simp add: keeps_def lift_p_def)

lemma keeps_modify_p: "(\<And>s. I s \<Longrightarrow> I (f s)) \<Longrightarrow> keeps I (modify_p f)"
  by (simp add: keeps_def modify_p_def)

lemma keeps_get_p [keeps_intros]: "(\<And>s. keeps I (k s)) \<Longrightarrow> keeps I (get_p k)"
  by (simp add: keeps_def get_p_def)

lemma keeps_bind_p [keeps_intros]:
  "keeps I m \<Longrightarrow> (\<And>x. keeps I (k x)) \<Longrightarrow> keeps I (bind_p m k)"
  unfolding keeps_def bind_p_def
  by (auto split: prod.splits outcome.splits)

lemma keeps_if [keeps_intros]:
  "keeps I m \<Longrightarrow> keeps I n \<Longrightarrow> keeps I (if b then m else n)"
  by simp

lemma keeps_option [keeps_intros]:
  "keeps I m \<Longrightarrow> (\<And>x. keeps I (k x)) \<Longrightarrow> keeps I (case z of None \<Rightarrow> m | Some x \<Rightarrow> k x)"
  by (simp split: option.split)

section \<open>Slices and numbers\<close>

text \<open>
  The loop \<open>for i, x := range xs { if P(x) { xs = xs[i+1:]; break } }\<close>: everything up to and
  including the first match is dropped; without a match nothing is.
\<close>

definition drop_through :: "('a \<Rightarrow> bool) \<Rightarrow> 'a list \<Rightarrow> 'a list" where
  "drop_through P xs = (case dropWhile (\<lambda>x. \<not> P x) xs of [] \<Rightarrow> xs | _ # ys \<Rightarrow> ys)"

lemma drop_through_Nil [simp]: "drop_through P [] = []"
  by (simp add: drop_through_def)

lemma drop_through_match [simp]: "P x \<Longrightarrow> drop_through P (x # xs) = xs"
  by (simp add: drop_through_def)

lemma drop_through_none: "(\<And>x. x \<in> set xs \<Longrightarrow> \<not> P x) \<Longrightarrow> drop_through P xs = xs"
  by (simp add: drop_through_def dropWhile_eq_Nil_conv [THEN iffD2])

lemma drop_through_suffix: "\<exists>pre. xs = pre @ drop_through P xs"
proof (cases "dropWhile (\<lambda>x. \<not> P x) xs")
  case (Cons y ys)
  then have "xs = (takeWhile (\<lambda>x. \<not> P x) xs @ [y]) @ ys"
    by (metis append.assoc append_Cons append_Nil takeWhile_dropWhile_id)
  then have "\<exists>pre. xs = pre @ ys" by blast
  with Cons show ?thesis by (simp add: drop_through_def)
next
  case Nil
  have "drop_through P xs = xs" unfolding drop_through_def Nil by simp
  then show ?thesis by (metis append_Nil)
qed

text \<open>\<open>strconv.FormatInt(x, 16)\<close>.\<close>

definition hex_digit :: "nat \<Rightarrow> char" where
  "hex_digit d = (if d < 10 then char_of (48 + d) else char_of (87 + d))"

fun hex_nat :: "nat \<Rightarrow> string" where
  "hex_nat n = (if n < 16 then [hex_digit n] else hex_nat (n div 16) @ [hex_digit (n mod 16)])"

declare hex_nat.simps [simp del]

definition FormatInt16 :: "int \<Rightarrow> string" where
  "FormatInt16 x = (if x < 0 then ''-'' @ hex_nat (nat (- x)) else hex_nat (nat x))"

end
