(* ===== verification/Go_Errors.thy ===== *)
theory Go_Errors
  imports BTP_Prelude
begin

text \<open>
  The error values of src/common/errors (errors.go, btp_error.go): base and wrapping error
  objects, the codes they carry, unwrapping, and the search for the code of an error; the
  BTP revert codes; and the revert-error constructor of src/chain/ethbr/client/error.go.
  Stack traces and textual formatting with verbs are not modelled; \<open>Error\<close> gives the message.
\<close>

section \<open>Error objects\<close>

text \<open>
  One constructor per concrete error type of the package, plus the two kinds of error of the
  Go standard library the package builds on: \<open>StdError\<close> (errors.New, fmt.Errorf without
  \<open>%w\<close>) and \<open>FmtWrapError\<close> (fmt.Errorf with \<open>%w\<close>). The stack field is left out.
\<close>

datatype err =
    StdError string
  | FmtWrapError string err
  | CodedError int string
  | ErrWithStack err
  | WrappedWithStack err
  | WithCodeAndStack err int
  | WrappedWithCode err int
  | WrappedWithMessage err string
  | WrappedWithCodeMessage err int string
  | WithFormat err

type_synonym 'a result = "(err, 'a) outcome"

section \<open>Codes\<close>

definition CodeSegment :: int where "CodeSegment = 1000"
definition CodeGeneral :: int where "CodeGeneral = 1 * CodeSegment"
definition CodeCritical :: int where "CodeCritical = 7 * CodeSegment"

definition Success :: int where "Success = 0"
definition UnknownError :: int where "UnknownError = CodeGeneral + 1"
definition IllegalArgumentError :: int where "IllegalArgumentError = CodeGeneral + 2"
definition UnsupportedError :: int where "UnsupportedError = CodeGeneral + 3"
definition InvalidStateError :: int where "InvalidStateError = CodeGeneral + 4"
definition NotFoundError :: int where "NotFoundError = CodeGeneral + 5"

definition SUCCESS :: int where "SUCCESS = -1"
definition CodeBTP :: int where "CodeBTP = 0"
definition CodeBMC :: int where "CodeBMC = 10"
definition CodeBMV :: int where "CodeBMV = 25"
definition CodeBSH :: int where "CodeBSH = 40"
definition CodeReserved :: int where "CodeReserved = 55"

definition BMVUnknown :: int where "BMVUnknown = CodeBMV"
definition BMVNotVerifiable :: int where "BMVNotVerifiable = CodeBMV + 1"
definition BMVAlreadyVerified :: int where "BMVAlreadyVerified = CodeBMV + 2"
definition BMVRevertInvalidBlockWitnessOld :: int where
  "BMVRevertInvalidBlockWitnessOld = CodeBMV + 3"

lemmas code_defs = CodeSegment_def CodeGeneral_def CodeCritical_def Success_def UnknownError_def
  IllegalArgumentError_def UnsupportedError_def InvalidStateError_def NotFoundError_def
  SUCCESS_def CodeBTP_def CodeBMC_def CodeBMV_def CodeBSH_def CodeReserved_def BMVUnknown_def
  BMVNotVerifiable_def BMVAlreadyVerified_def BMVRevertInvalidBlockWitnessOld_def

section \<open>Constructors\<close>

text \<open>A nil error is \<open>None\<close>. The wrapping functions return nil for nil.\<close>

definition NewBase :: "int \<Rightarrow> string \<Rightarrow> err" where
  "NewBase c msg = CodedError c msg"

definition New :: "string \<Rightarrow> err" where
  "New msg = ErrWithStack (StdError msg)"

definition WithStack :: "err option \<Rightarrow> err option" where
  "WithStack e = (case e of None \<Rightarrow> None | Some e \<Rightarrow> Some (WrappedWithStack e))"

definition Errorc :: "int \<Rightarrow> string \<Rightarrow> err" where
  "Errorc c msg = WithCodeAndStack (StdError msg) c"

definition WithCode :: "err option \<Rightarrow> int \<Rightarrow> err option" where
  "WithCode e c = (case e of None \<Rightarrow> None | Some e \<Rightarrow> Some (WrappedWithCode e c))"

definition Wrap :: "err option \<Rightarrow> string \<Rightarrow> err option" where
  "Wrap e msg = (case e of None \<Rightarrow> None | Some e \<Rightarrow> Some (WrappedWithMessage e msg))"

definition Wrapc :: "err option \<Rightarrow> int \<Rightarrow> string \<Rightarrow> err option" where
  "Wrapc e c msg = (case e of None \<Rightarrow> None | Some e \<Rightarrow> Some (WrappedWithCodeMessage e c msg))"

text \<open>The function \<open>Error\<close> keeps the package's own errors and gives others a formatter.\<close>

definition Error :: "err option \<Rightarrow> err option" where
  "Error e = (case e of None \<Rightarrow> None
     | Some (StdError m) \<Rightarrow> Some (WithFormat (StdError m))
     | Some (FmtWrapError m c) \<Rightarrow> Some (WithFormat (FmtWrapError m c))
     | Some e \<Rightarrow> Some e)"

definition ErrIllegalArgument :: err where
  "ErrIllegalArgument = NewBase IllegalArgumentError ''IllegalArgument''"
definition ErrNotFound :: err where
  "ErrNotFound = NewBase NotFoundError ''NotFound''"

section \<open>Unwrapping and codes\<close>

text \<open>
  \<open>withStack\<close>, \<open>withCodeAndStack\<close> and \<open>withFormat\<close> implement Unwrap by unwrapping the error they
  embed, so the embedded error itself is skipped; the types that embed \<open>wrapped\<close> return the
  error they wrap.
\<close>

fun Unwrap :: "err \<Rightarrow> err option" where
  "Unwrap (StdError _) = None"
| "Unwrap (FmtWrapError _ e) = Some e"
| "Unwrap (CodedError _ _) = None"
| "Unwrap (ErrWithStack e) = Unwrap e"
| "Unwrap (WrappedWithStack e) = Some e"
| "Unwrap (WithCodeAndStack e _) = Unwrap e"
| "Unwrap (WrappedWithCode e _) = Some e"
| "Unwrap (WrappedWithMessage e _) = Some e"
| "Unwrap (WrappedWithCodeMessage e _ _) = Some e"
| "Unwrap (WithFormat e) = Unwrap e"

lemma Unwrap_size: "Unwrap e = Some e' \<Longrightarrow> size e' < size e"
  by (induction e) auto

function FindCause :: "err option \<Rightarrow> (err \<Rightarrow> bool) \<Rightarrow> err option" where
  "FindCause None cb = None"
| "FindCause (Some e) cb = (if cb e then Some e else FindCause (Unwrap e) cb)"
  by pat_completeness auto
termination
  by (relation "measure (\<lambda>(e, cb). case e of None \<Rightarrow> 0 | Some e \<Rightarrow> Suc (size e))")
    (auto split: option.split dest: Unwrap_size)

text \<open>The ErrorCode method, for the types that have one (the others are no ErrorCoder).\<close>

fun ErrorCode :: "err \<Rightarrow> int option" where
  "ErrorCode (CodedError c _) = Some c"
| "ErrorCode (WithCodeAndStack _ c) = Some c"
| "ErrorCode (WrappedWithCode _ c) = Some c"
| "ErrorCode (WrappedWithCodeMessage _ c _) = Some c"
| "ErrorCode _ = None"

text \<open>The Error method: the message of an error.\<close>

fun Message :: "err \<Rightarrow> string" where
  "Message (StdError m) = m"
| "Message (FmtWrapError m _) = m"
| "Message (CodedError _ m) = m"
| "Message (ErrWithStack e) = Message e"
| "Message (WrappedWithStack e) = Message e"
| "Message (WithCodeAndStack e _) = Message e"
| "Message (WrappedWithCode e _) = Message e"
| "Message (WrappedWithMessage _ m) = m"
| "Message (WrappedWithCodeMessage _ _ m) = m"
| "Message (WithFormat e) = Message e"

text \<open>\<open>CoderOf\<close> gives the coder found, if any; \<open>CodeOf\<close> its code.\<close>

definition CoderOf :: "err option \<Rightarrow> err option" where
  "CoderOf e = FindCause e (\<lambda>x. ErrorCode x \<noteq> None)"

definition CodeOf :: "err option \<Rightarrow> int" where
  "CodeOf e = (if e = None then Success
     else case CoderOf e of
       None \<Rightarrow> UnknownError
     | Some c \<Rightarrow> (case ErrorCode c of None \<Rightarrow> UnknownError | Some k \<Rightarrow> k))"

definition Equals :: "int \<Rightarrow> err option \<Rightarrow> bool" where
  "Equals c e = (CodeOf e = c)"

definition IsCriticalCode :: "int \<Rightarrow> bool" where
  "IsCriticalCode c = (c \<ge> CodeCritical \<and> c < CodeCritical + CodeSegment)"

definition IsCritical :: "err option \<Rightarrow> bool" where
  "IsCritical e = IsCriticalCode (CodeOf e)"

section \<open>Revert errors\<close>

definition BMCRevertCodeNames :: "int \<Rightarrow> string option" where
  "BMCRevertCodeNames = map_of
    [(CodeBMC, ''BMCRevert''), (CodeBMC + 1, ''BMCRevertUnauthorized''),
     (CodeBMC + 2, ''BMCRevertInvalidSN''), (CodeBMC + 3, ''BMCRevertAlreadyExistsBMV''),
     (CodeBMC + 4, ''BMCRevertNotExistsBMV''), (CodeBMC + 5, ''BMCRevertAlreadyExistsBSH''),
     (CodeBMC + 6, ''BMCRevertNotExistsBSH''), (CodeBMC + 7, ''BMCRevertAlreadyExistsLink''),
     (CodeBMC + 8, ''BMCRevertNotExistsLink''), (CodeBMC + 9, ''BMCRevertUnreachable''),
     (CodeBMC + 10, ''BMCRevertNotExistsPermission'')]"

definition BMVRevertCodeNames :: "int \<Rightarrow> string option" where
  "BMVRevertCodeNames = map_of
    [(BMVUnknown, ''BMVRevert''), (BMVNotVerifiable, ''BMVNotVerifiable''),
     (BMVAlreadyVerified, ''BMVAlreadyVerified''),
     (BMVRevertInvalidBlockWitnessOld, ''BMVRevertInvalidBlockWitnessOld'')]"

text \<open>Sprintf of a non-negative integer with \<open>%d\<close>.\<close>

fun dec_nat :: "nat \<Rightarrow> string" where
  "dec_nat n = (if n < 10 then [char_of (48 + n)] else dec_nat (n div 10) @ [char_of (48 + n mod 10)])"

declare dec_nat.simps [simp del]

definition bracketed :: "string \<Rightarrow> int \<Rightarrow> string" where
  "bracketed name c = name @ ''['' @ dec_nat (nat c) @ '']''"

definition NewRevertError :: "int \<Rightarrow> err option" where
  "NewRevertError c =
    (if c \<ge> CodeBTP then
      (let msg =
        (if c < CodeBMC then bracketed ''BTPRevert'' c
         else if c < CodeBMV then
           (case BMCRevertCodeNames c of Some m \<Rightarrow> m | None \<Rightarrow> bracketed ''BMCRevert'' c)
         else if c < CodeBSH then
           (case BMVRevertCodeNames c of Some m \<Rightarrow> m | None \<Rightarrow> bracketed ''BMVRevert'' c)
         else if c < CodeReserved then bracketed ''BSHRevert'' c
         else bracketed ''ReservedRevert'' c)
       in Some (NewBase c msg))
     else None)"

text \<open>The copy of the function in src/chain/ethbr/client/error.go.\<close>

definition ethbr_BMVRevertCodeNames :: "int \<Rightarrow> string option" where
  "ethbr_BMVRevertCodeNames = map_of
    [(BMVUnknown, ''BMVUnknown''), (BMVNotVerifiable, ''BMVNotVerifiable''),
     (BMVAlreadyVerified, ''BMVAlreadyVerified'')]"

definition ethbr_NewRevertError :: "int \<Rightarrow> err option" where
  "ethbr_NewRevertError c =
    (if c \<ge> CodeBTP then
      (let msg =
        (if c \<le> CodeBMC then bracketed ''BTPRevert'' c
         else if c \<le> CodeBMV then
           (case BMCRevertCodeNames c of Some m \<Rightarrow> m | None \<Rightarrow> bracketed ''BMCRevert'' c)
         else if c \<le> CodeBSH then
           (case ethbr_BMVRevertCodeNames c of Some m \<Rightarrow> m | None \<Rightarrow> bracketed ''BMVRevert'' c)
         else if c \<le> CodeReserved then bracketed ''BSHRevert'' c
         else bracketed ''ReservedRevert'' c)
       in Some (NewBase c msg))
     else None)"

section \<open>Lemmas\<close>

lemma FindCause_cong_size: "FindCause e cb = Some x \<Longrightarrow> cb x"
  by (induction e cb rule: FindCause.induct) (auto split: if_splits)

lemma CoderOf_coder: "CoderOf e = Some x \<Longrightarrow> \<exists>k. ErrorCode x = Some k"
  unfolding CoderOf_def by (drule FindCause_cong_size) auto

lemma CodeOf_Some:
  "CodeOf (Some e) = (case ErrorCode e of Some k \<Rightarrow> k
     | None \<Rightarrow> (case Unwrap e of None \<Rightarrow> UnknownError | Some e' \<Rightarrow> CodeOf (Some e')))"
proof (cases "ErrorCode e")
  case None
  then have "CoderOf (Some e) = CoderOf (Unwrap e)"
    by (simp add: CoderOf_def)
  with None show ?thesis
    by (cases "Unwrap e") (simp_all add: CodeOf_def CoderOf_def)
qed (simp add: CodeOf_def CoderOf_def)

lemma CodeOf_None [simp]: "CodeOf None = Success"
  by (simp add: CodeOf_def)

lemma CodeOf_wrapped [simp]:
  "CodeOf (Some (WrappedWithStack e)) = CodeOf (Some e)"
  "CodeOf (Some (WrappedWithMessage e m)) = CodeOf (Some e)"
  "CodeOf (Some (FmtWrapError m e)) = CodeOf (Some e)"
  "CodeOf (Some (WrappedWithCode e c)) = c"
  "CodeOf (Some (WrappedWithCodeMessage e c m)) = c"
  "CodeOf (Some (WithCodeAndStack e c)) = c"
  "CodeOf (Some (CodedError c m)) = c"
  "CodeOf (Some (StdError m)) = UnknownError"
  by (simp_all add: CodeOf_Some [of "WrappedWithStack e"] CodeOf_Some [of "WrappedWithMessage e m"]
      CodeOf_Some [of "FmtWrapError m e"] CodeOf_Some [of "WrappedWithCode e c"]
      CodeOf_Some [of "WrappedWithCodeMessage e c m"] CodeOf_Some [of "WithCodeAndStack e c"]
      CodeOf_Some [of "CodedError c m"] CodeOf_Some [of "StdError m"])

text \<open>The errors met when unwrapping, outermost first: the reference for \<open>FindCause\<close>.\<close>

function causes :: "err \<Rightarrow> err list" where
  "causes e = e # (case Unwrap e of None \<Rightarrow> [] | Some e' \<Rightarrow> causes e')"
  by pat_completeness auto
termination
  by (relation "measure size") (auto dest: Unwrap_size)

declare causes.simps [simp del]

section \<open>Properties\<close>

text \<open>
  The search for a cause returns the first error of the unwrapping chain that satisfies
  the callback, and nil when there is none; in particular it always terminates.
\<close>

theorem FindCause_first: "FindCause (Some e) cb = List.find cb (causes e)"
proof (induction e rule: causes.induct)
  case (1 e)
  show ?case
  proof (cases "Unwrap e")
    case None
    then show ?thesis by (simp add: causes.simps [of e])
  next
    case (Some e')
    with 1 have "FindCause (Some e') cb = List.find cb (causes e')" by simp
    with Some show ?thesis by (simp add: causes.simps [of e])
  qed
qed

text \<open>
  Wrapping with a message or a stack keeps the code of an error (nil stays nil), while
  attaching a code, with or without a message, replaces it.
\<close>

theorem CodeOf_wrapping:
  "CodeOf (Wrap e m) = CodeOf e \<and> CodeOf (WithStack e) = CodeOf e \<and>
   CodeOf (WithCode (Some x) c) = c \<and> CodeOf (Wrapc (Some x) c m) = c \<and>
   CodeOf (WithCode None c) = Success \<and> CodeOf (Some (Errorc c m)) = c"
  by (cases e) (auto simp: Wrap_def WithStack_def WithCode_def Wrapc_def Errorc_def)

lemma revert_names_None:
  "CodeBMC + 10 < c \<Longrightarrow> BMCRevertCodeNames c = None"
  "BMVRevertInvalidBlockWitnessOld < c \<Longrightarrow> BMVRevertCodeNames c = None"
  "BMVAlreadyVerified < c \<Longrightarrow> ethbr_BMVRevertCodeNames c = None"
  by (auto simp: BMCRevertCodeNames_def BMVRevertCodeNames_def ethbr_BMVRevertCodeNames_def code_defs)

lemma revert_errors_agree:
  assumes "c \<notin> {10, 25, 28, 40, 55}"
  shows "ethbr_NewRevertError c = NewRevertError c"
proof -
  consider "c < 25" | "c = 26" | "c = 27" | "28 < c"
    using assms by (fastforce)
  then show ?thesis
  proof cases
    case 4
    then have "BMVRevertCodeNames c = None" "ethbr_BMVRevertCodeNames c = None"
      by (simp_all add: revert_names_None code_defs)
    with 4 assms show ?thesis
      by (simp add: NewRevertError_def ethbr_NewRevertError_def code_defs)
  qed (use assms in \<open>auto simp: NewRevertError_def ethbr_NewRevertError_def code_defs
      BMVRevertCodeNames_def ethbr_BMVRevertCodeNames_def\<close>)
qed

lemma revert_errors_differ:
  assumes "c \<in> {10, 25, 28, 40, 55}"
  shows "ethbr_NewRevertError c \<noteq> NewRevertError c"
  using assms
  by (auto simp: NewRevertError_def ethbr_NewRevertError_def code_defs NewBase_def bracketed_def
      BMCRevertCodeNames_def BMVRevertCodeNames_def ethbr_BMVRevertCodeNames_def)

text \<open>
  Both implementations of the revert-error constructor return nil exactly for negative codes
  and otherwise an error with the given code; but their errors are the same exactly off the codes
  10, 25, 28, 40 and 55: the copy for the EVM client compares with \<open>\<le>\<close> where the original
  compares with \<open><\<close>, and lacks the name of code 28.
\<close>

theorem NewRevertError_copies:
  "CodeOf (NewRevertError c) = (if c < 0 then Success else c) \<and>
   CodeOf (ethbr_NewRevertError c) = (if c < 0 then Success else c) \<and>
   (ethbr_NewRevertError c = NewRevertError c \<longleftrightarrow> c \<notin> {10, 25, 28, 40, 55})"
proof (intro conjI)
  show "CodeOf (NewRevertError c) = (if c < 0 then Success else c)"
    by (simp add: NewRevertError_def Let_def NewBase_def CodeBTP_def)
  show "CodeOf (ethbr_NewRevertError c) = (if c < 0 then Success else c)"
    by (simp add: ethbr_NewRevertError_def Let_def NewBase_def CodeBTP_def)
  show "ethbr_NewRevertError c = NewRevertError c \<longleftrightarrow> c \<notin> {10, 25, 28, 40, 55}"
    using revert_errors_agree revert_errors_differ by blast
qed

end
