(* ===== verification/BTP_Types.thy ===== *)
theory BTP_Types
  imports Go_Errors
begin

text \<open>
  The data types every other component exchanges (src/common/types/type.go) and the BTP address
  (src/common/types/btpaddress.go). Heights and sequence numbers, \<open>int64\<close> in the code, are
  integers here: the code only compares them and adds message counts to them.
\<close>

section \<open>Link status, relay results, preferences\<close>

record bmcLinkStatus =
  TxSeq :: int
  RxSeq :: int
  VHeight :: int
  VExtra :: bytes

record relayResult =
  rr_Id :: string
  rr_Err :: int
  rr_Finalized :: bool

record preference =
  TxSizeLimit :: int
  MarginForLimit :: int
  LatestResult :: bool
  FilledBlockUpdate :: bool

section \<open>Strings\<close>

text \<open>\<open>strings.Index\<close> and \<open>strings.Split\<close> with a one-character separator.\<close>

fun str_index :: "string \<Rightarrow> string \<Rightarrow> nat option" where
  "str_index sub [] = (if sub = [] then Some 0 else None)"
| "str_index sub (x # xs) =
    (if take (length sub) (x # xs) = sub then Some 0 else map_option Suc (str_index sub xs))"

fun str_split :: "char \<Rightarrow> string \<Rightarrow> string list" where
  "str_split c [] = [[]]"
| "str_split c (x # xs) =
    (if x = c then [] # str_split c xs
     else (case str_split c xs of [] \<Rightarrow> [[x]] | y # ys \<Rightarrow> (x # y) # ys))"

text \<open>\<open>[]byte(s)\<close>.\<close>

definition string_bytes :: "string \<Rightarrow> bytes" where
  "string_bytes s = map of_char s"

section \<open>BTP addresses\<close>

definition Protocol :: "string \<Rightarrow> string" where
  "Protocol a = (case str_index ''://'' a of
      Some i \<Rightarrow> (if i > 0 then take i a else '''')
    | None \<Rightarrow> '''')"

definition NetworkAddress :: "string \<Rightarrow> string" where
  "NetworkAddress a =
    (if Protocol a \<noteq> '''' then
       (let ss = str_split (CHR ''/'') a in if length ss > 2 then ss ! 2 else '''')
     else '''')"

definition network :: "string \<Rightarrow> string \<times> string" where
  "network a =
    (let s = NetworkAddress a in
     if s \<noteq> '''' then
       (let ss = str_split (CHR ''.'') s in
        if length ss > 1 then (ss ! 0, ss ! 1) else ('''', ss ! 0))
     else ('''', ''''))"

definition BlockChain :: "string \<Rightarrow> string" where
  "BlockChain a = snd (network a)"

definition NetworkID :: "string \<Rightarrow> string" where
  "NetworkID a = fst (network a)"

definition Account :: "string \<Rightarrow> string" where
  "Account a =
    (if Protocol a \<noteq> '''' then
       (let ss = str_split (CHR ''/'') a in if length ss > 3 then ss ! 3 else '''')
     else '''')"

definition ContractAddress :: "string \<Rightarrow> string" where
  "ContractAddress a =
    (if Protocol a \<noteq> '''' then
       (let ss = str_split (CHR ''/'') a in if length ss > 3 then ss ! 3 else '''')
     else '''')"

definition ValidateBtpAddress :: "string \<Rightarrow> err option" where
  "ValidateBtpAddress ba =
    (if Protocol ba \<noteq> ''btp'' then Some (StdError (''not supported protocol:'' @ Protocol ba))
     else if BlockChain ba \<noteq> ''icon'' \<and> BlockChain ba \<noteq> ''iconee''
       then Some (StdError (''not supported blockchain:'' @ BlockChain ba))
     else if length (Account ba) < 1 then Some (StdError ''empty account'')
     else None)"

section \<open>Lemmas\<close>

lemma str_split_ne [simp]: "str_split c s \<noteq> []"
  by (cases s) (auto split: list.splits)

lemma str_split_none: "c \<notin> set s \<Longrightarrow> str_split c s = [s]"
  by (induction s) auto

lemma str_split_append:
  "c \<notin> set s \<Longrightarrow> str_split c (s @ c # t) = s # str_split c t"
  by (induction s) auto

lemma str_index_scheme:
  assumes "CHR '':'' \<notin> set p"
  shows "str_index ''://'' (p @ ''://'' @ t) = Some (length p)"
  using assms
proof (induction p)
  case (Cons x p)
  then show ?case by (cases p) auto
qed simp

text \<open>The textual form of an address and its parts.\<close>

definition mk_address :: "string \<Rightarrow> string \<Rightarrow> string \<Rightarrow> string \<Rightarrow> string" where
  "mk_address p nid chn acc = p @ ''://'' @ nid @ ''.'' @ chn @ ''/'' @ acc"

lemma Protocol_mk:
  assumes "CHR '':'' \<notin> set p" and "p \<noteq> ''''"
  shows "Protocol (mk_address p nid chn acc) = p"
  using str_index_scheme [OF assms(1), of "nid @ ''.'' @ chn @ ''/'' @ acc"] assms(2)
  by (simp add: Protocol_def mk_address_def)

lemma split_mk:
  assumes "CHR ''/'' \<notin> set (p @ nid @ chn @ acc)"
  shows "str_split (CHR ''/'') (mk_address p nid chn acc) = [p @ '':'', '''', nid @ ''.'' @ chn, acc]"
proof -
  let ?rest = "(nid @ ''.'' @ chn) @ CHR ''/'' # acc"
  have mk: "mk_address p nid chn acc = (p @ '':'') @ CHR ''/'' # ([] @ CHR ''/'' # ?rest)"
    by (simp add: mk_address_def)
  have 1: "str_split (CHR ''/'') ((p @ '':'') @ CHR ''/'' # t) = (p @ '':'') # str_split (CHR ''/'') t" for t
    using assms by (intro str_split_append) auto
  have 2: "str_split (CHR ''/'') ([] @ CHR ''/'' # t) = [] # str_split (CHR ''/'') t" for t
    by (intro str_split_append) simp
  have 3: "str_split (CHR ''/'') ?rest = (nid @ ''.'' @ chn) # str_split (CHR ''/'') acc"
    using assms by (intro str_split_append) auto
  have 4: "str_split (CHR ''/'') acc = [acc]"
    using assms by (intro str_split_none) simp
  show ?thesis unfolding mk 1 2 3 4 by (rule refl)
qed

section \<open>Properties\<close>

text \<open>
  An address built from a protocol, a network id, a chain name and an account that do not
  contain the separators is taken apart into exactly these parts.
\<close>

theorem address_parts:
  assumes "CHR '':'' \<notin> set p" and "p \<noteq> ''''"
    and "CHR ''/'' \<notin> set (p @ nid @ chn @ acc)" and "CHR ''.'' \<notin> set (nid @ chn)"
  shows "Protocol (mk_address p nid chn acc) = p \<and>
    NetworkAddress (mk_address p nid chn acc) = nid @ ''.'' @ chn \<and>
    NetworkID (mk_address p nid chn acc) = nid \<and>
    BlockChain (mk_address p nid chn acc) = chn \<and>
    Account (mk_address p nid chn acc) = acc \<and>
    ContractAddress (mk_address p nid chn acc) = acc"
proof -
  let ?a = "mk_address p nid chn acc"
  have pr: "Protocol ?a = p" using assms(1,2) by (rule Protocol_mk)
  have sp: "str_split (CHR ''/'') ?a = [p @ '':'', '''', nid @ ''.'' @ chn, acc]"
    using assms(3) by (rule split_mk)
  have na: "NetworkAddress ?a = nid @ ''.'' @ chn"
    by (simp add: NetworkAddress_def pr sp assms(2))
  have "str_split (CHR ''.'') (nid @ ''.'' @ chn) = [nid, chn]"
    using assms(4) str_split_append [of "CHR ''.''" nid chn] str_split_none [of "CHR ''.''" chn] by simp
  with na have "network ?a = (nid, chn)"
    by (simp add: network_def)
  with pr sp na assms(2) show ?thesis
    by (simp add: NetworkID_def BlockChain_def Account_def ContractAddress_def)
qed

theorem address_parts_witness:
  "mk_address ''btp'' ''0x1'' ''icon'' ''cx87ed'' = ''btp://0x1.icon/cx87ed'' \<and>
   Protocol ''btp://0x1.icon/cx87ed'' = ''btp'' \<and>
   NetworkID ''btp://0x1.icon/cx87ed'' = ''0x1'' \<and>
   ValidateBtpAddress ''btp://0x1.icon/cx87ed'' = None"
proof -
  have mk: "mk_address ''btp'' ''0x1'' ''icon'' ''cx87ed'' = ''btp://0x1.icon/cx87ed''"
    by (simp add: mk_address_def)
  show ?thesis
    using address_parts [of "''btp''" "''0x1''" "''icon''" "''cx87ed''"]
    by (simp add: mk ValidateBtpAddress_def)
qed

end
