(* ===== verification/BTP_Link.thy ===== *)
theory BTP_Link
  imports BTP_Types
begin

text \<open>
  The relay link (src/common/link/link.go): it collects the block updates and proofs a receiver
  builds into relay messages, sends them through a sender, and reacts to receive statuses and
  to relay results. The receiver and the sender are interfaces (src/common/link/type.go,
  src/common/types/type.go), here two records of functions. Loops of the code that have no
  bound of their own take fuel.
\<close>

section \<open>Interfaces\<close>

datatype messageItemType = TypeBlockUpdate | TypeBlockProof | TypeMessageProof

datatype relayState = INIT | RUNNING | PENDING

record receiveStatus =
  rs_Height :: int
  rs_Seq :: int

text \<open>
  The methods of a relay message item and of the receiver that builds such items. An interface
  result that may be nil is an option.
\<close>

record 'i receiver =
  r_Type :: "'i \<Rightarrow> messageItemType"
  r_Len :: "'i \<Rightarrow> int"
  r_Update :: "'i \<Rightarrow> bmcLinkStatus \<Rightarrow> err option \<times> bmcLinkStatus"
  r_ProofHeight :: "'i \<Rightarrow> int"
  r_Start :: "bmcLinkStatus \<Rightarrow> err option"
  r_BuildBlockUpdate :: "bmcLinkStatus \<Rightarrow> int \<Rightarrow> 'i list result"
  r_BuildBlockProof :: "bmcLinkStatus \<Rightarrow> int \<Rightarrow> 'i option result"
  r_BuildMessageProof :: "bmcLinkStatus \<Rightarrow> int \<Rightarrow> 'i option result"
  r_GetHeightForSeq :: "int \<Rightarrow> int"
  r_BuildRelayMessage :: "'i list \<Rightarrow> bytes result"

record 's sender =
  s_Start :: "'s \<Rightarrow> err option"
  s_GetPreference :: preference
  s_GetStatus :: "'s \<Rightarrow> bmcLinkStatus result \<times> 's"
  s_Relay :: "'s \<Rightarrow> string \<Rightarrow> bytes \<Rightarrow> err option \<times> 's"

section \<open>State\<close>

record 'i relayMessage =
  rm_id :: string
  rm_bls :: bmcLinkStatus
  rm_message :: bytes
  rm_rmis :: "'i list"
  rm_sendingStatus :: bool

text \<open>
  \<open>l_s\<close> is the state of the sender, \<open>l_blsOut\<close> what was sent on \<open>blsChannel\<close>, \<open>l_errOut\<close> what was
  sent on the error channel (oldest first), \<open>l_once\<close> whether \<open>once\<close> has fired.
\<close>

record ('i, 's) link =
  l_rms :: "'i relayMessage list"
  l_rss :: "receiveStatus list"
  l_rmis :: "'i list list"
  l_size :: int
  l_limitSize :: int
  l_src :: string
  l_bls :: bmcLinkStatus
  l_relayState :: relayState
  l_p :: preference
  l_s :: 's
  l_blsOut :: "bmcLinkStatus list"
  l_errOut :: "err list"
  l_once :: bool

type_synonym ('i, 's, 'a) lproc = "(('i, 's) link, err, 'a) proc"

definition zeroBls :: bmcLinkStatus where
  "zeroBls = \<lparr>TxSeq = 0, RxSeq = 0, VHeight = 0, VExtra = []\<rparr>"

definition zeroPreference :: preference where
  "zeroPreference = \<lparr>TxSizeLimit = 0, MarginForLimit = 0, LatestResult = False,
     FilledBlockUpdate = False\<rparr>"

definition NewLink :: "string \<Rightarrow> 's \<Rightarrow> ('i, 's) link" where
  "NewLink src s = \<lparr>l_rms = [], l_rss = [], l_rmis = [[]], l_size = 0, l_limitSize = 0,
     l_src = src, l_bls = zeroBls, l_relayState = INIT, l_p = zeroPreference, l_s = s,
     l_blsOut = [], l_errOut = [], l_once = False\<rparr>"

section \<open>Relay message items\<close>

definition resetRelayMessageItem :: "('i, 's, unit) lproc" where
  "resetRelayMessageItem = modify_p (\<lambda>l. l\<lparr>l_rmis := l_rmis l @ [[]], l_size := 0\<rparr>)"

text \<open>
  Appending to the last item list; the length of the new item is read after it was appended, so
  a nil item panics.
\<close>

definition appendRelayMessageItem :: "'i receiver \<Rightarrow> 'i option \<Rightarrow> ('i, 's, unit) lproc" where
  "appendRelayMessageItem R x = get_p (\<lambda>l.
     if l_rmis l = [] then panic_p
     else (case x of
       None \<Rightarrow> panic_p
     | Some i \<Rightarrow> modify_p (\<lambda>l.
         l\<lparr>l_rmis := butlast (l_rmis l) @ [last (l_rmis l) @ [i]], l_size := l_size l + r_Len R i\<rparr>)))"

definition updateBls :: "'i receiver \<Rightarrow> 'i \<Rightarrow> ('i, 's, unit) lproc" where
  "updateBls R i = get_p (\<lambda>l. case r_Update R i (l_bls l) of
       (None, b) \<Rightarrow> modify_p (\<lambda>l. l\<lparr>l_bls := b\<rparr>)
     | (Some e, b) \<Rightarrow> then_p (modify_p (\<lambda>l. l\<lparr>l_bls := b\<rparr>)) (fail_p e))"

definition isOverLimit :: "('i, 's) link \<Rightarrow> int \<Rightarrow> bool" where
  "isOverLimit l sz \<longleftrightarrow> TxSizeLimit (l_p l) < sz"

section \<open>Relay messages\<close>

definition newRelayMessage :: "('i, 's) link \<Rightarrow> bytes \<Rightarrow> 'i list \<Rightarrow> 'i relayMessage" where
  "newRelayMessage l m rmi =
    \<lparr>rm_id = NetworkID (l_src l) @ ''_'' @ FormatInt16 (VHeight (l_bls l)) @ ''_'' @
        FormatInt16 (RxSeq (l_bls l)),
     rm_bls = \<lparr>TxSeq = TxSeq (l_bls l), RxSeq = RxSeq (l_bls l), VHeight = VHeight (l_bls l),
        VExtra = VExtra (l_bls l)\<rparr>,
     rm_message = m, rm_rmis = rmi, rm_sendingStatus = False\<rparr>"

fun appendRelayMessage_loop :: "'i receiver \<Rightarrow> 'i list list \<Rightarrow> ('i, 's, unit) lproc" where
  "appendRelayMessage_loop R [] = ret_p ()"
| "appendRelayMessage_loop R (rmi # rmis) =
     bind_p (lift_p (r_BuildRelayMessage R rmi)) (\<lambda>m.
     then_p (modify_p (\<lambda>l. l\<lparr>l_rms := l_rms l @ [newRelayMessage l m rmi]\<rparr>))
       (appendRelayMessage_loop R rmis))"

definition appendRelayMessage :: "'i receiver \<Rightarrow> ('i, 's, unit) lproc" where
  "appendRelayMessage R = get_p (\<lambda>l.
     then_p (appendRelayMessage_loop R (l_rmis l))
     (then_p (modify_p (\<lambda>l. l\<lparr>l_rmis := []\<rparr>)) resetRelayMessageItem))"

text \<open>The messages before the current one (\<open>pre\<close>) stay as the loop left them.\<close>

fun sendRelayMessage_loop ::
    "'s sender \<Rightarrow> 'i relayMessage list \<Rightarrow> 'i relayMessage list \<Rightarrow> ('i, 's, unit) lproc" where
  "sendRelayMessage_loop S pre [] = ret_p ()"
| "sendRelayMessage_loop S pre (rm # rest) =
     (if rm_sendingStatus rm = False then
        get_p (\<lambda>l. case s_Relay S (l_s l) (rm_id rm) (rm_message rm) of
          (Some e, s') \<Rightarrow> then_p (modify_p (\<lambda>l. l\<lparr>l_s := s'\<rparr>))
             (if Equals InvalidStateError (Some e)
              then modify_p (\<lambda>l. l\<lparr>l_relayState := PENDING\<rparr>) else fail_p e)
        | (None, s') \<Rightarrow>
            then_p (modify_p (\<lambda>l. l\<lparr>l_s := s',
                l_rms := pre @ rm\<lparr>rm_sendingStatus := True\<rparr> # rest\<rparr>))
              (sendRelayMessage_loop S (pre @ [rm\<lparr>rm_sendingStatus := True\<rparr>]) rest))
      else sendRelayMessage_loop S (pre @ [rm]) rest)"

definition sendRelayMessage :: "'s sender \<Rightarrow> ('i, 's, unit) lproc" where
  "sendRelayMessage S = get_p (\<lambda>l. sendRelayMessage_loop S [] (l_rms l))"

section \<open>Proofs\<close>

definition buildMessageProof :: "'i receiver \<Rightarrow> ('i, 's, 'i option) lproc" where
  "buildMessageProof R = get_p (\<lambda>l.
     bind_p (lift_p (r_BuildMessageProof R (l_bls l) (l_limitSize l - l_size l))) (\<lambda>mp.
       case mp of None \<Rightarrow> ret_p None
       | Some m \<Rightarrow> then_p (updateBls R m) (ret_p (Some m))))"

definition buildBlockProof :: "'i receiver \<Rightarrow> ('i, 's, 'i option) lproc" where
  "buildBlockProof R = get_p (\<lambda>l.
     bind_p (lift_p (r_BuildBlockProof R (l_bls l) (r_GetHeightForSeq R (RxSeq (l_bls l))))) (\<lambda>bf.
       case bf of None \<Rightarrow> ret_p None
       | Some f \<Rightarrow> then_p (updateBls R f) (ret_p (Some f))))"

definition getReceiveStatusForHeight :: "receiveStatus list \<Rightarrow> int \<Rightarrow> receiveStatus option" where
  "getReceiveStatusForHeight rss h = List.find (\<lambda>rs. rs_Height rs = h) rss"

definition lastSeq :: "receiveStatus list \<Rightarrow> int option" where
  "lastSeq rss = (if rss = [] then None else Some (rs_Seq (last rss)))"

text \<open>The sequence number \<open>buildProof\<close> works towards; \<open>None\<close> is the index panic on empty \<open>rss\<close>.\<close>

definition targetSeq :: "('i, 's) link \<Rightarrow> 'i option \<Rightarrow> int option" where
  "targetSeq l bu = (case bu of
      Some b \<Rightarrow> (case getReceiveStatusForHeight (l_rss l) (VHeight (l_bls l)) of
          None \<Rightarrow> lastSeq (l_rss l)
        | Some rs \<Rightarrow> Some (rs_Seq rs))
    | None \<Rightarrow> lastSeq (l_rss l))"

definition emptyProof :: "'i receiver \<Rightarrow> 'i option \<Rightarrow> bool" where
  "emptyProof R mp \<longleftrightarrow> (case mp of None \<Rightarrow> True | Some m \<Rightarrow> r_Len R m = 0)"

definition needsBlockProof :: "'i receiver \<Rightarrow> 'i option \<Rightarrow> bool" where
  "needsBlockProof R bu \<longleftrightarrow> (case bu of None \<Rightarrow> True | Some b \<Rightarrow> r_ProofHeight R b = -1)"

fun buildProof_loop ::
    "'i receiver \<Rightarrow> 'i option \<Rightarrow> int \<Rightarrow> nat \<Rightarrow> int \<Rightarrow> ('i, 's, int) lproc" where
  "buildProof_loop R bu seq 0 mpLen = lift_p OutOfFuel"
| "buildProof_loop R bu seq (Suc n) mpLen = get_p (\<lambda>l.
     if seq \<le> RxSeq (l_bls l) then ret_p mpLen
     else bind_p (buildMessageProof R) (\<lambda>mp.
       if emptyProof R mp then
         get_p (\<lambda>l. if l_rmis l \<noteq> []
           then then_p (appendRelayMessage R) (buildProof_loop R bu seq n mpLen)
           else ret_p 0)
       else
         then_p (get_p (\<lambda>l.
             if isOverLimit l (l_size l)
             then then_p (appendRelayMessage R) (bind_p (buildBlockProof R) (appendRelayMessageItem R))
             else if needsBlockProof R bu
             then bind_p (buildBlockProof R) (appendRelayMessageItem R)
             else ret_p ()))
         (then_p (appendRelayMessageItem R mp)
           (buildProof_loop R bu seq n (mpLen + r_Len R (the mp))))))"

definition buildProof :: "'i receiver \<Rightarrow> nat \<Rightarrow> 'i option \<Rightarrow> ('i, 's, int) lproc" where
  "buildProof R fuel bu = get_p (\<lambda>l. case targetSeq l bu of
      None \<Rightarrow> panic_p
    | Some seq \<Rightarrow> buildProof_loop R bu seq fuel 0)"

section \<open>Block updates\<close>

fun buildBlockUpdates :: "'i receiver \<Rightarrow> nat \<Rightarrow> ('i, 's, 'i list) lproc" where
  "buildBlockUpdates R 0 = lift_p OutOfFuel"
| "buildBlockUpdates R (Suc n) = get_p (\<lambda>l.
     bind_p (lift_p (r_BuildBlockUpdate R (l_bls l) (l_limitSize l - l_size l))) (\<lambda>bus.
       if bus \<noteq> [] then ret_p bus else buildBlockUpdates R n))"

fun buildRelayMessage_loop :: "'i receiver \<Rightarrow> nat \<Rightarrow> 'i list \<Rightarrow> ('i, 's, unit) lproc" where
  "buildRelayMessage_loop R fuel [] = ret_p ()"
| "buildRelayMessage_loop R fuel (bu # bus) =
     then_p (appendRelayMessageItem R (Some bu))
     (then_p (updateBls R bu)
     (bind_p (buildProof R fuel (Some bu)) (\<lambda>mpLen.
       then_p (get_p (\<lambda>l.
         if mpLen = 0 then
           (if FilledBlockUpdate (l_p l)
            then (if isOverLimit l (l_size l) then appendRelayMessage R else ret_p ())
            else appendRelayMessage R)
         else appendRelayMessage R))
       (buildRelayMessage_loop R fuel bus))))"

definition buildRelayMessage :: "'i receiver \<Rightarrow> nat \<Rightarrow> ('i, 's, unit) lproc" where
  "buildRelayMessage R fuel =
     then_p (get_p (\<lambda>l. if l_rmis l = [] then resetRelayMessageItem else ret_p ()))
     (bind_p (buildBlockUpdates R fuel) (buildRelayMessage_loop R fuel))"

section \<open>Relaying\<close>

text \<open>The loop guard of \<open>handleRelayMessage\<close>: the link status is behind the last receive status.\<close>

definition behind :: "('i, 's) link \<Rightarrow> bool" where
  "behind l \<longleftrightarrow> l_rss l \<noteq> [] \<and>
     (VHeight (l_bls l) < rs_Height (last (l_rss l)) \<or> RxSeq (l_bls l) < rs_Seq (last (l_rss l)))"

fun handleRelayMessage_loop :: "'i receiver \<Rightarrow> 's sender \<Rightarrow> nat \<Rightarrow> nat \<Rightarrow> ('i, 's, unit) lproc" where
  "handleRelayMessage_loop R S fuel 0 = lift_p OutOfFuel"
| "handleRelayMessage_loop R S fuel (Suc n) = get_p (\<lambda>l.
     if l_relayState l \<noteq> PENDING \<and> behind l then
       then_p (if VHeight (l_bls l) < rs_Height (last (l_rss l)) then buildRelayMessage R fuel
               else if RxSeq (l_bls l) < rs_Seq (last (l_rss l))
               then bind_p (buildProof R fuel None) (\<lambda>_. appendRelayMessage R)
               else ret_p ())
       (then_p (sendRelayMessage S)
       (then_p (modify_p (\<lambda>l. if l_relayState l = INIT then l\<lparr>l_relayState := PENDING\<rparr> else l))
         (handleRelayMessage_loop R S fuel n)))
     else ret_p ())"

definition handleRelayMessage :: "'i receiver \<Rightarrow> 's sender \<Rightarrow> nat \<Rightarrow> ('i, 's, unit) lproc" where
  "handleRelayMessage R S fuel = get_p (\<lambda>l.
     if l_relayState l \<noteq> PENDING
     then then_p (sendRelayMessage S) (handleRelayMessage_loop R S fuel fuel)
     else ret_p ())"

fun handleUndelivered_loop :: "'i receiver \<Rightarrow> nat \<Rightarrow> int \<Rightarrow> nat \<Rightarrow> ('i, 's, unit) lproc" where
  "handleUndelivered_loop R fuel seq 0 = lift_p OutOfFuel"
| "handleUndelivered_loop R fuel seq (Suc n) = get_p (\<lambda>l.
     if RxSeq (l_bls l) < seq
     then bind_p (buildProof R fuel None) (\<lambda>_. handleUndelivered_loop R fuel seq n)
     else ret_p ())"

definition handleUndeliveredRelayMessage :: "'i receiver \<Rightarrow> nat \<Rightarrow> ('i, 's, unit) lproc" where
  "handleUndeliveredRelayMessage R fuel = get_p (\<lambda>l.
     case getReceiveStatusForHeight (l_rss l) (VHeight (l_bls l)) of
       None \<Rightarrow> ret_p ()
     | Some rs \<Rightarrow> then_p (handleUndelivered_loop R fuel (rs_Seq rs) fuel)
         (get_p (\<lambda>l. if l_size l > 0 then appendRelayMessage R else ret_p ())))"

section \<open>Results\<close>

definition removeReceiveStatus :: "bmcLinkStatus \<Rightarrow> ('i, 's, unit) lproc" where
  "removeReceiveStatus b = modify_p (\<lambda>l. l\<lparr>l_rss :=
     drop_through (\<lambda>rs. rs_Height rs \<le> VHeight b \<and> rs_Seq rs \<le> RxSeq b) (l_rss l)\<rparr>)"

definition getRelayMessageForId :: "'i relayMessage list \<Rightarrow> string \<Rightarrow> 'i relayMessage option" where
  "getRelayMessageForId rms i = List.find (\<lambda>rm. rm_id rm = i) rms"

definition getRelayMessage :: "'i relayMessage list \<Rightarrow> bmcLinkStatus \<Rightarrow> 'i relayMessage option" where
  "getRelayMessage rms b = List.find (\<lambda>rm. VHeight b = VHeight (rm_bls rm) \<and> RxSeq b = RxSeq (rm_bls rm)) rms"

text \<open>
  The loop variable \<open>index\<close> shadows the result variable of the same name, which stays 0.
\<close>

definition removeRelayMessage :: "bmcLinkStatus \<Rightarrow> ('i, 's, nat) lproc" where
  "removeRelayMessage b = then_p (modify_p (\<lambda>l. l\<lparr>l_rms :=
     drop_through (\<lambda>rm. VHeight (rm_bls rm) \<le> VHeight b \<and> RxSeq (rm_bls rm) \<le> RxSeq b) (l_rms l)\<rparr>))
     (ret_p 0)"

definition removeAllRelayMessage :: "('i, 's, unit) lproc" where
  "removeAllRelayMessage = modify_p (\<lambda>l. l\<lparr>l_rms := []\<rparr>)"

text \<open>
  The rebuilt proof is assigned to the loop variable only, so the relay message keeps its items.
\<close>

fun updateBlockProof_loop :: "'i receiver \<Rightarrow> bmcLinkStatus \<Rightarrow> 'i list \<Rightarrow> ('i, 's, unit) lproc" where
  "updateBlockProof_loop R b [] = ret_p ()"
| "updateBlockProof_loop R b (rmi # rmis) =
     (if r_Type R rmi = TypeBlockProof
      then bind_p (lift_p (r_BuildBlockProof R b (r_GetHeightForSeq R (RxSeq b))))
        (\<lambda>_. updateBlockProof_loop R b rmis)
      else updateBlockProof_loop R b rmis)"

definition updateBlockProof :: "'i receiver \<Rightarrow> string \<Rightarrow> ('i, 's, unit) lproc" where
  "updateBlockProof R i = get_p (\<lambda>l. case getRelayMessageForId (l_rms l) i of
      None \<Rightarrow> panic_p
    | Some rm \<Rightarrow> updateBlockProof_loop R (rm_bls rm) (rm_rmis rm))"

definition successRelayMessage :: "'i receiver \<Rightarrow> 's sender \<Rightarrow> nat \<Rightarrow> string \<Rightarrow> ('i, 's, unit) lproc" where
  "successRelayMessage R S fuel i = get_p (\<lambda>l. case getRelayMessageForId (l_rms l) i of
      None \<Rightarrow> panic_p
    | Some rm \<Rightarrow>
        bind_p (removeRelayMessage (rm_bls rm)) (\<lambda>_.
        then_p (removeReceiveStatus (rm_bls rm))
        (then_p (modify_p (\<lambda>l. l\<lparr>l_relayState := RUNNING\<rparr>))
        (then_p (handleRelayMessage R S fuel)
          (modify_p (\<lambda>l. l\<lparr>l_blsOut := l_blsOut l @ [rm_bls rm]\<rparr>))))))"

definition updateBMCLinkStatus :: "'s sender \<Rightarrow> ('i, 's, unit) lproc" where
  "updateBMCLinkStatus S = get_p (\<lambda>l. case s_GetStatus S (l_s l) of (r, s') \<Rightarrow>
     then_p (modify_p (\<lambda>l. l\<lparr>l_s := s'\<rparr>))
     (bind_p (lift_p r) (\<lambda>b. modify_p (\<lambda>l. l\<lparr>l_bls := b\<rparr>))))"

definition alreadyVerified :: "'i receiver \<Rightarrow> 's sender \<Rightarrow> nat \<Rightarrow> ('i, 's, unit) lproc" where
  "alreadyVerified R S fuel =
     then_p (updateBMCLinkStatus S)
     (then_p (modify_p (\<lambda>l. l\<lparr>l_relayState := RUNNING\<rparr>))
     (get_p (\<lambda>l. bind_p (removeRelayMessage (l_bls l)) (\<lambda>index.
       if index = 0 then removeAllRelayMessage
       else get_p (\<lambda>l. if index < length (l_rms l)
         then (if rm_sendingStatus (l_rms l ! index) = False then handleRelayMessage R S fuel
               else ret_p ())
         else panic_p)))))"

text \<open>\<open>result\<close>: the reaction to a relay result, by error code.\<close>

definition result :: "'i receiver \<Rightarrow> 's sender \<Rightarrow> nat \<Rightarrow> relayResult \<Rightarrow> ('i, 's, unit) lproc" where
  "result R S fuel rr = get_p (\<lambda>l.
     if getRelayMessageForId (l_rms l) (rr_Id rr) = None then ret_p ()
     else if rr_Err rr = SUCCESS then
       (if LatestResult (l_p l) then successRelayMessage R S fuel (rr_Id rr)
        else if rr_Finalized rr then successRelayMessage R S fuel (rr_Id rr) else ret_p ())
     else if rr_Err rr = BMVUnknown then panic_p
     else if rr_Err rr = BMVNotVerifiable then
       (if \<not> rr_Finalized rr then modify_p (\<lambda>l. l\<lparr>l_relayState := PENDING\<rparr>)
        else then_p (updateBMCLinkStatus S)
          (then_p removeAllRelayMessage
          (then_p (modify_p (\<lambda>l. l\<lparr>l_relayState := RUNNING\<rparr>))
            (handleRelayMessage R S fuel))))
     else if rr_Err rr = BMVAlreadyVerified then
       (if \<not> rr_Finalized rr then modify_p (\<lambda>l. l\<lparr>l_relayState := PENDING\<rparr>)
        else alreadyVerified R S fuel)
     else if rr_Err rr = BMVRevertInvalidBlockWitnessOld then updateBlockProof R (rr_Id rr)
     else panic_p)"

section \<open>Channels\<close>

text \<open>An error of a handler goes to the error channel, and the handler's goroutine goes on.\<close>

definition report :: "('i, 's, unit) lproc \<Rightarrow> ('i, 's, unit) lproc" where
  "report m = (\<lambda>l. case m l of
      (Fail e, l') \<Rightarrow> (Ret (), l'\<lparr>l_errOut := l_errOut l' @ [e]\<rparr>)
    | (r, l') \<Rightarrow> (r, l'))"

definition onReceiveStatus ::
    "'i receiver \<Rightarrow> 's sender \<Rightarrow> nat \<Rightarrow> receiveStatus \<Rightarrow> ('i, 's, unit) lproc" where
  "onReceiveStatus R S fuel rs =
     then_p (modify_p (\<lambda>l. l\<lparr>l_rss := l_rss l @ [rs]\<rparr>))
     (then_p (get_p (\<lambda>l. if l_once l then ret_p ()
        else then_p (modify_p (\<lambda>l. l\<lparr>l_once := True\<rparr>))
          (then_p (report (handleUndeliveredRelayMessage R fuel))
            (report (handleRelayMessage R S fuel)))))
     (get_p (\<lambda>l. if VHeight (l_bls l) < rs_Height rs \<or> RxSeq (l_bls l) < rs_Seq rs
        then report (handleRelayMessage R S fuel) else ret_p ())))"

definition onReceiveError :: "err \<Rightarrow> ('i, 's, unit) lproc" where
  "onReceiveError e = modify_p (\<lambda>l. l\<lparr>l_errOut := l_errOut l @ [e]\<rparr>)"

definition onRelayResult ::
    "'i receiver \<Rightarrow> 's sender \<Rightarrow> nat \<Rightarrow> relayResult \<Rightarrow> ('i, 's, unit) lproc" where
  "onRelayResult R S fuel rr = report (result R S fuel rr)"

definition opt_fail :: "err option \<Rightarrow> ('i, 's, unit) lproc" where
  "opt_fail e = (case e of None \<Rightarrow> ret_p () | Some x \<Rightarrow> fail_p x)"

definition startSenderChannel :: "'s sender \<Rightarrow> ('i, 's, unit) lproc" where
  "startSenderChannel S =
     then_p (modify_p (\<lambda>l. l\<lparr>l_limitSize := TxSizeLimit (l_p l) - MarginForLimit (l_p l)\<rparr>))
       (get_p (\<lambda>l. opt_fail (s_Start S (l_s l))))"

definition Start :: "'i receiver \<Rightarrow> 's sender \<Rightarrow> ('i, 's, unit) lproc" where
  "Start R S =
     then_p (modify_p (\<lambda>l. l\<lparr>l_p := s_GetPreference S\<rparr>))
     (then_p (startSenderChannel S)
     (then_p (updateBMCLinkStatus S)
       (get_p (\<lambda>l. opt_fail (r_Start R (l_bls l))))))"

text \<open>
  A link whose handlers do not overlap: one receive status, receiver error or relay result is handled
  after the other; the receiver keeps collecting blocks meanwhile, so each handler meets some
  receiver among the admissible ones (\<open>Rs\<close>). Between two handlers the goroutines of the sender may change its
  state. A handler that panics or never returns has no successor.

  The code does not ensure this: one goroutine handles receive statuses and another relay results, and of
  all the handlers do only \<open>handleRelayMessage\<close> holds the mutex. The append to \<open>rss\<close>, \<open>handleUndeliveredRelayMessage\<close>,
  and what \<open>result\<close> does to the status, the state and the pending messages before it calls \<open>handleRelayMessage\<close> are not
  protected. What is shown of all these runs is therefore only what the unprotected parts cannot disturb: the open
  items, which they do not touch, and that sent messages precede the others, as they only remove messages from the
  front or all of them. The order of the messages is stated of one handler at a time.
\<close>

inductive link_step ::
    "('i receiver \<Rightarrow> bool) \<Rightarrow> 's sender \<Rightarrow> ('i, 's) link \<Rightarrow> ('i, 's) link \<Rightarrow> bool"
  for Rs :: "'i receiver \<Rightarrow> bool" and S :: "'s sender" where
  step_status: "Rs R \<Longrightarrow> onReceiveStatus R S fuel rs l = (Ret (), l') \<Longrightarrow> link_step Rs S l l'"
| step_error: "onReceiveError e l = (Ret (), l') \<Longrightarrow> link_step Rs S l l'"
| step_result: "Rs R \<Longrightarrow> onRelayResult R S fuel rr l = (Ret (), l') \<Longrightarrow> link_step Rs S l l'"
| step_sender: "link_step Rs S l (l\<lparr>l_s := s\<rparr>)"

inductive link_reachable ::
    "('i receiver \<Rightarrow> bool) \<Rightarrow> 's sender \<Rightarrow> ('i, 's) link \<Rightarrow> bool"
  for Rs :: "'i receiver \<Rightarrow> bool" and S :: "'s sender" where
  reach_start: "Rs R \<Longrightarrow> Start R S (NewLink src s) = (Ret (), l) \<Longrightarrow> link_reachable Rs S l"
| reach_step: "link_reachable Rs S l \<Longrightarrow> link_step Rs S l l' \<Longrightarrow> link_reachable Rs S l'"

inductive_cases link_stepE: "link_step Rs S l l'"

end
