(* ===== verification/Int_Conv.thy ===== *)
theory Int_Conv
  imports BTP_Prelude
begin

unbundle bit_operations_syntax

text \<open>
  Integer conversions of src/common/intconv (bytes.go, string.go): 64-bit words and unbounded
  integers to big-endian byte strings and back, and hexadecimal formatting. \<open>int64\<close> and
  \<open>uint64\<close> values are 64-bit words, \<open>*big.Int\<close> values are integers (nil is \<open>None\<close>).
\<close>

section \<open>Operations\<close>

definition BytesForZero :: bytes where "BytesForZero = [0]"

text \<open>\<open>big.Int\<close>: the number of bits, and the minimal big-endian bytes, of the absolute value.\<close>

fun nat_bitlen :: "nat \<Rightarrow> nat" where
  "nat_bitlen n = (if n = 0 then 0 else Suc (nat_bitlen (n div 2)))"

declare nat_bitlen.simps [simp del]

fun nat_bytes :: "nat \<Rightarrow> bytes" where
  "nat_bytes n = (if n = 0 then [] else nat_bytes (n div 256) @ [word_of_nat (n mod 256)])"

declare nat_bytes.simps [simp del]

definition BigIntToBytes :: "int option \<Rightarrow> bytes" where
  "BigIntToBytes i = (case i of None \<Rightarrow> BytesForZero | Some i \<Rightarrow>
     if i = 0 then BytesForZero
     else if i > 0 then
       (if nat_bitlen (nat i) mod 8 = 0 then 0 # nat_bytes (nat i) else nat_bytes (nat i))
     else let bl = nat_bitlen (nat \<bar>i + 1\<bar>); nb = 2 ^ ((bl + 8) div 8 * 8) + i
       in nat_bytes (nat \<bar>nb\<bar>))"

definition be_nat :: "bytes \<Rightarrow> nat" where
  "be_nat bs = foldl (\<lambda>a b. a * 256 + unat b) 0 bs"

definition BigIntSetBytes :: "bytes \<Rightarrow> int" where
  "BigIntSetBytes bs = (let i = be_nat bs in
     if bs \<noteq> [] \<and> hd bs AND 0x80 \<noteq> 0 then int i - 2 ^ nat_bitlen i else int i)"

text \<open>The loops fill a buffer from its end; \<open>n\<close> is the number of places still free.\<close>

fun Uint64ToBytes_loop :: "nat \<Rightarrow> 64 word \<Rightarrow> bytes \<Rightarrow> bytes" where
  "Uint64ToBytes_loop 0 v bs = bs"
| "Uint64ToBytes_loop (Suc n) v bs =
     (let tv = ucast (v AND 0xff) :: 8 word; v' = drop_bit 8 v
      in if v' = 0 \<and> tv AND 0x80 = 0 then tv # bs else Uint64ToBytes_loop n v' (tv # bs))"

definition Uint64ToBytes :: "64 word \<Rightarrow> bytes" where
  "Uint64ToBytes v = (if v = 0 then BytesForZero else Uint64ToBytes_loop 9 v [])"

fun SizeToBytes_loop :: "nat \<Rightarrow> 64 word \<Rightarrow> bytes \<Rightarrow> bytes" where
  "SizeToBytes_loop 0 v bs = bs"
| "SizeToBytes_loop (Suc n) v bs =
     (let tv = ucast (v AND 0xff) :: 8 word; v' = drop_bit 8 v
      in if v' = 0 then tv # bs else SizeToBytes_loop n v' (tv # bs))"

definition SizeToBytes :: "64 word \<Rightarrow> bytes" where
  "SizeToBytes v = (if v = 0 then BytesForZero else SizeToBytes_loop 8 v [])"

definition be_word :: "bytes \<Rightarrow> 64 word" where
  "be_word bs = foldl (\<lambda>v b. push_bit 8 v OR ucast b) 0 bs"

definition SafeBytesToUint64 :: "bytes \<Rightarrow> 64 word option" where
  "SafeBytesToUint64 bs = (if bs = [] then Some 0
     else if hd bs = 0 then (if length (tl bs) > 8 then None else Some (be_word (tl bs)))
     else if hd bs AND 0x80 \<noteq> 0 then None
     else if length bs > 8 then None else Some (be_word bs))"

definition BytesToUint64 :: "bytes \<Rightarrow> ('e, 64 word) outcome" where
  "BytesToUint64 bs = (case SafeBytesToUint64 bs of Some v \<Rightarrow> Ret v | None \<Rightarrow> Panic)"

definition SafeBytesToSize64 :: "bytes \<Rightarrow> 64 word option" where
  "SafeBytesToSize64 bs = (if bs = [] then Some 0 else if length bs > 8 then None
     else Some (be_word bs))"

text \<open>An \<open>int\<close> of the code is a 64-bit word; sizes are at most \<open>math.MaxInt\<close>.\<close>

definition SafeBytesToSize :: "bytes \<Rightarrow> nat option" where
  "SafeBytesToSize bs = (case SafeBytesToSize64 bs of
     Some s64 \<Rightarrow> if s64 \<le> 0x7fffffffffffffff then Some (unat s64) else None
   | None \<Rightarrow> None)"

definition SafeBytesToInt64 :: "bytes \<Rightarrow> 64 word option" where
  "SafeBytesToInt64 bs = (if bs = [] then Some 0 else if length bs > 8 then None
     else if hd bs AND 0x80 \<noteq> 0
     then Some (- foldl (\<lambda>v b. push_bit 8 v OR ucast (b XOR 0xff)) 0 bs - 1)
     else Some (be_word bs))"

definition BytesToInt64 :: "bytes \<Rightarrow> ('e, 64 word) outcome" where
  "BytesToInt64 bs = (case SafeBytesToInt64 bs of Some v \<Rightarrow> Ret v | None \<Rightarrow> Panic)"

fun Int64ToBytes_loop :: "64 word \<Rightarrow> nat \<Rightarrow> 64 word \<Rightarrow> bytes \<Rightarrow> bytes" where
  "Int64ToBytes_loop target 0 v bs = bs"
| "Int64ToBytes_loop target (Suc n) v bs =
     (let bs' = (ucast (v AND 0xff) :: 8 word) # bs
      in if v AND - 0x80 = target then bs'
         else Int64ToBytes_loop target n (signed_drop_bit 8 v) bs')"

definition Int64ToBytes :: "64 word \<Rightarrow> bytes" where
  "Int64ToBytes v = (if v = 0 then BytesForZero
     else Int64ToBytes_loop (if sint v < 0 then - 0x80 else 0) 8 v [])"

text \<open>Formatting.\<close>

definition hex_EncodeToString :: "bytes \<Rightarrow> string" where
  "hex_EncodeToString bs = concat (map (\<lambda>b. [hex_digit (unat b div 16), hex_digit (unat b mod 16)]) bs)"

definition encodeHexNumber :: "bool \<Rightarrow> bytes \<Rightarrow> string" where
  "encodeHexNumber neg b = (let s = hex_EncodeToString b in
     if s = [] then ''0x0''
     else let s = (if hd s = CHR ''0'' then tl s else s)
       in if neg then ''-0x'' @ s else ''0x'' @ s)"

definition FormatBigInt :: "int \<Rightarrow> string" where
  "FormatBigInt i = encodeHexNumber (i < 0) (nat_bytes (nat \<bar>i\<bar>))"

definition FormatInt :: "64 word \<Rightarrow> string" where
  "FormatInt v = (if sint v < 0 then encodeHexNumber True (SizeToBytes (- v))
     else encodeHexNumber False (SizeToBytes v))"

definition FormatUint :: "64 word \<Rightarrow> string" where
  "FormatUint v = encodeHexNumber False (SizeToBytes v)"

section \<open>Big-endian values\<close>

lemma be_nat_Nil [simp]: "be_nat [] = 0"
  by (simp add: be_nat_def)

lemma be_nat_single [simp]: "be_nat [b] = unat b"
  by (simp add: be_nat_def)

lemma be_nat_snoc [simp]: "be_nat (bs @ [b]) = be_nat bs * 256 + unat b"
  by (simp add: be_nat_def)

lemma be_nat_append: "be_nat (as @ bs) = be_nat as * 256 ^ length bs + be_nat bs"
  by (induction bs rule: rev_induct) (simp_all add: append_assoc [symmetric] algebra_simps del: append_assoc)

lemma be_nat_Cons: "be_nat (b # bs) = unat b * 256 ^ length bs + be_nat bs"
  using be_nat_append [of "[b]" bs] by (simp add: be_nat_def)

lemma unat_byte: "unat (b :: 8 word) < 256"
  using unsigned_less [of b, where ?'a = nat] by simp

lemma be_nat_bound: "be_nat bs < 256 ^ length bs"
proof (induction bs rule: rev_induct)
  case (snoc b bs)
  then have "be_nat bs + 1 \<le> 256 ^ length bs" by simp
  then have "(be_nat bs + 1) * 256 \<le> 256 ^ length bs * 256" by (rule mult_right_mono) simp
  then show ?case using unat_byte [of b] by simp
qed simp

lemma push_or_byte: "push_bit 8 v OR ucast (b :: 8 word) = (v * 256 + ucast b :: 64 word)"
proof -
  have "\<not> (bit (push_bit 8 v) n \<and> bit (ucast b :: 64 word) n)" for n
    using bit_imp_le_length [of b n] by (auto simp: bit_simps)
  then show ?thesis by (simp add: disjunctive_add push_bit_eq_mult mult.commute)
qed

lemma be_word_be_nat: "be_word bs = word_of_nat (be_nat bs)"
  by (induction bs rule: rev_induct)
    (simp_all add: be_word_def push_or_byte)

lemma be_word_xor:
  "foldl (\<lambda>v b. push_bit 8 v OR ucast (b XOR 0xff)) 0 bs = (be_word (map (\<lambda>b. b XOR 0xff) bs) :: 64 word)"
  by (simp add: be_word_def foldl_map)

lemma unat_xor_ff: "unat ((b :: 8 word) XOR 0xff) = 255 - unat b"
proof -
  have m: "(0xff :: 8 word) = - 1" by simp
  have "b XOR 0xff = - 1 - b" unfolding m by (simp add: not_eq_complement)
  then show ?thesis by (simp add: unat_sub unsigned_minus_1_eq_mask mask_eq_exp_minus_1)
qed

lemma be_nat_xor: "be_nat (map (\<lambda>b. b XOR 0xff) bs) + be_nat bs + 1 = 256 ^ length bs"
proof (induction bs rule: rev_induct)
  case (snoc b bs)
  then show ?case using unat_byte [of b] by (simp add: unat_xor_ff algebra_simps)
qed simp

lemma sign_bit: "(b :: 8 word) AND 0x80 \<noteq> 0 \<longleftrightarrow> 128 \<le> unat b"
proof -
  have "b AND 0x80 \<noteq> 0 \<longleftrightarrow> bit b 7"
    by (simp add: bit_iff_and_push_bit_not_eq_0 push_bit_eq_mult)
  moreover have "bit b 7 \<longleftrightarrow> odd (unat b div 128)"
    using bit_unsigned_iff [of b 7, where ?'a = nat] by (simp add: bit_iff_odd)
  moreover have "odd (unat b div 128) \<longleftrightarrow> 128 \<le> unat b"
    using unat_byte [of b] by (cases "128 \<le> unat b") (auto simp: le_div_geq)
  ultimately show ?thesis by blast
qed

text \<open>The two's complement value of a byte string.\<close>

definition twos :: "bytes \<Rightarrow> int" where
  "twos bs = (if bs \<noteq> [] \<and> 128 \<le> unat (hd bs) then int (be_nat bs) - 256 ^ length bs
     else int (be_nat bs))"

lemma twos_Cons:
  "twos (b # r) = (int (unat b) - (if 128 \<le> unat b then 256 else 0)) * 256 ^ length r + int (be_nat r)"
  by (simp add: twos_def be_nat_Cons algebra_simps)

lemma scaled_bounds:
  fixes c q y k :: int
  assumes "- k \<le> c" "c < k" "0 \<le> y" "y < q"
  shows "- (k * q) \<le> c * q + y" and "c * q + y < k * q"
proof -
  have "- k * q \<le> c * q" using assms by (intro mult_right_mono) auto
  then show "- (k * q) \<le> c * q + y" using assms by simp
  have "(c + 1) * q \<le> k * q" using assms by (intro mult_right_mono) auto
  then show "c * q + y < k * q" using assms by (simp add: algebra_simps)
qed

lemma twos_bounds:
  assumes "bs \<noteq> []"
  shows "- (128 * 256 ^ (length bs - 1)) \<le> twos bs" and "twos bs < 128 * 256 ^ (length bs - 1)"
proof -
  obtain b r where bs: "bs = b # r" using assms by (cases bs) auto
  have r: "int (be_nat r) < 256 ^ length r"
    using be_nat_bound [of r] by (metis of_nat_less_iff of_nat_numeral of_nat_power)
  have d: "- 128 \<le> int x - (if 128 \<le> x then 256 else 0)"
    "int x - (if 128 \<le> x then 256 else 0) < 128" if "x < 256" for x
    using that by auto
  from scaled_bounds [OF d [OF unat_byte [of b]] _ r]
  show "- (128 * 256 ^ (length bs - 1)) \<le> twos bs" and "twos bs < 128 * 256 ^ (length bs - 1)"
    unfolding bs twos_Cons by simp_all
qed

lemma SafeBytesToInt64_twos:
  "SafeBytesToInt64 bs = (if length bs \<le> 8 then Some (word_of_int (twos bs)) else None)"
proof (cases "bs \<noteq> [] \<and> 128 \<le> unat (hd bs)")
  case True
  let ?x = "be_nat (map (\<lambda>b. b XOR 0xff) bs)"
  have "- int ?x - 1 = int (be_nat bs) - 256 ^ length bs"
    using arg_cong [OF be_nat_xor [of bs], of int] by simp
  then have "word_of_int (- int ?x - 1) = (word_of_int (twos bs) :: 64 word)"
    using True by (simp add: twos_def)
  then have "- word_of_nat ?x - 1 = (word_of_int (twos bs) :: 64 word)"
    by simp
  with True show ?thesis
    unfolding SafeBytesToInt64_def sign_bit be_word_xor be_word_be_nat by simp
qed (auto simp: SafeBytesToInt64_def twos_def sign_bit be_word_be_nat)

section \<open>Bits and signed values\<close>

lemma and_neg128: "(x :: int) AND - 128 = x div 128 * 128"
proof -
  have "- 128 = NOT (mask 7 :: int)" using minus_exp_eq_not_mask [of 7, where ?'a = int] by simp
  moreover have "x AND NOT (mask 7) = push_bit 7 (drop_bit 7 x)"
    by (rule bit_eqI) (auto simp: bit_simps)
  ultimately show ?thesis by (simp add: push_bit_eq_mult drop_bit_eq_div)
qed

lemma sint_shift: "sint (signed_drop_bit 8 (v :: 64 word)) = sint v div 256"
  by (simp add: sint_signed_drop_bit_eq drop_bit_eq_div)

lemma low_byte: "int (unat (ucast (v AND 0xff) :: 8 word)) = sint (v :: 64 word) mod 256"
proof -
  have m: "v AND 0xff = take_bit 8 v" by (simp add: take_bit_eq_mask mask_eq_exp_minus_1)
  have "uint (ucast (take_bit 8 v) :: 8 word) = take_bit 8 (sint v)"
    by (rule bit_eqI) (auto simp: bit_simps min_def)
  then show ?thesis by (simp add: m take_bit_eq_mod)
qed

lemma low_byte_unat: "unat (ucast (v AND 0xff) :: 8 word) = unat (v :: 64 word) mod 256"
proof -
  have m: "v AND 0xff = take_bit 8 v" by (simp add: take_bit_eq_mask mask_eq_exp_minus_1)
  have "unat (ucast (take_bit 8 v) :: 8 word) = take_bit 8 (unat v)"
    by (rule bit_eqI) (auto simp: bit_simps min_def)
  then show ?thesis by (simp add: m take_bit_eq_mod)
qed

lemma unat_shift: "unat (drop_bit 8 (v :: 64 word)) = unat v div 256"
  by (simp add: drop_bit_eq_div unat_div)

lemma small_pos: "v AND - 0x80 = 0 \<longleftrightarrow> 0 \<le> sint (v :: 64 word) \<and> sint v < 128"
proof -
  have "v AND - 0x80 = 0 \<longleftrightarrow> sint (v AND - 0x80) = sint (0 :: 64 word)"
    by (simp only: word_eq_iff_signed [where ?'a = int])
  moreover have "sint (v AND - 0x80) = sint v div 128 * 128" by (simp add: signed_and_eq and_neg128)
  ultimately show ?thesis by auto
qed

lemma small_neg: "v AND - 0x80 = - 0x80 \<longleftrightarrow> - 128 \<le> sint (v :: 64 word) \<and> sint v < 0"
proof -
  have "v AND - 0x80 = - 0x80 \<longleftrightarrow> sint (v AND - 0x80) = sint (- 0x80 :: 64 word)"
    by (simp only: word_eq_iff_signed [where ?'a = int])
  moreover have "sint (v AND - 0x80) = sint v div 128 * 128" by (simp add: signed_and_eq and_neg128)
  moreover have "sint (- 0x80 :: 64 word) = - 128" by simp
  ultimately show ?thesis by auto
qed

section \<open>Signed encoding\<close>

definition fits :: "nat \<Rightarrow> int \<Rightarrow> bool" where
  "fits n x \<longleftrightarrow> - (128 * 256 ^ (n - 1)) \<le> x \<and> x < 128 * 256 ^ (n - 1)"

lemma fits_div: "0 < n \<Longrightarrow> fits (Suc n) x \<longleftrightarrow> fits n (x div 256)"
proof -
  assume "0 < n"
  then have "256 ^ n = (256 :: int) * 256 ^ (n - 1)" by (metis power_minus_mult mult.commute)
  then show ?thesis by (auto simp: fits_def)
qed

lemma twos_snoc: "bs \<noteq> [] \<Longrightarrow> twos (bs @ [b]) = twos bs * 256 + int (unat b)"
  by (auto simp: twos_def algebra_simps)

lemma signed_digit:
  "int x = s mod 256 \<Longrightarrow> - 128 \<le> s \<Longrightarrow> s < 128 \<Longrightarrow> int x - (if 128 \<le> x then 256 else 0) = s"
proof -
  assume "int x = s mod 256" "- 128 \<le> s" "s < 128"
  moreover from this have "s mod 256 = (if s < 0 then s + 256 else s)" by presburger
  ultimately show ?thesis by (auto split: if_splits)
qed

text \<open>
  The canonical encoding of an integer: a shortest nonempty byte string whose two's complement
  value it is. There is only one.
\<close>

definition canonical :: "int \<Rightarrow> bytes \<Rightarrow> bool" where
  "canonical x bs \<longleftrightarrow> bs \<noteq> [] \<and> twos bs = x \<and> (\<forall>m. 0 < m \<and> m < length bs \<longrightarrow> \<not> fits m x)"

lemma canonical_snoc:
  assumes "canonical (x div 256) ys" and "\<not> fits 1 x" and "int (unat b) = x mod 256"
  shows "canonical x (ys @ [b])"
proof -
  have "\<not> fits m x" if "0 < m" "m < length (ys @ [b])" for m
  proof (cases "m = 1")
    case False
    with that obtain k where "m = Suc k" "0 < k" "k < length ys" by (cases m) auto
    with assms(1) show ?thesis by (simp add: fits_div canonical_def)
  qed (use assms in simp)
  moreover have "twos (ys @ [b]) = x"
    using assms by (simp add: canonical_def twos_snoc del: of_nat_unat)
  ultimately show ?thesis by (auto simp: canonical_def)
qed

lemma Int64ToBytes_loop_spec:
  assumes "target = (if sint v < 0 then - 0x80 else 0)" and "fits n (sint v)" and "0 < n"
  shows "\<exists>ys. Int64ToBytes_loop target n v bs = ys @ bs \<and> length ys \<le> n \<and> canonical (sint v) ys"
  using assms
proof (induction n arbitrary: v bs)
  case (Suc n)
  let ?b = "ucast (v AND 0xff) :: 8 word"
  have b: "int (unat ?b) = sint v mod 256" by (rule low_byte)
  have exit: "v AND - 0x80 = target \<longleftrightarrow> fits 1 (sint v)"
    using Suc.prems(1) small_pos [of v] small_neg [of v] by (auto simp: fits_def)
  show ?case
  proof (cases "fits 1 (sint v)")
    case True
    then have "canonical (sint v) [?b]"
      using signed_digit [OF b] by (auto simp: fits_def twos_Cons canonical_def)
    with True exit show ?thesis by (intro exI [of _ "[?b]"]) auto
  next
    case False
    with Suc.prems(2) have n: "0 < n" by (cases n) auto
    let ?v = "signed_drop_bit 8 v"
    have s: "sint ?v < 0 \<longleftrightarrow> sint v < 0" unfolding sint_shift by presburger
    have f: "fits n (sint ?v)" using Suc.prems(2) n by (simp add: sint_shift fits_div)
    from Suc.IH [of ?v "?b # bs"] Suc.prems(1) s f n obtain ys where
      ys: "Int64ToBytes_loop target n ?v (?b # bs) = ys @ ?b # bs" "length ys \<le> n"
        "canonical (sint ?v) ys" by auto
    from canonical_snoc [OF _ False b, of ys] ys(3) have "canonical (sint v) (ys @ [?b])"
      by (simp add: sint_shift)
    with False exit ys show ?thesis by (intro exI [of _ "ys @ [?b]"]) (auto simp: Let_def)
  qed
qed simp

lemma sint_fits: "fits 8 (sint (v :: 64 word))"
  using sint_greater_eq [of v] sint_less [of v] by (simp add: fits_def)

lemma canonicalD: "canonical x bs \<Longrightarrow> bs \<noteq> []" "canonical x bs \<Longrightarrow> twos bs = x"
  by (simp_all add: canonical_def)

lemma twos_fits: "bs \<noteq> [] \<Longrightarrow> fits (length bs) (twos bs)"
  using twos_bounds by (simp add: fits_def)

lemma canonical_shortest: "canonical x bs \<Longrightarrow> cs \<noteq> [] \<Longrightarrow> twos cs = x \<Longrightarrow> length bs \<le> length cs"
  using twos_fits [of cs] by (auto simp: canonical_def not_less [symmetric])

lemma be_nat_inj: "length as = length bs \<Longrightarrow> be_nat as = be_nat bs \<Longrightarrow> as = bs"
proof (induction as arbitrary: bs rule: rev_induct)
  case (snoc a as)
  then obtain b cs where bs: "bs = cs @ [b]" by (cases bs rule: rev_cases) auto
  have "(be_nat as * 256 + unat a) mod 256 = (be_nat cs * 256 + unat b) mod 256"
    "(be_nat as * 256 + unat a) div 256 = (be_nat cs * 256 + unat b) div 256"
    using snoc.prems(2) by (simp_all add: bs)
  then have "unat a = unat b" "be_nat as = be_nat cs"
    using unat_byte [of a] unat_byte [of b] by simp_all
  with snoc bs show ?case by (auto intro: unsigned_word_eqI)
qed simp

lemma twos_mod: "twos bs mod 256 ^ length bs = int (be_nat bs)"
proof -
  have "int (be_nat bs) < 256 ^ length bs"
    using be_nat_bound [of bs] by (metis of_nat_less_iff of_nat_numeral of_nat_power)
  then show ?thesis by (auto simp: twos_def)
qed

lemma canonical_unique: "canonical x as \<Longrightarrow> canonical x bs \<Longrightarrow> as = bs"
proof -
  assume a: "canonical x as" and b: "canonical x bs"
  then have l: "length as = length bs"
    using canonical_shortest canonicalD by (meson order_antisym)
  have "int (be_nat as) = int (be_nat bs)"
    using twos_mod [of as] twos_mod [of bs] a b l by (simp add: canonical_def)
  then show ?thesis using l be_nat_inj by simp
qed

lemma canonical_Int64ToBytes: "canonical (sint v) (Int64ToBytes v)" "length (Int64ToBytes v) \<le> 8"
proof -
  have "canonical (sint v) (Int64ToBytes v) \<and> length (Int64ToBytes v) \<le> 8"
  proof (cases "v = 0")
    case False
    then show ?thesis
      using Int64ToBytes_loop_spec [OF refl sint_fits, of v "[]"]
      by (auto simp: Int64ToBytes_def)
  qed (simp add: Int64ToBytes_def BytesForZero_def canonical_def twos_def be_nat_def)
  then show "canonical (sint v) (Int64ToBytes v)" "length (Int64ToBytes v) \<le> 8" by auto
qed

section \<open>Unsigned encodings\<close>

lemma nat_bytes_0 [simp]: "nat_bytes 0 = []" "nat_bytes n = [] \<longleftrightarrow> n = 0"
  by (auto simp: nat_bytes.simps [of 0] nat_bytes.simps [of n])

lemma be_nat_nat_bytes [simp]: "be_nat (nat_bytes n) = n"
proof (induction n rule: nat_bytes.induct)
  case (1 n)
  then show ?case by (cases "n = 0") (simp_all add: nat_bytes.simps [of n] unat_of_nat)
qed

lemma length_nat_bytes: "length (nat_bytes n) \<le> k \<longleftrightarrow> n < 256 ^ k"
proof (induction n arbitrary: k rule: nat_bytes.induct)
  case (1 n)
  show ?case
  proof (cases "n = 0")
    case False
    with 1 show ?thesis
      by (cases k) (simp_all add: nat_bytes.simps [of n] div_less_iff_less_mult mult.commute)
  qed (simp add: nat_bytes.simps)
qed

lemma SizeToBytes_loop_nat_bytes:
  "v \<noteq> 0 \<Longrightarrow> unat v < 256 ^ n \<Longrightarrow> SizeToBytes_loop n v bs = nat_bytes (unat v) @ bs"
proof (induction n arbitrary: v bs)
  case (Suc n)
  let ?b = "ucast (v AND 0xff) :: 8 word"
  have b: "?b = word_of_nat (unat v mod 256)" by (metis low_byte_unat of_nat_unat word_of_nat_eq_iff unsigned_of_nat ucast_id of_int_of_nat_eq of_int_uint)
  have v0: "unat v \<noteq> 0" using Suc.prems(1) by (simp add: unat_eq_0)
  have z: "drop_bit 8 v = 0 \<longleftrightarrow> unat v div 256 = 0" by (metis unat_eq_0 unat_shift)
  show ?case
  proof (cases "drop_bit 8 v = 0")
    case True
    with z have "nat_bytes (unat v div 256) = []" by simp
    with True v0 b show ?thesis by (simp add: nat_bytes.simps [of "unat v"] Let_def)
  next
    case False
    moreover have "unat (drop_bit 8 v) < 256 ^ n" using Suc.prems(2) by (simp add: unat_shift div_less_iff_less_mult mult.commute)
    ultimately have "SizeToBytes_loop n (drop_bit 8 v) (?b # bs) = nat_bytes (unat v div 256) @ ?b # bs"
      using Suc.IH [of "drop_bit 8 v" "?b # bs"] by (simp only: unat_shift simp_thms)
    with False v0 b show ?thesis by (simp add: nat_bytes.simps [of "unat v"] Let_def)
  qed
qed (simp add: unat_eq_0)

lemma SizeToBytes_nat_bytes: "SizeToBytes v = (if v = 0 then [0] else nat_bytes (unat v))"
  using SizeToBytes_loop_nat_bytes [of v 8 "[]"] unsigned_less [of v, where ?'a = nat]
  by (simp add: SizeToBytes_def BytesForZero_def)

lemma Uint64ToBytes_loop_spec:
  assumes "fits n (int (unat v))" and "0 < n"
  shows "\<exists>ys. Uint64ToBytes_loop n v bs = ys @ bs \<and> length ys \<le> n \<and> canonical (int (unat v)) ys"
  using assms
proof (induction n arbitrary: v bs)
  case (Suc n)
  let ?b = "ucast (v AND 0xff) :: 8 word" and ?v = "drop_bit 8 v"
  have b: "unat ?b = unat v mod 256" by (rule low_byte_unat)
  have u: "int (unat ?v) = int (unat v) div 256" unfolding unat_shift by (simp add: of_nat_div)
  have "?v = 0 \<longleftrightarrow> unat v < 256" by (metis div_eq_0_iff unat_eq_0 unat_shift zero_neq_numeral)
  moreover have "?b AND 0x80 = 0 \<longleftrightarrow> unat v mod 256 < 128" using sign_bit [of ?b] b by auto
  ultimately have exit: "?v = 0 \<and> ?b AND 0x80 = 0 \<longleftrightarrow> unat v < 128" by auto
  show ?case
  proof (cases "unat v < 128")
    case True
    then have "canonical (int (unat v)) [?b]"
      using b by (simp add: canonical_def twos_def be_nat_def del: of_nat_unat)
    with True exit show ?thesis by (intro exI [of _ "[?b]"]) (simp add: Let_def)
  next
    case False
    then have nf: "\<not> fits 1 (int (unat v))" by (simp add: fits_def del: of_nat_unat)
    with Suc.prems(1) have n: "0 < n" by (cases n) auto
    have "fits n (int (unat ?v))" using Suc.prems(1) n by (simp only: u fits_div)
    from Suc.IH [OF this n, of "?b # bs"] obtain ys where
      ys: "Uint64ToBytes_loop n ?v (?b # bs) = ys @ ?b # bs" "length ys \<le> n" "canonical (int (unat ?v)) ys" by auto
    have "canonical (int (unat v)) (ys @ [?b])"
      using canonical_snoc [OF _ nf, of ys ?b] ys(3) b unfolding u by (metis of_nat_mod of_nat_numeral)
    with False exit ys show ?thesis by (intro exI [of _ "ys @ [?b]"]) (auto simp: Let_def)
  qed
qed simp

lemma canonical_Uint64ToBytes: "canonical (uint v) (Uint64ToBytes v)" "length (Uint64ToBytes v) \<le> 9"
proof -
  have "fits 9 (int (unat v))"
    using unsigned_less [of v, where ?'a = int] order_trans [of "- (128 * 256 ^ 8)" 0 "uint v"]
    by (simp add: fits_def)
  from Uint64ToBytes_loop_spec [OF this, of "[]"]
  have "canonical (uint v) (Uint64ToBytes v) \<and> length (Uint64ToBytes v) \<le> 9"
    by (auto simp: Uint64ToBytes_def BytesForZero_def canonical_def twos_def be_nat_def)
  then show "canonical (uint v) (Uint64ToBytes v)" "length (Uint64ToBytes v) \<le> 9" by auto
qed

section \<open>Unbounded integers\<close>

lemma nat_bitlen_le: "nat_bitlen n \<le> k \<longleftrightarrow> n < 2 ^ k"
proof (induction n arbitrary: k rule: nat_bitlen.induct)
  case (1 n)
  show ?case
  proof (cases "n = 0")
    case False
    with 1 show ?thesis
      by (cases k) (simp_all add: nat_bitlen.simps [of n] div_less_iff_less_mult mult.commute)
  qed (simp add: nat_bitlen.simps)
qed

lemma nat_bytes_hd: "n \<noteq> 0 \<Longrightarrow> hd (nat_bytes n) \<noteq> 0"
proof (induction n rule: nat_bytes.induct)
  case (1 n)
  show ?case
  proof (cases "n div 256 = 0")
    case True
    then have "n < 256" by simp
    then have "unat (word_of_nat (n mod 256) :: 8 word) = n" by (simp add: unat_of_nat)
    with 1(2) have "word_of_nat (n mod 256) \<noteq> (0 :: 8 word)" by (metis unsigned_0)
    with True 1(2) show ?thesis by (simp add: nat_bytes.simps [of n])
  next
    case False
    with 1 show ?thesis by (simp add: nat_bytes.simps [of n])
  qed
qed

text \<open>The top bit of a byte string of given length.\<close>

lemma top_bit: "bs \<noteq> [] \<Longrightarrow> 128 \<le> unat (hd bs) \<longleftrightarrow> 128 * 256 ^ (length bs - 1) \<le> be_nat bs"
proof -
  assume "bs \<noteq> []"
  then obtain b r where bs: "bs = b # r" by (cases bs) auto
  have r: "be_nat r < 256 ^ length r" by (rule be_nat_bound)
  have "128 * 256 ^ length r \<le> unat b * 256 ^ length r + be_nat r \<longleftrightarrow> 128 \<le> unat b"
  proof
    assume "128 \<le> unat b"
    then show "128 * 256 ^ length r \<le> unat b * 256 ^ length r + be_nat r"
      by (simp add: trans_le_add1)
  next
    assume *: "128 * 256 ^ length r \<le> unat b * 256 ^ length r + be_nat r"
    show "128 \<le> unat b"
    proof (rule ccontr)
      assume "\<not> 128 \<le> unat b"
      then have "unat b * 256 ^ length r \<le> 127 * 256 ^ length r" by (intro mult_right_mono) auto
      with * r show False by linarith
    qed
  qed
  then show ?thesis by (simp add: bs be_nat_Cons)
qed

lemma BigIntSetBytes_twos: "BigIntSetBytes bs = twos bs"
proof (cases "bs \<noteq> [] \<and> 128 \<le> unat (hd bs)")
  case True
  have "(256 :: nat) ^ length bs = 2 ^ (8 * length bs)" by (simp add: power_mult)
  then have "nat_bitlen (be_nat bs) \<le> 8 * length bs"
    using be_nat_bound [of bs] by (simp add: nat_bitlen_le)
  moreover have "\<not> nat_bitlen (be_nat bs) \<le> 8 * length bs - 1"
  proof -
    obtain k where k: "length bs = Suc k" using True by (cases bs) auto
    have "8 * Suc k - 1 = 7 + 8 * k" by simp
    then have "(2 :: nat) ^ (8 * length bs - 1) = 128 * 256 ^ k"
      unfolding k by (simp add: power_add power_mult)
    then show ?thesis using True top_bit [of bs] by (simp add: nat_bitlen_le k)
  qed
  ultimately have "nat_bitlen (be_nat bs) = 8 * length bs" by simp
  with True show ?thesis by (simp add: BigIntSetBytes_def twos_def sign_bit power_mult)
qed (auto simp: BigIntSetBytes_def twos_def sign_bit)

text \<open>The number of bits a two's complement encoding needs besides the sign.\<close>

definition magnitude :: "int \<Rightarrow> nat" where
  "magnitude x = nat (if 0 \<le> x then x else - x - 1)"

lemma pow_bytes: "0 < m \<Longrightarrow> (2 :: nat) ^ (8 * m - 1) = 128 * 256 ^ (m - 1)"
proof -
  assume "0 < m"
  then obtain k where m: "m = Suc k" by (cases m) auto
  have "8 * Suc k - 1 = 7 + 8 * k" by simp
  then show ?thesis unfolding m by (simp add: power_add power_mult)
qed

lemma fits_bitlen: "0 < m \<Longrightarrow> fits m x \<longleftrightarrow> nat_bitlen (magnitude x) < 8 * m"
proof -
  assume m: "0 < m"
  have "nat_bitlen (magnitude x) < 8 * m \<longleftrightarrow> magnitude x < 128 * 256 ^ (m - 1)"
    using m nat_bitlen_le [of "magnitude x" "8 * m - 1"] unfolding pow_bytes [OF m] by linarith
  moreover have "magnitude x < 128 * 256 ^ (m - 1) \<longleftrightarrow> int (magnitude x) < 128 * 256 ^ (m - 1)"
    by (metis of_nat_less_iff of_nat_mult of_nat_numeral of_nat_power)
  moreover have "int (magnitude x) < 128 * 256 ^ (m - 1) \<longleftrightarrow> fits m x"
  proof -
    have "0 \<le> (256 :: int) ^ (m - 1)" by simp
    then show ?thesis unfolding magnitude_def fits_def by (cases "0 \<le> x") (simp, linarith)+
  qed
  ultimately show ?thesis by blast
qed

lemma canonicalI:
  "bs \<noteq> [] \<Longrightarrow> twos bs = x \<Longrightarrow> length bs = nat_bitlen (magnitude x) div 8 + 1 \<Longrightarrow> canonical x bs"
  by (auto simp: canonical_def fits_bitlen)

lemma length_nat_bytes_bitlen: "length (nat_bytes n) = (nat_bitlen n + 7) div 8"
proof -
  have *: "length (nat_bytes n) \<le> k \<longleftrightarrow> nat_bitlen n \<le> 8 * k" for k
    by (simp add: length_nat_bytes nat_bitlen_le power_mult)
  have "length (nat_bytes n) \<le> (nat_bitlen n + 7) div 8" unfolding * by simp
  moreover have "nat_bitlen n \<le> 8 * length (nat_bytes n)" using * by blast
  ultimately show ?thesis by linarith
qed

lemma twos_nat_bytes: "twos (nat_bytes n) = (if nat_bitlen n mod 8 = 0 then int n - 256 ^ length (nat_bytes n) else int n)"
  if "n \<noteq> 0"
proof -
  let ?L = "length (nat_bytes n)"
  have L: "0 < ?L" using that by simp
  have "128 \<le> unat (hd (nat_bytes n)) \<longleftrightarrow> \<not> nat_bitlen n \<le> 8 * ?L - 1"
    using that top_bit [of "nat_bytes n"] unfolding nat_bitlen_le pow_bytes [OF L] by auto
  also have "\<dots> \<longleftrightarrow> nat_bitlen n mod 8 = 0"
    using L unfolding length_nat_bytes_bitlen by presburger
  finally show ?thesis using that by (simp add: twos_def)
qed

lemma canonical_BigIntToBytes: "canonical i (BigIntToBytes (Some i))"
proof -
  consider "i = 0" | "i > 0" | "i < 0" by linarith
  then show ?thesis
  proof cases
    case 1
    then show ?thesis
      by (simp add: BigIntToBytes_def BytesForZero_def canonical_def twos_def be_nat_def)
  next
    case 2
    let ?n = "nat i"
    have n: "?n \<noteq> 0" and m: "magnitude i = ?n" using 2 by (simp_all add: magnitude_def)
    show ?thesis
    proof (rule canonicalI)
      show "twos (BigIntToBytes (Some i)) = i"
        using 2 twos_nat_bytes [OF n] by (simp add: BigIntToBytes_def twos_Cons)
      show "length (BigIntToBytes (Some i)) = nat_bitlen (magnitude i) div 8 + 1"
        using 2 by (simp add: BigIntToBytes_def length_nat_bytes_bitlen m) presburger
    qed (use 2 n in \<open>auto simp: BigIntToBytes_def\<close>)
  next
    case 3
    define k where "k = nat_bitlen (magnitude i) div 8 + 1"
    let ?n = "nat (256 ^ k + i)"
    have k: "0 < k" "nat_bitlen (magnitude i) < 8 * k" unfolding k_def by presburger+
    then have f: "- (128 * 256 ^ (k - 1)) \<le> i" using fits_bitlen [of k i] by (simp add: fits_def)
    have p: "(256 :: int) ^ k = 256 * 256 ^ (k - 1)" using k(1) by (cases k) auto
    have P: "0 < (256 :: int) ^ (k - 1)" by simp
    have lo: "128 * 256 ^ (k - 1) \<le> 256 ^ k + i" using f P unfolding p by linarith
    then have n: "int ?n = 256 ^ k + i" using P by linarith
    have up: "int ?n < int (256 ^ k)" using 3 n by simp
    have "int (128 * 256 ^ (k - 1)) \<le> int ?n" using lo n by simp
    then have lo': "128 * 256 ^ (k - 1) \<le> ?n" by (simp only: of_nat_le_iff)
    then have n0: "?n \<noteq> 0" by (metis le_zero_eq mult_eq_0_iff power_not_zero zero_neq_numeral)
    have b: "nat_bitlen ?n = 8 * k"
      using up lo' k(1) nat_bitlen_le [of ?n "8 * k"] nat_bitlen_le [of ?n "8 * k - 1"]
      unfolding pow_bytes [OF k(1)] of_nat_less_iff power_mult by simp
    have e: "BigIntToBytes (Some i) = nat_bytes ?n"
    proof -
      have "nat \<bar>i + 1\<bar> = magnitude i" using 3 by (simp add: magnitude_def)
      moreover have "(nat_bitlen (magnitude i) + 8) div 8 * 8 = 8 * k" unfolding k_def by presburger
      moreover have "(2 :: int) ^ (k * 8) = 256 ^ k" by (subst mult.commute) (simp add: power_mult)
      moreover have "\<bar>256 ^ k + i\<bar> = 256 ^ k + i" using n by linarith
      ultimately show ?thesis using 3 by (simp add: BigIntToBytes_def Let_def)
    qed
    show ?thesis unfolding e
    proof (rule canonicalI)
      show "twos (nat_bytes ?n) = i" using twos_nat_bytes [OF n0] b n by (simp add: length_nat_bytes_bitlen)
      show "length (nat_bytes ?n) = nat_bitlen (magnitude i) div 8 + 1"
        unfolding length_nat_bytes_bitlen b by (simp add: k_def)
    qed (use n0 in simp)
  qed
qed

section \<open>Decoding\<close>

lemma SafeBytesToUint64_canonical:
  assumes "canonical x bs" and "0 \<le> x" and "x < 2 ^ 64"
  shows "SafeBytesToUint64 bs = Some (word_of_int x)"
proof -
  have ne: "bs \<noteq> []" and t: "twos bs = x" using assms(1) by (auto dest: canonicalD)
  have "\<not> 128 \<le> unat (hd bs)"
  proof
    assume "128 \<le> unat (hd bs)"
    then have "int (be_nat bs) - 256 ^ length bs = x" using t ne by (simp add: twos_def)
    moreover have "int (be_nat bs) < 256 ^ length bs"
      using be_nat_bound [of bs] by (metis of_nat_less_iff of_nat_numeral of_nat_power)
    ultimately show False using assms(2) by linarith
  qed
  then have x: "x = int (be_nat bs)" and h: "hd bs AND 0x80 = 0" using t sign_bit by (auto simp: twos_def)
  have f: "fits 9 x" using assms(2,3) by (simp add: fits_def)
  have L: "length bs \<le> 9"
    using assms(1) f by (auto simp: canonical_def not_less [symmetric])
  have "be_nat (tl bs) = be_nat bs" if "hd bs = 0"
    using that ne by (cases bs) (auto simp: be_nat_Cons)
  moreover have "length bs \<le> 8" if "hd bs \<noteq> 0"
  proof (rule ccontr)
    assume "\<not> length bs \<le> 8"
    with L have "length bs = 9" by simp
    with ne obtain b r where bs: "bs = b # r" "length r = 8" by (cases bs) auto
    with that have "1 * 256 ^ 8 \<le> unat b * 256 ^ 8"
      by (intro mult_right_mono) (auto simp: Suc_le_eq unat_gt_0)
    then have "2 ^ 64 \<le> be_nat bs" by (simp add: bs be_nat_Cons)
    then have "int (2 ^ 64) \<le> x" unfolding x of_nat_le_iff .
    with assms(3) show False by simp
  qed
  ultimately show ?thesis
    using ne L h by (cases "hd bs = 0") (auto simp: SafeBytesToUint64_def be_word_be_nat x)
qed

lemma SafeBytesToSize_SizeToBytes:
  "unat v \<le> 0x7fffffffffffffff \<Longrightarrow> SafeBytesToSize (SizeToBytes v) = Some (unat v)"
proof -
  assume v: "unat v \<le> 0x7fffffffffffffff"
  have "length (SizeToBytes v) \<le> 8"
    using unsigned_less [of v, where ?'a = nat] by (simp add: SizeToBytes_nat_bytes length_nat_bytes)
  moreover have "be_word (SizeToBytes v) = v" "SizeToBytes v \<noteq> []"
    by (auto simp: SizeToBytes_nat_bytes be_word_be_nat unat_eq_0)
  moreover have "v \<le> 0x7fffffffffffffff" using v by (simp add: word_le_nat_alt)
  ultimately show ?thesis by (simp add: SafeBytesToSize_def SafeBytesToSize64_def)
qed

section \<open>Properties\<close>

text \<open>
  The three integer encoders write the shortest two's complement encoding: \<open>Int64ToBytes\<close> and
  \<open>Uint64ToBytes\<close> agree with \<open>BigIntToBytes\<close> on the signed and on the unsigned value of the word,
  and no nonempty byte string shorter than the one \<open>BigIntToBytes\<close> returns has the same value
  under \<open>BigIntSetBytes\<close>.
\<close>

theorem encoders_agree:
  "Int64ToBytes v = BigIntToBytes (Some (sint v)) \<and> Uint64ToBytes v = BigIntToBytes (Some (uint v)) \<and>
   (bs \<noteq> [] \<and> BigIntSetBytes bs = i \<longrightarrow> length (BigIntToBytes (Some i)) \<le> length bs)"
proof (intro conjI impI)
  show "Int64ToBytes v = BigIntToBytes (Some (sint v))"
    by (rule canonical_unique [OF canonical_Int64ToBytes(1) canonical_BigIntToBytes])
  show "Uint64ToBytes v = BigIntToBytes (Some (uint v))"
    by (rule canonical_unique [OF canonical_Uint64ToBytes(1) canonical_BigIntToBytes])
  assume "bs \<noteq> [] \<and> BigIntSetBytes bs = i"
  then show "length (BigIntToBytes (Some i)) \<le> length bs"
    using canonical_shortest [OF canonical_BigIntToBytes] by (simp add: BigIntSetBytes_twos)
qed

theorem encoders_agree_witness:
  "Int64ToBytes (- 129) = BigIntToBytes (Some (sint (- 129 :: 64 word))) \<and>
   length (BigIntToBytes (Some (- 129))) \<le> length [0xff, 0xff, 0x7f :: byte]"
proof -
  have "BigIntSetBytes [0xff, 0xff, 0x7f] = - 129"
    by (simp add: BigIntSetBytes_twos twos_def be_nat_def)
  with encoders_agree [of "- 129" "[0xff, 0xff, 0x7f]" "- 129"] show ?thesis by blast
qed

text \<open>
  C40: every encoder is inverted by its decoder, for every 64-bit word and every integer; the decoders
  return a value (and the panicking variants do not panic) on everything the encoders write.
\<close>

theorem integer_roundtrip:
  "BytesToInt64 (Int64ToBytes v) = Ret v \<and> BytesToUint64 (Uint64ToBytes v) = Ret v \<and>
   BigIntSetBytes (BigIntToBytes (Some i)) = i \<and> SafeBytesToSize64 (SizeToBytes v) = Some v"
proof (intro conjI)
  show "BytesToInt64 (Int64ToBytes v) = Ret v"
    using canonical_Int64ToBytes [of v]
    by (simp add: BytesToInt64_def SafeBytesToInt64_twos canonical_def)
  show "BytesToUint64 (Uint64ToBytes v) = Ret v"
    using SafeBytesToUint64_canonical [OF canonical_Uint64ToBytes(1)] unsigned_less [of v, where ?'a = int]
    by (simp add: BytesToUint64_def)
  show "BigIntSetBytes (BigIntToBytes (Some i)) = i"
    using canonical_BigIntToBytes [of i] by (simp add: BigIntSetBytes_twos canonical_def)
  show "SafeBytesToSize64 (SizeToBytes v) = Some v"
    using unsigned_less [of v, where ?'a = nat]
    by (auto simp: SafeBytesToSize64_def SizeToBytes_nat_bytes length_nat_bytes not_le
        be_word_be_nat unat_eq_0 leD)
qed

section \<open>Hexadecimal numbers\<close>

definition strip0 :: "string \<Rightarrow> string" where
  "strip0 s = (if hd s = CHR ''0'' then tl s else s)"

lemma char_0: "CHR ''0'' = char_of (48 :: nat)"
  by code_simp

lemma hex_digit_0: "d < 16 \<Longrightarrow> hex_digit d = CHR ''0'' \<longleftrightarrow> d = 0"
proof -
  assume d: "d < 16"
  have "of_char (hex_digit d) = (if d < 10 then 48 + d else 87 + d)"
    using d by (simp add: hex_digit_def)
  moreover have "of_char (CHR ''0'') = (48 :: nat)" by (simp add: char_0)
  moreover have "hex_digit d = CHR ''0'' \<longleftrightarrow> of_char (hex_digit d) = (of_char (CHR ''0'') :: nat)"
    by (simp only: of_char_eq_iff)
  ultimately show ?thesis by (simp split: if_splits)
qed

lemma hex_bytes: "n \<noteq> 0 \<Longrightarrow> strip0 (hex_EncodeToString (nat_bytes n)) = hex_nat n"
proof (induction n rule: nat_bytes.induct)
  case (1 n)
  have two: "hex_EncodeToString [word_of_nat (n mod 256)] = [hex_digit (n mod 256 div 16), hex_digit (n mod 16)]"
    by (simp add: hex_EncodeToString_def unat_of_nat mod_mod_cancel)
  have e: "hex_EncodeToString (nat_bytes n) = hex_EncodeToString (nat_bytes (n div 256)) @
      [hex_digit (n mod 256 div 16), hex_digit (n mod 16)]"
    using 1(2) two by (simp add: nat_bytes.simps [of n] hex_EncodeToString_def)
  show ?case
  proof (cases "n div 256 = 0")
    case True
    then have "n mod 256 = n" by simp
    with True e have "hex_EncodeToString (nat_bytes n) = [hex_digit (n div 16), hex_digit (n mod 16)]"
      by (simp add: hex_EncodeToString_def)
    moreover have "n div 16 < 16" using True by simp
    ultimately show ?thesis
      using hex_digit_0 [of "n div 16"]
      by (auto simp: strip0_def hex_nat.simps [of n] hex_nat.simps [of "n div 16"])
  next
    case False
    let ?s = "hex_EncodeToString (nat_bytes (n div 256))"
    have ne: "?s \<noteq> []" using False by (simp add: hex_EncodeToString_def)
    have d: "n div 16 div 16 = n div 256" "n div 16 mod 16 = n mod 256 div 16"
      using mod_mult2_eq [of n 16 16] by (simp_all add: div_mult2_eq [symmetric])
    have "hex_nat n = hex_nat (n div 256) @ [hex_digit (n mod 256 div 16), hex_digit (n mod 16)]"
    proof -
      have "\<not> n < 16" using False by auto
      moreover have "\<not> n div 16 < 16" using False d(1) by auto
      ultimately show ?thesis by (simp add: hex_nat.simps [of n] hex_nat.simps [of "n div 16"] d)
    qed
    moreover have "strip0 ?s = hex_nat (n div 256)" using 1 False by simp
    ultimately show ?thesis using e ne by (auto simp: strip0_def split: if_splits)
  qed
qed

lemma encodeHexNumber_nat_bytes:
  "n \<noteq> 0 \<Longrightarrow> encodeHexNumber neg (nat_bytes n) = (if neg then ''-0x'' else ''0x'') @ hex_nat n"
  using hex_bytes [of n]
  by (auto simp: encodeHexNumber_def Let_def strip0_def hex_EncodeToString_def)

text \<open>
  \<open>FormatInt\<close> prints a 64-bit integer as an optional minus sign, \<open>0x\<close> and the hexadecimal digits of
  its absolute value without leading zeros, the least integer included, and agrees with
  \<open>FormatBigInt\<close> on its value; \<open>FormatUint\<close> does the same for the unsigned value.
\<close>

theorem FormatInt_hex:
  "FormatInt v = (if sint v < 0 then ''-0x'' else ''0x'') @ hex_nat (nat \<bar>sint v\<bar>) \<and>
   FormatInt v = FormatBigInt (sint v) \<and> FormatUint v = FormatBigInt (uint v)"
proof -
  have z: "encodeHexNumber False [0] = ''0x'' @ hex_nat 0" "hex_nat 0 = ''0''" "encodeHexNumber False [] = ''0x0''"
    by (simp_all add: encodeHexNumber_def hex_EncodeToString_def hex_nat.simps hex_digit_def Let_def char_0)
  have big: "FormatBigInt i = (if i < 0 then ''-0x'' else ''0x'') @ hex_nat (nat \<bar>i\<bar>)" for i
    using z by (cases "i = 0") (simp_all add: FormatBigInt_def encodeHexNumber_nat_bytes)
  have bnd: "- (2 ^ 63) \<le> sint v" "sint v < 2 ^ 63" using sint_fits [of v] by (simp_all add: fits_def)
  have "- v = word_of_int (- sint v)" by simp
  then have "uint (- v) = (- sint v) mod 2 ^ 64" by (simp only: uint_word_of_int_eq take_bit_eq_mod) simp
  then have neg: "unat (- v) = nat (- sint v)" if "sint v < 0"
    using that bnd by (simp add: unat_eq_nat_uint)
  have "uint v = sint v mod 2 ^ 64" by (simp add: uint_sint take_bit_eq_mod)
  then have pos: "unat v = nat (sint v)" if "0 \<le> sint v"
    using that bnd by (simp add: unat_eq_nat_uint)
  have "FormatInt v = (if sint v < 0 then ''-0x'' else ''0x'') @ hex_nat (nat \<bar>sint v\<bar>)"
  proof (cases "v = 0")
    case False
    then have "- v \<noteq> 0" "unat v \<noteq> 0" "unat (- v) \<noteq> 0" by (simp_all add: unat_eq_0)
    with False neg pos encodeHexNumber_nat_bytes [of "unat v"] encodeHexNumber_nat_bytes [of "unat (- v)"]
    show ?thesis by (cases "sint v < 0") (simp_all add: FormatInt_def SizeToBytes_nat_bytes)
  qed (simp add: FormatInt_def SizeToBytes_nat_bytes z)
  moreover have "FormatUint v = ''0x'' @ hex_nat (unat v)"
    using z by (cases "v = 0") (simp_all add: FormatUint_def SizeToBytes_nat_bytes encodeHexNumber_nat_bytes unat_eq_0)
  ultimately show ?thesis by (simp add: big)
qed

end
