(* ===== verification/Parse_Int.thy ===== *)
theory Parse_Int
  imports Int_Conv Go_Errors
begin

text \<open>
  Reading numbers, src/common/intconv/string.go: \<open>ParseInt\<close>, \<open>ParseUint\<close> and \<open>ParseBigInt\<close>, over the number
  syntax of the standard library (strconv and math/big with base 0): an optional sign, a prefix
  that gives the base, digits, and underscores between digits. Of the errors of the library
  only that there is one is modelled, not its text.
\<close>

section \<open>Number syntax\<close>

definition char_code :: "char \<Rightarrow> nat" where "char_code c = of_char c"

text \<open>The byte with the bit of lower case set.\<close>

definition lower :: "char \<Rightarrow> nat" where "lower c = or (char_code c) 32"

definition digit_val :: "char \<Rightarrow> nat option" where
  "digit_val c = (if 48 \<le> char_code c \<and> char_code c \<le> 57 then Some (char_code c - 48)
     else if 97 \<le> lower c \<and> lower c \<le> 122 then Some (lower c - 97 + 10) else None)"

definition underscore :: char where "underscore = CHR ''_''"

text \<open>The loop over the digits; underscores are passed over when the base came from the prefix.\<close>

fun parse_digits :: "nat \<Rightarrow> bool \<Rightarrow> string \<Rightarrow> nat \<Rightarrow> nat option" where
  "parse_digits b base0 [] n = Some n"
| "parse_digits b base0 (c # cs) n = (if c = underscore \<and> base0 then parse_digits b base0 cs n
     else (case digit_val c of None \<Rightarrow> None
       | Some d \<Rightarrow> if d \<ge> b then None else parse_digits b base0 cs (n * b + d)))"

text \<open>The base that the prefix of a non-empty text gives, and the digits after the prefix.\<close>

definition base_prefix :: "string \<Rightarrow> nat \<times> string" where
  "base_prefix s = (if s ! 0 = CHR ''0'' then
      (if length s \<ge> 3 \<and> lower (s ! 1) = char_code (CHR ''b'') then (2, drop 2 s)
       else if length s \<ge> 3 \<and> lower (s ! 1) = char_code (CHR ''o'') then (8, drop 2 s)
       else if length s \<ge> 3 \<and> lower (s ! 1) = char_code (CHR ''x'') then (16, drop 2 s)
       else (8, drop 1 s))
     else (10, s))"

text \<open>
  \<open>underscoreOK\<close> of strconv: the state is \<open>^\<close> at the beginning, \<open>0\<close> after a digit or the prefix, \<open>_\<close> after an
  underscore and \<open>!\<close> after anything else.
\<close>

fun underscore_loop :: "bool \<Rightarrow> char \<Rightarrow> string \<Rightarrow> bool" where
  "underscore_loop hex i [] \<longleftrightarrow> i \<noteq> underscore"
| "underscore_loop hex i (c # cs) \<longleftrightarrow>
     (if 48 \<le> char_code c \<and> char_code c \<le> 57 \<or> hex \<and> 97 \<le> lower c \<and> lower c \<le> 102 then underscore_loop hex (CHR ''0'') cs
      else if c = underscore then i = CHR ''0'' \<and> underscore_loop hex underscore cs
      else i \<noteq> underscore \<and> underscore_loop hex (CHR ''!'') cs)"

definition strip_sign :: "string \<Rightarrow> string" where
  "strip_sign s = (case s of c # cs \<Rightarrow> if c = CHR ''-'' \<or> c = CHR ''+'' then cs else s | [] \<Rightarrow> [])"

definition underscoreOK :: "string \<Rightarrow> bool" where
  "underscoreOK s0 = (let s = strip_sign s0 in
     if length s \<ge> 2 \<and> s ! 0 = CHR ''0'' \<and> lower (s ! 1) \<in> {char_code (CHR ''b''), char_code (CHR ''o''), char_code (CHR ''x'')}
     then underscore_loop (lower (s ! 1) = char_code (CHR ''x'')) (CHR ''0'') (drop 2 s)
     else underscore_loop False (CHR ''^'') s)"

text \<open>A literal without sign.\<close>

definition parse_literal :: "string \<Rightarrow> nat option" where
  "parse_literal s = (if s = [] then None else case base_prefix s of (b, t) \<Rightarrow>
     (case parse_digits b True t 0 of None \<Rightarrow> None
      | Some n \<Rightarrow> if underscore \<in> set t \<and> \<not> underscoreOK s then None else Some n))"

section \<open>Operations\<close>

definition syntaxError :: err where "syntaxError = StdError ''strconv.ParseInt''"

definition strconv_ParseInt :: "string \<Rightarrow> nat \<Rightarrow> int result" where
  "strconv_ParseInt s bits = (case parse_literal (strip_sign s) of None \<Rightarrow> Fail syntaxError
     | Some n \<Rightarrow> let neg = (s ! 0 = CHR ''-''); cutoff = 2 ^ (bits - 1) in
        if \<not> neg \<and> n \<ge> cutoff \<or> neg \<and> n > cutoff then Fail syntaxError
        else Ret (if neg then - int n else int n))"

definition ParseInt :: "string \<Rightarrow> nat \<Rightarrow> int result" where
  "ParseInt s bits = bind_r (strconv_ParseInt s bits) (\<lambda>v. Ret v)"

definition ParseUint :: "string \<Rightarrow> nat \<Rightarrow> nat result" where
  "ParseUint s bits = (case parse_literal s of None \<Rightarrow> Fail syntaxError
     | Some n \<Rightarrow> if n < 2 ^ bits then Ret n else Fail syntaxError)"

text \<open>\<open>big.Int.SetString\<close> with base 0 or 10.\<close>

definition SetString :: "string \<Rightarrow> nat \<Rightarrow> int option" where
  "SetString s base = (let t = strip_sign s in
     map_option (\<lambda>n. if s \<noteq> [] \<and> s ! 0 = CHR ''-'' then - int n else int n)
       (if base = 0 then parse_literal t else if t = [] then None else parse_digits base False t 0))"

text \<open>\<open>underDigit.ReplaceAllString(s, "$1")\<close>: an underscore before a digit is removed.\<close>

fun underDigit :: "string \<Rightarrow> string" where
  "underDigit (c # d # cs) = (if c = underscore \<and> 48 \<le> char_code d \<and> char_code d \<le> 57 then d # underDigit cs else c # underDigit (d # cs))"
| "underDigit s = s"

definition ParseBigInt :: "string \<Rightarrow> int result" where
  "ParseBigInt s = (let s2 = (if length s > 0 \<and> s ! 0 = CHR ''-'' then drop 1 s else s) in
     if length s2 > 1 \<and> s2 ! 0 = CHR ''0'' \<and> s2 ! 1 \<in> set ''oOXbB'' then Fail (New ''InvalidPrefix'')
     else let dec = length s2 > 1 \<and> s2 ! 0 = CHR ''0'' \<and> s2 ! 1 \<noteq> CHR ''x'' in
       case (if dec then SetString (underDigit s) 10 else SetString s 0) of
         Some i \<Rightarrow> Ret i | None \<Rightarrow> Fail (New ''InvalidNumberFormat''))"

section \<open>Reading what was written\<close>

lemma hex_digit_code: "d < 16 \<Longrightarrow> char_code (hex_digit d) = (if d < 10 then 48 + d else 87 + d)"
  by (simp add: char_code_def hex_digit_def)

lemma digit_val_hex: "d < 16 \<Longrightarrow> digit_val (hex_digit d) = Some d"
proof -
  assume d: "d < 16"
  have "or (k :: nat) 32 = k" if "k \<in> {97..102}" for k
  proof -
    have "k = 97 \<or> k = 98 \<or> k = 99 \<or> k = 100 \<or> k = 101 \<or> k = 102" using that by auto
    then show ?thesis by (elim disjE) simp_all
  qed
  from this [of "87 + d"] d show ?thesis by (simp add: digit_val_def lower_def hex_digit_code)
qed

lemma hex_not_underscore: "d < 16 \<Longrightarrow> hex_digit d \<noteq> underscore"
proof
  assume "d < 16" "hex_digit d = underscore"
  then have "char_code (hex_digit d) = 95" by (simp add: underscore_def char_code_def)
  with \<open>d < 16\<close> show False by (simp add: hex_digit_code split: if_splits)
qed

lemma parse_digits_append:
  "parse_digits b z (xs @ ys) n = (case parse_digits b z xs n of None \<Rightarrow> None | Some k \<Rightarrow> parse_digits b z ys k)"
  by (induction xs arbitrary: n) (auto split: option.splits)

lemma hex_nat_digits: "set (hex_nat n) \<subseteq> hex_digit ` {..<16} \<and> hex_nat n \<noteq> []"
proof (induction n rule: hex_nat.induct)
  case (1 n)
  then show ?case by (cases "n < 16") (auto simp: hex_nat.simps [of n])
qed

lemma parse_hex_nat: "parse_digits 16 True (hex_nat n) 0 = Some n"
proof (induction n rule: hex_nat.induct)
  case (1 n)
  then show ?case
    by (cases "n < 16") (simp_all add: hex_nat.simps [of n] parse_digits_append digit_val_hex hex_not_underscore)
qed

lemma parse_hex_literal: "parse_literal (''0x'' @ hex_nat n) = Some n"
proof -
  have "underscore \<notin> set (hex_nat n)" using hex_nat_digits [of n] hex_not_underscore by (metis imageE lessThan_iff subset_eq)
  moreover have "lower (CHR ''x'') = char_code (CHR ''x'')" "lower (CHR ''x'') \<noteq> char_code (CHR ''b'')" "lower (CHR ''x'') \<noteq> char_code (CHR ''o'')"
    by (simp_all add: lower_def char_code_def)
  then have "base_prefix (''0x'' @ hex_nat n) = (16, hex_nat n)"
    using hex_nat_digits [of n] by (cases "hex_nat n") (simp_all add: base_prefix_def)
  ultimately show ?thesis by (simp add: parse_literal_def parse_hex_nat)
qed

lemma FormatBigInt_hex: "FormatBigInt i = (if i < 0 then ''-0x'' else ''0x'') @ hex_nat (nat \<bar>i\<bar>)"
proof (cases "i = 0")
  case True
  then show ?thesis
    by (simp add: FormatBigInt_def encodeHexNumber_def hex_EncodeToString_def hex_nat.simps hex_digit_def Let_def char_0 nat_bytes.simps)
qed (simp add: FormatBigInt_def encodeHexNumber_nat_bytes)

lemma ParseInt_eq: "ParseInt s bits = strconv_ParseInt s bits"
  by (cases "strconv_ParseInt s bits") (simp_all add: ParseInt_def)

lemma ParseInt_FormatInt: "ParseInt (FormatInt v) 64 = Ret (sint v)"
proof -
  have "- (2 ^ 63) \<le> sint v" "sint v < 2 ^ 63" using sint_greater_eq [of v] sint_less [of v] by simp_all
  then show ?thesis
    using FormatInt_hex [of v] parse_hex_literal [of "nat \<bar>sint v\<bar>"]
    by (auto simp: ParseInt_eq strconv_ParseInt_def strip_sign_def Let_def nat_le_iff le_nat_iff)
qed

text \<open>
  Every 64-bit integer is read back from its text, signed by \<open>ParseInt\<close> and unsigned by \<open>ParseUint\<close>, and
  every integer is read back by \<open>ParseBigInt\<close>; the least 64-bit integer, whose absolute value does not
  fit, is among them.
\<close>
theorem number_text_roundtrip:
  "ParseInt (FormatInt v) 64 = Ret (sint v) \<and> ParseUint (FormatUint v) 64 = Ret (unat v) \<and> ParseBigInt (FormatBigInt i) = Ret i"
proof -
  have big: "FormatBigInt i = (if i < 0 then ''-0x'' else ''0x'') @ hex_nat (nat \<bar>i\<bar>)" for i by (rule FormatBigInt_hex)
  have "ParseUint (FormatUint v) 64 = Ret (unat v)"
    using FormatInt_hex [of v] big [of "uint v"] parse_hex_literal [of "unat v"] unsigned_less [of v, where ?'a = nat]
    by (simp add: ParseUint_def)
  moreover have "ParseBigInt (FormatBigInt i) = Ret i"
    using big [of i] parse_hex_literal [of "nat \<bar>i\<bar>"]
    by (auto simp: ParseBigInt_def SetString_def strip_sign_def Let_def)
  ultimately show ?thesis using ParseInt_FormatInt by blast
qed

lemma signed_range: "v = (if neg then - int k else int k) \<Longrightarrow> neg \<or> int k < M \<Longrightarrow> int k \<le> M \<Longrightarrow> 0 < M \<Longrightarrow> - M \<le> v \<and> v < M"
  by (cases neg) auto

text \<open>
  A number that \<open>ParseInt\<close> or \<open>ParseUint\<close> returns fits into the given number of bits.
\<close>
theorem parsed_number_fits:
  assumes "0 < bits"
  shows "(ParseInt s bits = Ret v \<longrightarrow> - (2 ^ (bits - 1)) \<le> v \<and> v < 2 ^ (bits - 1)) \<and> (ParseUint s bits = Ret n \<longrightarrow> n < 2 ^ bits)"
proof (intro conjI impI)
  assume "ParseInt s bits = Ret v"
  then obtain k where "v = (if s ! 0 = CHR ''-'' then - int k else int k)" "s ! 0 = CHR ''-'' \<or> k < 2 ^ (bits - 1)" "k \<le> 2 ^ (bits - 1)"
    unfolding ParseInt_eq strconv_ParseInt_def Let_def by (fastforce split: option.splits if_splits)
  moreover have "int k \<le> 2 ^ (bits - 1) \<longleftrightarrow> k \<le> 2 ^ (bits - 1)" "int k < 2 ^ (bits - 1) \<longleftrightarrow> k < 2 ^ (bits - 1)"
    by (simp_all flip: of_nat_le_iff of_nat_less_iff)
  moreover have "(0 :: int) < 2 ^ (bits - 1)" by simp
  ultimately have "- (2 ^ (bits - 1)) \<le> v \<and> v < 2 ^ (bits - 1)" by (intro signed_range [of v _ k]) blast+
  then show "- (2 ^ (bits - 1)) \<le> v" "v < 2 ^ (bits - 1)" by blast+
next
  assume "ParseUint s bits = Ret n"
  then show "n < 2 ^ bits" by (auto simp: ParseUint_def split: option.splits if_splits)
qed

theorem parsed_number_fits_witness: "ParseInt ''-0x80'' 8 = Ret (- 128) \<and> - (2 ^ (8 - 1)) \<le> (- 128 :: int)"
proof -
  have "ParseInt ''-0x80'' 8 = Ret (- 128)" by code_simp
  with parsed_number_fits [of 8 "''-0x80''" "- 128" 0] show ?thesis by simp
qed

end
