(* ===== verification/Serialize.thy ===== *)
theory Serialize
  imports Go_Errors "HOL-Library.List_Lexorder" "HOL-Library.Char_ord" "HOL-Library.Multiset"
begin

text \<open>
  The serialisation of transactions that is hashed and signed, src/chain/icon/client/serialize.go. A
  value is what \<open>encoding/json\<close> decodes into an empty interface: nil, a string, a float64, a bool, a
  slice or a map from strings. A map is an association list with distinct keys, and a
  float64 the integer that the conversion to \<open>int64\<close> gives.
\<close>

section \<open>Values and errors\<close>

datatype json =
    JNull
  | JString string
  | JNumber int
  | JBool bool
  | JList "json list"
  | JDict "(string \<times> json) list"

record SerializeError =
  position :: string
  msg :: string

type_synonym frag = "(SerializeError, string) outcome"

section \<open>Operations\<close>

definition backslash :: char where "backslash = CHR 0x5C"

definition escaped :: "char list" where
  "escaped = [backslash, CHR ''{'', CHR ''}'', CHR ''['', CHR '']'', CHR ''.'']"

fun serializeString :: "string \<Rightarrow> string" where
  "serializeString [] = []"
| "serializeString (c # cs) = (if c \<in> set escaped then [backslash, c] else [c]) @ serializeString cs"

text \<open>\<open>strconv.FormatInt(v, 10)\<close>.\<close>

definition FormatInt10 :: "int \<Rightarrow> string" where
  "FormatInt10 v = (if v < 0 then CHR ''-'' # dec_nat (nat (- v)) else dec_nat (nat v))"

text \<open>The loop of \<open>serializeList\<close> over the fragments: a separator only when something was written.\<close>

fun serializeList_loop :: "nat \<Rightarrow> frag list \<Rightarrow> string \<Rightarrow> frag" where
  "serializeList_loop idx [] buf = Ret buf"
| "serializeList_loop idx (f # fs) buf = (case f of
      Ret frag \<Rightarrow> serializeList_loop (Suc idx) fs ((if length buf > 0 then buf @ ''.'' else buf) @ frag)
    | Fail e \<Rightarrow> Fail (e\<lparr>position := ''['' @ dec_nat idx @ ''].'' @ position e\<rparr>)
    | Panic \<Rightarrow> Panic | OutOfFuel \<Rightarrow> OutOfFuel)"

definition member :: "(string \<rightharpoonup> bool) \<Rightarrow> string \<Rightarrow> bool" where
  "member m k = (case m k of Some b \<Rightarrow> b | None \<Rightarrow> False)"

definition skipped :: "(string \<rightharpoonup> bool) option \<Rightarrow> (string \<rightharpoonup> bool) option \<Rightarrow> string \<Rightarrow> bool" where
  "skipped inc ex k \<longleftrightarrow> (case inc of None \<Rightarrow> False | Some m \<Rightarrow> \<not> member m k) \<or> (case ex of None \<Rightarrow> False | Some m \<Rightarrow> member m k)"

text \<open>The loop of \<open>serializeDict\<close> over the sorted keys.\<close>

fun serializeDict_loop :: "(string \<rightharpoonup> bool) option \<Rightarrow> (string \<rightharpoonup> bool) option \<Rightarrow> (string \<times> frag) list \<Rightarrow> string \<Rightarrow> frag" where
  "serializeDict_loop inc ex [] buf = Ret buf"
| "serializeDict_loop inc ex ((k, f) # fs) buf = (if skipped inc ex k then serializeDict_loop inc ex fs buf
     else (case f of
      Ret frag \<Rightarrow> serializeDict_loop inc ex fs ((if length buf > 0 then buf @ ''.'' else buf) @ serializeString k @ ''.'' @ frag)
    | Fail e \<Rightarrow> Fail \<lparr>position = ''.'' @ k @ position e, msg = msg e\<rparr>
    | Panic \<Rightarrow> Panic | OutOfFuel \<Rightarrow> OutOfFuel))"

definition bracket :: "string \<Rightarrow> string \<Rightarrow> frag \<Rightarrow> frag" where
  "bracket l r f = bind_r f (\<lambda>s. Ret (l @ s @ r))"

fun serializeValue :: "json \<Rightarrow> frag" where
  "serializeValue JNull = Ret [backslash, CHR ''0'']"
| "serializeValue (JDict d) = bracket ''{'' ''}''
     (serializeDict_loop None None (sort_key fst (map (\<lambda>(k, v). (k, serializeValue v)) d)) [])"
| "serializeValue (JList vs) = bracket ''['' '']'' (serializeList_loop 0 (map serializeValue vs) [])"
| "serializeValue (JString s) = Ret (serializeString s)"
| "serializeValue (JNumber n) = Ret (FormatInt10 n)"
| "serializeValue (JBool b) = Fail \<lparr>position = [], msg = ''unknown type [bool]''\<rparr>"

definition serializeList :: "json list \<Rightarrow> frag" where
  "serializeList vs = serializeList_loop 0 (map serializeValue vs) []"

definition serializeDict :: "(string \<times> json) list \<Rightarrow> (string \<rightharpoonup> bool) option \<Rightarrow> (string \<rightharpoonup> bool) option \<Rightarrow> frag" where
  "serializeDict d inc ex = serializeDict_loop inc ex (sort_key fst (map (\<lambda>(k, v). (k, serializeValue v)) d)) []"

text \<open>\<open>SerializeError.Error\<close>, and the exported functions; decoding JSON is the parameter \<open>unmarshal\<close>.\<close>

definition serialize_err :: "SerializeError \<Rightarrow> err" where
  "serialize_err e = StdError (position e @ '':'' @ msg e)"

definition SerializeMap :: "(string \<times> json) list \<Rightarrow> (string \<rightharpoonup> bool) option \<Rightarrow> (string \<rightharpoonup> bool) option \<Rightarrow> string result" where
  "SerializeMap d inc ex = (case serializeDict d inc ex of Ret s \<Rightarrow> Ret s | Fail e \<Rightarrow> Fail (serialize_err e)
     | Panic \<Rightarrow> Panic | OutOfFuel \<Rightarrow> OutOfFuel)"

definition SerializeJSON :: "(string \<Rightarrow> (string \<times> json) list result) \<Rightarrow> string \<Rightarrow> (string \<rightharpoonup> bool) option \<Rightarrow> (string \<rightharpoonup> bool) option \<Rightarrow>
    string result" where
  "SerializeJSON unmarshal s inc ex = bind_r (unmarshal s) (\<lambda>params. SerializeMap params inc ex)"

section \<open>The reference format\<close>

text \<open>
  \<open>plain\<close> values: no numbers or bools, maps in the order of their keys, and no list that starts with
  an empty string. For these the text is \<open>ser\<close>: elements separated by dots.
\<close>

fun plain :: "json \<Rightarrow> bool" where
  "plain JNull = True"
| "plain (JString s) = True"
| "plain (JNumber n) = False"
| "plain (JBool b) = False"
| "plain (JList vs) = (list_all plain vs \<and> (case vs of [] \<Rightarrow> True | v # _ \<Rightarrow> v \<noteq> JString []))"
| "plain (JDict d) = (sorted_wrt (<) (map fst d) \<and> list_all (\<lambda>(k, v). plain v) d)"

definition dotted :: "string list \<Rightarrow> string" where
  "dotted xs = concat (map (Cons (CHR ''.'')) xs)"

definition sep :: "string list \<Rightarrow> string" where
  "sep xs = (case xs of [] \<Rightarrow> [] | y # ys \<Rightarrow> y @ dotted ys)"

fun ser :: "json \<Rightarrow> string" where
  "ser JNull = [backslash, CHR ''0'']"
| "ser (JString s) = serializeString s"
| "ser (JNumber n) = []"
| "ser (JBool b) = []"
| "ser (JList vs) = CHR ''['' # sep (map ser vs) @ '']''"
| "ser (JDict d) = CHR ''{'' # sep (map (\<lambda>(k, v). serializeString k @ ''.'' @ ser v) d) @ ''}''"

definition entry :: "string \<times> json \<Rightarrow> string" where
  "entry e = serializeString (fst e) @ ''.'' @ ser (snd e)"

lemma entry_map: "map (\<lambda>(k, v). serializeString k @ ''.'' @ ser v) d = map entry d"
  by (simp add: entry_def split_def)

lemma ser_dict: "ser (JDict d) = CHR ''{'' # sep (map entry d) @ ''}''"
  by (simp only: ser.simps entry_map)

lemma entry_pair: "entry (k, v) = serializeString k @ ''.'' @ ser v"
  by (simp add: entry_def)

lemma dotted_simps [simp]: "dotted [] = []" "dotted (x # xs) = CHR ''.'' # x @ dotted xs"
  by (simp_all add: dotted_def)

lemma list_loop_more: "buf \<noteq> [] \<Longrightarrow> serializeList_loop n (map Ret fs) buf = Ret (buf @ dotted fs)"
  by (induction fs arbitrary: n buf) simp_all

lemma dict_loop_more:
  "buf \<noteq> [] \<Longrightarrow> serializeDict_loop inc ex (map (\<lambda>(k, v). (k, Ret (ser v))) d) buf =
    Ret (buf @ dotted (map entry (filter (\<lambda>e. \<not> skipped inc ex (fst e)) d)))"
  by (induction d arbitrary: buf) (auto simp: entry_pair)

lemma dict_loop_ser:
  "serializeDict_loop inc ex (map (\<lambda>(k, v). (k, Ret (ser v))) d) [] =
    Ret (sep (map entry (filter (\<lambda>e. \<not> skipped inc ex (fst e)) d)))"
  by (induction d) (auto simp: dict_loop_more sep_def entry_pair)

lemma skipped_none [simp]: "skipped None None k = False"
  by (simp add: skipped_def)

lemma escape_empty [simp]: "serializeString s = [] \<longleftrightarrow> s = []"
  by (cases s) simp_all

lemma ser_empty: "plain v \<Longrightarrow> ser v = [] \<longleftrightarrow> v = JString []"
  by (cases v) simp_all

lemma sorted_keys: "sorted_wrt (<) (map fst d) \<Longrightarrow> sort_key fst d = d" for d :: "(string \<times> 'v) list"
  by (rule sort_key_id_if_sorted) (simp add: strict_sorted_imp_sorted)

lemma serializeValue_ser: "plain v \<Longrightarrow> serializeValue v = Ret (ser v)"
proof (induction v)
  case (JList vs)
  then have eq: "map serializeValue vs = map Ret (map ser vs)" by (induction vs) (auto simp: list_all_iff)
  show ?case
  proof (cases vs)
    case (Cons v ws)
    with JList.prems have "ser v \<noteq> []" by (simp add: ser_empty)
    with eq Cons show ?thesis by (simp add: bracket_def sep_def list_loop_more del: map_map)
  qed (simp add: bracket_def sep_def)
next
  case (JDict d)
  then have "map (\<lambda>(k, v). (k, serializeValue v)) d = map (\<lambda>(k, v). (k, Ret (ser v))) d"
    by (induction d) (fastforce simp: list_all_iff)+
  moreover have "map fst (map (\<lambda>(k, v). (k, Ret (ser v) :: frag)) d) = map fst d" by (induction d) auto
  then have "sort_key fst (map (\<lambda>(k, v). (k, Ret (ser v) :: frag)) d) = map (\<lambda>(k, v). (k, Ret (ser v))) d"
    using JDict.prems by (intro sorted_keys) (simp del: map_map map_eq_conv)
  ultimately show ?case unfolding serializeValue.simps ser_dict by (simp add: bracket_def dict_loop_ser del: map_eq_conv)
qed simp_all

section \<open>The text determines the value\<close>

definition delim :: "string \<Rightarrow> bool" where
  "delim r \<longleftrightarrow> r = [] \<or> hd r \<in> set ''.]}''"

definition closed :: "string \<Rightarrow> bool" where
  "closed r \<longleftrightarrow> r = [] \<or> hd r \<in> set '']}''"

lemma closed_delim: "closed r \<Longrightarrow> delim r"
  by (auto simp: closed_def delim_def)

lemma delim_Cons [simp]: "delim (c # r) \<longleftrightarrow> c \<in> set ''.]}''" "closed (c # r) \<longleftrightarrow> c \<in> set '']}''" "delim []" "closed []"
  by (simp_all add: delim_def closed_def)

lemma escape_inj: "serializeString s @ r = serializeString t @ r' \<Longrightarrow> delim r \<Longrightarrow> delim r' \<Longrightarrow> s = t \<and> r = r'"
proof (induction s arbitrary: t)
  case Nil
  then show ?case by (cases t) (auto simp: escaped_def backslash_def split: if_splits)
next
  case (Cons c s)
  then obtain d t' where t: "t = d # t'" by (cases t) (auto simp: escaped_def backslash_def split: if_splits)
  with Cons.prems(1) have "c = d \<and> serializeString s @ r = serializeString t' @ r'"
    by (auto simp: escaped_def split: if_splits)
  with Cons.IH [of t'] Cons.prems(2,3) t show ?case by simp
qed

text \<open>A text of one list followed by a delimiter is none of the other list, unless of the same element.\<close>

definition uniq :: "('a \<Rightarrow> string) \<Rightarrow> 'a list \<Rightarrow> 'a list \<Rightarrow> bool" where
  "uniq f xs ys \<longleftrightarrow> (\<forall>x\<in>set xs. \<forall>y\<in>set ys. \<forall>r r'. delim r \<longrightarrow> delim r' \<longrightarrow> f x @ r = f y @ r' \<longrightarrow> x = y \<and> r = r')"

lemma uniqD: "uniq f (x # xs) (y # ys) \<Longrightarrow> f x @ r = f y @ r' \<Longrightarrow> delim r \<Longrightarrow> delim r' \<Longrightarrow> x = y \<and> r = r'"
  "uniq f (x # xs) (y # ys) \<Longrightarrow> uniq f xs ys"
  unfolding uniq_def by (simp, simp)

lemma delim_dotted: "closed q \<Longrightarrow> delim (dotted (map f zs) @ q)"
  by (cases zs) (auto dest: closed_delim)

lemma dotted_inj:
  assumes "uniq f xs ys"
    and "dotted (map f xs) @ r = dotted (map f ys) @ r'" and "closed r" and "closed r'"
  shows "xs = ys \<and> r = r'"
  using assms
proof (induction xs arbitrary: ys)
  case Nil
  then show ?case by (cases ys) auto
next
  case (Cons x xs)
  then obtain y ys' where ys: "ys = y # ys'" by (cases ys) auto
  have "x = y \<and> dotted (map f xs) @ r = dotted (map f ys') @ r'"
    using Cons.prems by (intro uniqD(1) [of f x xs y ys']) (simp_all add: ys delim_dotted)
  with Cons.IH [OF uniqD(2) [OF Cons.prems(1) [unfolded ys]]] Cons.prems(3,4) ys show ?case by simp
qed

lemma sep_inj:
  assumes "uniq f xs ys"
    and "sep (map f xs) @ r = sep (map f ys) @ r'" and "closed r" and "closed r'"
    and "\<And>x xs'. xs = x # xs' \<Longrightarrow> f x \<noteq> [] \<and> hd (f x) \<notin> set '']}''" and "\<And>y ys'. ys = y # ys' \<Longrightarrow> f y \<noteq> [] \<and> hd (f y) \<notin> set '']}''"
  shows "xs = ys \<and> r = r'"
proof (cases xs; cases ys)
  fix x xs' y ys' assume e: "xs = x # xs'" "ys = y # ys'"
  have "x = y \<and> dotted (map f xs') @ r = dotted (map f ys') @ r'"
    using assms(1-4) by (intro uniqD(1) [of f x xs' y ys']) (simp_all add: e sep_def delim_dotted)
  with dotted_inj [OF uniqD(2) [OF assms(1) [unfolded e]], of r r'] assms(3,4) e show ?thesis by simp
next
  fix y ys' assume e: "xs = []" "ys = y # ys'"
  with assms(2,3) assms(6) [OF e(2)] show ?thesis by (cases "f y") (auto simp: sep_def closed_def)
next
  fix x xs' assume e: "xs = x # xs'" "ys = []"
  with assms(2,4) assms(5) [OF e(1)] show ?thesis by (cases "f x") (auto simp: sep_def closed_def)
qed (use assms(2) in \<open>simp add: sep_def\<close>)

lemma escape_hd: "serializeString s \<noteq> [] \<Longrightarrow> hd (serializeString s) \<notin> set ''.{}[]''"
  by (cases s) (auto simp: escaped_def backslash_def)

lemma ser_hd: "plain v \<Longrightarrow> v \<noteq> JString [] \<Longrightarrow> ser v \<noteq> [] \<and> hd (ser v) \<notin> set ''.]}''"
  using escape_hd by (cases v) (auto simp: backslash_def)

lemma entry_hd: "entry e \<noteq> [] \<and> hd (entry e) \<notin> set '']}''"
  using escape_hd [of "fst e"] by (cases "serializeString (fst e)") (auto simp: entry_def)

lemma entry_inj:
  assumes "\<And>w r r'. plain w \<Longrightarrow> delim r \<Longrightarrow> delim r' \<Longrightarrow> ser (snd e) @ r = ser w @ r' \<Longrightarrow> snd e = w \<and> r = r'"
    and "plain (snd e')" and "entry e @ r = entry e' @ r'" and "delim r" and "delim r'"
  shows "e = e' \<and> r = r'"
proof -
  have "fst e = fst e' \<and> CHR ''.'' # ser (snd e) @ r = CHR ''.'' # ser (snd e') @ r'"
    using assms(3) by (intro escape_inj) (simp_all add: entry_def)
  with assms(1) [OF assms(2,4,5)] show ?thesis by (simp add: prod_eq_iff)
qed

text \<open>Which shape a text has.\<close>

lemma ser_shape:
  assumes "plain v"
  shows "v = JNull \<and> ser v = [backslash, CHR ''0''] \<or> (\<exists>s. v = JString s \<and> ser v = serializeString s) \<or>
    (\<exists>vs. v = JList vs \<and> ser v = CHR ''['' # sep (map ser vs) @ '']'') \<or> (\<exists>d. v = JDict d \<and> ser v = CHR ''{'' # sep (map entry d) @ ''}'')"
  using assms by (cases v) (simp_all add: ser_dict del: ser.simps(6))

lemma escape_not:
  assumes "delim r"
  shows "serializeString s @ r \<noteq> backslash # CHR ''0'' # q" "serializeString s @ r \<noteq> CHR ''['' # q" "serializeString s @ r \<noteq> CHR ''{'' # q"
  using assms by (cases s; cases r; auto simp: escaped_def backslash_def split: if_splits)+

lemma ser_inj: "plain v \<Longrightarrow> plain w \<Longrightarrow> delim r \<Longrightarrow> delim r' \<Longrightarrow> ser v @ r = ser w @ r' \<Longrightarrow> v = w \<and> r = r'"
proof (induction v arbitrary: w r r')
  case JNull
  then show ?case
    using ser_shape [OF JNull.prems(2)] escape_not(1) [OF JNull.prems(4)] by (auto simp: backslash_def dest: sym)
next
  case (JString s)
  from ser_shape [OF JString.prems(2)] show ?case
  proof (elim disjE exE conjE)
    fix t assume "w = JString t" "ser w = serializeString t"
    with JString.prems escape_inj [of s r t r'] show ?thesis by simp
  qed (use JString.prems escape_not [OF JString.prems(3), of s] in auto)
next
  case (JList vs)
  from ser_shape [OF JList.prems(2)] show ?case
  proof (elim disjE exE conjE)
    fix ws assume w: "w = JList ws" "ser w = CHR ''['' # sep (map ser ws) @ '']''"
    have "uniq ser vs ws" unfolding uniq_def using JList.IH JList.prems(1,2) w(1) by (auto simp: list_all_iff)
    moreover have "sep (map ser vs) @ CHR '']'' # r = sep (map ser ws) @ CHR '']'' # r'" using JList.prems(5) w(2) by simp
    ultimately have "vs = ws \<and> CHR '']'' # r = CHR '']'' # r'"
      using JList.prems(1,2) w(1) ser_hd by (intro sep_inj [of ser]) (fastforce simp: list_all_iff)+
    with w(1) show ?thesis by simp
  next
    fix t assume "w = JString t" "ser w = serializeString t"
    with JList.prems(5) escape_not(2) [OF JList.prems(4), of t] show ?thesis by (metis append_Cons ser.simps(5))
  qed (use JList.prems(5) in \<open>auto simp: backslash_def\<close>)
next
  case (JDict d)
  from ser_shape [OF JDict.prems(2)] show ?case
  proof (elim disjE exE conjE)
    fix e assume w: "w = JDict e" "ser w = CHR ''{'' # sep (map entry e) @ ''}''"
    have "uniq entry d e" unfolding uniq_def
    proof (intro ballI allI impI)
      fix x y r r' assume m: "x \<in> set d" "y \<in> set e" and q: "delim r" "delim r'" "entry x @ r = entry y @ r'"
      have p: "plain (snd x)" "plain (snd y)" using JDict.prems(1,2) w(1) m by (auto simp: list_all_iff split_def)
      have "snd x \<in> Basic_BNFs.snds x" by (cases x) (simp add: snds.simps)
      from entry_inj [OF JDict.IH [OF m(1) this p(1)] p(2) q(3,1,2)] show "x = y \<and> r = r'" by blast
    qed
    moreover have "sep (map entry d) @ CHR ''}'' # r = sep (map entry e) @ CHR ''}'' # r'"
      using JDict.prems(5) w(2) by (simp only: ser_dict append_Cons append_assoc append_Nil list.inject)
    ultimately have "d = e \<and> CHR ''}'' # r = CHR ''}'' # r'" using entry_hd by (intro sep_inj [of entry]) auto
    with w(1) show ?thesis by simp
  next
    fix t assume "w = JString t" "ser w = serializeString t"
    with JDict.prems(5) escape_not(3) [OF JDict.prems(4), of t] show ?thesis by (metis append_Cons ser_dict)
  qed (use JDict.prems(5) in \<open>auto simp: backslash_def\<close>)
qed simp_all

lemma serializeDict_text:
  assumes "plain (JDict d)"
  shows "serializeDict d None (Some ex) = Ret (sep (map entry (filter (\<lambda>p. \<not> member ex (fst p)) d)))"
proof -
  have "map (\<lambda>(k, v). (k, serializeValue v)) d = map (\<lambda>(k, v). (k, Ret (ser v))) d"
    using assms by (auto simp: list_all_iff serializeValue_ser)
  moreover have "map fst (map (\<lambda>(k, v). (k, Ret (ser v) :: frag)) d) = map fst d" by (induction d) auto
  then have "sort_key fst (map (\<lambda>(k, v). (k, Ret (ser v) :: frag)) d) = map (\<lambda>(k, v). (k, Ret (ser v))) d"
    using assms by (intro sorted_keys) (simp del: map_map map_eq_conv)
  ultimately show ?thesis unfolding serializeDict_def by (simp add: dict_loop_ser skipped_def del: map_eq_conv)
qed

lemma serializeDict_same:
  assumes "mset (map (\<lambda>(k, v). (k, serializeValue v)) d') = mset (map (\<lambda>(k, v). (k, serializeValue v)) d)" and "distinct (map fst d)"
  shows "serializeDict d' inc ex = serializeDict d inc ex"
proof -
  let ?f = "\<lambda>(k, v). (k, serializeValue v)"
  have "map fst (map ?f d) = map fst d" by (induction d) auto
  then have "inj_on fst (set (map ?f d'))" using assms(2) mset_eq_setD [OF assms(1)] by (metis distinct_map)
  then have "sort_key fst (map ?f d') = sort_key fst (map ?f d)" using assms(1) by (intro sort_key_inj_key_eq) simp_all
  then show ?thesis by (simp add: serializeDict_def)
qed

lemma serializeDict_order: "mset d' = mset d \<Longrightarrow> distinct (map fst d) \<Longrightarrow> serializeDict d' inc ex = serializeDict d inc ex"
  by (rule serializeDict_same) simp_all

lemma dict_text_inj:
  assumes "plain (JDict d)" and "plain (JDict e)" and "sep (map entry (filter P d)) = sep (map entry (filter P e))"
  shows "filter P d = filter P e"
proof -
  let ?d = "filter P d" and ?e = "filter P e"
  have "uniq entry ?d ?e" unfolding uniq_def
  proof (intro ballI allI impI)
    fix x y r r' assume m: "x \<in> set ?d" "y \<in> set ?e" and q: "delim r" "delim r'" "entry x @ r = entry y @ r'"
    have p: "plain (snd x)" "plain (snd y)" using assms(1,2) m by (auto simp: list_all_iff split_def)
    from entry_inj [OF ser_inj [OF p(1)] p(2) q(3,1,2)] show "x = y \<and> r = r'" by blast
  qed
  moreover have "sep (map entry ?d) @ [] = sep (map entry ?e) @ []" using assms(3) by simp
  ultimately have "?d = ?e \<and> [] = ([] :: string)" using entry_hd by (intro sep_inj [of entry]) auto
  then show ?thesis by blast
qed

text \<open>
  C31: the text that is hashed and signed determines the transaction: two maps (with their keys in
  order), without numbers and bools and without lists that start with an empty string, that serialise
  to the same text with some keys excluded agree on all the other keys; and the order in which
  the entries of a map are visited does not matter.
\<close>
theorem serialize_injective:
  assumes "plain (JDict d)" and "plain (JDict e)"
    and "serializeDict d None (Some ex) = Ret s" and "serializeDict e None (Some ex) = Ret s"
  shows "filter (\<lambda>p. \<not> member ex (fst p)) d = filter (\<lambda>p. \<not> member ex (fst p)) e \<and>
    (mset d' = mset d \<longrightarrow> serializeDict d' None (Some ex) = Ret s)"
proof -
  have "filter (\<lambda>p. \<not> member ex (fst p)) d = filter (\<lambda>p. \<not> member ex (fst p)) e"
    using assms(3,4) by (intro dict_text_inj [OF assms(1,2)]) (simp add: serializeDict_text [OF assms(1)] serializeDict_text [OF assms(2)])
  moreover have "serializeDict d' None (Some ex) = serializeDict d None (Some ex)" if "mset d' = mset d"
    using assms(1) by (intro serializeDict_order that) (simp add: strict_sorted_iff)
  ultimately show ?thesis using assms(3) by simp
qed

definition sample_tx :: "(string \<times> json) list" where
  "sample_tx = [(''data'', JDict [(''method'', JString ''a.b''), (''params'', JList [JString ''0x1'', JNull])]),
     (''signature'', JString ''s''), (''to'', JString ''cx0'')]"

theorem serialize_injective_witness:
  "serializeDict sample_tx None (Some [''signature'' \<mapsto> True]) = serializeDict (rev sample_tx) None (Some [''signature'' \<mapsto> True]) \<and>
   length (filter (\<lambda>p. \<not> member [''signature'' \<mapsto> True] (fst p)) sample_tx) = 2"
proof -
  have p: "plain (JDict sample_tx)" by (simp add: sample_tx_def)
  obtain s where s: "serializeDict sample_tx None (Some [''signature'' \<mapsto> True]) = Ret s"
    using serializeDict_text [OF p] by blast
  from serialize_injective [OF p p s s, of "rev sample_tx"] s show ?thesis
    by (simp add: sample_tx_def member_def)
qed

text \<open>An empty string at the beginning of a list leaves no trace in the text.\<close>

theorem serialize_empty_prefix: "serializeValue (JList (JString [] # vs)) = serializeValue (JList vs)" if "list_all plain vs"
proof -
  have "serializeList_loop n (map serializeValue vs) b = serializeList_loop m (map serializeValue vs) b" for n m b
    using that by (induction vs arbitrary: n m b) (simp_all add: serializeValue_ser)
  from this [of 1 _ 0] show ?thesis by (simp add: bracket_def)
qed

end
