(* ===== verification/Icon_Client.thy ===== *)
theory Icon_Client
  imports BTP_Types Parse_Int Serialize
begin

text \<open>
  The client of an ICON node, src/chain/icon/client (client.go, type.go): the text types, signing a
  transaction, mapping errors, polling for BTP blocks, and sending a transaction and waiting for its
  result. The answers of the node (the JSON-RPC transport \<open>jsonrpc.Client.Do\<close>) are a parameter, a
  record of functions on the state of the node; so are the hash function SHA3-256, the
  wallet and the clock. Waiting has no effect on the model. The websockets are not modelled.
\<close>

section \<open>Errors\<close>

text \<open>
  The dynamic types of an error that the client tells apart: an error answer of the node with its code
  and message, an HTTP error, a URL error (refused connection or not), and any other.
\<close>

datatype go_error =
    Plain err
  | JsonrpcError int string
  | HttpError
  | UrlError bool

type_synonym 'a answer = "(go_error, 'a) outcome"

definition JsonrpcErrorCodeSystem :: int where "JsonrpcErrorCodeSystem = - 31000"
definition JsonrpcErrorCodeTxPoolOverflow :: int where "JsonrpcErrorCodeTxPoolOverflow = - 31001"
definition JsonrpcErrorCodePending :: int where "JsonrpcErrorCodePending = - 31002"
definition JsonrpcErrorCodeExecuting :: int where "JsonrpcErrorCodeExecuting = - 31003"
definition JsonrpcErrorCodeNotFound :: int where "JsonrpcErrorCodeNotFound = - 31004"

definition DuplicateTransactionError :: int where "DuplicateTransactionError = 2000"
definition TransactionPoolOverflowError :: int where "TransactionPoolOverflowError = 2001"
definition ExpiredTransactionError :: int where "ExpiredTransactionError = 2002"
definition FutureTransactionError :: int where "FutureTransactionError = 2003"

lemmas rpc_codes = JsonrpcErrorCodeSystem_def JsonrpcErrorCodeTxPoolOverflow_def JsonrpcErrorCodePending_def
  JsonrpcErrorCodeExecuting_def JsonrpcErrorCodeNotFound_def DuplicateTransactionError_def
  TransactionPoolOverflowError_def ExpiredTransactionError_def FutureTransactionError_def

definition ErrConnectFail :: go_error where "ErrConnectFail = Plain (StdError ''fail to connect'')"
definition ErrSendFailByExpired :: go_error where "ErrSendFailByExpired = Plain (StdError ''reject by expired'')"
definition ErrSendFailByFuture :: go_error where "ErrSendFailByFuture = Plain (StdError ''reject by future'')"
definition ErrSendFailByOverflow :: go_error where "ErrSendFailByOverflow = Plain (StdError ''reject by overflow'')"
definition ErrGetResultFailByPending :: go_error where
  "ErrGetResultFailByPending = Plain (StdError ''fail to getresult by pending'')"

text \<open>\<open>strconv.ParseInt(re.Message[1:5], 0, 32)\<close>; a shorter message panics.\<close>

definition subEc :: "string \<Rightarrow> int option answer" where
  "subEc m = (if length m < 5 then Panic
     else Ret (case ParseInt (take 4 (drop 1 m)) 32 of Ret v \<Rightarrow> Some v | _ \<Rightarrow> None))"

definition MapError :: "go_error option \<Rightarrow> go_error option answer" where
  "MapError err = (case err of None \<Rightarrow> Ret None
    | Some (JsonrpcError c m) \<Rightarrow>
        (if c = JsonrpcErrorCodeTxPoolOverflow then Ret (Some ErrSendFailByOverflow)
         else if c = JsonrpcErrorCodeSystem then bind_r (subEc m) (\<lambda>sub. Ret (Some
           (if sub = Some ExpiredTransactionError then ErrSendFailByExpired
            else if sub = Some FutureTransactionError then ErrSendFailByFuture
            else if sub = Some TransactionPoolOverflowError then ErrSendFailByOverflow
            else JsonrpcError c m)))
         else if c = JsonrpcErrorCodePending \<or> c = JsonrpcErrorCodeExecuting then Ret (Some ErrGetResultFailByPending)
         else Ret (Some (JsonrpcError c m)))
    | Some HttpError \<Rightarrow> Ret (Some ErrConnectFail)
    | Some (UrlError refused) \<Rightarrow> Ret (Some (if refused then ErrConnectFail else UrlError refused))
    | Some (Plain e) \<Rightarrow> Ret (Some (Plain e)))"

section \<open>Text types\<close>

text \<open>\<open>hex.DecodeString\<close>: pairs of digits of either case.\<close>

definition hex_val :: "char \<Rightarrow> nat option" where
  "hex_val c = (case digit_val c of Some d \<Rightarrow> if d < 16 then Some d else None | None \<Rightarrow> None)"

fun hex_DecodeString :: "string \<Rightarrow> bytes option" where
  "hex_DecodeString [] = Some []"
| "hex_DecodeString (p # q # cs) = (case (hex_val p, hex_val q, hex_DecodeString cs) of
      (Some a, Some b, Some bs) \<Rightarrow> Some (word_of_nat (a * 16 + b) # bs) | _ \<Rightarrow> None)"
| "hex_DecodeString [p] = None"

text \<open>\<open>HexBytes\<close>: the empty text is nil; slicing off the prefix of a shorter text panics.\<close>

definition HexBytes_Value :: "string \<Rightarrow> bytes answer" where
  "HexBytes_Value hs = (if hs = [] then Ret [] else if length hs < 2 then Panic
     else (case hex_DecodeString (drop 2 hs) of Some b \<Rightarrow> Ret b | None \<Rightarrow> Fail (Plain (StdError ''encoding/hex''))))"

definition NewHexBytes :: "bytes \<Rightarrow> string" where
  "NewHexBytes b = ''0x'' @ hex_EncodeToString b"

definition plain_errors :: "'a result \<Rightarrow> 'a answer" where
  "plain_errors r = (case r of Ret v \<Rightarrow> Ret v | Fail e \<Rightarrow> Fail (Plain e) | Panic \<Rightarrow> Panic | OutOfFuel \<Rightarrow> OutOfFuel)"

definition HexInt_Value :: "string \<Rightarrow> int answer" where
  "HexInt_Value i = plain_errors (ParseInt i 64)"

definition NewHexInt :: "int \<Rightarrow> string" where
  "NewHexInt v = FormatInt (word_of_int v)"

text \<open>\<open>base64.StdEncoding\<close> and \<open>base64.URLEncoding\<close>.\<close>

definition b64_char :: "bool \<Rightarrow> nat \<Rightarrow> char" where
  "b64_char url n = (if n < 26 then char_of (65 + n) else if n < 52 then char_of (71 + n) else if n < 62 then char_of (n - 4)
     else if n = 62 then (if url then CHR ''-'' else CHR ''+'') else (if url then CHR ''_'' else CHR ''/''))"

fun base64_EncodeToString :: "bool \<Rightarrow> bytes \<Rightarrow> string" where
  "base64_EncodeToString url (a # b # c # bs) = (let n = (unat a * 256 + unat b) * 256 + unat c in
     map (b64_char url) [n div 262144, n div 4096 mod 64, n div 64 mod 64, n mod 64] @ base64_EncodeToString url bs)"
| "base64_EncodeToString url [a, b] = (let n = (unat a * 256 + unat b) * 256 in
     map (b64_char url) [n div 262144, n div 4096 mod 64, n div 64 mod 64] @ ''='')"
| "base64_EncodeToString url [a] = (let n = unat a * 65536 in map (b64_char url) [n div 262144, n div 4096 mod 64] @ ''=='')"
| "base64_EncodeToString url [] = []"

section \<open>Requests and answers\<close>

datatype method_params =
    BMCRelayMethodParams (Prev: string) (Messages: string)
  | BMCFragmentMethodParams (Prev: string) (Messages: string) (Index: string)
  | BMCStatusParams (Target: string)

record CallData =
  Method :: string
  Params :: method_params

record TransactionParam =
  tx_Version :: string
  tx_FromAddress :: string
  tx_ToAddress :: string
  tx_StepLimit :: string
  tx_Timestamp :: string
  tx_NetworkID :: string
  tx_Signature :: string
  tx_DataType :: string
  tx_Data :: CallData
  tx_TxHash :: string

record CallParam =
  cp_FromAddress :: string
  cp_ToAddress :: string
  cp_DataType :: string
  cp_Data :: CallData

record BTPBlockParam =
  bp_Height :: string
  bp_NetworkId :: string

text \<open>What is read of a transaction result: the status and the failure, if there is one.\<close>

record TransactionResult =
  tr_Status :: string
  tr_Failure :: "(string \<times> string) option"

record BMCStatus =
  bs_TxSeq :: string
  bs_RxSeq :: string
  bs_Height :: string
  bs_Extra :: string

record 'n icon_node =
  nd_now :: "'n \<Rightarrow> int"
  nd_sendTransaction :: "TransactionParam \<Rightarrow> 'n \<Rightarrow> string answer \<times> 'n"
  nd_getTransactionResult :: "string \<Rightarrow> 'n \<Rightarrow> TransactionResult answer \<times> 'n"
  nd_getStatus :: "CallParam \<Rightarrow> 'n \<Rightarrow> BMCStatus answer \<times> 'n"
  nd_callInt :: "CallParam \<Rightarrow> 'n \<Rightarrow> string answer \<times> 'n"
  nd_getHeader :: "BTPBlockParam \<Rightarrow> 'n \<Rightarrow> string answer \<times> 'n"
  nd_getMessages :: "BTPBlockParam \<Rightarrow> 'n \<Rightarrow> string list answer \<times> 'n"
  nd_getProof :: "BTPBlockParam \<Rightarrow> 'n \<Rightarrow> string answer \<times> 'n"

section \<open>Signing\<close>

text \<open>The map that \<open>encoding/json\<close> makes of a request and reads back; empty optional fields are left out.\<close>

definition params_json :: "method_params \<Rightarrow> (string \<times> json) list" where
  "params_json p = (case p of
      BMCRelayMethodParams prev m \<Rightarrow> [(''_prev'', JString prev), (''_msg'', JString m)]
    | BMCFragmentMethodParams prev m i \<Rightarrow> [(''_prev'', JString prev), (''_msg'', JString m), (''_idx'', JString i)]
    | BMCStatusParams t \<Rightarrow> [(''_link'', JString t)])"

definition tx_json :: "TransactionParam \<Rightarrow> (string \<times> json) list" where
  "tx_json p = [(''version'', JString (tx_Version p)), (''from'', JString (tx_FromAddress p)), (''to'', JString (tx_ToAddress p)),
     (''stepLimit'', JString (tx_StepLimit p)), (''timestamp'', JString (tx_Timestamp p)), (''nid'', JString (tx_NetworkID p)),
     (''signature'', JString (tx_Signature p))] @
     (if tx_DataType p = [] then [] else [(''dataType'', JString (tx_DataType p))]) @
     [(''data'', JDict [(''method'', JString (Method (tx_Data p))), (''params'', JDict (params_json (Params (tx_Data p))))])]"

definition txSerializeExcludes :: "string \<rightharpoonup> bool" where
  "txSerializeExcludes = [''signature'' \<mapsto> True]"

definition SignTransaction :: "(bytes \<Rightarrow> bytes) \<Rightarrow> (bytes \<Rightarrow> bytes answer) \<Rightarrow> int \<Rightarrow> TransactionParam \<Rightarrow> TransactionParam answer" where
  "SignTransaction H sign now p = (let p1 = p\<lparr>tx_Timestamp := NewHexInt now\<rparr> in
     bind_r (plain_errors (SerializeMap (tx_json p1) None (Some txSerializeExcludes))) (\<lambda>bs.
       let txHash = H (string_bytes (''icx_sendTransaction.'' @ bs)) in
       bind_r (sign txHash) (\<lambda>sig.
         Ret (p1\<lparr>tx_TxHash := NewHexBytes txHash, tx_Signature := base64_EncodeToString False sig\<rparr>))))"

section \<open>Polling for BTP blocks\<close>

definition BlockRetryLimit :: nat where "BlockRetryLimit = 5"

text \<open>
  The loop that \<open>GetBTPHeader\<close>, \<open>getBTPMessage\<close> and \<open>GetBTPProof\<close> share: an answer that there is no such
  block yet is retried a few times, an error of another type without limit.
\<close>

fun pollLoop :: "nat \<Rightarrow> nat \<Rightarrow> ('n \<Rightarrow> 'a answer \<times> 'n) \<Rightarrow> 'n \<Rightarrow> 'a answer \<times> 'n" where
  "pollLoop 0 retry ask n = (OutOfFuel, n)"
| "pollLoop (Suc fuel) retry ask n = (case ask n of
      (Ret v, n') \<Rightarrow> (Ret v, n')
    | (Fail e, n') \<Rightarrow> (case e of
          JsonrpcError c m \<Rightarrow> (if c = JsonrpcErrorCodeNotFound then
             (if retry = 0 then (Fail (Plain (StdError ''polling failed, retries exceeded'')), n') else pollLoop fuel (retry - 1) ask n')
           else (Fail e, n'))
        | _ \<Rightarrow> pollLoop fuel retry ask n')
    | (Panic, n') \<Rightarrow> (Panic, n') | (OutOfFuel, n') \<Rightarrow> (OutOfFuel, n'))"

definition GetBTPHeader :: "nat \<Rightarrow> 'n icon_node \<Rightarrow> BTPBlockParam \<Rightarrow> 'n \<Rightarrow> string answer \<times> 'n" where
  "GetBTPHeader fuel N p n = pollLoop fuel BlockRetryLimit (nd_getHeader N p) n"

definition getBTPMessage :: "nat \<Rightarrow> 'n icon_node \<Rightarrow> BTPBlockParam \<Rightarrow> 'n \<Rightarrow> string list answer \<times> 'n" where
  "getBTPMessage fuel N p n = pollLoop fuel BlockRetryLimit (nd_getMessages N p) n"

definition GetBTPMessage :: "nat \<Rightarrow> 'n icon_node \<Rightarrow> int \<Rightarrow> int \<Rightarrow> 'n \<Rightarrow> string list answer \<times> 'n" where
  "GetBTPMessage fuel N height nid n =
     getBTPMessage fuel N \<lparr>bp_Height = FormatInt (word_of_int height), bp_NetworkId = FormatInt (word_of_int nid)\<rparr> n"

definition GetBTPProof :: "nat \<Rightarrow> 'n icon_node \<Rightarrow> BTPBlockParam \<Rightarrow> 'n \<Rightarrow> string answer \<times> 'n" where
  "GetBTPProof fuel N p n = pollLoop fuel BlockRetryLimit (nd_getProof N p) n"

section \<open>Calls and transactions\<close>

definition linkCall :: "string \<Rightarrow> string \<Rightarrow> string \<Rightarrow> CallParam" where
  "linkCall m src dst = \<lparr>cp_FromAddress = [], cp_ToAddress = Account src, cp_DataType = ''call'',
     cp_Data = \<lparr>Method = m, Params = BMCStatusParams dst\<rparr>\<rparr>"

definition GetBTPLinkNetworkId :: "'n icon_node \<Rightarrow> string \<Rightarrow> string \<Rightarrow> 'n \<Rightarrow> int answer \<times> 'n" where
  "GetBTPLinkNetworkId N src dst n = (case nd_callInt N (linkCall ''getBTPLinkNetworkId'' src dst) n of
      (r, n') \<Rightarrow> (bind_r r HexInt_Value, n'))"

definition GetBTPLinkOffset :: "'n icon_node \<Rightarrow> string \<Rightarrow> string \<Rightarrow> 'n \<Rightarrow> int answer \<times> 'n" where
  "GetBTPLinkOffset N src dst n = (case nd_callInt N (linkCall ''getBTPLinkOffset'' src dst) n of
      (r, n') \<Rightarrow> (bind_r r HexInt_Value, n'))"

text \<open>The status of the link, read field by field.\<close>

definition linkStatus :: "BMCStatus \<Rightarrow> bmcLinkStatus answer" where
  "linkStatus bs = bind_r (HexInt_Value (bs_TxSeq bs)) (\<lambda>tx. bind_r (HexInt_Value (bs_RxSeq bs)) (\<lambda>rx.
     bind_r (HexInt_Value (bs_Height bs)) (\<lambda>h. bind_r (HexBytes_Value (bs_Extra bs)) (\<lambda>x.
       Ret \<lparr>TxSeq = tx, RxSeq = rx, VHeight = h, VExtra = x\<rparr>))))"

definition statusCall :: "string \<Rightarrow> string \<Rightarrow> string \<Rightarrow> CallParam" where
  "statusCall from src dst = \<lparr>cp_FromAddress = from, cp_ToAddress = Account dst, cp_DataType = ''call'',
     cp_Data = \<lparr>Method = ''getStatus'', Params = BMCStatusParams src\<rparr>\<rparr>"

definition client_GetStatus :: "'n icon_node \<Rightarrow> string \<Rightarrow> string \<Rightarrow> string \<Rightarrow> 'n \<Rightarrow> bmcLinkStatus answer \<times> 'n" where
  "client_GetStatus N from src dst n = (case nd_getStatus N (statusCall from src dst) n of (r, n') \<Rightarrow> (bind_r r linkStatus, n'))"

text \<open>
  The two loops of \<open>SendTransactionAndGetResult\<close>. The hash is a pointer, nil when sending failed, so
  the branch for a duplicate transaction dereferences nil. The hash is returned with an error too.
\<close>

fun txLoop :: "nat \<Rightarrow> 'n icon_node \<Rightarrow> TransactionParam \<Rightarrow> 'n \<Rightarrow> string answer \<times> 'n" where
  "txLoop 0 N p n = (OutOfFuel, n)"
| "txLoop (Suc fuel) N p n = (case nd_sendTransaction N p n of
      (Ret txh, n') \<Rightarrow> (Ret txh, n')
    | (Fail e, n') \<Rightarrow> (if e = ErrSendFailByOverflow then txLoop fuel N p n'
        else (case e of JsonrpcError c m \<Rightarrow>
            (if c = JsonrpcErrorCodeSystem then (case subEc m of
                Ret (Some sub) \<Rightarrow> if sub = DuplicateTransactionError then (Panic, n') else (Fail e, n')
              | Ret None \<Rightarrow> (Fail e, n') | Fail _ \<Rightarrow> (Fail e, n') | Panic \<Rightarrow> (Panic, n') | OutOfFuel \<Rightarrow> (OutOfFuel, n'))
             else (Fail e, n'))
          | _ \<Rightarrow> (Fail e, n')))
    | (Panic, n') \<Rightarrow> (Panic, n') | (OutOfFuel, n') \<Rightarrow> (OutOfFuel, n'))"

fun txrLoop :: "nat \<Rightarrow> 'n icon_node \<Rightarrow> string \<Rightarrow> 'n \<Rightarrow> TransactionResult answer \<times> 'n" where
  "txrLoop 0 N txh n = (OutOfFuel, n)"
| "txrLoop (Suc fuel) N txh n = (case nd_getTransactionResult N txh n of
      (Fail (JsonrpcError c m), n') \<Rightarrow>
        (if c = JsonrpcErrorCodePending \<or> c = JsonrpcErrorCodeExecuting then txrLoop fuel N txh n' else (Fail (JsonrpcError c m), n'))
    | (r, n') \<Rightarrow> (r, n'))"

definition SendTransactionAndGetResult :: "nat \<Rightarrow> 'n icon_node \<Rightarrow> TransactionParam \<Rightarrow> 'n \<Rightarrow> string \<times> TransactionResult answer \<times> 'n" where
  "SendTransactionAndGetResult fuel N p n = (case txLoop fuel N p n of
      (Ret txh, n') \<Rightarrow> (case txrLoop fuel N txh n' of (r, n'') \<Rightarrow> (txh, r, n''))
    | (Fail e, n') \<Rightarrow> ([], Fail e, n') | (Panic, n') \<Rightarrow> ([], Panic, n') | (OutOfFuel, n') \<Rightarrow> ([], OutOfFuel, n'))"

end
