(* ===== verification/Relay_Queue.thy ===== *)
theory Relay_Queue
  imports BTP_Types "HOL-Library.Multiset"
begin

text \<open>
  The queue of relay messages that were sent and whose result is awaited. The senders of ICON and of
  Ethereum have a copy each (src/chain/icon/sender.go, src/chain/ethbr/sender.go). Neither is protected by
  a lock, though the link appends to it while the goroutines that await results remove from it: the
  operations are given as they run alone, and as steps that interleave. The bookkeeping of messages that are
  accepted, awaited and reported is stated once, as a locale that both senders meet.
\<close>

section \<open>The queues\<close>

record relayMessageTx =
  rt_id :: string
  rt_txHash :: bytes

type_synonym queue = "relayMessageTx list"

definition MaxQueueSize :: nat where "MaxQueueSize = 100"

definition newQueue :: queue where "newQueue = []"

definition enqueue :: "string \<Rightarrow> bytes \<Rightarrow> queue \<Rightarrow> err option \<times> queue" where
  "enqueue i txHash q = (if MaxQueueSize \<le> length q then (Some (StdError ''queue full''), q)
     else (None, q @ [\<lparr>rt_id = i, rt_txHash = txHash\<rparr>]))"

text \<open>The entry of the message and all entries before it are dropped.\<close>

definition dequeue :: "string \<Rightarrow> queue \<Rightarrow> queue" where
  "dequeue i q = drop_through (\<lambda>rm. rt_id rm = i) q"

definition isEmpty :: "queue \<Rightarrow> bool" where "isEmpty q \<longleftrightarrow> length q = 0"

definition queue_len :: "queue \<Rightarrow> nat" where "queue_len q = length q"

text \<open>The copy of the Ethereum sender.\<close>

definition ethbr_MaxQueueSize :: nat where "ethbr_MaxQueueSize = 100"

definition ethbr_newQueue :: queue where "ethbr_newQueue = []"

definition ethbr_enqueue :: "string \<Rightarrow> bytes \<Rightarrow> queue \<Rightarrow> err option \<times> queue" where
  "ethbr_enqueue i txHash q = (if ethbr_MaxQueueSize \<le> length q then (Some (StdError ''queue full''), q)
     else (None, q @ [\<lparr>rt_id = i, rt_txHash = txHash\<rparr>]))"

definition ethbr_dequeue :: "string \<Rightarrow> queue \<Rightarrow> queue" where
  "ethbr_dequeue i q = drop_through (\<lambda>rm. rt_id rm = i) q"

definition ethbr_isEmpty :: "queue \<Rightarrow> bool" where "ethbr_isEmpty q \<longleftrightarrow> length q = 0"

definition ethbr_queue_len :: "queue \<Rightarrow> nat" where "ethbr_queue_len q = length q"

section \<open>The queue as the goroutines share it\<close>

text \<open>
  The steps are the reads and the writes of the slice \<open>values\<close>. There is one goroutine in \<open>enqueue\<close> at a time, as
  \<open>Relay\<close> is called with the link's mutex held: it looks at the length, reads the slice and writes the longer
  one. There are any number of goroutines in \<open>dequeue\<close>: one looks for its message in the slice it finds, reads the
  slice again and writes the rest of it from behind the position.
\<close>

datatype enqueuer = Idle | Checked relayMessageTx | Loaded relayMessageTx queue

datatype dequeuer = Searching string | Found nat | Sliced queue

record shared_queue =
  sq_values :: queue
  sq_enq :: enqueuer
  sq_deqs :: "dequeuer list"

definition position :: "string \<Rightarrow> queue \<Rightarrow> nat option" where
  "position i q = (if \<exists>rm\<in>set q. rt_id rm = i then Some (length (takeWhile (\<lambda>rm. rt_id rm \<noteq> i) q)) else None)"

text \<open>
  Slices share their array, so an append may overwrite what another goroutine is searching; with \<open>reuse\<close> the
  search may come to any position of the slice it started with.
\<close>

inductive queue_step :: "nat \<Rightarrow> bool \<Rightarrow> shared_queue \<Rightarrow> shared_queue \<Rightarrow> bool"
  for cap :: nat and reuse :: bool where
  check: "sq_enq z = Idle \<Longrightarrow> \<not> cap \<le> length (sq_values z) \<Longrightarrow> queue_step cap reuse z (z\<lparr>sq_enq := Checked x\<rparr>)"
| load: "sq_enq z = Checked x \<Longrightarrow> queue_step cap reuse z (z\<lparr>sq_enq := Loaded x (sq_values z)\<rparr>)"
| store: "sq_enq z = Loaded x q \<Longrightarrow> queue_step cap reuse z (z\<lparr>sq_values := q @ [x], sq_enq := Idle\<rparr>)"
| call: "queue_step cap reuse z (z\<lparr>sq_deqs := sq_deqs z @ [Searching i]\<rparr>)"
| search: "sq_deqs z = a @ Searching i # b \<Longrightarrow> position i (sq_values z) = Some k \<Longrightarrow>
    queue_step cap reuse z (z\<lparr>sq_deqs := a @ Found k # b\<rparr>)"
| overwritten: "reuse \<Longrightarrow> sq_deqs z = a @ Searching i # b \<Longrightarrow> k < length (sq_values z) \<Longrightarrow>
    queue_step cap reuse z (z\<lparr>sq_deqs := a @ Found k # b\<rparr>)"
| absent: "sq_deqs z = a @ Searching i # b \<Longrightarrow> position i (sq_values z) = None \<Longrightarrow>
    queue_step cap reuse z (z\<lparr>sq_deqs := a @ b\<rparr>)"
| slice: "sq_deqs z = a @ Found k # b \<Longrightarrow> Suc k \<le> length (sq_values z) \<Longrightarrow>
    queue_step cap reuse z (z\<lparr>sq_deqs := a @ Sliced (drop (Suc k) (sq_values z)) # b\<rparr>)"
| replace: "sq_deqs z = a @ Sliced q # b \<Longrightarrow> queue_step cap reuse z (z\<lparr>sq_values := q, sq_deqs := a @ b\<rparr>)"

text \<open>A goroutine whose position is beyond the slice it reads panics: slice bounds out of range.\<close>

definition slice_panics :: "shared_queue \<Rightarrow> bool" where
  "slice_panics z \<longleftrightarrow> (\<exists>k. Found k \<in> set (sq_deqs z) \<and> length (sq_values z) < Suc k)"

abbreviation alone :: "queue \<Rightarrow> dequeuer list \<Rightarrow> shared_queue" where
  "alone q ds \<equiv> \<lparr>sq_values = q, sq_enq = Idle, sq_deqs = ds\<rparr>"

inductive queue_reachable :: "nat \<Rightarrow> bool \<Rightarrow> shared_queue \<Rightarrow> bool"
  for cap :: nat and reuse :: bool where
  empty: "queue_reachable cap reuse (alone [] [])"
| step: "queue_reachable cap reuse z \<Longrightarrow> queue_step cap reuse z z' \<Longrightarrow> queue_reachable cap reuse z'"

text \<open>Steps that nobody interrupts are the operations.\<close>

lemma takeWhile_shorter: "x \<in> set xs \<Longrightarrow> \<not> P x \<Longrightarrow> length (takeWhile P xs) < length xs"
  by (induction xs) auto

lemma position_drop:
  "dequeue i q = (case position i q of Some k \<Rightarrow> drop (Suc k) q | None \<Rightarrow> q)"
  "position i q = Some k \<Longrightarrow> k < length q"
proof -
  let ?P = "\<lambda>rm. rt_id rm \<noteq> i"
  show "dequeue i q = (case position i q of Some k \<Rightarrow> drop (Suc k) q | None \<Rightarrow> q)"
  proof (cases "dropWhile ?P q")
    case Nil
    then have "position i q = None" by (auto simp: position_def dropWhile_eq_Nil_conv)
    then show ?thesis by (simp add: dequeue_def drop_through_def Nil del: dropWhile_eq_Nil_conv)
  next
    case (Cons x xs)
    then have "x \<in> set q" "rt_id x = i"
      using set_dropWhileD [of x ?P q] hd_dropWhile [of ?P q] by auto
    moreover have "drop (Suc (length (takeWhile ?P q))) q = xs"
      using Cons dropWhile_eq_drop [of ?P q] by (metis drop_Suc list.sel(3) tl_drop)
    ultimately show ?thesis using Cons by (auto simp: dequeue_def drop_through_def position_def)
  qed
  show "position i q = Some k \<Longrightarrow> k < length q"
    by (auto simp: position_def takeWhile_shorter split: if_splits)
qed

lemma reach_steps: "(queue_step cap reuse)\<^sup>*\<^sup>* z z' \<Longrightarrow> queue_reachable cap reuse z \<Longrightarrow> queue_reachable cap reuse z'"
  by (induction rule: rtranclp_induct) (auto intro: queue_reachable.step)

lemma enqueue_steps:
  assumes "length q < cap"
  shows "(queue_step cap reuse)\<^sup>*\<^sup>* (alone q ds) (alone (q @ [x]) ds)"
  using queue_step.check [of "alone q ds" cap reuse x] queue_step.load [of "(alone q ds)\<lparr>sq_enq := Checked x\<rparr>" x cap reuse]
    queue_step.store [of "(alone q ds)\<lparr>sq_enq := Loaded x q\<rparr>" x q cap reuse] assms
  by (auto intro: converse_rtranclp_into_rtranclp)

lemma dequeue_steps: "(queue_step cap reuse)\<^sup>*\<^sup>* (alone q ds) (alone (dequeue i q) ds)"
proof -
  have 1: "queue_step cap reuse (alone q ds) (alone q (ds @ [Searching i]))"
    using queue_step.call [of cap reuse "alone q ds" i] by simp
  show ?thesis
  proof (cases "position i q")
    case None
    with queue_step.absent [of "alone q (ds @ [Searching i])" ds i "[]" cap reuse] 1 show ?thesis
      by (auto simp: position_drop(1) intro: converse_rtranclp_into_rtranclp)
  next
    case (Some k)
    with queue_step.search [of "alone q (ds @ [Searching i])" ds i "[]" k cap reuse]
      queue_step.slice [of "alone q (ds @ [Found k])" ds k "[]" cap reuse]
      queue_step.replace [of "alone q (ds @ [Sliced (drop (Suc k) q)])" ds "drop (Suc k) q" "[]" cap reuse]
      position_drop(2) [OF Some] 1 show ?thesis
      by (auto simp: position_drop(1) intro: converse_rtranclp_into_rtranclp)
  qed
qed

text \<open>The bound holds at every step: whoever is about to write a slice has a short enough one.\<close>

definition bounded :: "nat \<Rightarrow> shared_queue \<Rightarrow> bool" where
  "bounded cap z \<longleftrightarrow> length (sq_values z) \<le> cap \<and>
     (case sq_enq z of Idle \<Rightarrow> True | Checked x \<Rightarrow> length (sq_values z) < cap | Loaded x q \<Rightarrow> length q < cap) \<and>
     (\<forall>q. Sliced q \<in> set (sq_deqs z) \<longrightarrow> length q < cap)"

lemma bounded_step: "queue_step cap reuse z z' \<Longrightarrow> bounded cap z \<Longrightarrow> bounded cap z'"
  by (induction rule: queue_step.induct) (auto simp: bounded_def split: enqueuer.splits)

lemma bounded_reachable: "queue_reachable cap reuse z \<Longrightarrow> bounded cap z"
  by (induction rule: queue_reachable.induct) (simp add: bounded_def, rule bounded_step)

text \<open>
  C5: however the goroutines of a sender interleave - one that appends, any number that remove, in every order of
  their reads and writes - the queue never has more than a hundred entries, for both senders; and the
  operations as they run alone are among these runs.
\<close>
theorem queue_never_overflows:
  assumes "queue_reachable MaxQueueSize reuse z \<or> queue_reachable ethbr_MaxQueueSize reuse z"
  shows "length (sq_values z) \<le> 100 \<and>
    ((\<forall>cap. (queue_step cap reuse)\<^sup>*\<^sup>* (alone q ds) (alone (dequeue i q) ds) \<and> (queue_step cap reuse)\<^sup>*\<^sup>* (alone q ds) (alone (ethbr_dequeue i q) ds)) \<and>
     (queue_step MaxQueueSize reuse)\<^sup>*\<^sup>* (alone q ds) (alone (snd (enqueue i h q)) ds) \<and>
     (queue_step ethbr_MaxQueueSize reuse)\<^sup>*\<^sup>* (alone q ds) (alone (snd (ethbr_enqueue i h q)) ds))"
proof -
  have "length (sq_values z) \<le> 100"
    using assms bounded_reachable by (fastforce simp: bounded_def MaxQueueSize_def ethbr_MaxQueueSize_def)
  moreover have "ethbr_dequeue i q = dequeue i q" by (simp add: ethbr_dequeue_def dequeue_def)
  ultimately show ?thesis
    using dequeue_steps enqueue_steps by (auto simp: enqueue_def ethbr_enqueue_def)
qed

text \<open>
  What the missing lock allows, with the searches undisturbed: a removal can panic with slice bounds out of range when
  another one was faster; an entry that was removed can be back in the queue, with no goroutine left that would
  remove it; and an entry that was just appended can be lost.
\<close>
theorem queue_races:
  assumes "a \<noteq> b" and "q = [\<lparr>rt_id = a, rt_txHash = h\<rparr>, \<lparr>rt_id = b, rt_txHash = h'\<rparr>]" and "length q < cap"
  shows "(\<exists>z. (queue_step cap False)\<^sup>*\<^sup>* (alone q [Searching a, Searching b]) z \<and> slice_panics z) \<and>
    (queue_step cap False)\<^sup>*\<^sup>* (alone q [Searching a, Searching b]) (alone [\<lparr>rt_id = b, rt_txHash = h'\<rparr>] []) \<and>
    (\<exists>z. sq_values z = q @ [x] \<and> (queue_step cap False)\<^sup>*\<^sup>* (alone q [Searching b]) z \<and> queue_step cap False z (alone [] []))"
proof -
  let ?s = "queue_step cap False" and ?e = "\<lparr>rt_id = b, rt_txHash = h'\<rparr>"
  have pos: "position a q = Some 0" "position b q = Some 1" using assms(1) by (auto simp: position_def assms(2))
  have d: "drop 1 q = [?e]" "drop (Suc 1) q = []" by (simp_all add: assms(2))
  have fb: "?s (alone q (ds @ [Searching b])) (alone q (ds @ [Found 1]))" for ds
    using queue_step.search [of "alone q (ds @ [Searching b])" ds b "[]" 1 cap False] pos by simp
  have sb: "?s (alone q (ds @ [Found 1])) (alone q (ds @ [Sliced []]))" for ds
    using queue_step.slice [of "alone q (ds @ [Found 1])" ds 1 "[]" cap False] d by (simp add: assms(2))
  have rb: "?s (alone q (ds @ [Sliced []])) (alone [] ds)" for ds
    using queue_step.replace [of "alone q (ds @ [Sliced []])" ds "[]" "[]" cap False] by simp
  have b: "?s\<^sup>*\<^sup>* (alone q (ds @ [Searching b])) (alone [] ds)" for ds
    by (rule converse_rtranclp_into_rtranclp [of ?s, OF fb], rule converse_rtranclp_into_rtranclp [of ?s, OF sb],
        rule r_into_rtranclp [of ?s, OF rb])
  have fa: "?s (alone q (Searching a # ds)) (alone q (Found 0 # ds))" for ds
    using queue_step.search [of "alone q (Searching a # ds)" "[]" a ds 0 cap False] pos by simp
  have sa: "?s (alone q (Found 0 # ds)) (alone q (Sliced [?e] # ds))" for ds
    using queue_step.slice [of "alone q (Found 0 # ds)" "[]" 0 ds cap False] d by (simp add: assms(2))
  have ra: "?s (alone [] [Sliced [?e]]) (alone [?e] [])"
    using queue_step.replace [of "alone [] [Sliced [?e]]" "[]" "[?e]" "[]" cap False] by simp
  note step = converse_rtranclp_into_rtranclp
  have "?s\<^sup>*\<^sup>* (alone q [Searching a, Searching b]) (alone [] [Found 0])"
    using step [of ?s, OF fa b [of "[Found 0]", unfolded append_Cons append_Nil]] .
  moreover have "slice_panics (alone [] [Found 0])" by (simp add: slice_panics_def)
  ultimately have 1: "\<exists>z. ?s\<^sup>*\<^sup>* (alone q [Searching a, Searching b]) z \<and> slice_panics z" by blast
  have "?s\<^sup>*\<^sup>* (alone q [Sliced [?e], Searching b]) (alone [] [Sliced [?e]])"
    using b [of "[Sliced [?e]]"] by simp
  from rtranclp.rtrancl_into_rtrancl [OF step [of ?s, OF fa step [of ?s, OF sa this]] ra]
  have 2: "?s\<^sup>*\<^sup>* (alone q [Searching a, Searching b]) (alone [?e] [])" .
  have "?s\<^sup>*\<^sup>* (alone q [Sliced []]) (alone (q @ [x]) [Sliced []])" by (rule enqueue_steps [OF assms(3)])
  from step [of ?s, OF fb [of "[]", unfolded append_Nil] step [of ?s, OF sb [of "[]", unfolded append_Nil] this]]
  have 3: "?s\<^sup>*\<^sup>* (alone q [Searching b]) (alone (q @ [x]) [Sliced []])" .
  have 4: "?s (alone (q @ [x]) [Sliced []]) (alone [] [])"
    using queue_step.replace [of "alone (q @ [x]) [Sliced []]" "[]" "[]" "[]" cap False] by simp
  have "sq_values (alone (q @ [x]) [Sliced []]) = q @ [x]" by simp
  with 1 2 3 4 show ?thesis by blast
qed

definition two_sent :: queue where
  "two_sent = [\<lparr>rt_id = ''a'', rt_txHash = [1]\<rparr>, \<lparr>rt_id = ''b'', rt_txHash = [2]\<rparr>]"

theorem queue_never_overflows_witness:
  "length two_sent \<le> 100 \<and> length (dequeue ''a'' two_sent) = 1"
proof -
  have "(queue_step MaxQueueSize True)\<^sup>*\<^sup>* (alone [] []) (alone two_sent [])"
    using enqueue_steps [of "[]" MaxQueueSize True "[]" "hd two_sent"] enqueue_steps [of "[hd two_sent]" MaxQueueSize True "[]" "last two_sent"]
    by (simp add: MaxQueueSize_def two_sent_def)
  then have "queue_reachable MaxQueueSize True (alone two_sent [])" by (rule reach_steps) (rule queue_reachable.empty)
  with queue_never_overflows [of True "alone two_sent []"] show ?thesis
    by (simp add: two_sent_def dequeue_def drop_through_def)
qed

theorem queue_races_witness:
  "\<exists>z. (queue_step MaxQueueSize False)\<^sup>*\<^sup>* (alone two_sent [Searching ''a'', Searching ''b'']) z \<and> slice_panics z"
  using queue_races [of "''a''" "''b''" two_sent "[1]" "[2]" MaxQueueSize] by (simp add: two_sent_def MaxQueueSize_def)

section \<open>Messages accepted, awaited and reported\<close>

text \<open>
  A sender that accepts a message starts a goroutine for it, which ends with an outcome and then reports a result to the
  link if the outcome has a code. \<open>acc\<close> are the messages that were accepted, \<open>fin\<close> those whose goroutine
  ended, with the outcome, in that order; the identifiers may repeat.
\<close>

locale reporting_sender =
  fixes running :: "'s \<Rightarrow> (string \<times> 'h) list" and reports :: "'s \<Rightarrow> relayResult list"
    and accepts :: "string \<Rightarrow> 's \<Rightarrow> 's \<Rightarrow> bool" and refuses :: "'s \<Rightarrow> 's \<Rightarrow> bool"
    and ends :: "string \<times> 'h \<Rightarrow> 'o \<Rightarrow> 's \<Rightarrow> 's \<Rightarrow> bool" and codeOf :: "'o \<Rightarrow> int option"
  assumes accepts_law: "accepts i s s' \<Longrightarrow> \<exists>h. running s' = running s @ [(i, h)] \<and> reports s' = reports s"
    and refuses_law: "refuses s s' \<Longrightarrow> running s' = running s \<and> reports s' = reports s"
    and ends_law: "ends g z s s' \<Longrightarrow> running s' = remove1 g (running s) \<and>
      reports s' = reports s @ (case codeOf z of None \<Rightarrow> [] | Some v \<Rightarrow> [\<lparr>rr_Id = fst g, rr_Err = v, rr_Finalized = True\<rparr>])"
begin

definition accounted :: "string list \<Rightarrow> (string \<times> 'o) list \<Rightarrow> 's \<Rightarrow> bool" where
  "accounted acc fin s \<longleftrightarrow> mset acc = mset (map fst (running s)) + mset (map fst fin) \<and>
     reports s = map (\<lambda>(i, z). \<lparr>rr_Id = i, rr_Err = the (codeOf z), rr_Finalized = True\<rparr>) (filter (\<lambda>(i, z). codeOf z \<noteq> None) fin)"

lemma accounted_accepts: "accounted acc fin s \<Longrightarrow> accepts i s s' \<Longrightarrow> accounted (acc @ [i]) fin s'"
  using accepts_law [of i s s'] by (auto simp: accounted_def)

lemma accounted_refuses: "accounted acc fin s \<Longrightarrow> refuses s s' \<Longrightarrow> accounted acc fin s'"
  using refuses_law [of s s'] by (simp add: accounted_def)

lemma accounted_ends:
  assumes "accounted acc fin s" and "g \<in> set (running s)" and "ends g z s s'"
  shows "accounted acc (fin @ [(fst g, z)]) s'"
proof -
  have "mset (map fst (running s)) = mset (map fst (remove1 g (running s))) + {#fst g#}"
    using assms(2) by (simp add: image_mset_Diff)
  with assms(1) ends_law [OF assms(3)] show ?thesis by (auto simp: accounted_def split: option.split)
qed

end

end
