(* ===== verification/Icon_Sender.thy ===== *)
theory Icon_Sender
  imports BTP_Link Icon_Client Relay_Queue
begin

text \<open>
  The sender of relay messages to an ICON chain, src/chain/icon/sender.go: a message goes out as one
  transaction or, when it is too long, as fragments; for each message sent a goroutine awaits the
  result of its last transaction and reports it to the link. Loops without a bound of their own
  take fuel.
\<close>

section \<open>Configuration and state\<close>

definition txMaxDataSize :: nat where "txMaxDataSize = 524288"

text \<open>\<open>math.Ceil(txMaxDataSize / (1 + txOverheadScale))\<close> with the scale 0.37.\<close>

definition txSizeLimit :: nat where "txSizeLimit = (txMaxDataSize * 100 + 136) div 137"

definition DefaultStepLimit :: int where "DefaultStepLimit = 0x9502f900"
definition TransactionResultRetryLimit :: nat where "TransactionResultRetryLimit = 5"
definition ResultStatusSuccess :: string where "ResultStatusSuccess = ''0x1''"
definition ResultStatusFailureCodeRevert :: int where "ResultStatusFailureCodeRevert = 32"
definition ResultStatusFailureCodeEnd :: int where "ResultStatusFailureCodeEnd = 99"
definition JsonrpcApiVersion :: int where "JsonrpcApiVersion = 3"

text \<open>What a sender is made with: addresses, the step limit of the options, wallet, hash function, node.\<close>

record 'n isender_cfg =
  ig_srcAddr :: string
  ig_dstAddr :: string
  ig_wallet :: string
  ig_sign :: "bytes \<Rightarrow> bytes answer"
  ig_hash :: "bytes \<Rightarrow> bytes"
  ig_stepLimit :: int
  ig_node :: "'n icon_node"

definition NewSender :: "'n isender_cfg \<Rightarrow> 'n isender_cfg" where
  "NewSender c = (if ig_stepLimit c \<le> 0 then c\<lparr>ig_stepLimit := DefaultStepLimit\<rparr> else c)"

text \<open>
  The state: the queue, the goroutines that await a result, each with the identifier of its message and
  its transaction hash, what was sent on the channel \<open>rr\<close> (oldest first), and the node.
\<close>

record 'n isender =
  is_queue :: queue
  is_running :: "(string \<times> string) list"
  is_rr :: "relayResult list"
  is_node :: 'n

definition isender_init :: "'n \<Rightarrow> 'n isender" where
  "isender_init n = \<lparr>is_queue = newQueue, is_running = [], is_rr = [], is_node = n\<rparr>"

section \<open>Transactions\<close>

definition newTransactionParam :: "'n isender_cfg \<Rightarrow> string \<Rightarrow> method_params \<Rightarrow> TransactionParam" where
  "newTransactionParam c m ps = \<lparr>tx_Version = NewHexInt JsonrpcApiVersion, tx_FromAddress = ig_wallet c,
     tx_ToAddress = Account (ig_dstAddr c), tx_StepLimit = NewHexInt (ig_stepLimit c), tx_Timestamp = [],
     tx_NetworkID = NetworkID (ig_dstAddr c), tx_Signature = [], tx_DataType = ''call'',
     tx_Data = \<lparr>Method = m, Params = ps\<rparr>, tx_TxHash = []\<rparr>"

definition map_failure :: "go_error \<Rightarrow> 'a answer" where
  "map_failure e = (case MapError (Some e) of Ret (Some e') \<Rightarrow> Fail e' | Ret None \<Rightarrow> Fail e
     | Fail e' \<Rightarrow> Fail e' | Panic \<Rightarrow> Panic | OutOfFuel \<Rightarrow> OutOfFuel)"

text \<open>
  The loops \<open>SignLoop\<close> (\<open>resign\<close>) and \<open>SendLoop\<close> of \<open>sendTransaction\<close>. Sending gives no hash together with an
  error, so a duplicate transaction is answered with the empty hash.
\<close>

fun sendTransaction_loop :: "nat \<Rightarrow> 'n isender_cfg \<Rightarrow> bool \<Rightarrow> TransactionParam \<Rightarrow> 'n \<Rightarrow> string answer \<times> 'n" where
  "sendTransaction_loop 0 c resign p n = (OutOfFuel, n)"
| "sendTransaction_loop (Suc fuel) c resign p n = (if resign
     then (case SignTransaction (ig_hash c) (ig_sign c) (nd_now (ig_node c) n) p of
         Ret p' \<Rightarrow> sendTransaction_loop fuel c False p' n
       | Fail e \<Rightarrow> (Fail e, n) | Panic \<Rightarrow> (Panic, n) | OutOfFuel \<Rightarrow> (OutOfFuel, n))
     else (case nd_sendTransaction (ig_node c) p n of
         (Ret txh, n') \<Rightarrow> (Ret txh, n')
       | (Fail e, n') \<Rightarrow> (case e of JsonrpcError jc m \<Rightarrow>
             (if jc = JsonrpcErrorCodeTxPoolOverflow then sendTransaction_loop fuel c False p n'
              else if jc = JsonrpcErrorCodeSystem then (case subEc m of
                  Ret sub \<Rightarrow> (if sub = Some DuplicateTransactionError then (Ret [], n')
                    else if sub = Some ExpiredTransactionError then sendTransaction_loop fuel c True p n'
                    else (map_failure e, n'))
                | _ \<Rightarrow> (Panic, n'))
              else (map_failure e, n'))
           | _ \<Rightarrow> (map_failure e, n'))
       | (Panic, n') \<Rightarrow> (Panic, n') | (OutOfFuel, n') \<Rightarrow> (OutOfFuel, n')))"

definition sendTransaction :: "nat \<Rightarrow> 'n isender_cfg \<Rightarrow> TransactionParam \<Rightarrow> 'n \<Rightarrow> string answer \<times> 'n" where
  "sendTransaction fuel c p n = sendTransaction_loop fuel c True p n"

definition fragmentParam :: "'n isender_cfg \<Rightarrow> bytes \<Rightarrow> int \<Rightarrow> TransactionParam" where
  "fragmentParam c m idx = newTransactionParam c ''handleFragment''
     (BMCFragmentMethodParams (ig_srcAddr c) (base64_EncodeToString True m) (NewHexInt idx))"

definition sendFragment :: "nat \<Rightarrow> 'n isender_cfg \<Rightarrow> bytes \<Rightarrow> int \<Rightarrow> 'n \<Rightarrow> string answer \<times> 'n" where
  "sendFragment fuel c m idx n = sendTransaction fuel c (fragmentParam c m idx) n"

text \<open>The loop of \<open>_relay\<close> after the first fragment.\<close>

fun relay_loop :: "nat \<Rightarrow> 'n isender_cfg \<Rightarrow> nat \<Rightarrow> bytes \<Rightarrow> 'n \<Rightarrow> string answer \<times> 'n" where
  "relay_loop fuel c 0 m n = sendFragment fuel c m 0 n"
| "relay_loop fuel c (Suc i) m n = (case sendFragment fuel c (take txSizeLimit m) (int (Suc i)) n of
      (Ret thp, n') \<Rightarrow> relay_loop fuel c i (drop txSizeLimit m) n'
    | r \<Rightarrow> r)"

definition relay :: "nat \<Rightarrow> 'n isender_cfg \<Rightarrow> bytes \<Rightarrow> 'n \<Rightarrow> string answer \<times> 'n" where
  "relay fuel c m n = (let idx = length m div txSizeLimit in
     if idx = 0 then sendTransaction fuel c (newTransactionParam c ''handleRelayMessage''
       (BMCRelayMethodParams (ig_srcAddr c) (base64_EncodeToString True m))) n
     else (case sendFragment fuel c (take txSizeLimit m) (int idx * - 1) n of
         (Ret thp, n') \<Rightarrow> relay_loop fuel c (idx - 1) (drop txSizeLimit m) n'
       | r \<Rightarrow> r))"

text \<open>\<open>Relay\<close>; the error of \<open>enqueue\<close> is not looked at.\<close>

definition Relay :: "nat \<Rightarrow> 'n isender_cfg \<Rightarrow> string \<Rightarrow> bytes \<Rightarrow> 'n isender \<Rightarrow> string answer \<times> 'n isender" where
  "Relay fuel c i m s = (if MaxQueueSize \<le> queue_len (is_queue s) then (Fail (Plain (Errorc InvalidStateError ''pending queue full'')), s)
     else (case relay fuel c m (is_node s) of
         (Ret thp, n) \<Rightarrow> (case HexBytes_Value thp of
             Ret b \<Rightarrow> (Ret i, s\<lparr>is_node := n, is_queue := snd (enqueue i b (is_queue s)), is_running := is_running s @ [(i, thp)]\<rparr>)
           | Fail e \<Rightarrow> (Fail e, s\<lparr>is_node := n\<rparr>) | Panic \<Rightarrow> (Panic, s\<lparr>is_node := n\<rparr>) | OutOfFuel \<Rightarrow> (OutOfFuel, s\<lparr>is_node := n\<rparr>))
       | (Fail e, n) \<Rightarrow> (Fail e, s\<lparr>is_node := n\<rparr>) | (Panic, n) \<Rightarrow> (Panic, s\<lparr>is_node := n\<rparr>) | (OutOfFuel, n) \<Rightarrow> (OutOfFuel, s\<lparr>is_node := n\<rparr>)))"

section \<open>Results\<close>

text \<open>The error of a transaction, if any; a failed result without failure dereferences nil.\<close>

definition mapErrorWithTransactionResult :: "TransactionResult option \<Rightarrow> go_error option \<Rightarrow> go_error option answer" where
  "mapErrorWithTransactionResult txr err = bind_r (MapError err) (\<lambda>e. case (e, txr) of
      (None, Some r) \<Rightarrow> (if tr_Status r \<noteq> ResultStatusSuccess then (case tr_Failure r of
          None \<Rightarrow> Panic
        | Some (cv, mv) \<Rightarrow> (let fc = (case HexInt_Value cv of Ret v \<Rightarrow> v | _ \<Rightarrow> 0) in
            if fc < ResultStatusFailureCodeRevert \<or> fc > ResultStatusFailureCodeEnd
            then Ret (Some (Plain (StdError (''failure with code:'' @ cv @ '', message:'' @ mv))))
            else Ret (map_option Plain (NewRevertError (fc - ResultStatusFailureCodeRevert)))))
        else Ret None)
    | _ \<Rightarrow> Ret e)"

fun GetResult :: "nat \<Rightarrow> nat \<Rightarrow> 'n icon_node \<Rightarrow> string \<Rightarrow> 'n \<Rightarrow> go_error option answer \<times> 'n" where
  "GetResult 0 retry N txh n = (OutOfFuel, n)"
| "GetResult (Suc fuel) retry N txh n = (case nd_getTransactionResult N txh n of
      (Ret txr, n') \<Rightarrow> (mapErrorWithTransactionResult (Some txr) None, n')
    | (Fail e, n') \<Rightarrow> (case e of JsonrpcError jc m \<Rightarrow>
          (if jc = JsonrpcErrorCodePending \<or> jc = JsonrpcErrorCodeExecuting then GetResult fuel retry N txh n'
           else if jc = JsonrpcErrorCodeNotFound then
             (if retry = 0 then (Ret (Some (Plain (StdError (''not found transaction result ( TxHash : '' @ txh @ '')'')))), n')
              else GetResult fuel (retry - 1) N txh n')
           else (mapErrorWithTransactionResult None (Some e), n'))
        | _ \<Rightarrow> (mapErrorWithTransactionResult None (Some e), n'))
    | (Panic, n') \<Rightarrow> (Panic, n') | (OutOfFuel, n') \<Rightarrow> (OutOfFuel, n'))"

text \<open>\<open>errors.CoderOf\<close>: only the errors of the package errors have a code.\<close>

definition coder :: "go_error \<Rightarrow> int option" where
  "coder e = (case e of Plain e \<Rightarrow> (case CoderOf (Some e) of Some x \<Rightarrow> ErrorCode x | None \<Rightarrow> None) | _ \<Rightarrow> None)"

definition reportOf :: "string \<Rightarrow> go_error option \<Rightarrow> relayResult list" where
  "reportOf i err = (case err of
      None \<Rightarrow> [\<lparr>rr_Id = i, rr_Err = - 1, rr_Finalized = True\<rparr>]
    | Some e \<Rightarrow> (case coder e of Some ec \<Rightarrow> [\<lparr>rr_Id = i, rr_Err = ec, rr_Finalized = True\<rparr>] | None \<Rightarrow> []))"

text \<open>\<open>result\<close>, run by a goroutine: it ends when \<open>GetResult\<close> returned.\<close>

definition sender_result :: "nat \<Rightarrow> 'n isender_cfg \<Rightarrow> string \<times> string \<Rightarrow> 'n isender \<Rightarrow> unit answer \<times> 'n isender" where
  "sender_result fuel c g s = (case GetResult fuel TransactionResultRetryLimit (ig_node c) (snd g) (is_node s) of
      (Ret err, n) \<Rightarrow> (Ret (), s\<lparr>is_node := n, is_queue := dequeue (fst g) (is_queue s), is_rr := is_rr s @ reportOf (fst g) err,
          is_running := remove1 g (is_running s)\<rparr>)
    | (Fail e, n) \<Rightarrow> (Fail e, s\<lparr>is_node := n\<rparr>) | (Panic, n) \<Rightarrow> (Panic, s\<lparr>is_node := n\<rparr>) | (OutOfFuel, n) \<Rightarrow> (OutOfFuel, s\<lparr>is_node := n\<rparr>))"

definition isender_GetPreference :: preference where
  "isender_GetPreference = \<lparr>TxSizeLimit = int txSizeLimit, MarginForLimit = 0, LatestResult = False, FilledBlockUpdate = False\<rparr>"

definition isender_GetStatus :: "'n isender_cfg \<Rightarrow> 'n isender \<Rightarrow> bmcLinkStatus answer \<times> 'n isender" where
  "isender_GetStatus c s = (case nd_getStatus (ig_node c) (statusCall (ig_wallet c) (ig_srcAddr c) (ig_dstAddr c)) (is_node s) of
      (Ret bs, n) \<Rightarrow> (linkStatus bs, s\<lparr>is_node := n\<rparr>)
    | (Fail e, n) \<Rightarrow> (map_failure e, s\<lparr>is_node := n\<rparr>) | (Panic, n) \<Rightarrow> (Panic, s\<lparr>is_node := n\<rparr>) | (OutOfFuel, n) \<Rightarrow> (OutOfFuel, s\<lparr>is_node := n\<rparr>))"

section \<open>Steps\<close>

text \<open>
  The sender as a state machine: the link hands over a message, which is accepted or refused, or the goroutine of a
  message ends. Beside the state are recorded the identifiers that were accepted and, for the goroutines that ended, the
  identifier with the error \<open>GetResult\<close> gave it (\<open>None\<close> for nil). Identifiers may repeat: the link gives a
  message that it builds again the identifier it had. Nothing protects the queue and the node answers to everybody, so each step
  finds some queue \<open>q\<close> and some state \<open>n\<close> of the node; how the goroutines interleave on the queue is the subject
  of \<open>Relay_Queue\<close>.
\<close>

inductive sender_run :: "'n isender_cfg \<Rightarrow> string list \<Rightarrow> (string \<times> go_error option) list \<Rightarrow> 'n isender \<Rightarrow> bool" for c where
  start: "sender_run c [] [] (isender_init n)"
| accepted: "sender_run c acc fin s \<Longrightarrow> Relay fuel c i m (s\<lparr>is_queue := q, is_node := n\<rparr>) = (Ret i, s') \<Longrightarrow>
    sender_run c (acc @ [i]) fin s'"
| refused: "sender_run c acc fin s \<Longrightarrow> Relay fuel c i m (s\<lparr>is_queue := q, is_node := n\<rparr>) = (Fail e, s') \<Longrightarrow>
    sender_run c acc fin s'"
| finished: "sender_run c acc fin s \<Longrightarrow> g \<in> set (is_running s) \<Longrightarrow>
    sender_result fuel c g (s\<lparr>is_queue := q, is_node := n\<rparr>) = (Ret (), s') \<Longrightarrow>
    fst (GetResult fuel TransactionResultRetryLimit (ig_node c) (snd g) n) = Ret err \<Longrightarrow>
    sender_run c acc (fin @ [(fst g, err)]) s'"

end
