(* ===== verification/Icon_Client_Props.thy ===== *)
theory Icon_Client_Props
  imports Icon_Client
begin

text \<open>
  What the client of an ICON node promises: texts are read back, the hash that is signed determines the
  transaction, and polling gives up after a few answers that there is no block yet.
\<close>

section \<open>Texts\<close>

lemma HexInt_roundtrip: "- (2 ^ 63) \<le> v \<Longrightarrow> v < 2 ^ 63 \<Longrightarrow> HexInt_Value (NewHexInt v) = Ret v"
proof -
  assume "- (2 ^ 63) \<le> v" "v < 2 ^ 63"
  then have "sint (word_of_int v :: 64 word) = v" unfolding int_word_sint by simp
  then show ?thesis by (simp add: HexInt_Value_def NewHexInt_def ParseInt_FormatInt plain_errors_def)
qed

lemma hex_val_digit: "d < 16 \<Longrightarrow> hex_val (hex_digit d) = Some d"
  by (simp add: hex_val_def digit_val_hex)

lemma hex_roundtrip: "hex_DecodeString (hex_EncodeToString bs) = Some bs"
proof (induction bs)
  case (Cons b bs)
  have "unat b div 16 < 16" "unat b mod 16 < 16" using unsigned_less [of b, where ?'a = nat] by simp_all
  moreover have "unat b div 16 * 16 + unat b mod 16 = unat b" by (rule div_mult_mod_eq)
  ultimately show ?case using Cons by (simp add: hex_EncodeToString_def hex_val_digit)
qed (simp add: hex_EncodeToString_def)

lemma HexBytes_roundtrip: "HexBytes_Value (NewHexBytes b) = Ret b"
  by (simp add: HexBytes_Value_def NewHexBytes_def hex_roundtrip)

lemma NewHexBytes_inj: "NewHexBytes a = NewHexBytes b \<longleftrightarrow> a = b"
proof
  assume "NewHexBytes a = NewHexBytes b"
  then have "HexBytes_Value (NewHexBytes a) = HexBytes_Value (NewHexBytes b)" by simp
  then show "a = b" by (simp add: HexBytes_roundtrip)
qed simp

text \<open>
  The status of a link whose numbers fit into 64 bits is read back from its text.
\<close>
theorem linkStatus_roundtrip:
  assumes "{tx, rx, h} \<subseteq> {- (2 ^ 63) ..< 2 ^ 63}"
  shows "linkStatus \<lparr>bs_TxSeq = NewHexInt tx, bs_RxSeq = NewHexInt rx, bs_Height = NewHexInt h, bs_Extra = NewHexBytes x\<rparr> =
    Ret \<lparr>TxSeq = tx, RxSeq = rx, VHeight = h, VExtra = x\<rparr>"
  using assms by (simp add: linkStatus_def HexInt_roundtrip HexBytes_roundtrip)

theorem linkStatus_roundtrip_witness:
  "linkStatus \<lparr>bs_TxSeq = NewHexInt 5, bs_RxSeq = NewHexInt 0, bs_Height = NewHexInt (- 1), bs_Extra = NewHexBytes [255, 0]\<rparr> =
    Ret \<lparr>TxSeq = 5, RxSeq = 0, VHeight = - 1, VExtra = [255, 0]\<rparr>"
  by (rule linkStatus_roundtrip) simp

section \<open>Polling\<close>

text \<open>The state of the node after some requests.\<close>

fun asked :: "('n \<Rightarrow> 'b \<times> 'n) \<Rightarrow> nat \<Rightarrow> 'n \<Rightarrow> 'n" where
  "asked ask 0 n = n"
| "asked ask (Suc k) n = asked ask k (snd (ask n))"

definition no_block :: "'a answer \<Rightarrow> bool" where
  "no_block r \<longleftrightarrow> (\<exists>m. r = Fail (JsonrpcError JsonrpcErrorCodeNotFound m))"

definition transport_error :: "'a answer \<Rightarrow> bool" where
  "transport_error r = (case r of Fail (JsonrpcError c m) \<Rightarrow> False | Fail e \<Rightarrow> True | _ \<Rightarrow> False)"

lemma poll_step:
  assumes "no_block (fst (ask n))"
  shows "pollLoop (Suc fuel) retry ask n = (if retry = 0 then (Fail (Plain (StdError ''polling failed, retries exceeded'')), snd (ask n))
    else pollLoop fuel (retry - 1) ask (snd (ask n)))"
  using assms by (cases "ask n") (auto simp: no_block_def)

lemma poll_waits:
  "(\<forall>i<k. no_block (fst (ask (asked ask i n)))) \<Longrightarrow> k \<le> retry \<Longrightarrow> pollLoop (fuel + k) retry ask n = pollLoop fuel (retry - k) ask (asked ask k n)"
proof (induction k arbitrary: n retry)
  case (Suc k)
  have "no_block (fst (ask n))" using Suc.prems(1) by (metis asked.simps(1) zero_less_Suc)
  moreover have "\<forall>i<k. no_block (fst (ask (asked ask i (snd (ask n)))))" using Suc.prems(1) by (metis Suc_less_eq asked.simps(2))
  ultimately show ?case using Suc.IH [of "snd (ask n)" "retry - 1"] Suc.prems(2) poll_step [of ask n "fuel + k" retry] by simp
qed simp

lemma poll_spins: "(\<And>i. transport_error (fst (ask (asked ask i n)))) \<Longrightarrow> fst (pollLoop fuel retry ask n) = OutOfFuel"
proof (induction fuel arbitrary: n)
  case (Suc fuel)
  have "transport_error (fst (ask n))" using Suc.prems [of 0] by simp
  moreover have "fst (pollLoop fuel retry ask (snd (ask n))) = OutOfFuel"
    by (rule Suc.IH) (metis Suc.prems asked.simps(2))
  ultimately show ?case by (cases "ask n") (auto simp: transport_error_def split: outcome.splits go_error.splits)
qed simp

text \<open>
  C33: asking the node for the header of a BTP block returns the answer when at most five answers said
  that there is no such block yet, and gives up with an error at the sixth such answer; fuel beyond
  the number of requests is enough. While the transport fails it asks again without end.
\<close>
theorem GetBTPHeader_polls:
  assumes "ask = nd_getHeader N p" and "\<And>i. i < k \<Longrightarrow> no_block (fst (ask (asked ask i n)))"
  shows "(k \<le> 5 \<and> fst (ask (asked ask k n)) = Ret hdr \<longrightarrow> GetBTPHeader (Suc fuel + k) N p n = (Ret hdr, asked ask (Suc k) n)) \<and>
    (6 \<le> k \<longrightarrow> fst (GetBTPHeader (fuel + k) N p n) = Fail (Plain (StdError ''polling failed, retries exceeded''))) \<and>
    ((\<forall>i. transport_error (fst (ask (asked ask i n)))) \<longrightarrow> (\<forall>f. fst (GetBTPHeader f N p n) = OutOfFuel))"
proof (intro conjI impI allI)
  have last: "snd (ask (asked ask j m)) = asked ask (Suc j) m" for j m by (induction j arbitrary: m) simp_all
  have w: "pollLoop (f + j) 5 ask n = pollLoop f (5 - j) ask (asked ask j n)" if "j \<le> k" "j \<le> 5" for f j
    using assms(2) that by (intro poll_waits) auto
  {
    assume "k \<le> 5 \<and> fst (ask (asked ask k n)) = Ret hdr"
    with w [of k "Suc fuel"] last [of k n] show "GetBTPHeader (Suc fuel + k) N p n = (Ret hdr, asked ask (Suc k) n)"
      by (cases "ask (asked ask k n)") (simp add: GetBTPHeader_def BlockRetryLimit_def assms(1) [symmetric] del: asked.simps)
  next
    assume k: "6 \<le> k"
    obtain f where f: "fuel + k = Suc f + 5" using k by (intro that [of "fuel + k - 6"]) simp
    have "no_block (fst (ask (asked ask 5 n)))" using assms(2) k by simp
    from poll_step [of ask "asked ask 5 n" f 0] this w [of 5 "Suc f"] k f
    show "fst (GetBTPHeader (fuel + k) N p n) = Fail (Plain (StdError ''polling failed, retries exceeded''))"
      by (simp add: GetBTPHeader_def BlockRetryLimit_def assms(1) [symmetric] del: asked.simps)
  next
    fix f assume "\<forall>i. transport_error (fst (ask (asked ask i n)))"
    then show "fst (GetBTPHeader f N p n) = OutOfFuel"
      unfolding GetBTPHeader_def assms(1) [symmetric] by (intro poll_spins) blast
  }
qed

text \<open>A node that answers from a list.\<close>

definition script :: "(string answer) list icon_node" where
  "script = \<lparr>nd_now = (\<lambda>_. 0), nd_sendTransaction = (\<lambda>p l. (hd l, tl l)), nd_getTransactionResult = (\<lambda>p l. (Panic, l)),
     nd_getStatus = (\<lambda>p l. (Panic, l)), nd_callInt = (\<lambda>p l. (hd l, tl l)), nd_getHeader = (\<lambda>p l. (hd l, tl l)),
     nd_getMessages = (\<lambda>p l. (Panic, l)), nd_getProof = (\<lambda>p l. (hd l, tl l))\<rparr>"

theorem GetBTPHeader_polls_witness:
  "fst (GetBTPHeader 9 script \<lparr>bp_Height = ''0x1'', bp_NetworkId = ''0x1''\<rparr>
     [Fail (JsonrpcError (- 31004) []), Fail (JsonrpcError (- 31004) []), Ret ''h'']) = Ret ''h''"
proof -
  let ?p = "\<lparr>bp_Height = ''0x1'', bp_NetworkId = ''0x1''\<rparr>" and ?l = "[Fail (JsonrpcError (- 31004) []), Fail (JsonrpcError (- 31004) []), Ret ''h'']"
  have "no_block (fst (nd_getHeader script ?p (asked (nd_getHeader script ?p) i ?l)))" if "i < 2" for i
    using that by (cases i) (auto simp: script_def no_block_def rpc_codes)
  from GetBTPHeader_polls [OF refl this, where hdr = "''h''" and fuel = 6]
  show ?thesis by (simp add: script_def eval_nat_numeral)
qed

section \<open>Signing\<close>

text \<open>The bytes that are hashed for a transaction.\<close>

definition signing_text :: "TransactionParam \<Rightarrow> bytes" where
  "signing_text p = (case SerializeMap (tx_json p) None (Some txSerializeExcludes) of
     Ret s \<Rightarrow> string_bytes (''icx_sendTransaction.'' @ s) | _ \<Rightarrow> [])"

text \<open>The map of a transaction in the order of the keys.\<close>

definition params_sorted :: "method_params \<Rightarrow> (string \<times> json) list" where
  "params_sorted p = (case p of
      BMCRelayMethodParams prev m \<Rightarrow> [(''_msg'', JString m), (''_prev'', JString prev)]
    | BMCFragmentMethodParams prev m i \<Rightarrow> [(''_idx'', JString i), (''_msg'', JString m), (''_prev'', JString prev)]
    | BMCStatusParams t \<Rightarrow> [(''_link'', JString t)])"

definition tx_sorted :: "TransactionParam \<Rightarrow> (string \<times> json) list" where
  "tx_sorted p = (''data'', JDict [(''method'', JString (Method (tx_Data p))), (''params'', JDict (params_sorted (Params (tx_Data p))))]) #
     (if tx_DataType p = [] then [] else [(''dataType'', JString (tx_DataType p))]) @
     [(''from'', JString (tx_FromAddress p)), (''nid'', JString (tx_NetworkID p)), (''signature'', JString (tx_Signature p)),
      (''stepLimit'', JString (tx_StepLimit p)), (''timestamp'', JString (tx_Timestamp p)), (''to'', JString (tx_ToAddress p)),
      (''version'', JString (tx_Version p))]"

lemma params_sorted_plain: "plain (JDict (params_sorted p))"
  by (cases p) (simp_all add: params_sorted_def)

lemma tx_sorted_plain: "plain (JDict (tx_sorted p))"
  using params_sorted_plain by (simp add: tx_sorted_def)

lemma params_same: "serializeValue (JDict (params_json p)) = serializeValue (JDict (params_sorted p))"
proof -
  have "mset (params_json p) = mset (params_sorted p)" by (cases p) (simp_all add: params_json_def params_sorted_def)
  moreover have "distinct (map fst (params_sorted p))" using params_sorted_plain [of p] by (simp add: strict_sorted_iff)
  ultimately show ?thesis using serializeDict_order [of "params_json p" "params_sorted p" None None] by (simp add: serializeDict_def)
qed

lemma tx_text_sorted: "SerializeMap (tx_json p) None (Some ex) = SerializeMap (tx_sorted p) None (Some ex)"
proof -
  have "serializeDict (tx_json p) None (Some ex) = serializeDict (tx_sorted p) None (Some ex)"
  proof (rule serializeDict_same)
    show "distinct (map fst (tx_sorted p))" using tx_sorted_plain [of p] by (simp add: strict_sorted_iff)
    have "serializeValue (JDict [(''method'', m), (''params'', JDict (params_json q))]) =
        serializeValue (JDict [(''method'', m), (''params'', JDict (params_sorted q))])" for m q
      using params_same [of q] by simp
    then show "mset (map (\<lambda>(k, v). (k, serializeValue v)) (tx_json p)) = mset (map (\<lambda>(k, v). (k, serializeValue v)) (tx_sorted p))"
      by (simp add: tx_json_def tx_sorted_def del: serializeValue.simps)
  qed
  then show ?thesis by (simp add: SerializeMap_def)
qed

lemma inj_string_bytes: "inj string_bytes"
proof -
  have "c = d" if "(of_char c :: 8 word) = of_char d" for c d
  proof -
    have "(word_of_nat (of_char c) :: 8 word) = word_of_nat (of_char d)" using that by (simp only: of_nat_of_char)
    then have "unat (word_of_nat (of_char c) :: 8 word) = unat (word_of_nat (of_char d) :: 8 word)" by simp
    moreover have "of_char x < (256 :: nat)" for x :: char by (rule nat_of_char_less_256)
    ultimately have "of_char c = (of_char d :: nat)" by (simp add: unat_of_nat)
    then show ?thesis by simp
  qed
  then have "inj (of_char :: char \<Rightarrow> 8 word)" by (simp add: inj_def)
  then show ?thesis unfolding string_bytes_def [abs_def] by (rule inj_mapI)
qed

lemma plain_errors_Ret: "plain_errors r = Ret v \<longleftrightarrow> r = Ret v"
  by (cases r) (simp_all add: plain_errors_def)

lemma signing_text_inj:
  assumes "signing_text p = signing_text q"
  shows "p\<lparr>tx_Signature := [], tx_TxHash := []\<rparr> = q\<lparr>tx_Signature := [], tx_TxHash := []\<rparr>"
proof -
  let ?ex = txSerializeExcludes
  let ?t = "\<lambda>p. sep (map entry (filter (\<lambda>e. \<not> member ?ex (fst e)) (tx_sorted p)))"
  have t: "SerializeMap (tx_json p) None (Some ?ex) = Ret (?t p)" for p
    unfolding tx_text_sorted by (simp add: SerializeMap_def serializeDict_text [OF tx_sorted_plain])
  have "?t p = ?t q" using assms by (simp add: signing_text_def t inj_eq [OF inj_string_bytes])
  then have "filter (\<lambda>e. \<not> member ?ex (fst e)) (tx_sorted p) = filter (\<lambda>e. \<not> member ?ex (fst e)) (tx_sorted q)"
    using dict_text_inj [OF tx_sorted_plain tx_sorted_plain] by blast
  then show ?thesis
    by (cases "Params (tx_Data p)"; cases "Params (tx_Data q)")
      (auto simp: tx_sorted_def params_sorted_def member_def txSerializeExcludes_def split: if_splits)
qed

lemma same_but_hash:
  "p\<lparr>tx_Signature := [], tx_TxHash := []\<rparr> = q\<lparr>tx_Signature := [], tx_TxHash := []\<rparr> \<Longrightarrow> tx_TxHash p = tx_TxHash q \<Longrightarrow>
    p\<lparr>tx_Signature := []\<rparr> = q\<lparr>tx_Signature := []\<rparr>" for p q :: TransactionParam
  by (cases p; cases q) simp

lemma tx_text_total: "\<exists>bs. SerializeMap (tx_json p) None (Some txSerializeExcludes) = Ret bs"
  unfolding tx_text_sorted by (simp add: SerializeMap_def serializeDict_text [OF tx_sorted_plain])

lemma signed_own_hash:
  assumes "SignTransaction H s t r = Ret r'"
  shows "tx_TxHash r' = NewHexBytes (H (signing_text r'))"
proof -
  let ?r = "r\<lparr>tx_Timestamp := NewHexInt t\<rparr>"
  obtain bs sig where b: "SerializeMap (tx_json ?r) None (Some txSerializeExcludes) = Ret bs"
    "r' = ?r\<lparr>tx_TxHash := NewHexBytes (H (string_bytes (''icx_sendTransaction.'' @ bs))), tx_Signature := base64_EncodeToString False sig\<rparr>"
    using assms unfolding SignTransaction_def Let_def bind_r_Ret plain_errors_Ret by auto
  have "SerializeMap (tx_json r') None (Some txSerializeExcludes) = SerializeMap (tx_json ?r) None (Some txSerializeExcludes)"
    unfolding tx_text_sorted b(2)
    by (simp add: SerializeMap_def serializeDict_text [OF tx_sorted_plain]) (simp add: tx_sorted_def member_def txSerializeExcludes_def)
  with b show ?thesis by (simp add: signing_text_def)
qed

text \<open>
  C32: the hash in a signed transaction determines the transaction: two transactions that were signed with
  the same hash agree in all but the signature, unless the hash function collides on their texts; and
  the hash is that of the signed transaction's own text, into which the signature does not enter.
\<close>
theorem signed_hash_determines:
  assumes "SignTransaction H sign now p = Ret p'" and "SignTransaction H sign' now' q = Ret q'"
    and "tx_TxHash p' = tx_TxHash q'" and "inj_on H {signing_text p', signing_text q'}"
  shows "p'\<lparr>tx_Signature := []\<rparr> = q'\<lparr>tx_Signature := []\<rparr> \<and> tx_TxHash p' = NewHexBytes (H (signing_text p'))"
proof -
  have "NewHexBytes (H (signing_text p')) = NewHexBytes (H (signing_text q'))"
    unfolding signed_own_hash [OF assms(1), symmetric] signed_own_hash [OF assms(2), symmetric] by (rule assms(3))
  then have "H (signing_text p') = H (signing_text q')" by (simp only: NewHexBytes_inj)
  then have "signing_text p' = signing_text q'" using assms(4) by (meson inj_onD insertCI)
  from same_but_hash [OF signing_text_inj [OF this] assms(3)] signed_own_hash [OF assms(1)] show ?thesis by blast
qed

definition sample_param :: TransactionParam where
  "sample_param = \<lparr>tx_Version = ''0x3'', tx_FromAddress = ''hx1'', tx_ToAddress = ''cx2'', tx_StepLimit = ''0x10'', tx_Timestamp = [],
     tx_NetworkID = ''0x1'', tx_Signature = [], tx_DataType = ''call'',
     tx_Data = \<lparr>Method = ''handleRelayMessage'', Params = BMCRelayMethodParams ''btp://a/b'' ''AA==''\<rparr>, tx_TxHash = []\<rparr>"

theorem signed_hash_determines_witness:
  "\<exists>p'. SignTransaction (\<lambda>b. b) (\<lambda>h. Ret [1]) 7 sample_param = Ret p' \<and> tx_TxHash p' = NewHexBytes (signing_text p')"
proof -
  have "\<exists>p'. SignTransaction (\<lambda>b. b) (\<lambda>h. Ret [1]) 7 sample_param = Ret p'"
    unfolding SignTransaction_def Let_def tx_text_sorted
    by (simp add: SerializeMap_def serializeDict_text [OF tx_sorted_plain] plain_errors_def)
  then obtain p' where p': "SignTransaction (\<lambda>b. b) (\<lambda>h. Ret [1]) 7 sample_param = Ret p'" by blast
  from signed_hash_determines [OF p' p' refl] p' show ?thesis by simp
qed

end
