(* ===== verification/Icon_Sender_Props.thy ===== *)
theory Icon_Sender_Props
  imports Icon_Sender Icon_Client_Props
begin

text \<open>
  What the ICON sender promises: a message goes out in pieces that make up the message, every message it accepts is
  awaited until its goroutine ends, every outcome with a code is reported, once and in order, and when the
  node gives the result of its transaction it is reported. Failures without a code are never reported.
\<close>

section \<open>Fragments\<close>

fun pieces :: "nat \<Rightarrow> bytes \<Rightarrow> bytes list" where
  "pieces 0 m = [m]"
| "pieces (Suc k) m = take txSizeLimit m # pieces k (drop txSizeLimit m)"

text \<open>The indices that go with the pieces: the number of the others, negated, then downwards to zero.\<close>

fun downwards :: "nat \<Rightarrow> int list" where
  "downwards 0 = []"
| "downwards (Suc k) = int k # downwards k"

lemma length_downwards: "length (downwards k) = k"
  by (induction k) simp_all

definition indices :: "nat \<Rightarrow> int list" where
  "indices k = - int k # downwards k"

definition plan :: "'n isender_cfg \<Rightarrow> bytes \<Rightarrow> TransactionParam list" where
  "plan c m = (let k = length m div txSizeLimit in
     if k = 0 then [newTransactionParam c ''handleRelayMessage'' (BMCRelayMethodParams (ig_srcAddr c) (base64_EncodeToString True m))]
     else map2 (fragmentParam c) (pieces k m) (indices k))"

text \<open>Sending the transactions one after the other, up to the first that fails; the hash of the last.\<close>

fun sendAll :: "nat \<Rightarrow> 'n isender_cfg \<Rightarrow> TransactionParam list \<Rightarrow> 'n \<Rightarrow> string answer \<times> 'n" where
  "sendAll fuel c [] n = (Ret [], n)"
| "sendAll fuel c (p # ps) n = (case sendTransaction fuel c p n of
      (Ret h, n') \<Rightarrow> if ps = [] then (Ret h, n') else sendAll fuel c ps n' | r \<Rightarrow> r)"

lemma txSizeLimit_value: "txSizeLimit = 382692"
  by (simp add: txSizeLimit_def txMaxDataSize_def)

lemma pieces_ok:
  "k = length m div txSizeLimit \<Longrightarrow> concat (pieces k m) = m \<and> length (pieces k m) = Suc k \<and>
    list_all (\<lambda>p. length p = txSizeLimit) (butlast (pieces k m)) \<and> length (last (pieces k m)) < txSizeLimit"
proof (induction k arbitrary: m)
  case 0
  then have "length m < txSizeLimit" by (simp add: div_eq_0_iff txSizeLimit_value)
  then show ?case by simp
next
  case (Suc k)
  have le: "txSizeLimit \<le> length m"
  proof (rule ccontr)
    assume "\<not> txSizeLimit \<le> length m"
    then have "length m div txSizeLimit = 0" by simp
    with Suc.prems show False by simp
  qed
  then have "k = length (drop txSizeLimit m) div txSizeLimit"
    using Suc.prems le_div_geq [of txSizeLimit "length m"] by (simp add: txSizeLimit_value)
  from Suc.IH [OF this] le show ?case by auto
qed

lemma relay_loop_sends: "relay_loop fuel c k m n = sendAll fuel c (map2 (fragmentParam c) (pieces k m) (downwards (Suc k))) n"
proof (induction k arbitrary: m n)
  case 0
  then show ?case by (auto simp: sendFragment_def split: prod.split outcome.split)
next
  case (Suc k)
  have "map2 (fragmentParam c) (pieces (Suc k) m) (downwards (Suc (Suc k))) =
      fragmentParam c (take txSizeLimit m) (int (Suc k)) # map2 (fragmentParam c) (pieces k (drop txSizeLimit m)) (downwards (Suc k))"
    by simp
  moreover have "map2 (fragmentParam c) (pieces k x) (downwards (Suc k)) \<noteq> []" for x by (cases k) simp_all
  ultimately show ?case unfolding relay_loop.simps Suc.IH sendFragment_def
    by (simp del: pieces.simps downwards.simps split: prod.split outcome.split)
qed

text \<open>
  C15: relaying a message sends the transactions of its plan in order, up to the first that fails, and
  returns the hash of the last: one transaction with the whole message when it is shorter than the limit,
  else pieces that make up the message, all of the length of the limit but the last, which is shorter,
  numbered by the negated count of the following pieces and then downwards to zero.
\<close>
theorem relay_sends_plan:
  "relay fuel c m n = sendAll fuel c (plan c m) n \<and>
   concat (pieces (length m div txSizeLimit) m) = m \<and> length (pieces (length m div txSizeLimit) m) = length (indices (length m div txSizeLimit)) \<and>
   list_all (\<lambda>p. length p = txSizeLimit) (butlast (pieces (length m div txSizeLimit) m)) \<and>
   length (last (pieces (length m div txSizeLimit) m)) < txSizeLimit"
proof -
  let ?k = "length m div txSizeLimit"
  have "relay fuel c m n = sendAll fuel c (plan c m) n"
  proof (cases ?k)
    case 0
    then show ?thesis by (auto simp: relay_def plan_def Let_def split: prod.split outcome.split)
  next
    case (Suc k)
    have ne: "map2 (fragmentParam c) (pieces k x) (downwards (Suc k)) \<noteq> []" for x by (cases k) simp_all
    have "plan c m = fragmentParam c (take txSizeLimit m) (int ?k * - 1) #
        map2 (fragmentParam c) (pieces k (drop txSizeLimit m)) (downwards (Suc k))"
      using Suc by (simp add: plan_def Let_def indices_def)
    with Suc ne show ?thesis unfolding relay_def Let_def sendFragment_def
      by (simp add: relay_loop_sends del: pieces.simps downwards.simps split: prod.split outcome.split)
  qed
  with pieces_ok [OF refl, of m] show ?thesis by (simp add: indices_def length_downwards)
qed

section \<open>Accepted, awaited and reported\<close>

text \<open>The code that is due to the link for what \<open>GetResult\<close> returned: \<open>-1\<close> for no error, else that of the error.\<close>

definition code_due :: "go_error option \<Rightarrow> int option" where
  "code_due err = (case err of None \<Rightarrow> Some (- 1) | Some e \<Rightarrow> coder e)"

lemma Relay_accepts:
  assumes "Relay fuel c i m s = (Ret j, s')"
  shows "\<exists>thp. is_running s' = is_running s @ [(i, thp)] \<and> is_rr s' = is_rr s"
  using assms by (auto simp: Relay_def split: if_splits prod.splits outcome.splits)

lemma Relay_refuses: "Relay fuel c i m s = (Fail e, s') \<Longrightarrow> is_running s' = is_running s \<and> is_rr s' = is_rr s"
  by (auto simp: Relay_def split: if_splits prod.splits outcome.splits)

lemma result_ends:
  assumes "sender_result fuel c g s = (Ret (), s')"
    and "fst (GetResult fuel TransactionResultRetryLimit (ig_node c) (snd g) (is_node s)) = Ret err"
  shows "is_running s' = remove1 g (is_running s) \<and> is_rr s' = is_rr s @
    (case code_due err of None \<Rightarrow> [] | Some v \<Rightarrow> [\<lparr>rr_Id = fst g, rr_Err = v, rr_Finalized = True\<rparr>])"
  using assms by (auto simp: sender_result_def reportOf_def code_due_def split: prod.splits outcome.splits option.splits)

interpretation icon_reports: reporting_sender is_running is_rr
    "\<lambda>i s s'. \<exists>fuel m q n. Relay fuel c i m (s\<lparr>is_queue := q, is_node := n\<rparr>) = (Ret i, s')"
    "\<lambda>s s'. \<exists>fuel i m q n e. Relay fuel c i m (s\<lparr>is_queue := q, is_node := n\<rparr>) = (Fail e, s')"
    "\<lambda>g err s s'. \<exists>fuel q n. sender_result fuel c g (s\<lparr>is_queue := q, is_node := n\<rparr>) = (Ret (), s') \<and>
       fst (GetResult fuel TransactionResultRetryLimit (ig_node c) (snd g) n) = Ret err"
    code_due for c
proof (unfold_locales, goal_cases)
  case (1 i s s')
  then show ?case using Relay_accepts by fastforce
next
  case (2 s s')
  then show ?case using Relay_refuses by fastforce
next
  case (3 g err s s')
  then obtain fuel q n where "sender_result fuel c g (s\<lparr>is_queue := q, is_node := n\<rparr>) = (Ret (), s')"
    "fst (GetResult fuel TransactionResultRetryLimit (ig_node c) (snd g) n) = Ret err" by blast
  from result_ends [OF this(1), of err] this(2) show ?case by simp
qed

text \<open>
  C14: in every run of the sender the accepted messages are, with the multiplicity of their identifiers, those that are awaited and
  those whose goroutine ended, and what was reported to the link are the ended ones whose outcome has a code,
  each once, final, with that code - \<open>-1\<close> for success -, in the order in which they ended. This holds whatever
  the queue holds at each step and with identifiers that repeat.
\<close>
theorem sender_run_accounts:
  assumes "sender_run c acc fin s"
  shows "mset acc = mset (map fst (is_running s)) + mset (map fst fin) \<and>
    is_rr s = map (\<lambda>(i, err). \<lparr>rr_Id = i, rr_Err = the (code_due err), rr_Finalized = True\<rparr>)
      (filter (\<lambda>(i, err). code_due err \<noteq> None) fin)"
proof -
  from assms have "icon_reports.accounted acc fin s"
  proof (induction rule: sender_run.induct)
    case (start n)
    show ?case by (simp add: icon_reports.accounted_def isender_init_def)
  next
    case (accepted acc fin s fuel i m q n s')
    then show ?case by (blast intro: icon_reports.accounted_accepts)
  next
    case (refused acc fin s fuel i m q n e s')
    then show ?case by (blast intro: icon_reports.accounted_refuses)
  next
    case (finished acc fin s g fuel q n s' err)
    then show ?case by (blast intro: icon_reports.accounted_ends)
  qed
  then show ?thesis by (simp add: icon_reports.accounted_def)
qed

text \<open>A node that accepts every transaction, and at once has a result for it.\<close>

definition quick_node :: "TransactionResult \<Rightarrow> unit icon_node" where
  "quick_node r = \<lparr>nd_now = (\<lambda>_. 1), nd_sendTransaction = (\<lambda>p n. (Ret ''0x01'', n)), nd_getTransactionResult = (\<lambda>p n. (Ret r, n)),
     nd_getStatus = (\<lambda>p n. (Panic, n)), nd_callInt = (\<lambda>p n. (Panic, n)), nd_getHeader = (\<lambda>p n. (Panic, n)),
     nd_getMessages = (\<lambda>p n. (Panic, n)), nd_getProof = (\<lambda>p n. (Panic, n))\<rparr>"

definition quick_cfg :: "TransactionResult \<Rightarrow> unit isender_cfg" where
  "quick_cfg r = \<lparr>ig_srcAddr = ''btp://0x1.eth/0xa'', ig_dstAddr = ''btp://0x1.icon/cxb'', ig_wallet = ''hx1'', ig_sign = (\<lambda>h. Ret [1]),
     ig_hash = (\<lambda>b. b), ig_stepLimit = 10, ig_node = quick_node r\<rparr>"

lemma SignTransaction_works: "sign_all = (\<lambda>h. Ret [1]) \<Longrightarrow> \<exists>p'. SignTransaction H sign_all now p = Ret p'"
  unfolding SignTransaction_def Let_def tx_text_sorted
  by (simp add: SerializeMap_def serializeDict_text [OF tx_sorted_plain] plain_errors_def)

lemma quick_relay: "length m < txSizeLimit \<Longrightarrow> relay 2 (quick_cfg r) m n = (Ret ''0x01'', n)"
proof -
  assume m: "length m < txSizeLimit"
  have "sendTransaction 2 (quick_cfg r) p n = (Ret ''0x01'', n)" for p
  proof -
    obtain p' where "SignTransaction (\<lambda>b. b) (\<lambda>h. Ret [1]) (nd_now (quick_node r) n) p = Ret p'" using SignTransaction_works by blast
    then show ?thesis by (simp add: sendTransaction_def eval_nat_numeral quick_cfg_def) (simp add: quick_node_def)
  qed
  with m show ?thesis by (simp add: relay_def Let_def)
qed

definition sent_one :: "unit isender" where
  "sent_one = \<lparr>is_queue = [\<lparr>rt_id = ''m'', rt_txHash = [1]\<rparr>], is_running = [(''m'', ''0x01'')], is_rr = [], is_node = ()\<rparr>"

lemmas number_eval = HexInt_Value_def ParseInt_def strconv_ParseInt_def parse_literal_def base_prefix_def digit_val_def
  char_code_def lower_def strip_sign_def underscore_def plain_errors_def Let_def

lemma quick_hash: "HexBytes_Value ''0x01'' = Ret [1]"
  by (simp add: HexBytes_Value_def hex_val_def digit_val_def char_code_def)

lemma sent_one_run: "sender_run (quick_cfg r) [''m''] [] sent_one"
proof -
  have "Relay 2 (quick_cfg r) ''m'' [7] ((isender_init ())\<lparr>is_queue := [], is_node := ()\<rparr>) = (Ret ''m'', sent_one)"
    by (simp add: Relay_def isender_init_def newQueue_def queue_len_def MaxQueueSize_def quick_relay txSizeLimit_value quick_hash
        enqueue_def sent_one_def)
  from sender_run.accepted [OF sender_run.start this] show ?thesis by simp
qed

definition reported_one :: "unit isender" where
  "reported_one = \<lparr>is_queue = [], is_running = [], is_rr = [\<lparr>rr_Id = ''m'', rr_Err = - 1, rr_Finalized = True\<rparr>], is_node = ()\<rparr>"

lemma reported_one_run: "sender_run (quick_cfg \<lparr>tr_Status = ''0x1'', tr_Failure = None\<rparr>) [''m''] [(''m'', None)] reported_one"
proof -
  let ?c = "quick_cfg \<lparr>tr_Status = ''0x1'', tr_Failure = None\<rparr>"
  have g: "GetResult 1 5 (ig_node ?c) ''0x01'' () = (Ret None, ())"
    by (simp add: quick_cfg_def quick_node_def mapErrorWithTransactionResult_def MapError_def ResultStatusSuccess_def)
  have "sender_result 1 ?c (''m'', ''0x01'') (sent_one\<lparr>is_queue := [], is_node := ()\<rparr>) = (Ret (), reported_one)"
    using g by (simp add: sender_result_def TransactionResultRetryLimit_def sent_one_def reported_one_def dequeue_def drop_through_def
        reportOf_def)
  from sender_run.finished [OF sent_one_run _ this] g show ?thesis
    by (simp add: sent_one_def TransactionResultRetryLimit_def)
qed

theorem sender_run_accounts_witness:
  "mset [''m''] = mset (map fst (is_running reported_one)) + mset [''m''] \<and>
   is_rr reported_one = [\<lparr>rr_Id = ''m'', rr_Err = - 1, rr_Finalized = True\<rparr>]"
  using sender_run_accounts [OF reported_one_run] by (simp add: code_due_def)

section \<open>Reporting results\<close>

definition awaiting :: "'a answer \<Rightarrow> bool" where
  "awaiting r \<longleftrightarrow> (\<exists>jc m. r = Fail (JsonrpcError jc m) \<and> (jc = JsonrpcErrorCodePending \<or> jc = JsonrpcErrorCodeExecuting))"

text \<open>How many of the first answers say that there is no such transaction.\<close>

fun misses :: "('n \<Rightarrow> 'a answer \<times> 'n) \<Rightarrow> nat \<Rightarrow> 'n \<Rightarrow> nat" where
  "misses ask 0 n = 0"
| "misses ask (Suc k) n = (if no_block (fst (ask n)) then 1 else 0) + misses ask k (snd (ask n))"

lemma GetResult_waits:
  assumes "ask = nd_getTransactionResult N txh"
  shows "(\<forall>i<k. awaiting (fst (ask (asked ask i n))) \<or> no_block (fst (ask (asked ask i n)))) \<Longrightarrow> misses ask k n \<le> retry \<Longrightarrow>
    GetResult (fuel + k) retry N txh n = GetResult fuel (retry - misses ask k n) N txh (asked ask k n)"
proof (induction k arbitrary: n retry)
  case (Suc k)
  have h: "awaiting (fst (ask n)) \<or> no_block (fst (ask n))" using Suc.prems(1) by (metis asked.simps(1) zero_less_Suc)
  have t: "\<forall>i<k. awaiting (fst (ask (asked ask i (snd (ask n))))) \<or> no_block (fst (ask (asked ask i (snd (ask n)))))"
    using Suc.prems(1) by (metis Suc_less_eq asked.simps(2))
  obtain r n' where a: "nd_getTransactionResult N txh n = (r, n')" by fastforce
  show ?case
  proof (cases "no_block (fst (ask n))")
    case True
    then have "GetResult (Suc (fuel + k)) retry N txh n = GetResult (fuel + k) (retry - 1) N txh n'"
      using Suc.prems(2) a assms by (auto simp: no_block_def rpc_codes)
    with Suc.IH [OF t, of "retry - 1"] Suc.prems(2) True a assms show ?thesis by simp
  next
    case False
    then have "GetResult (Suc (fuel + k)) retry N txh n = GetResult (fuel + k) retry N txh n'"
      using h a assms by (auto simp: awaiting_def rpc_codes)
    with Suc.IH [OF t, of retry] Suc.prems(2) False a assms show ?thesis by simp
  qed
qed simp

text \<open>What a transaction result says: success, or a revert code.\<close>

definition verdict :: "TransactionResult \<Rightarrow> int option" where
  "verdict r = (if tr_Status r = ResultStatusSuccess then Some (- 1) else (case tr_Failure r of
      Some (cv, mv) \<Rightarrow> (case HexInt_Value cv of Ret fc \<Rightarrow> if 32 \<le> fc \<and> fc \<le> 99 then Some (fc - 32) else None | _ \<Rightarrow> None)
    | None \<Rightarrow> None))"

lemma revert_coder: "0 \<le> fc \<Longrightarrow> \<exists>e. NewRevertError fc = Some e \<and> coder (Plain e) = Some fc"
  by (simp add: NewRevertError_def CodeBTP_def Let_def coder_def CoderOf_def NewBase_def)

lemma verdict_reported:
  assumes "verdict r = Some v"
  shows "\<exists>err. mapErrorWithTransactionResult (Some r) None = Ret err \<and> reportOf i err = [\<lparr>rr_Id = i, rr_Err = v, rr_Finalized = True\<rparr>]"
proof (cases "tr_Status r = ResultStatusSuccess")
  case True
  with assms show ?thesis by (simp add: verdict_def mapErrorWithTransactionResult_def MapError_def reportOf_def)
next
  case False
  with assms obtain cv mv fc where f: "tr_Failure r = Some (cv, mv)" "HexInt_Value cv = Ret fc" "32 \<le> fc" "fc \<le> 99" "v = fc - 32"
    by (auto simp: verdict_def split: option.splits outcome.splits if_splits)
  from revert_coder [of "fc - 32"] f(3) obtain e where "NewRevertError (fc - 32) = Some e" "coder (Plain e) = Some (fc - 32)" by auto
  with False f show ?thesis
    by (simp add: mapErrorWithTransactionResult_def MapError_def reportOf_def ResultStatusFailureCodeRevert_def ResultStatusFailureCodeEnd_def Let_def)
qed

text \<open>
  C16: when the node, after any number of answers that a transaction is pending or executing and at most
  five that there is none, gives its result, the goroutine of the message ends, the result is
  reported to the link as final, with \<open>-1\<close> for success or the code the contract reverted with, and the
  message leaves the queue; fuel beyond the number of answers is enough.
\<close>
theorem sender_result_reports:
  assumes "ask = nd_getTransactionResult (ig_node c) txh" and "n = is_node s"
    and "\<And>j. j < k \<Longrightarrow> awaiting (fst (ask (asked ask j n))) \<or> no_block (fst (ask (asked ask j n)))" and "misses ask k n \<le> 5"
    and "fst (ask (asked ask k n)) = Ret r" and "verdict r = Some v"
  shows "\<exists>s'. sender_result (Suc fuel + k) c (i, txh) s = (Ret (), s') \<and>
    is_rr s' = is_rr s @ [\<lparr>rr_Id = i, rr_Err = v, rr_Finalized = True\<rparr>] \<and> is_queue s' = dequeue i (is_queue s)"
proof -
  from verdict_reported [OF assms(6), of i] obtain err where
    err: "mapErrorWithTransactionResult (Some r) None = Ret err" "reportOf i err = [\<lparr>rr_Id = i, rr_Err = v, rr_Finalized = True\<rparr>]" by blast
  obtain n' where a: "nd_getTransactionResult (ig_node c) txh (asked ask k n) = (Ret r, n')"
    using assms(1,5) by (metis fst_conv surj_pair)
  have "GetResult (Suc fuel + k) 5 (ig_node c) txh n = GetResult (Suc fuel) (5 - misses ask k n) (ig_node c) txh (asked ask k n)"
    using assms(3,4) by (intro GetResult_waits [OF assms(1)]) auto
  also have "\<dots> = (Ret err, n')" using a err(1) by simp
  finally have "GetResult (Suc fuel + k) 5 (ig_node c) txh (is_node s) = (Ret err, n')" unfolding assms(2) .
  with err(2) show ?thesis by (simp add: sender_result_def TransactionResultRetryLimit_def del: GetResult.simps)
qed

theorem sender_result_reports_witness:
  "\<exists>s'. sender_result 1 (quick_cfg \<lparr>tr_Status = ''0x0'', tr_Failure = Some (''0x3b'', ''reverted'')\<rparr>) (''m'', ''0x01'') sent_one = (Ret (), s') \<and>
     is_rr s' = [\<lparr>rr_Id = ''m'', rr_Err = 27, rr_Finalized = True\<rparr>]"
proof -
  let ?r = "\<lparr>tr_Status = ''0x0'', tr_Failure = Some (''0x3b'', ''reverted'')\<rparr>"
  have "HexInt_Value ''0x3b'' = Ret 59" by (simp add: number_eval)
  then have "verdict ?r = Some 27" by (simp add: verdict_def ResultStatusSuccess_def)
  from sender_result_reports [OF refl refl, of 0 "quick_cfg ?r" "''0x01''" sent_one ?r 27 0 "''m''", OF _ _ _ this]
  show ?thesis by (auto simp: quick_cfg_def quick_node_def sent_one_def)
qed

text \<open>
  Answers that end the wait without a code: no transaction for the sixth time; another JSON-RPC error (the message of
  a system error has the five characters that are looked at), an HTTP error or an error of the connection; a
  result that failed with a code that is no number or none of a revert.
\<close>

definition codeless :: "nat \<Rightarrow> TransactionResult answer \<Rightarrow> bool" where
  "codeless missed r = (case r of
      Ret txr \<Rightarrow> tr_Failure txr \<noteq> None \<and> verdict txr = None
    | Fail (JsonrpcError jc m) \<Rightarrow> (if jc = JsonrpcErrorCodeNotFound then missed = 5
        else jc \<noteq> JsonrpcErrorCodePending \<and> jc \<noteq> JsonrpcErrorCodeExecuting \<and> (jc = JsonrpcErrorCodeSystem \<longrightarrow> 5 \<le> length m))
    | Fail (Plain e) \<Rightarrow> CoderOf (Some e) = None
    | Fail HttpError \<Rightarrow> True | Fail (UrlError refused) \<Rightarrow> True
    | Panic \<Rightarrow> False | OutOfFuel \<Rightarrow> False)"

lemma coder_plain: "coder (Plain (StdError t)) = None"
  by (simp add: coder_def CoderOf_def)

lemma MapError_codeless:
  assumes "codeless missed (Fail e)" and "\<forall>jc m. e = JsonrpcError jc m \<longrightarrow> jc \<noteq> JsonrpcErrorCodeNotFound"
  shows "\<exists>x. mapErrorWithTransactionResult None (Some e) = Ret (Some x) \<and> coder x = None"
proof -
  have j: "coder (JsonrpcError jc m) = None" "coder (UrlError b) = None" for jc m b by (simp_all add: coder_def)
  note fixed = coder_plain ErrConnectFail_def ErrSendFailByExpired_def ErrSendFailByFuture_def ErrSendFailByOverflow_def
  show ?thesis
  proof (cases e)
    case (JsonrpcError jc m)
    with assms have jc: "jc \<noteq> JsonrpcErrorCodePending" "jc \<noteq> JsonrpcErrorCodeExecuting" "jc = JsonrpcErrorCodeSystem \<longrightarrow> 5 \<le> length m"
      by (simp_all add: codeless_def)
    have "\<exists>x. MapError (Some (JsonrpcError jc m)) = Ret (Some x) \<and> coder x = None"
    proof (cases "jc = JsonrpcErrorCodeSystem")
      case True
      then obtain sub where "subEc m = Ret sub" using jc(3) by (simp add: subEc_def)
      with True j show ?thesis by (simp add: MapError_def fixed rpc_codes(1,2))
    next
      case False
      with jc j show ?thesis by (simp add: MapError_def fixed)
    qed
    then show ?thesis by (auto simp: JsonrpcError mapErrorWithTransactionResult_def)
  next
    case (Plain x)
    with assms(1) show ?thesis by (simp add: codeless_def mapErrorWithTransactionResult_def MapError_def coder_def)
  qed (simp_all add: mapErrorWithTransactionResult_def MapError_def fixed j)
qed

lemma verdict_codeless:
  assumes "codeless missed (Ret txr)"
  shows "\<exists>x. mapErrorWithTransactionResult (Some txr) None = Ret (Some x) \<and> coder x = None"
proof -
  from assms obtain cv mv where f: "tr_Status txr \<noteq> ResultStatusSuccess" "tr_Failure txr = Some (cv, mv)"
    "verdict txr = None" by (auto simp: codeless_def verdict_def split: if_splits)
  then show ?thesis
    by (auto simp: verdict_def mapErrorWithTransactionResult_def MapError_def coder_plain Let_def
        ResultStatusFailureCodeRevert_def ResultStatusFailureCodeEnd_def split: outcome.splits if_splits)
qed

lemma GetResult_codeless:
  assumes "nd_getTransactionResult N txh n = (r, n')" and "codeless (5 - retry) r" and "retry \<le> 5"
  shows "\<exists>x. GetResult (Suc fuel) retry N txh n = (Ret (Some x), n') \<and> coder x = None"
proof (cases r)
  case (Ret txr)
  with assms verdict_codeless show ?thesis by fastforce
next
  case (Fail e)
  show ?thesis
  proof (cases "\<exists>m. e = JsonrpcError JsonrpcErrorCodeNotFound m")
    case True
    with Fail assms show ?thesis by (auto simp: codeless_def coder_plain rpc_codes)
  next
    case False
    then obtain x where "mapErrorWithTransactionResult None (Some e) = Ret (Some x)" "coder x = None"
      using MapError_codeless [of "5 - retry" e] assms(2) Fail by auto
    with False Fail assms show ?thesis
      by (cases e) (auto simp: codeless_def split: if_splits)
  qed
qed (use assms(2) in \<open>simp_all add: codeless_def\<close>)

text \<open>
  C34: a failure without a code is never reported. When, after any number of answers that a transaction is pending
  or executing and at most five that there is none, the node gives an answer without a code - that there is no
  transaction for the sixth time, another error, or a result that failed for another reason than a revert -, the
  goroutine ends and the message leaves the queue, but nothing is sent to the link, which keeps the message as sent.
\<close>
theorem sender_result_silent:
  assumes "ask = nd_getTransactionResult (ig_node c) txh" and "n = is_node s"
    and "\<And>j. j < k \<Longrightarrow> awaiting (fst (ask (asked ask j n))) \<or> no_block (fst (ask (asked ask j n)))" and "misses ask k n \<le> 5"
    and "codeless (misses ask k n) (fst (ask (asked ask k n)))"
  shows "\<exists>s'. sender_result (Suc fuel + k) c (i, txh) s = (Ret (), s') \<and> is_rr s' = is_rr s \<and> is_queue s' = dequeue i (is_queue s)"
proof -
  obtain r n' where a: "nd_getTransactionResult (ig_node c) txh (asked ask k n) = (r, n')" by fastforce
  have w: "GetResult (Suc fuel + k) 5 (ig_node c) txh n = GetResult (Suc fuel) (5 - misses ask k n) (ig_node c) txh (asked ask k n)"
    using assms(3,4) by (intro GetResult_waits [OF assms(1)]) auto
  have "codeless (5 - (5 - misses ask k n)) r" using assms(1,4,5) a by simp
  from GetResult_codeless [OF a this, of fuel] obtain x where
    "GetResult (Suc fuel) (5 - misses ask k n) (ig_node c) txh (asked ask k n) = (Ret (Some x), n')" "coder x = None" by auto
  with w have "GetResult (Suc fuel + k) 5 (ig_node c) txh (is_node s) = (Ret (Some x), n')" unfolding assms(2) by simp
  with \<open>coder x = None\<close> show ?thesis
    by (simp add: sender_result_def TransactionResultRetryLimit_def reportOf_def del: GetResult.simps)
qed

text \<open>A node that has no such transaction, whenever it is asked.\<close>

definition lost_cfg :: "unit isender_cfg" where
  "lost_cfg = (let r = \<lparr>tr_Status = ''0x0'', tr_Failure = None\<rparr> in
     (quick_cfg r)\<lparr>ig_node := (quick_node r)\<lparr>nd_getTransactionResult :=
       \<lambda>p n. (Fail (JsonrpcError JsonrpcErrorCodeNotFound ''not found''), n)\<rparr>\<rparr>)"

theorem sender_result_silent_witness:
  "\<exists>s'. sender_result 6 lost_cfg (''m'', ''0x01'') sent_one = (Ret (), s') \<and> is_rr s' = [] \<and> is_queue s' = []"
proof -
  let ?ask = "nd_getTransactionResult (ig_node lost_cfg) ''0x01''"
  have ask: "?ask = (\<lambda>n. (Fail (JsonrpcError JsonrpcErrorCodeNotFound ''not found''), n))" by (simp add: lost_cfg_def Let_def)
  have "misses ?ask k n = k" for k n by (induction k arbitrary: n) (simp_all add: ask no_block_def)
  moreover have "no_block (fst (?ask n))" for n by (simp add: ask no_block_def)
  moreover have "codeless 5 (fst (?ask n))" for n by (simp add: ask codeless_def)
  ultimately have "\<exists>s'. sender_result (Suc 0 + 5) lost_cfg (''m'', ''0x01'') sent_one = (Ret (), s') \<and>
      is_rr s' = is_rr sent_one \<and> is_queue s' = dequeue ''m'' (is_queue sent_one)"
    by (intro sender_result_silent [OF refl refl]) auto
  then show ?thesis by (simp add: sent_one_def dequeue_def drop_through_def)
qed

end
