(* ===== verification/BTP_Link_Inv.thy ===== *)
theory BTP_Link_Inv
  imports BTP_Link
begin

text \<open>
  Invariants of the relay link. The primitive operations that change the link are few; a locale
  collects what an invariant must satisfy for each of them and carries it through every handler
  to all reachable states. It is interpreted for three invariants: the open item list and
  its size, the order in which messages are sent, and the order of the messages themselves.
\<close>

section \<open>Primitive operations\<close>

lemma appendRelayMessage_loop_rms:
  "appendRelayMessage_loop R rmis l = (r, l') \<Longrightarrow>
   \<exists>ms. l' = l\<lparr>l_rms := l_rms l @ ms\<rparr> \<and> (\<forall>m\<in>set ms. \<not> rm_sendingStatus m \<and> rm_bls m = l_bls l) \<and>
     (r = Ret () \<longrightarrow> map rm_rmis ms = rmis)"
proof (induction rmis arbitrary: l)
  case Nil
  then show ?case by (auto simp: ret_p_def intro: exI [of _ "[]"])
next
  case (Cons rmi rmis)
  show ?case
  proof (cases "r_BuildRelayMessage R rmi")
    case (Ret m)
    let ?m = "newRelayMessage l m rmi" and ?l = "l\<lparr>l_rms := l_rms l @ [newRelayMessage l m rmi]\<rparr>"
    from Cons.prems Ret have "appendRelayMessage_loop R rmis ?l = (r, l')"
      by (simp add: bind_p_def lift_p_def modify_p_def)
    from Cons.IH [OF this] obtain ms where ms: "l' = ?l\<lparr>l_rms := l_rms ?l @ ms\<rparr>"
      "\<forall>m\<in>set ms. \<not> rm_sendingStatus m \<and> rm_bls m = l_bls ?l" "r = Ret () \<longrightarrow> map rm_rmis ms = rmis"
      by blast
    have "\<not> rm_sendingStatus ?m \<and> rm_bls ?m = l_bls l" "rm_rmis ?m = rmi"
      by (simp_all add: newRelayMessage_def)
    with ms show ?thesis by (intro exI [of _ "?m # ms"]) auto
  qed (use Cons.prems in \<open>auto simp: bind_p_def lift_p_def intro: exI [of _ "[]"]\<close>)
qed

lemma appendRelayMessage_cases:
  assumes "appendRelayMessage R l = (r, l')"
  obtains ms where "\<forall>m\<in>set ms. \<not> rm_sendingStatus m \<and> rm_bls m = l_bls l"
    and "r = Ret () \<Longrightarrow> l' = l\<lparr>l_rms := l_rms l @ ms, l_rmis := [[]], l_size := 0\<rparr> \<and> map rm_rmis ms = l_rmis l"
    and "r \<noteq> Ret () \<Longrightarrow> l' = l\<lparr>l_rms := l_rms l @ ms\<rparr>"
proof -
  obtain q k where q: "appendRelayMessage_loop R (l_rmis l) l = (q, k)" by fastforce
  from appendRelayMessage_loop_rms [OF q] obtain ms where ms: "k = l\<lparr>l_rms := l_rms l @ ms\<rparr>"
    "\<forall>m\<in>set ms. \<not> rm_sendingStatus m \<and> rm_bls m = l_bls l" "q = Ret () \<longrightarrow> map rm_rmis ms = l_rmis l"
    by blast
  from assms q ms(1) have "q = Ret () \<longrightarrow> r = Ret () \<and> l' = k\<lparr>l_rmis := [[]], l_size := 0\<rparr>"
    and "q \<noteq> Ret () \<longrightarrow> r \<noteq> Ret () \<and> l' = k"
    by (cases q; auto simp: appendRelayMessage_def resetRelayMessageItem_def bind_p_def proc_defs)+
  with ms that show thesis by (cases "q = Ret ()") auto
qed

text \<open>The states a sender goes through when its operations are called.\<close>

inductive calls :: "'s sender \<Rightarrow> 's \<Rightarrow> 's \<Rightarrow> bool" for S :: "'s sender" where
  no_call: "calls S s s"
| relay_call: "calls S (snd (s_Relay S s i m)) t \<Longrightarrow> calls S s t"
| status_call: "calls S (snd (s_GetStatus S s)) t \<Longrightarrow> calls S s t"

text \<open>What sending leaves behind: some unsent messages become sent, in order; nothing else of the
  message list changes.\<close>

lemma sendRelayMessage_loop_spec:
  assumes "sendRelayMessage_loop S pre rest l = (r, l')" and "l_rms l = pre @ rest"
  shows "\<exists>k s. l' = l\<lparr>l_rms := pre @ map (rm_sendingStatus_update (\<lambda>_. True)) (take k rest) @ drop k rest,
       l_s := s, l_relayState := l_relayState l'\<rparr> \<and> calls S (l_s l) s \<and>
     (r = Ret () \<longrightarrow> l_relayState l' = PENDING \<and> k < length rest \<and> \<not> rm_sendingStatus (rest ! k)
        \<or> k = length rest \<and> l_relayState l' = l_relayState l) \<and>
     (r = Ret () \<or> (\<exists>e. r = Fail e \<and> \<not> Equals InvalidStateError (Some e)) \<and> l_relayState l' = l_relayState l)"
  using assms
proof (induction rest arbitrary: pre l)
  case Nil
  then show ?case by (auto simp: ret_p_def intro: exI [of _ "l_s l"] no_call)
next
  case (Cons rm rest)
  show ?case
  proof (cases "rm_sendingStatus rm")
    case True
    then have same: "rm\<lparr>rm_sendingStatus := True\<rparr> = rm" by (cases rm) simp
    from True Cons.prems(1) have *: "sendRelayMessage_loop S (pre @ [rm]) rest l = (r, l')" by simp
    from Cons.IH [OF *] Cons.prems(2) obtain k s where
      "l' = l\<lparr>l_rms := (pre @ [rm]) @ map (rm_sendingStatus_update (\<lambda>_. True)) (take k rest) @ drop k rest,
         l_s := s, l_relayState := l_relayState l'\<rparr>" "calls S (l_s l) s"
      "r = Ret () \<longrightarrow> l_relayState l' = PENDING \<and> k < length rest \<and> \<not> rm_sendingStatus (rest ! k)
        \<or> k = length rest \<and> l_relayState l' = l_relayState l"
      "r = Ret () \<or> (\<exists>e. r = Fail e \<and> \<not> Equals InvalidStateError (Some e)) \<and> l_relayState l' = l_relayState l"
      by auto
    with same show ?thesis by (intro exI [of _ "Suc k"] exI [of _ s]) auto
  next
    case False
    obtain e s where R: "s_Relay S (l_s l) (rm_id rm) (rm_message rm) = (e, s)" by fastforce
    have call: "calls S s t \<Longrightarrow> calls S (l_s l) t" for t
      using relay_call [of S "l_s l" "rm_id rm" "rm_message rm" t] R by simp
    note c = call [OF no_call]
    show ?thesis
    proof (cases e)
      case (Some x)
      with False R Cons.prems show ?thesis
        by (intro exI [of _ 0] exI [of _ s])
          (auto simp: get_p_def modify_p_def fail_p_def bind_p_def c split: if_splits)
    next
      case None
      let ?rm = "rm\<lparr>rm_sendingStatus := True\<rparr>"
      let ?l = "l\<lparr>l_s := s, l_rms := pre @ ?rm # rest\<rparr>"
      from None False R Cons.prems(1) have *: "sendRelayMessage_loop S (pre @ [?rm]) rest ?l = (r, l')"
        by (simp add: get_p_def modify_p_def bind_p_def)
      from Cons.IH [OF *] obtain k t where
        "l' = ?l\<lparr>l_rms := (pre @ [?rm]) @ map (rm_sendingStatus_update (\<lambda>_. True)) (take k rest) @ drop k rest,
           l_s := t, l_relayState := l_relayState l'\<rparr>" "calls S (l_s ?l) t"
        "r = Ret () \<longrightarrow> l_relayState l' = PENDING \<and> k < length rest \<and> \<not> rm_sendingStatus (rest ! k)
          \<or> k = length rest \<and> l_relayState l' = l_relayState ?l"
        "r = Ret () \<or> (\<exists>e. r = Fail e \<and> \<not> Equals InvalidStateError (Some e)) \<and> l_relayState l' = l_relayState ?l"
        by auto
      then show ?thesis using call [of t] by (intro exI [of _ "Suc k"] exI [of _ t]) auto
    qed
  qed
qed

section \<open>The started link\<close>

definition fresh_shape :: "('i, 's) link \<Rightarrow> bool" where
  "fresh_shape l \<longleftrightarrow> l_rms l = [] \<and> l_rmis l = [[]] \<and> l_size l = 0"

lemma Start_shape: "keeps fresh_shape (Start R S)"
proof -
  have u: "keeps fresh_shape (updateBMCLinkStatus S)"
    unfolding updateBMCLinkStatus_def
    by (rule keeps_get_p) (auto split: prod.split intro!: keeps_intros keeps_modify_p simp: fresh_shape_def)
  have o: "keeps fresh_shape (opt_fail e)" for e
    unfolding opt_fail_def by (intro keeps_intros)
  show ?thesis
    unfolding Start_def startSenderChannel_def
    by (intro keeps_intros u o keeps_modify_p) (simp_all add: fresh_shape_def)
qed

section \<open>From primitive operations to reachable states\<close>

text \<open>
  \<open>fresh b i\<close> says that item \<open>i\<close> may be applied to the link status \<open>b\<close>; the receiver must build
  fresh items only.
\<close>

locale link_invariant =
  fixes R :: "'i receiver" and S :: "'s sender"
    and I :: "('i, 's) link \<Rightarrow> bool" and fresh :: "bmcLinkStatus \<Rightarrow> 'i \<Rightarrow> bool"
  assumes item: "I l \<Longrightarrow> l_rmis l \<noteq> [] \<Longrightarrow>
      I (l\<lparr>l_rmis := butlast (l_rmis l) @ [last (l_rmis l) @ [i]], l_size := l_size l + r_Len R i\<rparr>)"
    and upd: "I l \<Longrightarrow> fresh (l_bls l) i \<Longrightarrow> r_Update R i (l_bls l) = (e, b) \<Longrightarrow> I (l\<lparr>l_bls := b\<rparr>)"
    and app: "I l \<Longrightarrow> \<forall>m\<in>set ms. \<not> rm_sendingStatus m \<and> rm_bls m = l_bls l \<Longrightarrow>
      I (l\<lparr>l_rms := l_rms l @ ms\<rparr>)"
    and reset: "I l \<Longrightarrow> I (l\<lparr>l_rmis := [[]], l_size := 0\<rparr>)"
    and sent: "I l \<Longrightarrow> l_rms l = a @ c \<Longrightarrow>
      I (l\<lparr>l_rms := map (rm_sendingStatus_update (\<lambda>_. True)) a @ c\<rparr>)"
    and drop: "I l \<Longrightarrow> l_rms l = a @ c \<Longrightarrow> I (l\<lparr>l_rms := c\<rparr>)"
    and status: "I l \<Longrightarrow> I (l\<lparr>l_bls := b, l_rms := []\<rparr>)"
    and frame_rss: "I l \<Longrightarrow> I (l\<lparr>l_rss := rs\<rparr>)"
    and frame_state: "I l \<Longrightarrow> I (l\<lparr>l_relayState := st\<rparr>)"
    and frame_s: "I l \<Longrightarrow> calls S (l_s l) s \<Longrightarrow> I (l\<lparr>l_s := s\<rparr>)"
    and frame_blsOut: "I l \<Longrightarrow> I (l\<lparr>l_blsOut := bo\<rparr>)"
    and frame_errOut: "I l \<Longrightarrow> I (l\<lparr>l_errOut := eo\<rparr>)"
    and frame_once: "I l \<Longrightarrow> I (l\<lparr>l_once := on\<rparr>)"
    and fresh_mp: "r_BuildMessageProof R b lim = Ret (Some i) \<Longrightarrow> fresh b i"
    and fresh_bp: "r_BuildBlockProof R b h = Ret (Some i) \<Longrightarrow> fresh b i"
    and fresh_bu: "r_BuildBlockUpdate R b lim = Ret bus \<Longrightarrow> i \<in> set bus \<Longrightarrow> fresh b i"
    and fresh_bus: "r_BuildBlockUpdate R b lim = Ret bus \<Longrightarrow> length bus \<le> 1 \<or> (\<forall>b i. fresh b i)"
begin

lemma keeps_item: "keeps I (appendRelayMessageItem R x)"
  unfolding appendRelayMessageItem_def
  by (rule keepsI) (auto simp: proc_defs item split: option.split)

lemma updateBls_I: "I l \<Longrightarrow> fresh (l_bls l) i \<Longrightarrow> updateBls R i l = (r, l') \<Longrightarrow> I l'"
  by (auto simp: updateBls_def proc_defs bind_p_def intro: upd split: prod.splits option.splits)

lemma keeps_appendRelayMessage: "keeps I (appendRelayMessage R)"
proof (rule keepsI)
  fix l assume l: "I l"
  obtain r l' where A: "appendRelayMessage R l = (r, l')" by fastforce
  from A show "I (snd (appendRelayMessage R l))"
  proof (rule appendRelayMessage_cases)
    fix ms assume *: "\<forall>m\<in>set ms. \<not> rm_sendingStatus m \<and> rm_bls m = l_bls l"
      and "r = Ret () \<Longrightarrow> l' = l\<lparr>l_rms := l_rms l @ ms, l_rmis := [[]], l_size := 0\<rparr> \<and> map rm_rmis ms = l_rmis l"
      and "r \<noteq> Ret () \<Longrightarrow> l' = l\<lparr>l_rms := l_rms l @ ms\<rparr>"
    then show ?thesis
      using app [OF l *] reset [OF app [OF l *]] A by (cases "r = Ret ()") auto
  qed
qed

lemma keeps_sendRelayMessage: "keeps I (sendRelayMessage S)"
proof (rule keepsI)
  fix l assume l: "I l"
  obtain r l' where A: "sendRelayMessage_loop S [] (l_rms l) l = (r, l')" by fastforce
  from sendRelayMessage_loop_spec [OF A] obtain k s where
    l': "l' = l\<lparr>l_rms := map (rm_sendingStatus_update (\<lambda>_. True)) (take k (l_rms l)) @ drop k (l_rms l),
       l_s := s, l_relayState := l_relayState l'\<rparr>" and c: "calls S (l_s l) s"
    by auto
  have "I (l\<lparr>l_rms := map (rm_sendingStatus_update (\<lambda>_. True)) (take k (l_rms l)) @ drop k (l_rms l)\<rparr>)"
    using l by (rule sent) simp
  then have "I l'" by (subst l') (rule frame_state, drule frame_s [of _ s], simp_all add: c)
  then show "I (snd (sendRelayMessage S l))" by (simp add: sendRelayMessage_def get_p_def A)
qed

lemma keeps_buildMessageProof: "keeps I (buildMessageProof R)"
proof (rule keepsI)
  fix l assume l: "I l"
  show "I (snd (buildMessageProof R l))"
  proof (cases "r_BuildMessageProof R (l_bls l) (l_limitSize l - l_size l)")
    case (Ret mp)
    then show ?thesis
      using l updateBls_I [OF l fresh_mp]
      by (auto simp: buildMessageProof_def proc_defs bind_p_def split: option.splits prod.splits outcome.splits)
  qed (use l in \<open>auto simp: buildMessageProof_def proc_defs bind_p_def\<close>)
qed

lemma keeps_buildBlockProof: "keeps I (buildBlockProof R)"
proof (rule keepsI)
  fix l assume l: "I l"
  show "I (snd (buildBlockProof R l))"
  proof (cases "r_BuildBlockProof R (l_bls l) (r_GetHeightForSeq R (RxSeq (l_bls l)))")
    case (Ret bp)
    then show ?thesis
      using l updateBls_I [OF l fresh_bp]
      by (auto simp: buildBlockProof_def proc_defs bind_p_def split: option.splits prod.splits outcome.splits)
  qed (use l in \<open>auto simp: buildBlockProof_def proc_defs bind_p_def\<close>)
qed

lemmas keeps_primitive = keeps_item keeps_appendRelayMessage keeps_sendRelayMessage
  keeps_buildMessageProof keeps_buildBlockProof

lemma keeps_buildProof_loop: "keeps I (buildProof_loop R bu seq n mpLen)"
  by (induction n arbitrary: mpLen) (auto intro!: keeps_intros keeps_primitive)

lemma keeps_buildProof: "keeps I (buildProof R fuel bu)"
  unfolding buildProof_def by (intro keeps_intros keeps_buildProof_loop)

lemma buildBlockUpdates_fresh:
  "buildBlockUpdates R n l = (r, l') \<Longrightarrow> l' = l \<and>
     (\<forall>bus. r = Ret bus \<longrightarrow> (\<forall>i\<in>set bus. fresh (l_bls l) i) \<and> (length bus \<le> 1 \<or> (\<forall>b i. fresh b i)))"
proof (induction n)
  case (Suc n)
  show ?case
  proof (cases "r_BuildBlockUpdate R (l_bls l) (l_limitSize l - l_size l)")
    case (Ret bus)
    with Suc show ?thesis
      using fresh_bu [OF Ret] fresh_bus [OF Ret]
      by (cases "bus = []") (auto simp: proc_defs bind_p_def)
  qed (use Suc.prems in \<open>auto simp: proc_defs bind_p_def\<close>)
qed (simp add: lift_p_def)

lemma buildRelayMessage_loop_I:
  assumes "I l" and "\<forall>i\<in>set bus. fresh (l_bls l) i" and "length bus \<le> 1 \<or> (\<forall>b i. fresh b i)"
  shows "I (snd (buildRelayMessage_loop R fuel bus l))"
  using assms
proof (induction bus arbitrary: l)
  case (Cons bu bus)
  let ?A = "appendRelayMessageItem R (Some bu)" and ?U = "updateBls R bu"
  let ?k = "bind_p (buildProof R fuel (Some bu)) (\<lambda>mpLen.
       then_p (get_p (\<lambda>l. if mpLen = 0 then
           (if FilledBlockUpdate (l_p l)
            then (if isOverLimit l (l_size l) then appendRelayMessage R else ret_p ())
            else appendRelayMessage R)
         else appendRelayMessage R))
       (buildRelayMessage_loop R fuel bus))"
  have rest: "keeps I (buildRelayMessage_loop R fuel bus)"
    using Cons.IH Cons.prems(3) by (intro keepsI) (cases bus; auto simp: ret_p_def)
  have k: "keeps I ?k"
    by (intro keeps_intros keeps_buildProof keeps_primitive rest)
  obtain r1 l1 where A: "?A l = (r1, l1)" by fastforce
  have I1: "I l1" using keepsD [OF keeps_item Cons.prems(1) A] .
  have b1: "l_bls l1 = l_bls l"
    using A by (auto simp: appendRelayMessageItem_def proc_defs split: if_splits)
  obtain r2 l2 where U: "?U l1 = (r2, l2)" by fastforce
  have I2: "I l2" using updateBls_I [OF I1 _ U] Cons.prems(2) b1 by simp
  have I3: "I (snd (?k l2))" using k I2 by (simp add: keeps_def)
  show ?case using A U I1 I2 I3
    by (cases r1; cases r2) (simp_all add: bind_p_def)
qed (simp add: ret_p_def)

lemma keeps_buildRelayMessage: "keeps I (buildRelayMessage R fuel)"
proof (rule keepsI)
  fix l assume l: "I l"
  let ?l = "if l_rmis l = [] then l\<lparr>l_rmis := [[]], l_size := 0\<rparr> else l"
  have l': "I ?l" using l reset by simp
  obtain r k where B: "buildBlockUpdates R fuel ?l = (r, k)" by fastforce
  note F = buildBlockUpdates_fresh [OF B]
  have "buildRelayMessage R fuel l = bind_p (buildBlockUpdates R fuel) (buildRelayMessage_loop R fuel) ?l"
    by (simp add: buildRelayMessage_def resetRelayMessageItem_def bind_p_def proc_defs)
  moreover have "I (snd (bind_p (buildBlockUpdates R fuel) (buildRelayMessage_loop R fuel) ?l))"
    using F l' buildRelayMessage_loop_I by (cases r) (simp_all add: bind_p_def B)
  ultimately show "I (snd (buildRelayMessage R fuel l))" by simp
qed

lemma keeps_setState: "keeps I (modify_p (\<lambda>l. l\<lparr>l_relayState := st\<rparr>))"
  by (rule keeps_modify_p) (rule frame_state)

lemma keeps_handleRelayMessage_loop: "keeps I (handleRelayMessage_loop R S fuel n)"
  by (induction n)
    (auto intro!: keeps_intros keeps_primitive keeps_buildRelayMessage keeps_buildProof keeps_modify_p
      intro: frame_state)

lemma keeps_handleRelayMessage: "keeps I (handleRelayMessage R S fuel)"
  unfolding handleRelayMessage_def
  by (intro keeps_intros keeps_primitive keeps_handleRelayMessage_loop)

lemma keeps_handleUndelivered_loop: "keeps I (handleUndelivered_loop R fuel seq n)"
  by (induction n) (auto intro!: keeps_intros keeps_buildProof)

lemma keeps_handleUndelivered: "keeps I (handleUndeliveredRelayMessage R fuel)"
  unfolding handleUndeliveredRelayMessage_def
  by (intro keeps_intros keeps_primitive keeps_handleUndelivered_loop)

lemma keeps_removeRelayMessage: "keeps I (removeRelayMessage b)"
  unfolding removeRelayMessage_def
proof (intro keeps_intros keeps_modify_p)
  fix l assume "I l"
  then show "I (l\<lparr>l_rms := drop_through (\<lambda>rm. VHeight (rm_bls rm) \<le> VHeight b \<and> RxSeq (rm_bls rm) \<le> RxSeq b) (l_rms l)\<rparr>)"
    using drop drop_through_suffix by metis
qed

lemma keeps_updateBlockProof: "keeps I (updateBlockProof R i)"
proof -
  have "keeps I (updateBlockProof_loop R b rmis)" for b rmis
    by (induction rmis) (auto intro!: keeps_intros)
  then show ?thesis unfolding updateBlockProof_def by (intro keeps_intros)
qed

lemma keeps_successRelayMessage: "keeps I (successRelayMessage R S fuel i)"
  unfolding successRelayMessage_def removeReceiveStatus_def
  by (intro keeps_intros keeps_removeRelayMessage keeps_setState keeps_handleRelayMessage keeps_modify_p
      frame_rss frame_blsOut)

lemma keeps_refreshed:
  assumes "\<And>l b. I l \<Longrightarrow> I (snd (k (l\<lparr>l_bls := b\<rparr>)))"
  shows "keeps I (then_p (updateBMCLinkStatus S) k)"
proof (rule keepsI)
  fix l assume l: "I l"
  obtain r s where G: "s_GetStatus S (l_s l) = (r, s)" by fastforce
  have "I (l\<lparr>l_s := s\<rparr>)" using l by (rule frame_s) (use status_call [OF no_call, of S "l_s l"] G in simp)
  then show "I (snd (then_p (updateBMCLinkStatus S) k l))"
    using assms [of "l\<lparr>l_s := s\<rparr>"] by (cases r) (simp_all add: updateBMCLinkStatus_def bind_p_def proc_defs G)
qed

lemma keeps_alreadyVerified: "keeps I (alreadyVerified R S fuel)"
  unfolding alreadyVerified_def
proof (rule keeps_refreshed)
  fix l b assume "I l"
  from frame_state [OF status [OF this, of b], of RUNNING]
  have "I (l\<lparr>l_bls := b, l_relayState := RUNNING, l_rms := []\<rparr>)" by (cases l) simp
  then show "I (snd (then_p (modify_p (\<lambda>l. l\<lparr>l_relayState := RUNNING\<rparr>))
       (get_p (\<lambda>l. bind_p (removeRelayMessage (l_bls l)) (\<lambda>index.
         if index = 0 then removeAllRelayMessage
         else get_p (\<lambda>l. if index < length (l_rms l)
           then (if rm_sendingStatus (l_rms l ! index) = False then handleRelayMessage R S fuel
                 else ret_p ())
           else panic_p)))) (l\<lparr>l_bls := b\<rparr>)))"
    by (simp add: removeRelayMessage_def removeAllRelayMessage_def bind_p_def proc_defs)
qed

lemma keeps_notVerifiable:
  "keeps I (then_p (updateBMCLinkStatus S) (then_p removeAllRelayMessage
     (then_p (modify_p (\<lambda>l. l\<lparr>l_relayState := RUNNING\<rparr>)) (handleRelayMessage R S fuel))))"
proof (rule keeps_refreshed)
  fix l b assume "I l"
  from frame_state [OF status [OF this, of b], of RUNNING]
  have "I (l\<lparr>l_bls := b, l_rms := [], l_relayState := RUNNING\<rparr>)" by simp
  with keeps_handleRelayMessage [of fuel] show "I (snd (then_p removeAllRelayMessage
      (then_p (modify_p (\<lambda>l. l\<lparr>l_relayState := RUNNING\<rparr>)) (handleRelayMessage R S fuel)) (l\<lparr>l_bls := b\<rparr>)))"
    by (simp add: removeAllRelayMessage_def bind_p_def modify_p_def keeps_def)
qed

lemma keeps_result: "keeps I (result R S fuel rr)"
  unfolding result_def
  by (intro keeps_intros keeps_successRelayMessage keeps_setState keeps_alreadyVerified
      keeps_notVerifiable keeps_updateBlockProof)

lemma keeps_report: "keeps I m \<Longrightarrow> keeps I (report m)"
  unfolding report_def
proof (rule keepsI)
  fix l assume m: "keeps I m" and l: "I l"
  obtain r l' where "m l = (r, l')" by fastforce
  moreover from keepsD [OF m l this] have "I l'" .
  ultimately show "I (snd (case m l of (Fail e, l') \<Rightarrow> (Ret (), l'\<lparr>l_errOut := l_errOut l' @ [e]\<rparr>)
      | (r, l') \<Rightarrow> (r, l')))"
    by (cases r) (simp_all add: frame_errOut)
qed

lemma keeps_onReceiveStatus: "keeps I (onReceiveStatus R S fuel rs)"
  unfolding onReceiveStatus_def
  by (intro keeps_intros keeps_modify_p frame_rss frame_once keeps_report
      keeps_handleUndelivered keeps_handleRelayMessage)

lemma keeps_onRelayResult: "keeps I (onRelayResult R S fuel rr)"
  unfolding onRelayResult_def by (rule keeps_report [OF keeps_result])

lemma keeps_onReceiveError: "keeps I (onReceiveError e)"
  unfolding onReceiveError_def by (rule keeps_modify_p) (rule frame_errOut)

lemmas keeps_handler = keeps_onReceiveStatus keeps_onRelayResult keeps_onReceiveError

end

text \<open>A run of the link against a family of receivers that all satisfy the laws.\<close>

locale link_run =
  fixes Rs :: "'i receiver \<Rightarrow> bool" and S :: "'s sender"
    and I :: "('i, 's) link \<Rightarrow> bool" and fresh :: "bmcLinkStatus \<Rightarrow> 'i \<Rightarrow> bool"
  assumes laws: "Rs R \<Longrightarrow> link_invariant R S I fresh"
    and init: "l_rms l = [] \<Longrightarrow> l_rmis l = [[]] \<Longrightarrow> l_size l = 0 \<Longrightarrow> I l"
    and any_sender: "I l \<Longrightarrow> I (l\<lparr>l_s := s\<rparr>)"
begin

lemma keeps_handlers:
  assumes "Rs R" and "I l"
  shows "I (snd (onReceiveStatus R S fuel rs l))" and "I (snd (onRelayResult R S fuel rr l))"
    and "I (snd (onReceiveError e l))"
  using link_invariant.keeps_handler [OF laws [OF assms(1)]] assms(2) by (simp_all add: keeps_def)

lemma link_step_I: "Rs R0 \<Longrightarrow> link_step Rs S l l' \<Longrightarrow> I l \<Longrightarrow> I l'"
proof (erule link_stepE)
  fix R fuel rs assume "Rs R" "onReceiveStatus R S fuel rs l = (Ret (), l')" "I l"
  then show "I l'" using keepsD [OF link_invariant.keeps_onReceiveStatus [OF laws]] by blast
next
  fix e assume "Rs R0" "onReceiveError e l = (Ret (), l')" "I l"
  then show "I l'" using keepsD [OF link_invariant.keeps_onReceiveError [OF laws]] by blast
next
  fix R fuel rr assume "Rs R" "onRelayResult R S fuel rr l = (Ret (), l')" "I l"
  then show "I l'" using keepsD [OF link_invariant.keeps_onRelayResult [OF laws]] by blast
next
  fix s assume "l' = l\<lparr>l_s := s\<rparr>" "I l"
  then show "I l'" by (simp add: any_sender)
qed

theorem reachable_I: "link_reachable Rs S l \<Longrightarrow> I l"
proof -
  have "link_reachable Rs S l \<Longrightarrow> I l \<and> (\<exists>R. Rs R)"
  proof (induction rule: link_reachable.induct)
    case (reach_start R src s l)
    have "fresh_shape (NewLink src s)" by (simp add: fresh_shape_def NewLink_def)
    from keepsD [OF Start_shape this reach_start(2)] reach_start(1) show ?case
      using init by (auto simp: fresh_shape_def)
  next
    case (reach_step l l')
    then show ?case by (blast intro: link_step_I)
  qed
  then show "link_reachable Rs S l \<Longrightarrow> I l" by blast
qed

end

section \<open>The open item list\<close>

text \<open>There is one open item list, and \<open>size\<close> is the total length of its items.\<close>

definition items_ok :: "('i \<Rightarrow> int) \<Rightarrow> ('i, 's) link \<Rightarrow> bool" where
  "items_ok len l \<longleftrightarrow> (\<exists>is. l_rmis l = [is] \<and> l_size l = sum_list (map len is))"

interpretation items: link_run "\<lambda>R. r_Len R = len" S "items_ok len" "\<lambda>_ _. True" for len S
  by unfold_locales (auto simp: items_ok_def)

section \<open>The order of sending\<close>

text \<open>The messages already handed to the sender are those at the front.\<close>

definition sent_first :: "('i, 's) link \<Rightarrow> bool" where
  "sent_first l \<longleftrightarrow> sorted_wrt (\<lambda>a b. rm_sendingStatus b \<longrightarrow> rm_sendingStatus a) (l_rms l)"

lemma sorted_wrt_all_true: "(\<And>x. x \<in> set xs \<Longrightarrow> P x) \<Longrightarrow> sorted_wrt (\<lambda>a b. P b \<longrightarrow> P a) xs"
  by (induction xs) auto

lemma sorted_wrt_all_false: "(\<And>x. x \<in> set xs \<Longrightarrow> \<not> P x) \<Longrightarrow> sorted_wrt (\<lambda>a b. P b \<longrightarrow> P a) xs"
  by (induction xs) auto

lemma sent_first_sent:
  "sent_first l \<Longrightarrow> l_rms l = a @ c \<Longrightarrow>
   sent_first (l\<lparr>l_rms := map (rm_sendingStatus_update (\<lambda>_. True)) a @ c\<rparr>)"
  by (auto simp: sent_first_def sorted_wrt_append sorted_wrt_map intro: sorted_wrt_all_true)

lemma sent_first_app:
  "sent_first l \<Longrightarrow> \<forall>m\<in>set ms. \<not> rm_sendingStatus m \<and> rm_bls m = l_bls l \<Longrightarrow>
   sent_first (l\<lparr>l_rms := l_rms l @ ms\<rparr>)"
  by (auto simp: sent_first_def sorted_wrt_append intro: sorted_wrt_all_false)

interpretation sending: link_run "\<lambda>_. True" S sent_first "\<lambda>_ _. True" for S
  by unfold_locales
    ((rule sent_first_sent sent_first_app; assumption) | (auto simp: sent_first_def sorted_wrt_append)[1])+

section \<open>The order of the messages\<close>

definition bls_le :: "bmcLinkStatus \<Rightarrow> bmcLinkStatus \<Rightarrow> bool" where
  "bls_le a b \<longleftrightarrow> VHeight a \<le> VHeight b \<and> RxSeq a \<le> RxSeq b"

text \<open>
  The statuses of the pending messages never decrease, and none is beyond the link status.
\<close>

definition ordered :: "('i, 's) link \<Rightarrow> bool" where
  "ordered l \<longleftrightarrow> sorted_wrt bls_le (map rm_bls (l_rms l) @ [l_bls l])"

text \<open>A receiver whose items move the link status forward, one block update at a time.\<close>

definition advancing :: "('i \<Rightarrow> bmcLinkStatus \<Rightarrow> err option \<times> bmcLinkStatus) \<Rightarrow> 'i receiver \<Rightarrow> bool" where
  "advancing upd R \<longleftrightarrow> r_Update R = upd \<and>
     (\<forall>b lim i. r_BuildMessageProof R b lim = Ret (Some i) \<longrightarrow> bls_le b (snd (upd i b))) \<and>
     (\<forall>b h i. r_BuildBlockProof R b h = Ret (Some i) \<longrightarrow> bls_le b (snd (upd i b))) \<and>
     (\<forall>b lim bus. r_BuildBlockUpdate R b lim = Ret bus \<longrightarrow>
        length bus \<le> 1 \<and> (\<forall>i\<in>set bus. bls_le b (snd (upd i b))))"

lemma bls_le_refl [simp]: "bls_le b b"
  by (simp add: bls_le_def)

lemma bls_le_trans: "bls_le a b \<Longrightarrow> bls_le b c \<Longrightarrow> bls_le a c"
  by (auto simp: bls_le_def)

lemma sorted_wrt_const: "\<forall>x\<in>set xs. x = b \<Longrightarrow> sorted_wrt bls_le xs"
  by (induction xs) auto

lemma ordered_app:
  "ordered l \<Longrightarrow> \<forall>m\<in>set ms. \<not> rm_sendingStatus m \<and> rm_bls m = l_bls l \<Longrightarrow>
   ordered (l\<lparr>l_rms := l_rms l @ ms\<rparr>)"
  by (auto simp: ordered_def sorted_wrt_append intro: sorted_wrt_const)

lemma ordered_upd: "ordered l \<Longrightarrow> bls_le (l_bls l) b \<Longrightarrow> ordered (l\<lparr>l_bls := b\<rparr>)"
  by (auto simp: ordered_def sorted_wrt_append intro: bls_le_trans)

lemma ordered_sent:
  "ordered l \<Longrightarrow> l_rms l = a @ c \<Longrightarrow>
   ordered (l\<lparr>l_rms := map (rm_sendingStatus_update (\<lambda>_. True)) a @ c\<rparr>)"
  by (simp add: ordered_def comp_def)

lemma advancing_upd:
  "advancing upd R \<Longrightarrow> ordered l \<Longrightarrow> bls_le (l_bls l) (snd (upd i (l_bls l))) \<Longrightarrow>
   r_Update R i (l_bls l) = (e, b) \<Longrightarrow> ordered (l\<lparr>l_bls := b\<rparr>)"
  by (rule ordered_upd) (auto simp: advancing_def)

interpretation order: link_run "advancing upd" S ordered "\<lambda>b i. bls_le b (snd (upd i b))" for upd S
  by unfold_locales
    ((rule ordered_app ordered_sent advancing_upd; assumption) |
     (auto simp: ordered_def sorted_wrt_append advancing_def)[1])+

end
