(* ===== verification/BTP_Link_Props.thy ===== *)
theory BTP_Link_Props
  imports BTP_Link_Inv
begin

text \<open>
  What a running link promises, from the invariants and from the structure of its handlers: a
  handler that runs undisturbed keeps the pending messages in order, one that returns has sent everything and caught up
  unless it waits, a receiver that keeps the contract makes the relay loop return, and what the
  link does with each kind of relay result. The two goroutines of the link can disturb each
  other: a message can be left pending that is beyond the status.
\<close>

section \<open>Reachable links\<close>

lemma link_reachable_mono:
  assumes "link_reachable P S l" and "\<And>Q. P Q \<Longrightarrow> P' Q"
  shows "link_reachable P' S l"
proof -
  have "link_step P S a b \<Longrightarrow> link_step P' S a b" for a b
    using assms(2) by (auto elim!: link_stepE intro: link_step.intros)
  with assms show ?thesis
    by (induction rule: link_reachable.induct) (auto intro: link_reachable.intros)
qed

text \<open>
  C21: in every reachable link there is exactly one open list of items, and the recorded size is
  the sum of their lengths.
\<close>
theorem reachable_items:
  assumes "link_reachable (\<lambda>R. r_Len R = len) S l"
  shows "\<exists>is. l_rmis l = [is] \<and> l_size l = sum_list (map len is)"
  using items.reachable_I [OF assms] by (simp add: items_ok_def)

text \<open>
  C19: messages are handed to the sender in order: in every reachable link, whatever the receiver
  and the sender do, the messages already sent precede those not sent.
\<close>
theorem reachable_sent_first:
  assumes "link_reachable Rs S l" and "i < j" and "j < length (l_rms l)"
    and "rm_sendingStatus (l_rms l ! j)"
  shows "rm_sendingStatus (l_rms l ! i)"
proof -
  have "link_reachable (\<lambda>_. True) S l" by (rule link_reachable_mono [OF assms(1)]) simp
  then have "sent_first l" by (rule sending.reachable_I)
  then show ?thesis using assms(2-) by (auto simp: sent_first_def sorted_wrt_iff_nth_less)
qed

section \<open>The order of the messages\<close>

text \<open>
  C2: with a receiver whose items never move the status backwards, each handler of the link, run to its end
  without the other goroutine in between, keeps the pending messages ascending in height and in sequence
  number and none of them beyond the link status - also when it fails or panics halfway. A link
  that has been started has no pending message.
\<close>
theorem handlers_keep_order:
  assumes "advancing upd R"
    and "sorted_wrt bls_le (map rm_bls (l_rms l)) \<and> (\<forall>rm\<in>set (l_rms l). bls_le (rm_bls rm) (l_bls l))"
    and "l' \<in> {snd (onReceiveStatus R S fuel rs l), snd (onRelayResult R S fuel rr l), snd (onReceiveError e l)}"
  shows "sorted_wrt bls_le (map rm_bls (l_rms l')) \<and> (\<forall>rm\<in>set (l_rms l'). bls_le (rm_bls rm) (l_bls l')) \<and>
    l_rms (snd (Start R S (NewLink src s))) = []"
proof -
  have I: "ordered l" using assms(2) by (auto simp: ordered_def sorted_wrt_append)
  have "ordered l'" using assms(3) order.keeps_handlers [OF assms(1) I] by auto
  moreover have "l_rms (snd (Start R S (NewLink src s))) = []"
    using Start_shape [of R S] by (simp add: keeps_def fresh_shape_def NewLink_def)
  ultimately show ?thesis by (auto simp: ordered_def sorted_wrt_append)
qed

text \<open>
  The part of a final \<open>BMVNotVerifiable\<close> result that \<open>result\<close> runs before it calls \<open>handleRelayMessage\<close>, hence
  without the mutex.
\<close>

definition notVerifiable_unlocked :: "'s sender \<Rightarrow> ('i, 's, unit) lproc" where
  "notVerifiable_unlocked S = then_p (updateBMCLinkStatus S)
     (then_p removeAllRelayMessage (modify_p (\<lambda>l. l\<lparr>l_relayState := RUNNING\<rparr>)))"

lemma result_notVerifiable:
  assumes "getRelayMessageForId (l_rms l) (rr_Id rr) \<noteq> None" and "rr_Err rr = BMVNotVerifiable" and "rr_Finalized rr"
  shows "result R S fuel rr l = then_p (notVerifiable_unlocked S) (handleRelayMessage R S fuel) l"
  using assms
  by (auto simp: result_def notVerifiable_unlocked_def updateBMCLinkStatus_def removeAllRelayMessage_def
      SUCCESS_def BMVUnknown_def BMVNotVerifiable_def CodeBMV_def bind_p_def proc_defs split: prod.splits outcome.splits)

text \<open>
  The race of the two goroutines: a round of \<open>appendRelayMessage\<close> makes its message from the link status and then appends
  it. When the other goroutine handles a final \<open>BMVNotVerifiable\<close> result in between, and the contract is behind, the
  link ends up with one pending message that is beyond its status.
\<close>
theorem append_races_result:
  assumes "r_BuildRelayMessage R rmi = Ret m" and "s_GetStatus S (l_s l) = (Ret b, s)" and "\<not> bls_le (l_bls l) b"
    and "notVerifiable_unlocked S l = (Ret (), l1)" and "l2 = l1\<lparr>l_rms := l_rms l1 @ [newRelayMessage l m rmi]\<rparr>"
  shows "appendRelayMessage_loop R [rmi] l = (Ret (), l\<lparr>l_rms := l_rms l @ [newRelayMessage l m rmi]\<rparr>) \<and>
    l_rms l2 = [newRelayMessage l m rmi] \<and> l_bls l2 = b \<and> \<not> bls_le (rm_bls (newRelayMessage l m rmi)) (l_bls l2)"
  using assms
  by (auto simp: notVerifiable_unlocked_def updateBMCLinkStatus_def removeAllRelayMessage_def newRelayMessage_def bls_le_def
      bind_p_def proc_defs)

section \<open>When relaying stops\<close>

lemma sendRelayMessage_done:
  assumes "sendRelayMessage S l = (Ret (), l')"
  shows "l_relayState l' = PENDING \<or> (\<forall>rm\<in>set (l_rms l'). rm_sendingStatus rm)"
proof -
  from assms have A: "sendRelayMessage_loop S [] (l_rms l) l = (Ret (), l')"
    by (simp add: sendRelayMessage_def get_p_def)
  from sendRelayMessage_loop_spec [OF A] obtain k s where
    l': "l' = l\<lparr>l_rms := map (rm_sendingStatus_update (\<lambda>_. True)) (take k (l_rms l)) @ drop k (l_rms l),
       l_s := s, l_relayState := l_relayState l'\<rparr>"
    and "l_relayState l' = PENDING \<or> k = length (l_rms l)"
    by auto
  then show ?thesis
  proof (elim disjE)
    assume "k = length (l_rms l)"
    with l' have "l_rms l' = map (rm_sendingStatus_update (\<lambda>_. True)) (l_rms l)"
      by (metis (no_types, lifting) append_Nil2 drop_all link.select_convs(1) link.surjective
          link.update_convs(1) link.update_convs(10) link.update_convs(8) order_refl take_all)
    then show ?thesis by auto
  qed simp
qed

definition settled :: "('i, 's) link \<Rightarrow> bool" where
  "settled l \<longleftrightarrow> l_relayState l = PENDING \<or> (\<forall>rm\<in>set (l_rms l). rm_sendingStatus rm)"

lemma handleRelayMessage_loop_done:
  "handleRelayMessage_loop R S fuel n l = (Ret (), l') \<Longrightarrow> settled l \<Longrightarrow>
   settled l' \<and> (l_relayState l' = PENDING \<or> \<not> behind l')"
proof (induction n arbitrary: l)
  case (Suc n)
  show ?case
  proof (cases "l_relayState l \<noteq> PENDING \<and> behind l")
    case True
    let ?f = "\<lambda>l. if l_relayState l = INIT then l\<lparr>l_relayState := PENDING\<rparr> else l"
    from Suc.prems(1) True obtain l1 l2 where "sendRelayMessage S l1 = (Ret (), l2)"
      and *: "handleRelayMessage_loop R S fuel n (?f l2) = (Ret (), l')"
      by (auto simp: get_p_def modify_p_def elim!: bind_p_RetE)
    from this(1) have "settled (?f l2)"
      using sendRelayMessage_done by (auto simp: settled_def)
    from Suc.IH [OF * this] show ?thesis .
  next
    case False
    with Suc.prems show ?thesis by (auto simp: get_p_def ret_p_def)
  qed
qed (simp add: lift_p_def)

lemma handleRelayMessage_settled:
  assumes "handleRelayMessage R S fuel l = (Ret (), l')"
  shows "l_relayState l' = PENDING \<or> \<not> behind l' \<and> (\<forall>rm\<in>set (l_rms l'). rm_sendingStatus rm)"
proof (cases "l_relayState l = PENDING")
  case True
  with assms show ?thesis by (simp add: handleRelayMessage_def get_p_def ret_p_def)
next
  case False
  with assms obtain l1 where "sendRelayMessage S l = (Ret (), l1)"
    and "handleRelayMessage_loop R S fuel fuel l1 = (Ret (), l')"
    by (auto simp: handleRelayMessage_def get_p_def elim!: bind_p_RetE)
  then show ?thesis
    using handleRelayMessage_loop_done sendRelayMessage_done unfolding settled_def by blast
qed

text \<open>
  C20: when \<open>handleRelayMessage\<close> returns without an error, either the link waits for a result, or
  its status has reached the last receive status and every pending message was handed to the
  sender.
\<close>
theorem handleRelayMessage_done:
  assumes "handleRelayMessage R S fuel l = (Ret (), l')"
  shows "l_relayState l' = PENDING \<or>
    \<not> behind l' \<and> (\<forall>rm\<in>set (l_rms l'). rm_sendingStatus rm)"
  by (rule handleRelayMessage_settled [OF assms])

section \<open>A receiver that keeps the contract\<close>

text \<open>
  \<open>total m l E Q\<close>: \<open>m\<close> comes back from \<open>l\<close>, with a result and state in \<open>Q\<close> or with an error in
  \<open>E\<close>; it neither panics nor runs out of fuel.
\<close>

definition total :: "('s, 'e, 'a) proc \<Rightarrow> 's \<Rightarrow> ('e \<Rightarrow> bool) \<Rightarrow> ('a \<Rightarrow> 's \<Rightarrow> bool) \<Rightarrow> bool" where
  "total m l E Q \<longleftrightarrow> (case m l of (Ret x, l') \<Rightarrow> Q x l' | (Fail e, l') \<Rightarrow> E e | _ \<Rightarrow> False)"

lemma total_bind: "total m l E (\<lambda>x l'. total (k x) l' E Q) \<Longrightarrow> total (bind_p m k) l E Q"
  by (auto simp: total_def bind_p_def split: prod.splits outcome.splits)

lemma total_mono: "total m l E Q \<Longrightarrow> (\<And>x l'. Q x l' \<Longrightarrow> Q' x l') \<Longrightarrow> total m l E Q'"
  by (auto simp: total_def split: prod.splits outcome.splits)

lemma total_ret [simp]: "total (ret_p x) l E Q = Q x l"
  by (simp add: total_def ret_p_def)

lemma total_fail [simp]: "total (fail_p e) l E Q = E e"
  by (simp add: total_def fail_p_def)

lemma total_modify [simp]: "total (modify_p f) l E Q = Q () (f l)"
  by (simp add: total_def modify_p_def)

lemma total_get [simp]: "total (get_p k) l E Q = total (k l) l E Q"
  by (simp add: total_def get_p_def)

lemma total_lift [simp]: "total (lift_p (Ret x)) l E Q = Q x l"
  by (simp add: total_def lift_p_def)

lemma totalI: "m l = (Ret x, l') \<Longrightarrow> Q x l' \<Longrightarrow> total m l E Q"
  by (simp add: total_def)

text \<open>The sequence number \<open>buildProof\<close> aims at when the link status is \<open>b\<close>.\<close>

definition need :: "receiveStatus list \<Rightarrow> bmcLinkStatus \<Rightarrow> int" where
  "need rss b = (case getReceiveStatusForHeight rss (VHeight b) of
      None \<Rightarrow> rs_Seq (last rss) | Some rs \<Rightarrow> rs_Seq rs)"

text \<open>
  The contract: from a status \<open>b\<close> with \<open>OK b\<close> below the last receive status there is one next
  block update, which raises the height, leaves the sequence number and needs no block proof.
  At the new height either no message is missing, or one message proof carries all that are; the
  bytes of the relay message can be built, and the status that follows is \<open>OK\<close> again. No block
  proof is asked for.
\<close>

definition proves :: "'i receiver \<Rightarrow> preference \<Rightarrow> receiveStatus list \<Rightarrow> (bmcLinkStatus \<Rightarrow> bool) \<Rightarrow> 'i \<Rightarrow> bmcLinkStatus \<Rightarrow> bool" where
  "proves R p rss OK bu b \<longleftrightarrow>
     need rss b \<le> RxSeq b \<and> \<not> FilledBlockUpdate p \<and> OK b \<and> (\<exists>m. r_BuildRelayMessage R [bu] = Ret m) \<or>
     RxSeq b < need rss b \<and> (\<exists>mp b' m.
       r_BuildMessageProof R b (TxSizeLimit p - MarginForLimit p - r_Len R bu) = Ret (Some mp) \<and> r_Len R mp \<noteq> 0 \<and>
       r_Update R mp b = (None, b') \<and> VHeight b' = VHeight b \<and> need rss b \<le> RxSeq b' \<and> OK b' \<and>
       r_BuildRelayMessage R [bu, mp] = Ret m)"

definition serves :: "'i receiver \<Rightarrow> preference \<Rightarrow> receiveStatus list \<Rightarrow> (bmcLinkStatus \<Rightarrow> bool) \<Rightarrow> bool" where
  "serves R p rss OK \<longleftrightarrow>
     (\<forall>b. OK b \<and> VHeight b < rs_Height (last rss) \<longrightarrow> (\<exists>bu b'.
        r_BuildBlockUpdate R b (TxSizeLimit p - MarginForLimit p) = Ret [bu] \<and> r_Update R bu b = (None, b') \<and>
        VHeight b < VHeight b' \<and> RxSeq b' = RxSeq b \<and> r_ProofHeight R bu \<noteq> -1 \<and> r_Len R bu \<le> TxSizeLimit p \<and>
        proves R p rss OK bu b'))"

text \<open>The state of the link between two rounds: nothing is left over from the last one.\<close>

definition level :: "receiveStatus list \<Rightarrow> preference \<Rightarrow> (bmcLinkStatus \<Rightarrow> bool) \<Rightarrow> ('i, 's) link \<Rightarrow> bool" where
  "level rss p OK l \<longleftrightarrow> l_rss l = rss \<and> l_p l = p \<and> l_limitSize l = TxSizeLimit p - MarginForLimit p \<and>
     l_rmis l = [[]] \<and> l_size l = 0 \<and> OK (l_bls l) \<and>
     (VHeight (l_bls l) < rs_Height (last rss) \<or> rs_Seq (last rss) \<le> RxSeq (l_bls l))"

lemma appendRelayMessage_open:
  assumes "l_rmis l = [is]" and "r_BuildRelayMessage R is = Ret m"
  shows "appendRelayMessage R l =
    (Ret (), l\<lparr>l_rms := l_rms l @ [newRelayMessage l m is], l_rmis := [[]], l_size := 0\<rparr>)"
  using assms by (simp add: appendRelayMessage_def resetRelayMessageItem_def bind_p_def proc_defs)

lemma appendRelayMessageItem_open:
  assumes "l_rmis l = [is]"
  shows "appendRelayMessageItem R (Some i) l = (Ret (), l\<lparr>l_rmis := [is @ [i]], l_size := l_size l + r_Len R i\<rparr>)"
  using assms by (simp add: appendRelayMessageItem_def proc_defs)

lemma sendRelayMessage_total:
  "total (sendRelayMessage S) l (\<lambda>e. \<not> Equals InvalidStateError (Some e)) (\<lambda>_ l'.
     l_rss l' = l_rss l \<and> l_bls l' = l_bls l \<and> l_rmis l' = l_rmis l \<and> l_p l' = l_p l \<and>
     l_limitSize l' = l_limitSize l \<and> l_size l' = l_size l)"
proof -
  obtain r l' where A: "sendRelayMessage_loop S [] (l_rms l) l = (r, l')" by fastforce
  from sendRelayMessage_loop_spec [OF A] obtain ms s st where l': "l' = l\<lparr>l_rms := ms, l_s := s, l_relayState := st\<rparr>"
    and r: "r = Ret () \<or> (\<exists>e. r = Fail e \<and> \<not> Equals InvalidStateError (Some e))"
    by auto
  from r show ?thesis
    by (auto simp: total_def sendRelayMessage_def get_p_def A l')
qed

lemma need_last:
  assumes "sorted_wrt (\<lambda>a b. rs_Height a < rs_Height b) rss" and "rss \<noteq> []"
    and "rs_Height (last rss) \<le> VHeight b"
  shows "need rss b = rs_Seq (last rss)"
proof (cases "getReceiveStatusForHeight rss (VHeight b)")
  case (Some rs)
  then obtain i where i: "i < length rss" "rs = rss ! i" "rs_Height (rss ! i) = VHeight b"
    by (auto simp: getReceiveStatusForHeight_def find_Some_iff)
  have "i = length rss - 1"
    using assms i sorted_wrt_nth_less [OF assms(1), of i "length rss - 1"]
    by (cases "i < length rss - 1") (auto simp: last_conv_nth)
  with Some i assms(2) show ?thesis by (simp add: need_def last_conv_nth)
qed (simp add: need_def)

text \<open>One block update with its message proof, as the link makes a relay message of it.\<close>

lemma buildProof_proves:
  assumes "proves R p rss OK bu (l_bls l)" and "l_rss l = rss" and "rss \<noteq> []" and "l_rmis l = [[bu]]"
    and "l_size l = r_Len R bu" and "l_size l \<le> TxSizeLimit (l_p l)" and "r_ProofHeight R bu \<noteq> -1"
    and "l_p l = p" and "l_limitSize l = TxSizeLimit p - MarginForLimit p"
  shows "\<exists>k is b sz m. buildProof R (Suc (Suc n)) (Some bu) l =
      (Ret k, l\<lparr>l_bls := b, l_rmis := [is], l_size := sz\<rparr>) \<and> (k = 0 \<longrightarrow> \<not> FilledBlockUpdate p) \<and>
      r_BuildRelayMessage R is = Ret m \<and> OK b \<and> VHeight b = VHeight (l_bls l) \<and> need rss (l_bls l) \<le> RxSeq b"
proof -
  have t: "targetSeq l (Some bu) = Some (need rss (l_bls l))"
    using assms(2,3) by (auto simp: targetSeq_def need_def lastSeq_def split: option.split)
  show ?thesis
  proof (cases "need rss (l_bls l) \<le> RxSeq (l_bls l)")
    case True
    with assms(1) obtain m where "r_BuildRelayMessage R [bu] = Ret m" "OK (l_bls l)" "\<not> FilledBlockUpdate p"
      by (auto simp: proves_def)
    moreover have "buildProof R (Suc (Suc n)) (Some bu) l =
        (Ret 0, l\<lparr>l_bls := l_bls l, l_rmis := [[bu]], l_size := l_size l\<rparr>)"
      using True t assms(4) by (simp add: buildProof_def get_p_def ret_p_def)
    ultimately show ?thesis using True by blast
  next
    case False
    with assms(1) obtain mp b m where mp: "r_Len R mp \<noteq> 0"
      "r_BuildMessageProof R (l_bls l) (l_limitSize l - l_size l) = Ret (Some mp)" "r_Update R mp (l_bls l) = (None, b)"
      and b: "VHeight b = VHeight (l_bls l)" "need rss (l_bls l) \<le> RxSeq b" "OK b" "r_BuildRelayMessage R [bu, mp] = Ret m"
      using assms(5,9) unfolding proves_def by auto
    have "buildProof R (Suc (Suc n)) (Some bu) l =
        (Ret (r_Len R mp), l\<lparr>l_bls := b, l_rmis := [[bu, mp]], l_size := l_size l + r_Len R mp\<rparr>)"
      using False t mp b(2) assms(4,6,7)
      by (simp add: buildProof_def buildMessageProof_def updateBls_def emptyProof_def isOverLimit_def needsBlockProof_def
          appendRelayMessageItem_def bind_p_def proc_defs)
    with mp(1) b show ?thesis by blast
  qed
qed

lemma buildRelayMessage_level:
  assumes "serves R p rss OK" and "level rss p OK l" and "rss \<noteq> []" and "VHeight (l_bls l) < rs_Height (last rss)"
  shows "\<exists>b rm. buildRelayMessage R (Suc (Suc n)) l = (Ret (), l\<lparr>l_rms := l_rms l @ [rm], l_bls := b\<rparr>) \<and> OK b \<and>
    VHeight (l_bls l) < VHeight b \<and> need rss b \<le> RxSeq b"
proof -
  from assms(2) have l: "l_rss l = rss" "l_p l = p" "l_limitSize l = TxSizeLimit p - MarginForLimit p"
    "l_rmis l = [[]]" "l_size l = 0" "OK (l_bls l)" by (simp_all add: level_def)
  from assms(1,4) l obtain bu b' where bu: "r_BuildBlockUpdate R (l_bls l) (l_limitSize l) = Ret [bu]"
    "r_Update R bu (l_bls l) = (None, b')" "VHeight (l_bls l) < VHeight b'" "r_ProofHeight R bu \<noteq> -1"
    "r_Len R bu \<le> TxSizeLimit p" "proves R p rss OK bu b'"
    unfolding serves_def by metis
  let ?l = "l\<lparr>l_rmis := [[bu]], l_size := r_Len R bu, l_bls := b'\<rparr>"
  have "proves R p rss OK bu (l_bls ?l)" using bu(6) by simp
  note pv = buildProof_proves [OF this _ assms(3) _ _ _ bu(4), of n]
  from l bu(5) obtain k "is" b sz m where
    P: "buildProof R (Suc (Suc n)) (Some bu) ?l = (Ret k, ?l\<lparr>l_bls := b, l_rmis := [is], l_size := sz\<rparr>)"
    and k: "k = 0 \<longrightarrow> \<not> FilledBlockUpdate p" and m: "r_BuildRelayMessage R is = Ret m"
    and b: "OK b" "VHeight b = VHeight b'" "need rss b' \<le> RxSeq b"
    by (auto intro: exE [OF pv])
  let ?l2 = "?l\<lparr>l_bls := b, l_rmis := [is], l_size := sz\<rparr>"
  have "appendRelayMessage R ?l2 =
      (Ret (), l\<lparr>l_rms := l_rms l @ [newRelayMessage ?l2 m is], l_bls := b\<rparr>)"
    using appendRelayMessage_open [OF _ m, of ?l2] l(4,5) by simp
  then have "buildRelayMessage R (Suc (Suc n)) l =
      (Ret (), l\<lparr>l_rms := l_rms l @ [newRelayMessage ?l2 m is], l_bls := b\<rparr>)"
    using l bu(1,2) P k
    by (auto simp: buildRelayMessage_def updateBls_def appendRelayMessageItem_def bind_p_def proc_defs)
  moreover have "need rss b = need rss b'" using b(2) by (simp add: need_def)
  ultimately show ?thesis using b bu(3) by auto
qed

lemma handleRelayMessage_loop_total:
  assumes "serves R p rss OK" and "sorted_wrt (\<lambda>a b. rs_Height a < rs_Height b) rss"
    and "level rss p OK l" and "nat (rs_Height (last rss) - VHeight (l_bls l)) < n"
  shows "total (handleRelayMessage_loop R S (Suc (Suc fuel)) n) l (\<lambda>e. \<not> Equals InvalidStateError (Some e)) (\<lambda>_ _. True)"
  using assms(3-)
proof (induction n arbitrary: l)
  case (Suc n)
  let ?E = "\<lambda>e. \<not> Equals InvalidStateError (Some e)"
  let ?mod = "modify_p (\<lambda>l. if l_relayState l = INIT then l\<lparr>l_relayState := PENDING\<rparr> else l)"
  show ?case
  proof (cases "l_relayState l \<noteq> PENDING \<and> behind l")
    case True
    with Suc.prems have ne: "rss \<noteq> []" and lt: "VHeight (l_bls l) < rs_Height (last rss)"
      by (auto simp: behind_def level_def)
    from buildRelayMessage_level [OF assms(1) Suc.prems(1) ne lt, of fuel] obtain b rm where
      B: "buildRelayMessage R (Suc (Suc fuel)) l = (Ret (), l\<lparr>l_rms := l_rms l @ [rm], l_bls := b\<rparr>)"
      and b: "OK b" "VHeight (l_bls l) < VHeight b" "need rss b \<le> RxSeq b" by blast
    let ?l = "l\<lparr>l_rms := l_rms l @ [rm], l_bls := b\<rparr>"
    have L: "level rss p OK ?l"
      using Suc.prems(1) b need_last [OF assms(2) ne, of b] by (force simp: level_def)
    have rest: "total (then_p ?mod (handleRelayMessage_loop R S (Suc (Suc fuel)) n)) l' ?E (\<lambda>_ _. True)"
      if "l_rss l' = l_rss ?l \<and> l_bls l' = l_bls ?l \<and> l_rmis l' = l_rmis ?l \<and> l_p l' = l_p ?l \<and>
        l_limitSize l' = l_limitSize ?l \<and> l_size l' = l_size ?l" for l'
      by (rule total_bind, unfold total_modify, rule Suc.IH)
        (use that L Suc.prems(2) b(2) lt in \<open>auto simp: level_def\<close>)
    have "total (then_p (sendRelayMessage S) (then_p ?mod (handleRelayMessage_loop R S (Suc (Suc fuel)) n))) ?l ?E (\<lambda>_ _. True)"
      by (rule total_bind, rule total_mono [OF sendRelayMessage_total]) (rule rest)
    moreover have "handleRelayMessage_loop R S (Suc (Suc fuel)) (Suc n) l =
        then_p (sendRelayMessage S) (then_p ?mod (handleRelayMessage_loop R S (Suc (Suc fuel)) n)) ?l"
      using True lt Suc.prems(1) B by (simp add: get_p_def level_def bind_p_def)
    ultimately show ?thesis by (simp only: total_def)
  qed auto
qed simp

text \<open>
  With a receiver that keeps the contract for the receive statuses the link holds, whose heights
  ascend, \<open>handleRelayMessage\<close> returns: it neither panics nor loops for ever (fuel beyond the
  missing heights is enough), and an error is one of the sender's that does not ask to wait.
\<close>
lemma handleRelayMessage_returns:
  assumes "serves R (l_p l) (l_rss l) OK" and "level (l_rss l) (l_p l) OK l"
    and "sorted_wrt (\<lambda>a b. rs_Height a < rs_Height b) (l_rss l)"
    and "nat (rs_Height (last (l_rss l)) - VHeight (l_bls l)) + 2 \<le> fuel"
  shows "\<exists>r l'. handleRelayMessage R S fuel l = (r, l') \<and>
    (r = Ret () \<or> (\<exists>e. r = Fail e \<and> \<not> Equals InvalidStateError (Some e)))"
proof -
  let ?E = "\<lambda>e. \<not> Equals InvalidStateError (Some e)"
  from assms(4) obtain n where n: "fuel = Suc (Suc n)" by (metis add_2_eq_Suc' le_Suc_ex add_leD2 add.commute)
  have "total (then_p (sendRelayMessage S) (handleRelayMessage_loop R S fuel fuel)) l ?E (\<lambda>_ _. True)"
    unfolding n
    by (rule total_bind, rule total_mono [OF sendRelayMessage_total],
        rule handleRelayMessage_loop_total [OF assms(1,3)]) (use assms n in \<open>auto simp: level_def\<close>)
  then have "total (handleRelayMessage R S fuel) l ?E (\<lambda>_ _. True)"
    by (simp add: handleRelayMessage_def)
  then show ?thesis by (auto simp: total_def split: prod.splits outcome.splits)
qed

section \<open>Receivers that answer nil\<close>

text \<open>
  A receiver whose \<open>BuildBlockProof\<close> returns nil makes \<open>buildProof(nil)\<close> panic as soon as
  messages are missing: the nil proof is appended as an item and asked for its length.
\<close>
theorem nil_block_proof_panics:
  assumes "\<And>b h. r_BuildBlockProof R b h = Ret None" and "\<And>is. \<exists>m. r_BuildRelayMessage R is = Ret m"
    and "l_rss l \<noteq> []" and "l_rmis l \<noteq> []" and "RxSeq (l_bls l) < rs_Seq (last (l_rss l))"
    and "r_BuildMessageProof R (l_bls l) (l_limitSize l - l_size l) = Ret (Some mp)"
    and "r_Len R mp \<noteq> 0" and "r_Update R mp (l_bls l) = (None, b)"
  shows "fst (buildProof R (Suc n) None l) = Panic"
proof -
  let ?l = "l\<lparr>l_bls := b\<rparr>"
  have mp: "buildMessageProof R l = (Ret (Some mp), ?l)"
    using assms(6,8) by (simp add: buildMessageProof_def updateBls_def bind_p_def proc_defs)
  have bp: "buildBlockProof R k = (Ret None, k)" for k :: "('a, 'b) link"
    by (simp add: buildBlockProof_def assms(1) bind_p_def proc_defs)
  have item: "appendRelayMessageItem R None k = (Panic, k)" for k :: "('a, 'b) link"
    by (simp add: appendRelayMessageItem_def proc_defs)
  have loop: "\<exists>k'. appendRelayMessage_loop R rmis k = (Ret (), k')" for rmis and k :: "('a, 'b) link"
  proof (induction rmis arbitrary: k)
    case (Cons rmi rmis)
    with assms(2) [of rmi] show ?case by (auto simp: bind_p_def proc_defs)
  qed (simp add: ret_p_def)
  obtain k where "appendRelayMessage R ?l = (Ret (), k)"
    using loop [of "l_rmis l" ?l]
    by (auto simp: appendRelayMessage_def resetRelayMessageItem_def bind_p_def proc_defs)
  with assms(3,5,7) show ?thesis
    by (simp add: buildProof_def targetSeq_def lastSeq_def get_p_def mp emptyProof_def needsBlockProof_def bp item
        bind_p_def)
qed

lemma appendRelayMessage_loop_count:
  "\<forall>is. \<exists>m. r_BuildRelayMessage R is = Ret m \<Longrightarrow>
   \<exists>ms. length ms = length rmis \<and> appendRelayMessage_loop R rmis l = (Ret (), l\<lparr>l_rms := l_rms l @ ms\<rparr>)"
proof (induction rmis arbitrary: l)
  case (Cons rmi rmis)
  from Cons.prems obtain m where m: "r_BuildRelayMessage R rmi = Ret m" by blast
  let ?m = "newRelayMessage l m rmi"
  from Cons.IH [OF Cons.prems, of "l\<lparr>l_rms := l_rms l @ [?m]\<rparr>"] obtain ms where
    "length ms = length rmis" "appendRelayMessage_loop R rmis (l\<lparr>l_rms := l_rms l @ [?m]\<rparr>) =
       (Ret (), l\<lparr>l_rms := l_rms l @ [?m] @ ms\<rparr>)" by auto
  then show ?case by (intro exI [of _ "?m # ms"]) (simp add: m bind_p_def proc_defs)
qed (auto simp: ret_p_def)

lemma appendRelayMessage_count:
  assumes "\<forall>is. \<exists>m. r_BuildRelayMessage R is = Ret m"
  obtains ms where "length ms = length (l_rmis l)"
    and "appendRelayMessage R l = (Ret (), l\<lparr>l_rms := l_rms l @ ms, l_rmis := [[]], l_size := 0\<rparr>)"
proof -
  from appendRelayMessage_loop_count [OF assms, of "l_rmis l" l] obtain ms where
    "length ms = length (l_rmis l)"
    "appendRelayMessage_loop R (l_rmis l) l = (Ret (), l\<lparr>l_rms := l_rms l @ ms\<rparr>)" by blast
  then show thesis
    by (intro that) (simp_all add: appendRelayMessage_def resetRelayMessageItem_def bind_p_def proc_defs)
qed

text \<open>
  While messages are missing and the receiver has no message proof for the link status,
  \<open>buildProof\<close> never comes back: with any amount of fuel it runs out of it, and every round has
  appended another relay message.
\<close>
theorem missing_proof_spins:
  assumes "\<And>lim. r_BuildMessageProof R (l_bls l) lim = Ret None" and "\<forall>is. \<exists>m. r_BuildRelayMessage R is = Ret m"
    and "l_rmis l \<noteq> []" and "RxSeq (l_bls l) < seq"
  shows "\<exists>l'. buildProof_loop R bu seq n k l = (OutOfFuel, l') \<and> length (l_rms l) + n \<le> length (l_rms l')"
  using assms
proof (induction n arbitrary: l)
  case 0
  show ?case by (simp add: lift_p_def)
next
  case (Suc n)
  from appendRelayMessage_count [OF Suc.prems(2)] obtain ms where ms: "length ms = length (l_rmis l)"
    and A: "appendRelayMessage R l = (Ret (), l\<lparr>l_rms := l_rms l @ ms, l_rmis := [[]], l_size := 0\<rparr>)"
    by blast
  let ?l = "l\<lparr>l_rms := l_rms l @ ms, l_rmis := [[]], l_size := 0\<rparr>"
  from Suc.IH [of ?l] Suc.prems obtain l' where
    "buildProof_loop R bu seq n k ?l = (OutOfFuel, l')" "length (l_rms ?l) + n \<le> length (l_rms l')"
    by auto
  moreover from this(2) ms Suc.prems(3) have "length (l_rms l) + Suc n \<le> length (l_rms l')"
    by (cases "l_rmis l") auto
  moreover have "buildMessageProof R l = (Ret None, l)"
    by (simp add: buildMessageProof_def Suc.prems(1) bind_p_def proc_defs)
  ultimately show ?case using A Suc.prems(3,4) by (simp add: get_p_def emptyProof_def)
qed

text \<open>
  a receiver that has no block update that fits, and says so with an empty list, makes
  \<open>buildBlockUpdates\<close> ask again for ever.
\<close>
theorem empty_updates_spin:
  assumes "r_BuildBlockUpdate R (l_bls l) (l_limitSize l - l_size l) = Ret []"
  shows "buildBlockUpdates R n l = (OutOfFuel, l)"
  using assms by (induction n) (simp_all add: bind_p_def proc_defs)

section \<open>Relay results\<close>

text \<open>
  A finalized \<open>BMVAlreadyVerified\<close> result replaces the link status and forgets every pending
  message, the ones beyond the new status too, and sends nothing: \<open>removeRelayMessage\<close> always
  answers index 0.
\<close>
theorem already_verified_clears:
  assumes "getRelayMessageForId (l_rms l) (rr_Id rr) \<noteq> None" and "rr_Err rr = BMVAlreadyVerified"
    and "rr_Finalized rr" and "s_GetStatus S (l_s l) = (Ret b, s)"
  shows "result R S fuel rr l =
    (Ret (), l\<lparr>l_rms := [], l_bls := b, l_relayState := RUNNING, l_s := s\<rparr>)"
  using assms
  by (auto simp: result_def alreadyVerified_def updateBMCLinkStatus_def removeRelayMessage_def
      removeAllRelayMessage_def bind_p_def proc_defs SUCCESS_def BMVUnknown_def BMVNotVerifiable_def
      BMVAlreadyVerified_def CodeBMV_def)

text \<open>
  In a link whose pending messages ascend, a successful result for any of them removes the oldest
  one, and only that.
\<close>
theorem success_removes_oldest:
  assumes "sorted_wrt bls_le (map rm_bls (l_rms l))" and "getRelayMessageForId (l_rms l) i = Some rm"
  shows "removeRelayMessage (rm_bls rm) l = (Ret 0, l\<lparr>l_rms := tl (l_rms l)\<rparr>)"
proof -
  from assms(2) have rm: "rm \<in> set (l_rms l)"
    by (auto simp: getRelayMessageForId_def find_Some_iff)
  then obtain m ms where l: "l_rms l = m # ms" by (cases "l_rms l") auto
  with rm assms(1) have "bls_le (rm_bls m) (rm_bls rm)" by auto
  then show ?thesis by (simp add: removeRelayMessage_def l bls_le_def bind_p_def proc_defs)
qed

section \<open>An instance\<close>

text \<open>
  A receiver that offers the next height and the next sequence number, one at a time, and a
  sender that accepts everything and answers with a fixed status.
\<close>

definition step_receiver :: "(bmcLinkStatus \<times> int) receiver" where
  "step_receiver = \<lparr>r_Type = (\<lambda>_. TypeMessageProof), r_Len = snd, r_Update = (\<lambda>i b. (None, fst i)),
     r_ProofHeight = (\<lambda>i. VHeight (fst i)), r_Start = (\<lambda>_. None),
     r_BuildBlockUpdate = (\<lambda>b lim. Ret [(b\<lparr>VHeight := VHeight b + 1\<rparr>, 3)]),
     r_BuildBlockProof = (\<lambda>b h. Ret (Some (b, 1))),
     r_BuildMessageProof = (\<lambda>b lim. Ret (Some (b\<lparr>RxSeq := RxSeq b + 1\<rparr>, 2))),
     r_GetHeightForSeq = (\<lambda>s. 0), r_BuildRelayMessage = (\<lambda>is. Ret [of_nat (length is)])\<rparr>"

definition calm_sender :: "bmcLinkStatus \<Rightarrow> unit sender" where
  "calm_sender b = \<lparr>s_Start = (\<lambda>_. None),
     s_GetPreference = \<lparr>TxSizeLimit = 100, MarginForLimit = 10, LatestResult = True, FilledBlockUpdate = False\<rparr>,
     s_GetStatus = (\<lambda>s. (Ret b, s)), s_Relay = (\<lambda>s i m. (None, s))\<rparr>"

definition status_at :: "int \<Rightarrow> int \<Rightarrow> bmcLinkStatus" where
  "status_at h q = \<lparr>TxSeq = 0, RxSeq = q, VHeight = h, VExtra = []\<rparr>"

definition started :: "(bmcLinkStatus \<times> int, unit) link" where
  "started = snd (Start step_receiver (calm_sender (status_at 5 1)) (NewLink ''btp://0x1.icon/cx00'' ()))"

definition informed :: "(bmcLinkStatus \<times> int, unit) link" where
  "informed = snd (onReceiveStatus step_receiver (calm_sender (status_at 5 1)) 20
     \<lparr>rs_Height = 7, rs_Seq = 3\<rparr> started)"

definition resumed :: "(bmcLinkStatus \<times> int, unit) link" where
  "resumed = snd (onRelayResult step_receiver (calm_sender (status_at 5 1)) 20
     \<lparr>rr_Id = rm_id (hd (l_rms informed)), rr_Err = SUCCESS, rr_Finalized = False\<rparr> informed)"

definition busy :: "(bmcLinkStatus \<times> int, unit) link" where
  "busy = snd (onReceiveStatus step_receiver (calm_sender (status_at 5 1)) 20
     \<lparr>rs_Height = 9, rs_Seq = 5\<rparr> resumed)"

lemma busy_runs:
  "fst (Start step_receiver (calm_sender (status_at 5 1)) (NewLink ''btp://0x1.icon/cx00'' ())) = Ret ()"
  "fst (onReceiveStatus step_receiver (calm_sender (status_at 5 1)) 20
     \<lparr>rs_Height = 7, rs_Seq = 3\<rparr> started) = Ret ()"
  "fst (onRelayResult step_receiver (calm_sender (status_at 5 1)) 20
     \<lparr>rr_Id = rm_id (hd (l_rms informed)), rr_Err = SUCCESS, rr_Finalized = False\<rparr> informed) = Ret ()"
  "fst (onReceiveStatus step_receiver (calm_sender (status_at 5 1)) 20
     \<lparr>rs_Height = 9, rs_Seq = 5\<rparr> resumed) = Ret ()"
  by code_simp+

lemma busy_reachable:
  assumes "Rs step_receiver"
  shows "link_reachable Rs (calm_sender (status_at 5 1)) busy"
proof -
  let ?S = "calm_sender (status_at 5 1)"
  have "link_reachable Rs ?S started"
    using busy_runs(1) unfolding started_def by (metis assms link_reachable.reach_start prod.collapse)
  then have "link_reachable Rs ?S informed"
    using busy_runs(2) unfolding informed_def
    by (metis assms link_reachable.reach_step link_step.step_status prod.collapse)
  then have "link_reachable Rs ?S resumed"
    using busy_runs(3) unfolding resumed_def
    by (metis assms link_reachable.reach_step link_step.step_result prod.collapse)
  then show ?thesis
    using busy_runs(4) unfolding busy_def
    by (metis assms link_reachable.reach_step link_step.step_status prod.collapse)
qed

lemma busy_state:
  "map (\<lambda>rm. (VHeight (rm_bls rm), RxSeq (rm_bls rm), rm_sendingStatus rm)) (l_rms busy) =
     [(7, 3, True), (8, 5, True), (9, 5, True)]"
  "(VHeight (l_bls busy), RxSeq (l_bls busy)) = (9, 5)"
  by code_simp+

lemma step_receiver_len: "r_Len step_receiver = snd"
  by (simp add: step_receiver_def)

lemma step_receiver_advancing: "advancing (\<lambda>i b. (None, fst i)) step_receiver"
  by (auto simp: advancing_def step_receiver_def bls_le_def)

theorem reachable_items_witness:
  "\<exists>is. l_rmis busy = [is] \<and> l_size busy = sum_list (map snd is)"
  by (rule reachable_items [OF busy_reachable]) (rule step_receiver_len)

theorem reachable_sent_first_witness:
  "length (l_rms busy) = 3 \<and> rm_sendingStatus (l_rms busy ! 2) \<and> rm_sendingStatus (l_rms busy ! 0)"
proof -
  have b: "length (l_rms busy) = 3" "rm_sendingStatus (l_rms busy ! 2)" by code_simp+
  have "link_reachable (\<lambda>_. True) (calm_sender (status_at 5 1)) busy" by (rule busy_reachable) simp
  from reachable_sent_first [OF this, of 0 2] b show ?thesis by simp
qed

lemma resumed_ordered:
  "sorted_wrt bls_le (map rm_bls (l_rms resumed)) \<and> list_all (\<lambda>rm. bls_le (rm_bls rm) (l_bls resumed)) (l_rms resumed)"
  by code_simp

theorem handlers_keep_order_witness:
  "length (l_rms busy) = 3 \<and> sorted_wrt bls_le (map rm_bls (l_rms busy))"
proof -
  have "length (l_rms busy) = 3" by code_simp
  moreover have "sorted_wrt bls_le (map rm_bls (l_rms resumed)) \<and> (\<forall>rm\<in>set (l_rms resumed). bls_le (rm_bls rm) (l_bls resumed))"
    using resumed_ordered by (simp add: list_all_iff)
  from handlers_keep_order [OF step_receiver_advancing this, of busy "calm_sender (status_at 5 1)" 20 "\<lparr>rs_Height = 9, rs_Seq = 5\<rparr>"]
  have "sorted_wrt bls_le (map rm_bls (l_rms busy))" unfolding busy_def by blast
  ultimately show ?thesis by blast
qed

theorem append_races_result_witness:
  "\<exists>l2 :: (bmcLinkStatus \<times> int, unit) link. l_rms l2 = [newRelayMessage resumed [1] []] \<and> l_bls l2 = status_at 5 1 \<and>
     \<not> bls_le (rm_bls (newRelayMessage resumed [1] [])) (l_bls l2)"
proof -
  let ?S = "calm_sender (status_at 5 1)"
  have 1: "r_BuildRelayMessage (step_receiver\<lparr>r_BuildRelayMessage := \<lambda>_. Ret [1]\<rparr>) [] = Ret [1]" by simp
  have 2: "s_GetStatus ?S (l_s resumed) = (Ret (status_at 5 1), ())" by (simp add: calm_sender_def)
  have 3: "\<not> bls_le (l_bls resumed) (status_at 5 1)" by code_simp
  have 4: "notVerifiable_unlocked ?S resumed = (Ret (), resumed\<lparr>l_s := (), l_bls := status_at 5 1, l_rms := [], l_relayState := RUNNING\<rparr>)"
    by (simp add: notVerifiable_unlocked_def updateBMCLinkStatus_def removeAllRelayMessage_def calm_sender_def bind_p_def proc_defs)
  from append_races_result [OF 1 2 3 4 refl] show ?thesis by blast
qed

definition waiting :: "(bmcLinkStatus \<times> int, unit) link" where
  "waiting = resumed\<lparr>l_rss := [\<lparr>rs_Height = 8, rs_Seq = 4\<rparr>, \<lparr>rs_Height = 9, rs_Seq = 5\<rparr>]\<rparr>"

lemma waiting_state:
  "l_rss waiting = [\<lparr>rs_Height = 8, rs_Seq = 4\<rparr>, \<lparr>rs_Height = 9, rs_Seq = 5\<rparr>]"
  "VHeight (l_bls waiting) = 7" "RxSeq (l_bls waiting) = 3" "l_rmis waiting = [[]]" "l_size waiting = 0"
  "l_limitSize waiting = 90" "TxSizeLimit (l_p waiting) = 100"
  by code_simp+

theorem handleRelayMessage_done_witness:
  "\<exists>l'. handleRelayMessage step_receiver (calm_sender (status_at 5 1)) 20 waiting = (Ret (), l') \<and>
     (if l_relayState l' = PENDING then True else list_all rm_sendingStatus (l_rms l'))"
proof -
  have "fst (handleRelayMessage step_receiver (calm_sender (status_at 5 1)) 20 waiting) = Ret ()" by code_simp
  then obtain l' where "handleRelayMessage step_receiver (calm_sender (status_at 5 1)) 20 waiting = (Ret (), l')"
    by (metis prod.collapse)
  from this handleRelayMessage_done [OF this] show ?thesis by (auto simp: list_all_iff)
qed

theorem nil_block_proof_panics_witness:
  "fst (buildProof (step_receiver\<lparr>r_BuildBlockProof := \<lambda>_ _. Ret None\<rparr>) (Suc 9) None waiting) = Panic"
proof (rule nil_block_proof_panics)
  show "r_BuildMessageProof (step_receiver\<lparr>r_BuildBlockProof := \<lambda>_ _. Ret None\<rparr>) (l_bls waiting)
      (l_limitSize waiting - l_size waiting) = Ret (Some ((l_bls waiting)\<lparr>RxSeq := 4\<rparr>, 2))"
    by (simp add: step_receiver_def waiting_state)
qed (simp_all add: step_receiver_def waiting_state)

theorem missing_proof_spins_witness:
  "\<exists>l'. buildProof_loop (step_receiver\<lparr>r_BuildMessageProof := \<lambda>_ _. Ret None\<rparr>) None 5 7 0 waiting = (OutOfFuel, l') \<and>
     length (l_rms waiting) + 7 \<le> length (l_rms l')"
  by (rule missing_proof_spins) (simp_all add: step_receiver_def waiting_state)

theorem empty_updates_spin_witness:
  "buildBlockUpdates (step_receiver\<lparr>r_BuildBlockUpdate := \<lambda>_ _. Ret []\<rparr>) 9 waiting = (OutOfFuel, waiting)"
  by (rule empty_updates_spin) (simp add: step_receiver_def)

theorem already_verified_clears_witness:
  "result step_receiver (calm_sender (status_at 8 5)) 20
     \<lparr>rr_Id = ''0x1_8_5'', rr_Err = BMVAlreadyVerified, rr_Finalized = True\<rparr> busy =
   (Ret (), busy\<lparr>l_rms := [], l_bls := status_at 8 5, l_relayState := RUNNING, l_s := ()\<rparr>)"
proof (rule already_verified_clears)
  have "getRelayMessageForId (l_rms busy) ''0x1_8_5'' \<noteq> None" by code_simp
  then show "getRelayMessageForId (l_rms busy)
      (rr_Id \<lparr>rr_Id = ''0x1_8_5'', rr_Err = BMVAlreadyVerified, rr_Finalized = True\<rparr>) \<noteq> None" by simp
qed (simp_all add: calm_sender_def)

theorem success_removes_oldest_witness:
  "\<exists>rm. getRelayMessageForId (l_rms busy) ''0x1_8_5'' = Some rm \<and>
     removeRelayMessage (rm_bls rm) busy = (Ret 0, busy\<lparr>l_rms := tl (l_rms busy)\<rparr>)"
proof -
  have "getRelayMessageForId (l_rms busy) ''0x1_8_5'' \<noteq> None" by code_simp
  then obtain rm where "getRelayMessageForId (l_rms busy) ''0x1_8_5'' = Some rm" by blast
  moreover have "sorted_wrt bls_le (map rm_bls (l_rms busy))" by code_simp
  ultimately show ?thesis using success_removes_oldest [of busy "''0x1_8_5''" rm] by blast
qed

end
