(* ===== verification/Rlp.thy ===== *)
theory Rlp
  imports Go_Errors Int_Conv
begin

text \<open>
  The RLP reader and writer of src/common/codec/rlp.go. A reader is a stack of limits over the
  bytes of a buffer; reading a list pushes a limit, closing the list's reader drains it. A
  writer is the buffer of the list that is being written, with the count of its items. The
  \<open>io\<close> functions the reader uses (\<open>ReadFull\<close>, \<open>CopyN\<close>, \<open>Copy\<close>) are modelled after their
  documented loops over \<open>Read\<close>. The arguments of formatted error messages are left out.
\<close>

section \<open>Errors\<close>

definition EOF :: err where "EOF = StdError ''EOF''"
definition ErrUnexpectedEOF :: err where "ErrUnexpectedEOF = StdError ''unexpected EOF''"
definition ErrNilValue :: err where "ErrNilValue = StdError ''NilValueError''"
definition ErrInvalidFormat :: err where "ErrInvalidFormat = StdError ''InvalidFormatError''"
definition ErrIllegalType :: err where "ErrIllegalType = StdError ''IllegalTypeError''"

lemmas rlp_errs = EOF_def ErrUnexpectedEOF_def ErrNilValue_def ErrInvalidFormat_def ErrIllegalType_def

section \<open>Readers\<close>

text \<open>\<open>LimitReader r k\<close>: \<open>k\<close> is the limit minus the offset.\<close>

datatype reader = Buffer bytes | LimitReader reader nat

fun Read :: "reader \<Rightarrow> nat \<Rightarrow> (bytes \<times> err option) \<times> reader" where
  "Read (Buffer bs) n = (if bs = [] then (([], Some EOF), Buffer [])
     else ((take n bs, None), Buffer (drop n bs)))"
| "Read (LimitReader r k) n = (if k = 0 then (([], Some EOF), LimitReader r k)
     else (case Read r (min n k) of ((d, e), r') \<Rightarrow>
       ((d, if e = Some EOF then Some ErrInvalidFormat else e), LimitReader r' (k - length d))))"

lemma Read_progress: "Read r n = ((d, None), r') \<Longrightarrow> 0 < n \<Longrightarrow> d \<noteq> []"
  by (induction r n arbitrary: d r' rule: Read.induct)
    (auto split: if_splits prod.splits)

text \<open>Reading on until \<open>n\<close> bytes have come or \<open>Read\<close> fails.\<close>

function ReadUpTo :: "reader \<Rightarrow> nat \<Rightarrow> (bytes \<times> err option) \<times> reader" where
  "ReadUpTo r n = (if n = 0 then (([], None), r)
     else (case Read r n of
        ((d, Some e), r') \<Rightarrow> ((d, Some e), r')
      | ((d, None), r') \<Rightarrow> (case ReadUpTo r' (n - length d) of
          ((d', e), r'') \<Rightarrow> ((d @ d', e), r''))))"
  by pat_completeness auto
termination
  by (relation "measure snd") (auto dest!: Read_progress [OF sym])

declare ReadUpTo.simps [simp del]

record rlpReader =
  rr_reader :: reader
  rr_maxSB :: nat

type_synonym 'a rproc = "(rlpReader, err, 'a) proc"

definition ReadFull :: "nat \<Rightarrow> bytes rproc" where
  "ReadFull n = get_p (\<lambda>s. case ReadUpTo (rr_reader s) n of
      ((d, None), r') \<Rightarrow> then_p (modify_p (\<lambda>s. s\<lparr>rr_reader := r'\<rparr>)) (ret_p d)
    | ((d, Some e), r') \<Rightarrow> then_p (modify_p (\<lambda>s. s\<lparr>rr_reader := r'\<rparr>))
        (fail_p (if d \<noteq> [] \<and> e = EOF then ErrUnexpectedEOF else e)))"

definition wrap_err :: "err \<Rightarrow> string \<Rightarrow> err" where
  "wrap_err e msg = WrappedWithMessage e msg"

text \<open>Handling of the error of a call, its effect on the reader kept.\<close>

definition catch_p :: "'a rproc \<Rightarrow> (err \<Rightarrow> err) \<Rightarrow> 'a rproc" where
  "catch_p m f = (\<lambda>s. case m s of (Fail e, s') \<Rightarrow> (Fail (f e), s') | (r, s') \<Rightarrow> (r, s'))"

definition bytesToSize :: "bytes \<Rightarrow> nat result" where
  "bytesToSize bs = (case SafeBytesToSize bs of
      None \<Rightarrow> Fail (wrap_err ErrInvalidFormat ''InvalidSizeFormat'') | Some v \<Rightarrow> Ret v)"

definition minSize :: "nat \<Rightarrow> nat \<Rightarrow> nat" where
  "minSize sz1 sz2 = (if sz1 < sz2 then sz1 else sz2)"

definition readAll :: "nat \<Rightarrow> bytes rproc" where
  "readAll n = catch_p (ReadFull n) (\<lambda>e. if e = EOF
     then wrap_err ErrInvalidFormat ''InvalidFormat'' else WrappedWithStack e)"

definition readSize :: "nat \<Rightarrow> nat rproc" where
  "readSize n = bind_p (readAll n) (\<lambda>bs. lift_p (bytesToSize bs))"

text \<open>\<open>io.CopyN(ioutil.Discard, r, sz)\<close>: a short copy without error is an EOF.\<close>

definition skipN :: "nat \<Rightarrow> unit rproc" where
  "skipN sz = get_p (\<lambda>s. case ReadUpTo (rr_reader s) sz of
      ((d, e), r') \<Rightarrow> then_p (modify_p (\<lambda>s. s\<lparr>rr_reader := r'\<rparr>)) (case e of
          None \<Rightarrow> ret_p ()
        | Some e \<Rightarrow> fail_p (if e = EOF then wrap_err ErrInvalidFormat ''InvalidFormat''
            else WrappedWithStack e)))"

definition readTag :: "nat rproc" where
  "readTag = bind_p (ReadFull 1) (\<lambda>h. ret_p (unat (hd h)))"

definition skipOne :: "unit rproc" where
  "skipOne = bind_p readTag (\<lambda>tag.
     if tag < 0x80 then ret_p ()
     else if tag \<le> 0xB7 then skipN (tag - 0x80)
     else if tag < 0xC0 then bind_p (readSize (tag - 0xB7)) skipN
     else if tag \<le> 0xF7 then skipN (tag - 0xC0)
     else bind_p (readSize (tag - 0xF7)) skipN)"

fun Skip :: "nat \<Rightarrow> unit rproc" where
  "Skip 0 = ret_p ()"
| "Skip (Suc n) = then_p skipOne (Skip n)"

text \<open>The reader of a list: the parent's bytes under one more limit.\<close>

definition listReader :: "rlpReader \<Rightarrow> nat \<Rightarrow> rlpReader" where
  "listReader s sz = \<lparr>rr_reader = LimitReader (rr_reader s) sz, rr_maxSB = minSize (rr_maxSB s) sz\<rparr>"

definition readList :: "rlpReader rproc" where
  "readList = bind_p readTag (\<lambda>tag.
     if tag < 0xC0 then fail_p (wrap_err ErrInvalidFormat ''InvalidFormat(RLPBytes)'')
     else if tag \<le> 0xF7 then get_p (\<lambda>s. ret_p (listReader s (tag - 0xC0)))
     else bind_p (readSize (tag - 0xF7)) (\<lambda>sz2.
       if tag - 0xF7 = 1 \<and> sz2 = 0 then fail_p ErrNilValue
       else get_p (\<lambda>s. ret_p (listReader s sz2))))"

definition ReadList :: "rlpReader rproc" where "ReadList = readList"
definition ReadMap :: "rlpReader rproc" where "ReadMap = readList"

definition readBytes :: "bytes rproc" where
  "readBytes = bind_p readTag (\<lambda>tag.
     if tag < 0x80 then ret_p [word_of_nat tag]
     else if tag \<le> 0xB7 then readAll (tag - 0x80)
     else if tag < 0xC0 then
       bind_p (readSize (tag - 0xB7)) (\<lambda>sz2. get_p (\<lambda>s.
         if sz2 > rr_maxSB s then fail_p (wrap_err ErrInvalidFormat ''InvalidSize'')
         else readAll sz2))
     else if tag = 0xF8 then
       bind_p (readSize 1) (\<lambda>sz2. if sz2 = 0 then fail_p ErrNilValue
         else fail_p (wrap_err ErrInvalidFormat ''InvalidFormat(RLPList)''))
     else fail_p (wrap_err ErrInvalidFormat ''InvalidFormat(RLPList)''))"

definition ReadBytes :: "bytes rproc" where "ReadBytes = readBytes"

text \<open>
  The kinds of a settable value, with the width of the integer kinds (\<open>int\<close> and \<open>uint\<close> have 64
  bits), and the values.
\<close>

datatype kind = KBool | KUint nat | KInt nat | KString | KOther

datatype prim = PBool bool | PUint "64 word" | PInt "64 word" | PString bytes

definition uintFits :: "nat \<Rightarrow> 64 word \<Rightarrow> bool" where
  "uintFits w v \<longleftrightarrow> v = take_bit w v"

definition intFits :: "nat \<Rightarrow> 64 word \<Rightarrow> bool" where
  "intFits w v \<longleftrightarrow> v = signed_take_bit (w - 1) v"

definition readUintValue :: "kind \<Rightarrow> prim rproc" where
  "readUintValue k = bind_p readBytes (\<lambda>bs. case SafeBytesToUint64 bs of
      None \<Rightarrow> fail_p (wrap_err ErrInvalidFormat ''UintOverflow'')
    | Some v \<Rightarrow> (case k of
        KBool \<Rightarrow> if v = 0 then ret_p (PBool False) else if v = 1 then ret_p (PBool True)
          else fail_p (wrap_err ErrInvalidFormat ''UintOverflow'')
      | KUint w \<Rightarrow> if \<not> uintFits w v then fail_p (wrap_err ErrInvalidFormat ''UintOverflow'')
          else ret_p (PUint v)
      | _ \<Rightarrow> ret_p (PUint v)))"

definition readIntValue :: "kind \<Rightarrow> prim rproc" where
  "readIntValue k = bind_p readBytes (\<lambda>bs. case SafeBytesToInt64 bs of
      None \<Rightarrow> fail_p (wrap_err ErrInvalidFormat ''Int64Overflow'')
    | Some v \<Rightarrow> (case k of
        KInt w \<Rightarrow> if \<not> intFits w v then fail_p (wrap_err ErrInvalidFormat ''IntOverflow'')
          else ret_p (PInt v)
      | _ \<Rightarrow> ret_p (PInt v)))"

definition ReadValue :: "kind \<Rightarrow> prim rproc" where
  "ReadValue k = (case k of
      KBool \<Rightarrow> readUintValue k
    | KUint w \<Rightarrow> readUintValue k
    | KInt w \<Rightarrow> readIntValue k
    | KString \<Rightarrow> bind_p readBytes (\<lambda>bs. ret_p (PString bs))
    | KOther \<Rightarrow> fail_p (wrap_err ErrIllegalType ''IllegalType''))"

text \<open>\<open>io.Copy(ioutil.Discard, r)\<close> reads until the end; only the end is no error.\<close>

fun capacity :: "reader \<Rightarrow> nat" where
  "capacity (Buffer bs) = length bs"
| "capacity (LimitReader r k) = k"

definition Close :: "unit rproc" where
  "Close = get_p (\<lambda>s. case ReadUpTo (rr_reader s) (Suc (capacity (rr_reader s))) of
      ((d, e), r') \<Rightarrow> then_p (modify_p (\<lambda>s. s\<lparr>rr_reader := r'\<rparr>))
        (if e = Some EOF then ret_p () else fail_p (the e)))"

definition readMore :: "bytes \<Rightarrow> nat \<Rightarrow> bytes rproc" where
  "readMore org sz = get_p (\<lambda>s.
     if sz + length org > rr_maxSB s then fail_p (wrap_err ErrInvalidFormat ''IllegalFormat'')
     else bind_p (readAll sz) (\<lambda>d. ret_p (org @ d)))"

text \<open>\<open>readSize\<close> leaves the size bytes in the header, which \<open>ReadRaw\<close> returns with the data.\<close>

definition readRawSized :: "byte \<Rightarrow> nat \<Rightarrow> bytes rproc" where
  "readRawSized t sz = bind_p (readAll sz) (\<lambda>bs.
     bind_p (lift_p (bytesToSize bs)) (\<lambda>sz2. readMore (t # bs) sz2))"

definition ReadRaw :: "bytes rproc" where
  "ReadRaw = bind_p readTag (\<lambda>tag. let t = word_of_nat tag in
     if tag < 0x80 then ret_p [t]
     else if tag \<le> 0xB7 then readMore [t] (tag - 0x80)
     else if tag < 0xC0 then readRawSized t (tag - 0xB7)
     else if tag \<le> 0xF7 then readMore [t] (tag - 0xC0)
     else readRawSized t (tag - 0xF7))"

definition SetMaxBytes :: "nat \<Rightarrow> unit rproc" where
  "SetMaxBytes sz = modify_p (\<lambda>s. s\<lparr>rr_maxSB := sz\<rparr>)"

section \<open>Writers\<close>

text \<open>
  \<open>w_parent\<close> holds, for a list or map, the number of items written and whether it is a map; the
  outermost writer has none. A nil byte slice is \<open>None\<close>.
\<close>

record rlpWriter =
  w_buf :: bytes
  w_parent :: "(nat \<times> bool) option"

type_synonym 'a wproc = "(rlpWriter, err, 'a) proc"

definition countN :: "nat \<Rightarrow> unit wproc" where
  "countN cnt = modify_p (\<lambda>w. w\<lparr>w_parent := map_option (\<lambda>(c, m). (c + cnt, m)) (w_parent w)\<rparr>)"

definition WriteList :: "rlpWriter wproc" where
  "WriteList = then_p (countN 1) (ret_p \<lparr>w_buf = [], w_parent = Some (0, False)\<rparr>)"

definition WriteMap :: "rlpWriter wproc" where
  "WriteMap = then_p (countN 1) (ret_p \<lparr>w_buf = [], w_parent = Some (0, True)\<rparr>)"

definition writeAll :: "bytes \<Rightarrow> unit wproc" where
  "writeAll b = modify_p (\<lambda>w. w\<lparr>w_buf := w_buf w @ b\<rparr>)"

definition sizeToBytes :: "nat \<Rightarrow> bytes" where
  "sizeToBytes s = SizeToBytes (word_of_nat s)"

definition nullSequence :: bytes where "nullSequence = [0xf8, 0]"

definition writeNull :: "unit wproc" where "writeNull = writeAll nullSequence"

definition writeSized :: "nat \<Rightarrow> bytes \<Rightarrow> unit wproc" where
  "writeSized base b = (let l = length b in
     if l \<le> 55 then then_p (writeAll [word_of_nat (base + l)]) (writeAll b)
     else let sz = sizeToBytes l in
       then_p (writeAll [word_of_nat (base + 55 + length sz)]) (then_p (writeAll sz) (writeAll b)))"

definition writeBytes :: "bytes option \<Rightarrow> unit wproc" where
  "writeBytes b = (case b of None \<Rightarrow> writeNull | Some b \<Rightarrow>
     if length b = 0 then writeAll [0x80]
     else if length b = 1 \<and> unat (hd b) < 0x80 then writeAll b
     else writeSized 0x80 b)"

definition writeList :: "bytes \<Rightarrow> unit wproc" where
  "writeList b = (if length b = 0 then writeAll [0xc0] else writeSized 0xC0 b)"

definition WriteBytes :: "bytes option \<Rightarrow> unit wproc" where
  "WriteBytes b = then_p (countN 1) (writeBytes b)"

definition WriteRaw :: "bytes \<Rightarrow> unit wproc" where
  "WriteRaw b = then_p (countN 1) (writeAll b)"

definition WriteValue :: "prim option \<Rightarrow> unit wproc" where
  "WriteValue v = then_p (countN 1) (case v of
      Some (PBool b) \<Rightarrow> writeBytes (Some [if b then 1 else 0])
    | Some (PUint v) \<Rightarrow> writeBytes (Some (Uint64ToBytes v))
    | Some (PInt v) \<Rightarrow> writeBytes (Some (Int64ToBytes v))
    | Some (PString s) \<Rightarrow> writeBytes (Some s)
    | None \<Rightarrow> fail_p (wrap_err ErrIllegalType ''IllegalType''))"

definition WriteNull :: "unit wproc" where
  "WriteNull = then_p (countN 1) writeNull"

text \<open>Closing the writer \<open>c\<close> of a list or map appends it to the writer that opened it.\<close>

definition CloseWriter :: "rlpWriter \<Rightarrow> unit wproc" where
  "CloseWriter c = (case w_parent c of
      None \<Rightarrow> ret_p ()
    | Some (cnt, isMap) \<Rightarrow> if isMap \<and> cnt mod 2 \<noteq> 0 then fail_p ErrInvalidFormat
        else writeList (w_buf c))"

section \<open>What a reader can still deliver\<close>

fun avail :: "reader \<Rightarrow> bytes" where
  "avail (Buffer bs) = bs"
| "avail (LimitReader r k) = take k (avail r)"

fun advance :: "nat \<Rightarrow> reader \<Rightarrow> reader" where
  "advance n (Buffer bs) = Buffer (drop n bs)"
| "advance n (LimitReader r k) = LimitReader (advance n r) (k - n)"

text \<open>The error at the end: EOF at the reader's own limit, a format error at an outer one.\<close>

fun end_err :: "reader \<Rightarrow> err" where
  "end_err (Buffer bs) = EOF"
| "end_err (LimitReader r k) = (if k \<le> length (avail r) then EOF else ErrInvalidFormat)"

lemma advance_0 [simp]: "advance 0 r = r"
  by (induction r) auto

lemma avail_advance: "n \<le> length (avail r) \<Longrightarrow> avail (advance n r) = drop n (avail r)"
  by (induction r) (auto simp: drop_take)

lemma advance_advance: "advance m (advance n r) = advance (n + m) r"
  by (induction r) (auto simp: add.commute)

lemma Read_avail:
  "avail r \<noteq> [] \<Longrightarrow> 0 < n \<Longrightarrow>
   Read r n = ((take n (avail r), None), advance (min n (length (avail r))) r)"
  by (induction r n rule: Read.induct) (auto simp: min_def)

lemma end_err_cases: "end_err r = EOF \<or> end_err r = ErrInvalidFormat"
  by (cases r) auto

lemma Read_empty: "avail r = [] \<Longrightarrow> 0 < n \<Longrightarrow> Read r n = (([], Some (end_err r)), r)"
  using end_err_cases by (induction r n rule: Read.induct) (auto, metis+)

lemma ReadUpTo_enough: "n \<le> length (avail r) \<Longrightarrow> ReadUpTo r n = ((take n (avail r), None), advance n r)"
  by (cases "avail r = []") (auto simp: ReadUpTo.simps [of r n] ReadUpTo.simps [of _ 0] Read_avail min_def)

lemma end_err_advance: "n \<le> length (avail r) \<Longrightarrow> end_err (advance n r) = end_err r"
proof (induction r)
  case (LimitReader r k)
  then show ?case by (auto simp: avail_advance)
qed simp

lemma ReadUpTo_short:
  "length (avail r) < n \<Longrightarrow>
   ReadUpTo r n = ((avail r, Some (end_err r)), advance (length (avail r)) r)"
proof -
  assume n: "length (avail r) < n"
  let ?L = "length (avail r)"
  show ?thesis
  proof (cases "avail r = []")
    case True
    with n show ?thesis by (simp add: ReadUpTo.simps [of r n] Read_empty)
  next
    case False
    have "ReadUpTo (advance ?L r) (n - ?L) = (([], Some (end_err r)), advance ?L r)"
      using n avail_advance [of ?L r] end_err_advance [of ?L r]
      by (simp add: ReadUpTo.simps [of "advance ?L r"] Read_empty)
    with n False show ?thesis by (simp add: ReadUpTo.simps [of r n] Read_avail min_def)
  qed
qed

section \<open>Reading what is there\<close>

text \<open>\<open>gives m xs s x\<close>: on a reader whose next bytes are \<open>xs\<close>, \<open>m\<close> consumes them and returns \<open>x\<close>.\<close>

definition gives :: "'a rproc \<Rightarrow> bytes \<Rightarrow> rlpReader \<Rightarrow> 'a \<Rightarrow> bool" where
  "gives m xs s x \<longleftrightarrow> m s = (Ret x, s\<lparr>rr_reader := advance (length xs) (rr_reader s)\<rparr>)"

definition next_bytes :: "bytes \<Rightarrow> rlpReader \<Rightarrow> bool" where
  "next_bytes xs s \<longleftrightarrow> (\<exists>rest. avail (rr_reader s) = xs @ rest)"

definition past :: "bytes \<Rightarrow> rlpReader \<Rightarrow> rlpReader" where
  "past xs s = s\<lparr>rr_reader := advance (length xs) (rr_reader s)\<rparr>"

lemma next_bytes_append: "next_bytes (xs @ ys) s \<longleftrightarrow> next_bytes xs s \<and> next_bytes ys (past xs s)"
proof
  assume "next_bytes (xs @ ys) s"
  then obtain rest where "avail (rr_reader s) = xs @ ys @ rest" by (auto simp: next_bytes_def)
  then show "next_bytes xs s \<and> next_bytes ys (past xs s)"
    by (auto simp: next_bytes_def past_def avail_advance)
next
  assume *: "next_bytes xs s \<and> next_bytes ys (past xs s)"
  then obtain r where r: "avail (rr_reader s) = xs @ r" by (auto simp: next_bytes_def)
  with * show "next_bytes (xs @ ys) s" by (auto simp: next_bytes_def past_def avail_advance)
qed

lemma past_append: "past ys (past xs s) = past (xs @ ys) s"
  by (simp add: past_def advance_advance)

lemma rr_maxSB_past [simp]: "rr_maxSB (past xs s) = rr_maxSB s"
  by (simp add: past_def)

lemma gives_past: "gives m xs s x \<longleftrightarrow> m s = (Ret x, past xs s)"
  by (simp add: gives_def past_def)

lemma gives_bind:
  "gives m xs s x \<Longrightarrow> gives (k x) ys (past xs s) y \<Longrightarrow> gives (bind_p m k) (xs @ ys) s y"
  by (simp add: gives_past past_append)

lemma gives_ret: "gives (ret_p x) [] s x"
  by (simp add: gives_def ret_p_def)

lemma gives_bind_ret: "gives m xs s x \<Longrightarrow> k x = ret_p y \<Longrightarrow> gives (bind_p m k) xs s y"
  using gives_bind [of m xs s x k "[]" y] by (simp add: gives_ret)

lemma gives_get: "gives (k s) xs s x \<Longrightarrow> gives (get_p k) xs s x"
  by (simp add: gives_def get_p_def)

lemma ReadFull_gives: "next_bytes xs s \<Longrightarrow> gives (ReadFull (length xs)) xs s xs"
  by (auto simp: next_bytes_def gives_def ReadFull_def proc_defs bind_p_def ReadUpTo_enough)

lemma readAll_gives: "next_bytes xs s \<Longrightarrow> gives (readAll (length xs)) xs s xs"
  using ReadFull_gives [of xs s] by (simp add: gives_def readAll_def catch_p_def)

lemma skipN_gives: "next_bytes xs s \<Longrightarrow> gives (skipN (length xs)) xs s ()"
  by (auto simp: next_bytes_def gives_def skipN_def proc_defs bind_p_def ReadUpTo_enough)

lemma readTag_gives: "next_bytes [t] s \<Longrightarrow> gives readTag [t] s (unat t)"
  unfolding readTag_def using ReadFull_gives [of "[t]" s] by (auto intro: gives_bind_ret)

section \<open>Encodings\<close>

definition sized :: "nat \<Rightarrow> bytes \<Rightarrow> bytes" where
  "sized base b = (if length b \<le> 55 then word_of_nat (base + length b) # b
     else word_of_nat (base + 55 + length (sizeToBytes (length b))) # sizeToBytes (length b) @ b)"

definition enc_bytes :: "bytes option \<Rightarrow> bytes" where
  "enc_bytes b = (case b of None \<Rightarrow> nullSequence
     | Some b \<Rightarrow> if length b = 1 \<and> unat (hd b) < 0x80 then b else sized 0x80 b)"

definition enc_list :: "bytes \<Rightarrow> bytes" where
  "enc_list b = sized 0xC0 b"

lemma writeAll_buf: "writeAll b w = (Ret (), w\<lparr>w_buf := w_buf w @ b\<rparr>)"
  by (simp add: writeAll_def modify_p_def)

lemma writeSized_buf: "writeSized base b w = (Ret (), w\<lparr>w_buf := w_buf w @ sized base b\<rparr>)"
  by (simp add: writeSized_def sized_def Let_def bind_p_def writeAll_buf)

lemma writeBytes_buf: "writeBytes b w = (Ret (), w\<lparr>w_buf := w_buf w @ enc_bytes b\<rparr>)"
  by (cases b) (auto simp: writeBytes_def enc_bytes_def writeNull_def writeAll_buf writeSized_buf sized_def)

lemma writeList_buf: "writeList b w = (Ret (), w\<lparr>w_buf := w_buf w @ enc_list b\<rparr>)"
  by (auto simp: writeList_def enc_list_def writeAll_buf writeSized_buf sized_def)

text \<open>Byte strings of a length that an \<open>int\<close> can hold.\<close>

definition int_len :: "'a list \<Rightarrow> bool" where
  "int_len b \<longleftrightarrow> length b \<le> 0x7fffffffffffffff"

lemma sizeToBytes_size:
  assumes "l \<le> 0x7fffffffffffffff"
  shows "bytesToSize (sizeToBytes l) = Ret l" and "1 \<le> length (sizeToBytes l)" and "length (sizeToBytes l) \<le> 8"
proof -
  have u: "unat (word_of_nat l :: 64 word) = l" using assms by (simp add: unat_of_nat)
  then show "bytesToSize (sizeToBytes l) = Ret l"
    using SafeBytesToSize_SizeToBytes [of "word_of_nat l"] assms by (simp add: bytesToSize_def sizeToBytes_def)
  show "1 \<le> length (sizeToBytes l)" "length (sizeToBytes l) \<le> 8"
    using u assms by (cases "l = 0"; auto simp: sizeToBytes_def SizeToBytes_nat_bytes length_nat_bytes Suc_le_eq)+
qed

lemma readSize_gives:
  "next_bytes (sizeToBytes l) s \<Longrightarrow> l \<le> 0x7fffffffffffffff \<Longrightarrow>
   gives (readSize (length (sizeToBytes l))) (sizeToBytes l) s l"
  unfolding readSize_def
  by (rule gives_bind_ret, erule readAll_gives) (simp add: sizeToBytes_size lift_p_def ret_p_def)

lemma unat_tag: "t < 256 \<Longrightarrow> unat (word_of_nat t :: 8 word) = t"
  by (simp add: unat_of_nat)

lemma next_bytes_Cons: "next_bytes (x # xs) s \<longleftrightarrow> next_bytes [x] s \<and> next_bytes xs (past [x] s)"
  using next_bytes_append [of "[x]" xs s] by simp

lemma gives_Cons:
  "gives m [x] s v \<Longrightarrow> gives (k v) xs (past [x] s) y \<Longrightarrow> gives (bind_p m k) (x # xs) s y"
  using gives_bind [of m "[x]" s v k xs y] by simp

text \<open>The header of a sized item: a short one is its tag, a long one its tag and the size.\<close>

lemma readBytes_gives:
  assumes n: "next_bytes (enc_bytes (Some b)) s" and l: "int_len b" and m: "length b \<le> rr_maxSB s \<or> length b \<le> 55"
  shows "gives readBytes (enc_bytes (Some b)) s b"
proof (cases "length b = 1 \<and> unat (hd b) < 0x80")
  case True
  then obtain x where b: "b = [x]" "unat x < 0x80" by (cases b) auto
  then have e: "enc_bytes (Some b) = [x]" by (simp add: enc_bytes_def)
  have "gives readTag [x] s (unat x)" using n unfolding e by (rule readTag_gives)
  then show ?thesis unfolding e readBytes_def by (rule gives_bind_ret) (use b in simp)
next
  case False
  then have e: "enc_bytes (Some b) = sized 0x80 b" by (auto simp: enc_bytes_def)
  show ?thesis
  proof (cases "length b \<le> 55")
    case True
    let ?t = "word_of_nat (0x80 + length b) :: 8 word"
    have e': "enc_bytes (Some b) = ?t # b" using e True by (simp add: sized_def)
    have t: "unat ?t = 0x80 + length b" using True by (intro unat_tag) simp
    have r: "gives (readAll (length b)) b (past [?t] s) b"
      using n unfolding e' next_bytes_Cons [of ?t b] by (blast intro: readAll_gives)
    have "next_bytes [?t] s" using n unfolding e' next_bytes_Cons [of ?t b] by blast
    from readTag_gives [OF this] have "gives readTag [?t] s (0x80 + length b)" unfolding t .
    then show ?thesis unfolding e' readBytes_def by (rule gives_Cons) (use r True in simp)
  next
    case F: False
    let ?z = "sizeToBytes (length b)"
    let ?t = "word_of_nat (0x80 + 55 + length ?z) :: 8 word"
    have z: "1 \<le> length ?z" "length ?z \<le> 8" using l sizeToBytes_size by (auto simp: int_len_def)
    have e': "enc_bytes (Some b) = ?t # ?z @ b" using e F by (simp add: sized_def)
    have t: "unat ?t = 0xB7 + length ?z" using z by (subst unat_tag) auto
    have c: "(0xB7 + length ?z < 0x80) = False" "(0xB7 + length ?z \<le> 0xB7) = False"
      "(0xB7 + length ?z < 0xC0) = True" "0xB7 + length ?z - 0xB7 = length ?z" using z by auto
    have nz: "next_bytes [?t] s" "next_bytes ?z (past [?t] s)" "next_bytes b (past ?z (past [?t] s))"
      using n unfolding e' next_bytes_Cons [of ?t "?z @ b"] next_bytes_append by blast+
    have "gives (readSize (length ?z)) ?z (past [?t] s) (length b)"
      using nz(2) l by (auto intro: readSize_gives simp: int_len_def)
    moreover have "gives (readAll (length b)) b (past ?z (past [?t] s)) b" by (rule readAll_gives [OF nz(3)])
    ultimately have r: "gives (bind_p (readSize (length ?z)) (\<lambda>sz2. get_p (\<lambda>s.
         if sz2 > rr_maxSB s then fail_p (wrap_err ErrInvalidFormat ''InvalidSize'')
         else readAll sz2))) (?z @ b) (past [?t] s) b"
      using m F by (intro gives_bind gives_get) auto
    from readTag_gives [OF nz(1)] have tag: "gives readTag [?t] s (0xB7 + length ?z)" unfolding t .
    show ?thesis unfolding e' readBytes_def
      by (rule gives_Cons [OF tag]) (simp only: c if_True if_False r)
  qed
qed

lemma readBytes_null: "next_bytes nullSequence s \<Longrightarrow> readBytes s = (Fail ErrNilValue, past nullSequence s)"
proof -
  assume "next_bytes nullSequence s"
  then have n: "next_bytes [0xf8] s" "next_bytes [0] (past [0xf8] s)"
    using next_bytes_Cons [of "0xf8" "[0]" s] by (auto simp: nullSequence_def)
  have z: "sizeToBytes 0 = [0]" by (simp add: sizeToBytes_def SizeToBytes_nat_bytes)
  have "gives (readSize 1) [0] (past [0xf8] s) 0"
    using readSize_gives [of 0 "past [0xf8] s"] n(2) by (simp add: z)
  moreover have "gives readTag [0xf8] s 0xf8" using readTag_gives [OF n(1)] by simp
  ultimately show ?thesis
    by (simp add: readBytes_def bind_p_def gives_past fail_p_def past_append nullSequence_def)
qed

section \<open>Lists, skipping and raw reading\<close>

definition hdr :: "nat \<Rightarrow> bytes \<Rightarrow> bytes" where
  "hdr base b = (if length b \<le> 55 then [word_of_nat (base + length b)]
     else word_of_nat (base + 55 + length (sizeToBytes (length b))) # sizeToBytes (length b))"

lemma sized_hdr: "sized base b = hdr base b @ b"
  by (simp add: sized_def hdr_def)

text \<open>The two shapes a sized item can have, with the tag each shape starts with.\<close>

lemma sized_cases:
  assumes n: "next_bytes (sized base b) s" and l: "int_len b" and base: "base \<in> {0x80, 0xC0}"
  obtains (short) t where "length b \<le> 55" "hdr base b = [t]" "unat t = base + length b"
      "gives readTag [t] s (base + length b)" "next_bytes b (past (hdr base b) s)"
  | (long) t k where "55 < length b" "hdr base b = t # sizeToBytes (length b)"
      "k = length (sizeToBytes (length b))" "1 \<le> k" "k \<le> 8" "unat t = base + 55 + k"
      "gives readTag [t] s (base + 55 + k)"
      "gives (readSize k) (sizeToBytes (length b)) (past [t] s) (length b)"
      "gives (readAll k) (sizeToBytes (length b)) (past [t] s) (sizeToBytes (length b))"
      "next_bytes b (past (hdr base b) s)"
proof (cases "length b \<le> 55")
  case True
  let ?t = "word_of_nat (base + length b) :: 8 word"
  have h: "hdr base b = [?t]" using True by (simp add: hdr_def)
  have t: "unat ?t = base + length b" using True base by (intro unat_tag) auto
  have nb: "next_bytes [?t] s" "next_bytes b (past [?t] s)"
    using n unfolding sized_hdr h next_bytes_append by blast+
  with readTag_gives [OF nb(1)] t h True show ?thesis by (intro short) simp_all
next
  case False
  let ?z = "sizeToBytes (length b)"
  let ?t = "word_of_nat (base + 55 + length ?z) :: 8 word"
  have z: "1 \<le> length ?z" "length ?z \<le> 8" using l sizeToBytes_size by (auto simp: int_len_def)
  have h: "hdr base b = ?t # ?z" "hdr base b = [?t] @ ?z" using False by (simp_all add: hdr_def)
  have t: "unat ?t = base + 55 + length ?z" using z base by (intro unat_tag) auto
  have nb: "next_bytes [?t] s" "next_bytes ?z (past [?t] s)" "next_bytes b (past (hdr base b) s)"
    using n unfolding sized_hdr h(2) next_bytes_append past_append by blast+
  have "gives readTag [?t] s (base + 55 + length ?z)" using readTag_gives [OF nb(1)] unfolding t .
  moreover have "gives (readSize (length ?z)) ?z (past [?t] s) (length b)"
    using nb(2) l by (auto intro: readSize_gives simp: int_len_def)
  moreover note readAll_gives [OF nb(2)] nb(3) z False h(1) t
  ultimately show ?thesis by (intro long [of ?t "length ?z"]) simp_all
qed

lemma readList_gives:
  assumes "next_bytes (enc_list b) s" and "int_len b"
  shows "readList s = (Ret (listReader (past (hdr 0xC0 b) s) (length b)), past (hdr 0xC0 b) s)"
  using assms(1) unfolding enc_list_def
proof (rule sized_cases [OF _ assms(2)])
  fix t assume "length b \<le> 55" "hdr 0xC0 b = [t]" "gives readTag [t] s (0xC0 + length b)"
  then show ?thesis by (simp add: readList_def gives_past get_p_def ret_p_def)
next
  fix t k assume *: "55 < length b" "hdr 0xC0 b = t # sizeToBytes (length b)" "1 \<le> k" "k \<le> 8"
    "gives readTag [t] s (0xC0 + 55 + k)"
    "gives (readSize k) (sizeToBytes (length b)) (past [t] s) (length b)"
  have "past (sizeToBytes (length b)) (past [t] s) = past (hdr 0xC0 b) s"
    using *(2) by (simp add: past_append)
  with * show ?thesis by (auto simp: readList_def gives_past get_p_def ret_p_def)
qed simp

lemma skipOne_sized:
  assumes "next_bytes (sized base b) s" and "int_len b" and b: "base \<in> {0x80, 0xC0}"
  shows "gives skipOne (sized base b) s ()"
  using assms
proof (cases rule: sized_cases)
  case (short t)
  from skipN_gives [OF short(5)] have r: "gives (skipN (length b)) b (past [t] s) ()" using short(2) by simp
  have "gives (bind_p readTag (\<lambda>tag. skipN (length b))) (t # b) s ()"
    by (rule gives_Cons [OF short(4) r])
  moreover have "skipOne s = bind_p readTag (\<lambda>tag. skipN (length b)) s"
    using short(1,4) b by (auto simp: skipOne_def gives_past)
  ultimately show ?thesis using short(2) by (simp add: gives_def sized_hdr)
next
  case (long t k)
  let ?z = "sizeToBytes (length b)"
  have "next_bytes b (past ?z (past [t] s))" using long(10) long(2) by (simp add: past_append)
  from skipN_gives [OF this] have "gives (bind_p (readSize k) skipN) (?z @ b) (past [t] s) ()"
    by (rule gives_bind [OF long(8)])
  from gives_Cons [OF long(7), of "\<lambda>_. bind_p (readSize k) skipN", OF this]
  have "gives (bind_p readTag (\<lambda>tag. bind_p (readSize k) skipN)) (sized base b) s ()"
    using long(2) by (simp add: sized_hdr)
  moreover have "skipOne s = bind_p readTag (\<lambda>tag. bind_p (readSize k) skipN) s"
    using long(4,5,7) b by (auto simp: skipOne_def gives_past)
  ultimately show ?thesis by (simp add: gives_def)
qed

lemma readMore_gives:
  "next_bytes b s \<Longrightarrow> length b + length org \<le> rr_maxSB s \<Longrightarrow> gives (readMore org (length b)) b s (org @ b)"
  unfolding readMore_def by (rule gives_get) (auto intro!: gives_bind_ret [OF readAll_gives])

lemma ReadRaw_sized:
  assumes "next_bytes (sized base b) s" and "int_len b" and b: "base \<in> {0x80, 0xC0}"
    and m: "length (sized base b) \<le> rr_maxSB s"
  shows "gives ReadRaw (sized base b) s (sized base b)"
  using assms(1-3)
proof (cases rule: sized_cases)
  case (short t)
  have r: "gives (readMore [t] (length b)) b (past [t] s) (t # b)"
    using readMore_gives [OF short(5), of "[t]"] short(2) m by (simp add: sized_hdr)
  have "gives (bind_p readTag (\<lambda>tag. readMore [t] (length b))) (t # b) s (t # b)"
    by (rule gives_Cons [OF short(4) r])
  moreover have "word_of_nat (base + length b) = t" using short(3) by (metis of_nat_unat ucast_id)
  then have "ReadRaw s = bind_p readTag (\<lambda>tag. readMore [t] (length b)) s"
    using short(1,4) b by (auto simp: ReadRaw_def gives_past Let_def)
  ultimately show ?thesis using short(2) by (simp add: gives_def sized_hdr)
next
  case (long t k)
  let ?z = "sizeToBytes (length b)"
  have "next_bytes b (past ?z (past [t] s))" using long(10) long(2) by (simp add: past_append)
  then have "gives (readMore (t # ?z) (length b)) b (past ?z (past [t] s)) ((t # ?z) @ b)"
    using m long(2) by (intro readMore_gives) (simp_all add: sized_hdr)
  moreover have "bytesToSize ?z = Ret (length b)" using assms(2) sizeToBytes_size by (simp add: int_len_def)
  ultimately have "gives (readRawSized t k) (?z @ b) (past [t] s) ((t # ?z) @ b)"
    unfolding readRawSized_def by (intro gives_bind [OF long(9)]) (simp add: lift_p_def bind_p_def gives_def)
  from gives_Cons [OF long(7), of "\<lambda>_. readRawSized t k", OF this]
  have "gives (bind_p readTag (\<lambda>tag. readRawSized t k)) (sized base b) s (sized base b)"
    using long(2) by (simp add: sized_hdr)
  moreover have "word_of_nat (base + 55 + k) = t" using long(6) by (metis of_nat_unat ucast_id)
  then have "ReadRaw s = bind_p readTag (\<lambda>tag. readRawSized t k) s"
    using long(4,5,7) b by (auto simp: ReadRaw_def gives_past Let_def)
  ultimately show ?thesis by (simp add: gives_def)
qed

end
