(* ===== verification/Codec.thy ===== *)
theory Codec
  imports Rlp
begin

text \<open>
  The reflective encoder and decoder of src/common/codec/codec.go over the RLP reader and
  writer, and the byte-slice front end of src/common/codec/bytes.go. A Go type is a
  \<open>gtype\<close>, a value of it a \<open>gval\<close>; nil slices and pointers are \<open>None\<close>. The fields of an
  embedded struct are fields of the struct that embeds it, and unexported fields and embedded
  interfaces, which the code skips, do not occur. Maps and types with marshalling methods of
  their own are not modelled.
\<close>

datatype gtype = TPrim kind | TBytes | TByteArray nat | TSlice gtype | TArray nat gtype
  | TPtr gtype | TStruct "gtype list"

datatype gval = VPrim prim | VBytes "bytes option" | VByteArray bytes | VSlice "gval list option"
  | VArray "gval list" | VPtr "gval option" | VStruct "gval list"

section \<open>Encoding\<close>

text \<open>\<open>encodeList\<close>, the items on the child's writer, and \<open>flush\<close>, which closes it.\<close>

definition in_list :: "unit wproc \<Rightarrow> unit wproc" where
  "in_list body = bind_p WriteList (\<lambda>c w. case body c of
      (Ret u, c') \<Rightarrow> CloseWriter c' w
    | (Fail e, c') \<Rightarrow> (Fail e, w) | (Panic, c') \<Rightarrow> (Panic, w) | (OutOfFuel, c') \<Rightarrow> (OutOfFuel, w))"

fun seq_p :: "('s, 'e, unit) proc list \<Rightarrow> ('s, 'e, unit) proc" where
  "seq_p [] = ret_p ()"
| "seq_p (m # ms) = then_p m (seq_p ms)"

lemma seq_p_cong [fundef_cong]: "ms = ns \<Longrightarrow> seq_p ms = seq_p ns"
  by simp

fun encodeValue :: "gval \<Rightarrow> unit wproc" where
  "encodeValue (VPrim p) = WriteValue (Some p)"
| "encodeValue (VBytes None) = WriteNull"
| "encodeValue (VBytes (Some b)) = WriteBytes (Some b)"
| "encodeValue (VByteArray b) = WriteBytes (Some b)"
| "encodeValue (VSlice None) = WriteNull"
| "encodeValue (VSlice (Some vs)) = in_list (seq_p (map encodeValue vs))"
| "encodeValue (VArray vs) = in_list (seq_p (map encodeValue vs))"
| "encodeValue (VPtr None) = WriteNull"
| "encodeValue (VPtr (Some v)) = encodeValue v"
| "encodeValue (VStruct vs) = in_list (seq_p (map encodeValue vs))"

definition emptyWriter :: rlpWriter where
  "emptyWriter = \<lparr>w_buf = [], w_parent = None\<rparr>"

definition MarshalToBytes :: "gval \<Rightarrow> bytes result" where
  "MarshalToBytes v = (case encodeValue v emptyWriter of
      (Ret u, w) \<Rightarrow> Ret (w_buf w) | (Fail e, w) \<Rightarrow> Fail e | (Panic, w) \<Rightarrow> Panic | (OutOfFuel, w) \<Rightarrow> OutOfFuel)"

definition MustMarshalToBytes :: "gval \<Rightarrow> bytes result" where
  "MustMarshalToBytes v = (case MarshalToBytes v of Ret bs \<Rightarrow> Ret bs | _ \<Rightarrow> Panic)"

section \<open>Decoding\<close>

text \<open>The zero value of a type.\<close>

fun zero_val :: "gtype \<Rightarrow> gval" where
  "zero_val (TPrim KBool) = VPrim (PBool False)"
| "zero_val (TPrim (KUint w)) = VPrim (PUint 0)"
| "zero_val (TPrim (KInt w)) = VPrim (PInt 0)"
| "zero_val (TPrim KString) = VPrim (PString [])"
| "zero_val (TPrim KOther) = VPrim (PString [])"
| "zero_val TBytes = VBytes None"
| "zero_val (TByteArray n) = VByteArray (replicate n 0)"
| "zero_val (TSlice t) = VSlice None"
| "zero_val (TArray n t) = VArray (replicate n (zero_val t))"
| "zero_val (TPtr t) = VPtr None"
| "zero_val (TStruct ts) = VStruct (map zero_val ts)"

text \<open>A call whose error is handled: some errors become values.\<close>

definition handle_p :: "'a rproc \<Rightarrow> (err \<Rightarrow> 'a option) \<Rightarrow> 'a rproc" where
  "handle_p m h = (\<lambda>s. case m s of
      (Fail e, s') \<Rightarrow> (case h e of None \<Rightarrow> (Fail e, s') | Some x \<Rightarrow> (Ret x, s'))
    | (r, s') \<Rightarrow> (r, s'))"

fun inner :: "reader \<Rightarrow> reader" where
  "inner (LimitReader r k) = r"
| "inner (Buffer bs) = Buffer bs"

text \<open>
  \<open>decodeList\<close>, the body on the child's reader, and \<open>flush\<close>, which drains the child; the parent
  reads on where the child stopped.
\<close>

definition with_child :: "'a rproc \<Rightarrow> rlpReader \<Rightarrow> 'a rproc" where
  "with_child body c = (\<lambda>s. case bind_p body (\<lambda>x. then_p Close (ret_p x)) c of
      (r, c') \<Rightarrow> (r, s\<lparr>rr_reader := inner (rr_reader c')\<rparr>))"

definition in_child :: "'a rproc \<Rightarrow> 'a rproc" where
  "in_child body = bind_p ReadList (with_child body)"

text \<open>The same, where a nil list gives \<open>z\<close>.\<close>

definition in_child_or :: "'a \<Rightarrow> 'a rproc \<Rightarrow> 'a rproc" where
  "in_child_or z body = bind_p (handle_p (bind_p ReadList (\<lambda>c. ret_p (Some c)))
       (\<lambda>e. if e = ErrNilValue then Some None else None))
     (\<lambda>r. case r of None \<Rightarrow> ret_p z | Some c \<Rightarrow> with_child body c)"

text \<open>
  The items of a slice, until the reader of the list is at its end. Every item takes a byte at
  least, so as many rounds as the list has bytes, and one more, are enough.
\<close>

fun decode_items :: "nat \<Rightarrow> gval rproc \<Rightarrow> gval list \<Rightarrow> gval list rproc" where
  "decode_items 0 m acc = lift_p OutOfFuel"
| "decode_items (Suc n) m acc = bind_p (handle_p (bind_p m (\<lambda>v. ret_p (Some v)))
     (\<lambda>e. if e = EOF then Some None else None))
     (\<lambda>r. case r of None \<Rightarrow> ret_p acc | Some v \<Rightarrow> decode_items n m (acc @ [v]))"

text \<open>The items of an array of \<open>n\<close> elements; what is missing keeps the zero value \<open>z\<close>.\<close>

fun decode_array :: "nat \<Rightarrow> gval \<Rightarrow> gval rproc \<Rightarrow> gval list rproc" where
  "decode_array 0 z m = ret_p []"
| "decode_array (Suc n) z m = bind_p (handle_p (bind_p m (\<lambda>v. ret_p (Some v)))
     (\<lambda>e. if e = EOF then Some None else None))
     (\<lambda>r. case r of None \<Rightarrow> ret_p (replicate (Suc n) z)
        | Some v \<Rightarrow> bind_p (decode_array n z m) (\<lambda>vs. ret_p (v # vs)))"

text \<open>\<open>decodeRecursiveFields\<close>: a field beyond the end of the list is set to its zero value.\<close>

fun decode_fields :: "(gval \<times> gval rproc) list \<Rightarrow> gval list rproc" where
  "decode_fields [] = ret_p []"
| "decode_fields ((z, m) # fs) = bind_p (handle_p m (\<lambda>e. if e = EOF then Some z else None))
     (\<lambda>v. bind_p (decode_fields fs) (\<lambda>vs. ret_p (v # vs)))"

definition nullable :: "gval \<Rightarrow> gval rproc \<Rightarrow> gval rproc" where
  "nullable z m = handle_p m (\<lambda>e. if e = ErrNilValue then Some z else None)"

fun decodeValue :: "gtype \<Rightarrow> gval rproc" where
  "decodeValue (TPrim k) = bind_p (ReadValue k) (\<lambda>p. ret_p (VPrim p))"
| "decodeValue TBytes = handle_p (bind_p ReadBytes (\<lambda>b. ret_p (VBytes (Some b))))
     (\<lambda>e. if e = ErrNilValue then Some (VBytes None) else None)"
| "decodeValue (TByteArray n) = bind_p ReadBytes (\<lambda>b.
     ret_p (VByteArray (take n b @ replicate (n - length b) 0)))"
| "decodeValue (TSlice t) = in_child_or (VSlice None) (get_p (\<lambda>c.
     bind_p (decode_items (Suc (capacity (rr_reader c))) (nullable (zero_val t) (decodeValue t)) [])
       (\<lambda>vs. ret_p (VSlice (Some vs)))))"
| "decodeValue (TArray n t) = in_child
     (bind_p (decode_array n (zero_val t) (nullable (zero_val t) (decodeValue t)))
       (\<lambda>vs. ret_p (VArray vs)))"
| "decodeValue (TPtr t) = handle_p (bind_p (decodeValue t) (\<lambda>v. ret_p (VPtr (Some v))))
     (\<lambda>e. if e = ErrNilValue then Some (VPtr None) else None)"
| "decodeValue (TStruct ts) = in_child
     (bind_p (decode_fields (map (\<lambda>t. (zero_val t, decodeValue t)) ts)) (\<lambda>vs. ret_p (VStruct vs)))"

definition UnmarshalFromBytes :: "bytes \<Rightarrow> gtype \<Rightarrow> (gval \<times> bytes) result" where
  "UnmarshalFromBytes b t =
     (case decodeValue t \<lparr>rr_reader = Buffer b, rr_maxSB = length b\<rparr> of
        (Ret v, s) \<Rightarrow> Ret (v, avail (rr_reader s))
      | (Fail e, s) \<Rightarrow> Fail e | (Panic, s) \<Rightarrow> Panic | (OutOfFuel, s) \<Rightarrow> OutOfFuel)"

section \<open>The encoding of a value\<close>

fun prim_bytes :: "prim \<Rightarrow> bytes" where
  "prim_bytes (PBool b) = [if b then 1 else 0]"
| "prim_bytes (PUint v) = Uint64ToBytes v"
| "prim_bytes (PInt v) = Int64ToBytes v"
| "prim_bytes (PString s) = s"

fun enc :: "gval \<Rightarrow> bytes" where
  "enc (VPrim p) = enc_bytes (Some (prim_bytes p))"
| "enc (VBytes b) = enc_bytes b"
| "enc (VByteArray b) = enc_bytes (Some b)"
| "enc (VSlice None) = nullSequence"
| "enc (VSlice (Some vs)) = enc_list (concat (map enc vs))"
| "enc (VArray vs) = enc_list (concat (map enc vs))"
| "enc (VPtr None) = nullSequence"
| "enc (VPtr (Some v)) = enc v"
| "enc (VStruct vs) = enc_list (concat (map enc vs))"

definition wrote :: "bytes \<Rightarrow> rlpWriter \<Rightarrow> rlpWriter" where
  "wrote b w = \<lparr>w_buf = w_buf w @ b, w_parent = map_option (\<lambda>(c, m). (c + 1, m)) (w_parent w)\<rparr>"

lemma count_then: "then_p (countN 1) m w = m (w\<lparr>w_parent := map_option (\<lambda>(c, m). (c + 1, m)) (w_parent w)\<rparr>)"
  by (simp add: countN_def modify_p_def bind_p_def)

lemma Write_wrote:
  "WriteBytes b w = (Ret (), wrote (enc_bytes b) w)"
  "WriteNull w = (Ret (), wrote nullSequence w)"
  "WriteValue (Some p) w = (Ret (), wrote (enc_bytes (Some (prim_bytes p))) w)"
  unfolding WriteBytes_def WriteNull_def WriteValue_def count_then
  by (simp_all add: writeBytes_buf writeNull_def writeAll_buf wrote_def split: prim.split)

lemma seq_wrote:
  "(\<And>v w. v \<in> set vs \<Longrightarrow> encodeValue v w = (Ret (), wrote (enc v) w)) \<Longrightarrow>
   \<exists>k. seq_p (map encodeValue vs) w =
     (Ret (), \<lparr>w_buf = w_buf w @ concat (map enc vs), w_parent = map_option (\<lambda>(c, m). (c + k, m)) (w_parent w)\<rparr>)"
proof (induction vs arbitrary: w)
  case (Cons v vs)
  from Cons.IH [of "wrote (enc v) w"] Cons.prems obtain k where
    "seq_p (map encodeValue vs) (wrote (enc v) w) = (Ret (), \<lparr>w_buf = w_buf (wrote (enc v) w) @ concat (map enc vs),
       w_parent = map_option (\<lambda>(c, m). (c + k, m)) (w_parent (wrote (enc v) w))\<rparr>)" by auto
  with Cons.prems show ?case
    by (intro exI [of _ "Suc k"])
      (auto simp: bind_p_def wrote_def map_option.compositionality comp_def split_beta)
next
  case Nil
  have "(\<lambda>(c :: nat, m :: bool). (c + 0, m)) = id" by auto
  then show ?case by (intro exI [of _ 0]) (simp add: ret_p_def option.map_id0 option.map_ident)
qed

lemma in_list_wrote:
  assumes "\<And>v w. v \<in> set vs \<Longrightarrow> encodeValue v w = (Ret (), wrote (enc v) w)"
  shows "in_list (seq_p (map encodeValue vs)) w = (Ret (), wrote (enc_list (concat (map enc vs))) w)"
proof -
  from seq_wrote [OF assms, of vs "\<lparr>w_buf = [], w_parent = Some (0, False)\<rparr>"] obtain k where
    "seq_p (map encodeValue vs) \<lparr>w_buf = [], w_parent = Some (0, False)\<rparr> =
       (Ret (), \<lparr>w_buf = concat (map enc vs), w_parent = Some (k, False)\<rparr>)" by auto
  then show ?thesis
    unfolding in_list_def WriteList_def
    by (simp add: bind_p_def countN_def modify_p_def ret_p_def CloseWriter_def writeList_buf wrote_def)
qed

lemma encodeValue_wrote: "encodeValue v w = (Ret (), wrote (enc v) w)"
proof (induction v arbitrary: w)
  case (VBytes b)
  then show ?case by (cases b) (simp_all add: Write_wrote enc_bytes_def)
next
  case (VSlice x)
  then show ?case by (cases x) (auto simp: Write_wrote intro: in_list_wrote)
next
  case (VPtr x)
  then show ?case by (cases x) (auto simp: Write_wrote)
qed (auto simp: Write_wrote intro: in_list_wrote)

lemma MarshalToBytes_enc: "MarshalToBytes v = Ret (enc v)" "MustMarshalToBytes v = Ret (enc v)"
  by (simp_all add: MarshalToBytes_def MustMarshalToBytes_def encodeValue_wrote wrote_def emptyWriter_def)

section \<open>Typed values\<close>

fun prim_ok :: "prim \<Rightarrow> kind \<Rightarrow> bool" where
  "prim_ok (PBool b) KBool = True"
| "prim_ok (PUint v) (KUint w) = uintFits w v"
| "prim_ok (PInt v) (KInt w) = intFits w v"
| "prim_ok (PString s) KString = True"
| "prim_ok _ _ = False"

fun is_nullable :: "gtype \<Rightarrow> bool" where
  "is_nullable TBytes = True"
| "is_nullable (TSlice t) = True"
| "is_nullable (TPtr t) = True"
| "is_nullable _ = False"

text \<open>
  The types whose values have different encodings: no unsupported kind occurs, and no pointer
  points to a type that has a nil value itself.
\<close>

fun type_ok :: "gtype \<Rightarrow> bool" where
  "type_ok (TPrim k) = (k \<noteq> KOther)"
| "type_ok TBytes = True"
| "type_ok (TByteArray n) = True"
| "type_ok (TSlice t) = type_ok t"
| "type_ok (TArray n t) = type_ok t"
| "type_ok (TPtr t) = (type_ok t \<and> \<not> is_nullable t)"
| "type_ok (TStruct ts) = list_all type_ok ts"

fun has_type :: "gval \<Rightarrow> gtype \<Rightarrow> bool" where
  "has_type (VPrim p) (TPrim k) = prim_ok p k"
| "has_type (VBytes b) TBytes = True"
| "has_type (VByteArray b) (TByteArray n) = (length b = n)"
| "has_type (VSlice None) (TSlice t) = True"
| "has_type (VSlice (Some vs)) (TSlice t) = list_all (\<lambda>v. has_type v t) vs"
| "has_type (VArray vs) (TArray n t) = (length vs = n \<and> list_all (\<lambda>v. has_type v t) vs)"
| "has_type (VPtr None) (TPtr t) = True"
| "has_type (VPtr (Some v)) (TPtr t) = has_type v t"
| "has_type (VStruct vs) (TStruct ts) = list_all2 has_type vs ts"
| "has_type _ _ = False"

section \<open>Decoding an encoding\<close>

lemma errs_distinct [simp]: "ErrNilValue \<noteq> EOF" "EOF \<noteq> ErrNilValue"
  by (simp_all add: rlp_errs)

lemma enc_list_ne [simp]: "enc_list b \<noteq> []"
  by (simp add: enc_list_def sized_def)

lemma enc_bytes_ne [simp]: "enc_bytes b \<noteq> []"
  by (cases b) (auto simp: enc_bytes_def nullSequence_def sized_def)

lemma enc_ne: "enc v \<noteq> []"
proof (induction v)
  case (VSlice x) then show ?case by (cases x) (auto simp: nullSequence_def)
next
  case (VPtr x) then show ?case by (cases x) (auto simp: nullSequence_def)
qed simp_all

lemma enc_bytes_length: "length b \<le> length (enc_bytes (Some b))"
  by (auto simp: enc_bytes_def sized_def)

lemma enc_list_length: "length b \<le> length (enc_list b)"
  by (simp add: enc_list_def sized_def)

text \<open>A list reader at the end of its list answers every read with EOF.\<close>

definition at_end :: "rlpReader \<Rightarrow> bool" where
  "at_end s \<longleftrightarrow> (\<exists>r. rr_reader s = LimitReader r 0)"

lemma at_end_readTag: "at_end s \<Longrightarrow> readTag s = (Fail EOF, s)"
  by (auto simp: at_end_def readTag_def ReadFull_def proc_defs bind_p_def ReadUpTo.simps)

lemma at_end_readers:
  assumes "at_end s"
  shows "readBytes s = (Fail EOF, s)" and "ReadList s = (Fail EOF, s)"
    and "k \<noteq> KOther \<Longrightarrow> ReadValue k s = (Fail EOF, s)"
proof -
  note t = at_end_readTag [OF assms]
  show b: "readBytes s = (Fail EOF, s)" and "ReadList s = (Fail EOF, s)"
    by (simp_all add: readBytes_def ReadList_def readList_def t)
  then show "k \<noteq> KOther \<Longrightarrow> ReadValue k s = (Fail EOF, s)"
    by (cases k) (simp_all add: ReadValue_def readUintValue_def readIntValue_def)
qed

lemma decode_at_end: "at_end s \<Longrightarrow> type_ok t \<Longrightarrow> decodeValue t s = (Fail EOF, s)"
  by (induction t) (simp_all add: at_end_readers ReadBytes_def handle_p_def in_child_def in_child_or_def)

lemma readList_null: "next_bytes nullSequence s \<Longrightarrow> ReadList s = (Fail ErrNilValue, past nullSequence s)"
proof -
  assume "next_bytes nullSequence s"
  then have n: "next_bytes [0xf8] s" "next_bytes [0] (past [0xf8] s)"
    using next_bytes_Cons [of "0xf8" "[0]" s] by (auto simp: nullSequence_def)
  have z: "sizeToBytes 0 = [0]" by (simp add: sizeToBytes_def SizeToBytes_nat_bytes)
  have "gives (readSize 1) [0] (past [0xf8] s) 0"
    using readSize_gives [of 0 "past [0xf8] s"] n(2) by (simp add: z)
  moreover have "gives readTag [0xf8] s 0xf8" using readTag_gives [OF n(1)] by simp
  ultimately show ?thesis
    by (simp add: ReadList_def readList_def gives_past fail_p_def past_append nullSequence_def)
qed

lemma decode_null:
  assumes "next_bytes nullSequence s" and "type_ok t" and "\<not> is_nullable t"
  shows "decodeValue t s = (Fail ErrNilValue, past nullSequence s)"
proof -
  note b = readBytes_null [OF assms(1)] and l = readList_null [OF assms(1)]
  have "k \<noteq> KOther \<Longrightarrow> ReadValue k s = (Fail ErrNilValue, past nullSequence s)" for k
    using b by (cases k) (simp_all add: ReadValue_def readUintValue_def readIntValue_def)
  with assms b l show ?thesis by (cases t) (simp_all add: ReadBytes_def in_child_def)
qed

text \<open>Reading a list: the body sees exactly the bytes of the list, and the parent goes on after it.\<close>

lemma with_child_gives:
  assumes n: "next_bytes b s" and g: "gives body b (listReader s (length b)) x"
  shows "gives (with_child body (listReader s (length b))) b s x"
proof -
  let ?c = "listReader s (length b)"
  have p: "rr_reader (past b ?c) = LimitReader (advance (length b) (rr_reader s)) 0"
    by (simp add: past_def listReader_def)
  have "Close (past b ?c) = (Ret (), past b ?c)"
    by (simp add: Close_def proc_defs bind_p_def p ReadUpTo.simps past_def listReader_def)
  with g have "bind_p body (\<lambda>x. then_p Close (ret_p x)) ?c = (Ret x, past b ?c)"
    by (simp add: gives_past ret_p_def)
  then show ?thesis unfolding with_child_def gives_past by (simp only: case_prod_conv p inner.simps) (simp add: past_def)
qed

lemma in_child_gives:
  assumes "next_bytes (enc_list b) s" and "int_len b"
    and "gives body b (listReader (past (hdr 0xC0 b) s) (length b)) x"
  shows "gives (in_child body) (enc_list b) s x" and "gives (in_child_or z body) (enc_list b) s x"
proof -
  note rl = readList_gives [OF assms(1,2)]
  have "next_bytes b (past (hdr 0xC0 b) s)"
    using assms(1) by (simp add: enc_list_def sized_hdr next_bytes_append)
  from with_child_gives [OF this assms(3)]
  show "gives (in_child body) (enc_list b) s x" "gives (in_child_or z body) (enc_list b) s x"
    using rl by (simp_all add: in_child_def in_child_or_def ReadList_def handle_p_def gives_past enc_list_def
        sized_hdr past_append ret_p_def)
qed

lemma listReader_next:
  assumes "next_bytes b s"
  shows "next_bytes b (listReader s (length b))" and "at_end (past b (listReader s (length b)))"
  using assms by (auto simp: next_bytes_def listReader_def at_end_def past_def)

lemma gives_nullable: "gives m xs s v \<Longrightarrow> gives (nullable z m) xs s v"
  by (simp add: gives_past nullable_def handle_p_def)

lemma nullable_at_end: "m s = (Fail EOF, s) \<Longrightarrow> nullable z m s = (Fail EOF, s)"
  by (simp add: nullable_def handle_p_def)

text \<open>The element decoder \<open>m\<close> reads the encoding of each element of \<open>vs\<close>.\<close>

definition reads :: "gval rproc \<Rightarrow> gval \<Rightarrow> bool" where
  "reads m v \<longleftrightarrow> (\<forall>s. next_bytes (enc v) s \<longrightarrow> length (enc v) \<le> rr_maxSB s \<longrightarrow> gives m (enc v) s v)"

lemma decode_items_gives:
  assumes "\<And>v. v \<in> set vs \<Longrightarrow> reads m v" and "\<And>s. at_end s \<Longrightarrow> m s = (Fail EOF, s)"
    and "next_bytes (concat (map enc vs)) c" and "length (concat (map enc vs)) \<le> rr_maxSB c"
    and "at_end (past (concat (map enc vs)) c)" and "length vs < n"
  shows "gives (decode_items n m acc) (concat (map enc vs)) c (acc @ vs)"
  using assms(1,3-)
proof (induction vs arbitrary: n c acc)
  case Nil
  then obtain k where n: "n = Suc k" by (cases n) auto
  have "past [] c = c" by (simp add: past_def)
  with Nil assms(2) show ?case by (simp add: n gives_past handle_p_def ret_p_def)
next
  case (Cons v vs)
  then obtain k where n: "n = Suc k" by (cases n) auto
  have nb: "next_bytes (enc v) c" "next_bytes (concat (map enc vs)) (past (enc v) c)"
    using Cons.prems(2) by (simp_all add: next_bytes_append)
  have g: "gives m (enc v) c v" using Cons.prems(1,3) nb(1) by (simp add: reads_def)
  have "gives (decode_items k m (acc @ [v])) (concat (map enc vs)) (past (enc v) c) ((acc @ [v]) @ vs)"
    using Cons.prems n nb(2) by (intro Cons.IH) (simp_all add: past_append)
  with g show ?case by (simp add: n gives_past handle_p_def ret_p_def past_append)
qed

lemma decode_array_gives:
  assumes "\<And>v. v \<in> set vs \<Longrightarrow> reads m v"
    and "next_bytes (concat (map enc vs)) c" and "length (concat (map enc vs)) \<le> rr_maxSB c"
  shows "gives (decode_array (length vs) z m) (concat (map enc vs)) c vs"
  using assms
proof (induction vs arbitrary: c)
  case Nil
  then show ?case by (simp add: gives_ret)
next
  case (Cons v vs)
  have nb: "next_bytes (enc v) c" "next_bytes (concat (map enc vs)) (past (enc v) c)"
    using Cons.prems(2) by (simp_all add: next_bytes_append)
  have g: "gives m (enc v) c v" using Cons.prems(1,3) nb(1) by (simp add: reads_def)
  have "gives (decode_array (length vs) z m) (concat (map enc vs)) (past (enc v) c) vs"
    using Cons.prems nb(2) by (intro Cons.IH) simp_all
  with g show ?case by (simp add: gives_past handle_p_def ret_p_def past_append)
qed

lemma decode_fields_gives:
  assumes "list_all2 (\<lambda>v t. reads (decodeValue t) v) vs ts"
    and "next_bytes (concat (map enc vs)) c" and "length (concat (map enc vs)) \<le> rr_maxSB c"
  shows "gives (decode_fields (map (\<lambda>t. (zero_val t, decodeValue t)) ts)) (concat (map enc vs)) c vs"
  using assms
proof (induction arbitrary: c rule: list_all2_induct)
  case Nil
  then show ?case by (simp add: gives_ret)
next
  case (Cons v vs t ts)
  have nb: "next_bytes (enc v) c" "next_bytes (concat (map enc vs)) (past (enc v) c)"
    using Cons.prems(1) by (simp_all add: next_bytes_append)
  have g: "gives (decodeValue t) (enc v) c v" using Cons.hyps(1) Cons.prems(2) nb(1) by (simp add: reads_def)
  have "gives (decode_fields (map (\<lambda>t. (zero_val t, decodeValue t)) ts)) (concat (map enc vs)) (past (enc v) c) vs"
    using Cons.prems nb(2) by (intro Cons.IH) simp_all
  with g show ?case by (simp add: gives_past handle_p_def ret_p_def past_append)
qed

text \<open>Primitive values.\<close>

lemma readBytes_short:
  "next_bytes (enc_bytes (Some b)) s \<Longrightarrow> length b \<le> 55 \<Longrightarrow> gives readBytes (enc_bytes (Some b)) s b"
  by (rule readBytes_gives) (simp_all add: int_len_def)

lemma readUint_gives:
  "next_bytes (enc_bytes (Some (Uint64ToBytes v))) s \<Longrightarrow> uintFits w v \<Longrightarrow>
   gives (readUintValue (KUint w)) (enc_bytes (Some (Uint64ToBytes v))) s (PUint v)"
  unfolding readUintValue_def
  using canonical_Uint64ToBytes [of v] SafeBytesToUint64_canonical [of "uint v" "Uint64ToBytes v"] unsigned_less [of v, where ?'a = int]
  by (intro gives_bind_ret [OF readBytes_short]) auto

lemma readInt_gives:
  "next_bytes (enc_bytes (Some (Int64ToBytes v))) s \<Longrightarrow> intFits w v \<Longrightarrow>
   gives (readIntValue (KInt w)) (enc_bytes (Some (Int64ToBytes v))) s (PInt v)"
  unfolding readIntValue_def
  using canonical_Int64ToBytes [of v]
  by (intro gives_bind_ret [OF readBytes_short]) (auto simp: SafeBytesToInt64_twos canonical_def)

lemma readBool_gives:
  "next_bytes (enc_bytes (Some [if b then 1 else 0])) s \<Longrightarrow>
   gives (readUintValue KBool) (enc_bytes (Some [if b then 1 else 0])) s (PBool b)"
  unfolding readUintValue_def
  by (intro gives_bind_ret [OF readBytes_short]) (auto simp: SafeBytesToUint64_def be_word_def)

lemma ReadValue_gives:
  assumes "prim_ok p k" and n: "next_bytes (enc_bytes (Some (prim_bytes p))) s"
    and "int_len (prim_bytes p)" and "length (prim_bytes p) \<le> rr_maxSB s"
  shows "gives (ReadValue k) (enc_bytes (Some (prim_bytes p))) s p"
proof (cases p)
  case (PBool b)
  with assms show ?thesis using readBool_gives [of b s] by (cases k) (auto simp: ReadValue_def)
next
  case (PUint v)
  with assms show ?thesis using readUint_gives [of v s] by (cases k) (auto simp: ReadValue_def)
next
  case (PInt v)
  with assms show ?thesis using readInt_gives [of v s] by (cases k) (auto simp: ReadValue_def)
next
  case (PString b)
  with assms have "gives readBytes (enc_bytes (Some b)) s b" by (intro readBytes_gives) auto
  with PString assms show ?thesis by (cases k) (auto simp: ReadValue_def intro: gives_bind_ret)
qed

lemma reads_nullable: "reads m v \<Longrightarrow> reads (nullable z m) v"
  by (simp add: reads_def gives_nullable)

lemma length_items: "length vs \<le> length (concat (map enc vs))"
proof (induction vs)
  case (Cons v vs)
  then show ?case using enc_ne [of v] by (cases "enc v") auto
qed simp

lemma list_setup:
  assumes "next_bytes (enc_list b) s" and "length (enc_list b) \<le> rr_maxSB s" and "int_len (enc_list b)"
  shows "int_len b" and "next_bytes b (listReader (past (hdr 0xC0 b) s) (length b))"
    and "at_end (past b (listReader (past (hdr 0xC0 b) s) (length b)))"
    and "length b \<le> rr_maxSB (listReader (past (hdr 0xC0 b) s) (length b))"
    and "capacity (rr_reader (listReader (past (hdr 0xC0 b) s) (length b))) = length b"
proof -
  have "next_bytes b (past (hdr 0xC0 b) s)"
    using assms(1) by (simp add: enc_list_def sized_hdr next_bytes_append)
  note L = listReader_next [OF this]
  show "next_bytes b (listReader (past (hdr 0xC0 b) s) (length b))"
    "at_end (past b (listReader (past (hdr 0xC0 b) s) (length b)))" by (rule L)+
  show "int_len b" using assms(3) enc_list_length [of b] by (simp add: int_len_def)
  show "length b \<le> rr_maxSB (listReader (past (hdr 0xC0 b) s) (length b))"
    using assms(2) enc_list_length [of b] by (simp add: listReader_def minSize_def)
  show "capacity (rr_reader (listReader (past (hdr 0xC0 b) s) (length b))) = length b"
    by (simp add: listReader_def)
qed

lemma int_len_le: "int_len b \<Longrightarrow> length a \<le> length b \<Longrightarrow> int_len a"
  by (simp add: int_len_def)

lemma length_enc_item: "v \<in> set vs \<Longrightarrow> length (enc v) \<le> length (enc_list (concat (map enc vs)))"
proof -
  assume "v \<in> set vs"
  then obtain as bs where "vs = as @ v # bs" by (auto dest: split_list)
  then have "length (enc v) \<le> length (concat (map enc vs))" by simp
  also have "\<dots> \<le> length (enc_list (concat (map enc vs)))" by (rule enc_list_length)
  finally show ?thesis .
qed

text \<open>One lemma per type constructor.\<close>

lemma reads_prim: "prim_ok p k \<Longrightarrow> int_len (enc (VPrim p)) \<Longrightarrow> reads (decodeValue (TPrim k)) (VPrim p)"
proof -
  assume p: "prim_ok p k" and i: "int_len (enc (VPrim p))"
  have l: "length (prim_bytes p) \<le> length (enc (VPrim p))" using enc_bytes_length by simp
  show ?thesis unfolding reads_def
    using p l int_len_le [OF i l] by (auto intro!: gives_bind_ret [OF ReadValue_gives])
qed

lemma reads_bytes: "int_len (enc (VBytes b)) \<Longrightarrow> reads (decodeValue TBytes) (VBytes b)"
proof (cases b)
  case (Some x)
  assume i: "int_len (enc (VBytes b))"
  have "length x \<le> length (enc (VBytes b))" using enc_bytes_length [of x] Some by simp
  with Some i show ?thesis unfolding reads_def
    using readBytes_gives [of x] int_len_le [OF i, of x]
    by (auto simp: gives_past ReadBytes_def handle_p_def ret_p_def)
qed (auto simp: reads_def enc_bytes_def gives_past ReadBytes_def handle_p_def readBytes_null)

lemma reads_byteArray:
  "int_len (enc (VByteArray b)) \<Longrightarrow> reads (decodeValue (TByteArray (length b))) (VByteArray b)"
proof -
  assume i: "int_len (enc (VByteArray b))"
  have l: "length b \<le> length (enc (VByteArray b))" using enc_bytes_length [of b] by simp
  show ?thesis unfolding reads_def
    using l int_len_le [OF i l] by (auto simp: ReadBytes_def intro!: gives_bind_ret [OF readBytes_gives])
qed

lemma reads_list:
  assumes "int_len (enc_list (concat (map enc vs)))" and "enc v = enc_list (concat (map enc vs))"
    and "\<And>c. next_bytes (concat (map enc vs)) c \<Longrightarrow> at_end (past (concat (map enc vs)) c) \<Longrightarrow>
      length (concat (map enc vs)) \<le> rr_maxSB c \<Longrightarrow> capacity (rr_reader c) = length (concat (map enc vs)) \<Longrightarrow>
      gives body (concat (map enc vs)) c v"
  shows "reads (in_child body) v" and "reads (in_child_or z body) v"
proof -
  have "gives (in_child body) (enc v) s v \<and> gives (in_child_or z body) (enc v) s v"
    if n: "next_bytes (enc v) s" and m: "length (enc v) \<le> rr_maxSB s" for s
  proof -
    from n m assms(2) have s: "next_bytes (enc_list (concat (map enc vs))) s"
      "length (enc_list (concat (map enc vs))) \<le> rr_maxSB s" by simp_all
    note L = list_setup [OF s assms(1)]
    from in_child_gives [OF s(1) L(1) assms(3) [OF L(2,3,4,5)]] assms(2) show ?thesis by simp
  qed
  then show "reads (in_child body) v" and "reads (in_child_or z body) v" by (simp_all add: reads_def)
qed

lemma reads_slice:
  assumes "\<And>v. v \<in> set vs \<Longrightarrow> reads (decodeValue e) v" and "type_ok e" and "int_len (enc (VSlice (Some vs)))"
  shows "reads (decodeValue (TSlice e)) (VSlice (Some vs))"
  unfolding decodeValue.simps
proof (rule reads_list)
  let ?m = "nullable (zero_val e) (decodeValue e)"
  fix c assume c: "next_bytes (concat (map enc vs)) c" "at_end (past (concat (map enc vs)) c)"
    "length (concat (map enc vs)) \<le> rr_maxSB c" "capacity (rr_reader c) = length (concat (map enc vs))"
  have "gives (decode_items (Suc (capacity (rr_reader c))) ?m []) (concat (map enc vs)) c ([] @ vs)"
    using c length_items [of vs] assms
    by (intro decode_items_gives reads_nullable nullable_at_end decode_at_end) auto
  then show "gives (get_p (\<lambda>c. bind_p (decode_items (Suc (capacity (rr_reader c))) ?m [])
      (\<lambda>vs. ret_p (VSlice (Some vs))))) (concat (map enc vs)) c (VSlice (Some vs))"
    by (intro gives_get gives_bind_ret) auto
qed (use assms(3) in simp_all)

lemma reads_array:
  assumes "\<And>v. v \<in> set vs \<Longrightarrow> reads (decodeValue e) v" and "int_len (enc (VArray vs))"
  shows "reads (decodeValue (TArray (length vs) e)) (VArray vs)"
  unfolding decodeValue.simps
proof (rule reads_list)
  let ?m = "nullable (zero_val e) (decodeValue e)"
  fix c assume "next_bytes (concat (map enc vs)) c" "length (concat (map enc vs)) \<le> rr_maxSB c"
  then have "gives (decode_array (length vs) (zero_val e) ?m) (concat (map enc vs)) c vs"
    using assms by (intro decode_array_gives reads_nullable) auto
  then show "gives (bind_p (decode_array (length vs) (zero_val e) ?m) (\<lambda>vs. ret_p (VArray vs)))
      (concat (map enc vs)) c (VArray vs)"
    by (rule gives_bind_ret) (rule refl)
qed (use assms(2) in simp_all)

lemma reads_struct:
  assumes "list_all2 (\<lambda>v t. reads (decodeValue t) v) vs ts" and "int_len (enc (VStruct vs))"
  shows "reads (decodeValue (TStruct ts)) (VStruct vs)"
  unfolding decodeValue.simps
proof (rule reads_list)
  let ?m = "decode_fields (map (\<lambda>t. (zero_val t, decodeValue t)) ts)"
  fix c assume "next_bytes (concat (map enc vs)) c" "length (concat (map enc vs)) \<le> rr_maxSB c"
  then have "gives ?m (concat (map enc vs)) c vs" using assms(1) by (intro decode_fields_gives)
  then show "gives (bind_p ?m (\<lambda>vs. ret_p (VStruct vs))) (concat (map enc vs)) c (VStruct vs)"
    by (rule gives_bind_ret) (rule refl)
qed (use assms(2) in simp_all)

lemma decode_enc:
  "has_type v t \<Longrightarrow> type_ok t \<Longrightarrow> int_len (enc v) \<Longrightarrow> reads (decodeValue t) v"
proof (induction v arbitrary: t)
  case (VPrim p)
  then show ?case by (cases t) (auto simp del: decodeValue.simps enc.simps intro: reads_prim)
next
  case (VBytes b)
  then show ?case by (cases t) (auto simp del: decodeValue.simps enc.simps intro: reads_bytes)
next
  case (VByteArray b)
  then show ?case by (cases t) (auto simp del: decodeValue.simps enc.simps intro: reads_byteArray)
next
  case (VSlice x)
  then obtain e where t: "t = TSlice e" by (cases x; cases t) auto
  show ?case
  proof (cases x)
    case None
    then show ?thesis unfolding reads_def t
      by (auto simp: gives_past in_child_or_def handle_p_def readList_null ret_p_def)
  next
    case (Some vs)
    show ?thesis unfolding t Some
    proof (rule reads_slice)
      fix v assume v: "v \<in> set vs"
      then show "reads (decodeValue e) v"
        using VSlice Some t length_enc_item [OF v]
        by (intro VSlice.IH [of vs]) (auto simp: list_all_iff intro: int_len_le)
    qed (use VSlice.prems t Some in auto)
  qed
next
  case (VArray vs)
  then obtain e where t: "t = TArray (length vs) e" by (cases t) auto
  show ?case unfolding t
  proof (rule reads_array)
    fix v assume v: "v \<in> set vs"
    then show "reads (decodeValue e) v" using VArray t length_enc_item [OF v]
      by (intro VArray.IH) (auto simp: list_all_iff intro: int_len_le)
  qed (use VArray.prems in simp)
next
  case (VPtr x)
  then obtain e where t: "t = TPtr e" by (cases x; cases t) auto
  with VPtr show ?case
    by (cases x) (auto simp: reads_def gives_past handle_p_def decode_null ret_p_def)
next
  case (VStruct vs)
  then obtain ts where t: "t = TStruct ts" by (cases t) auto
  show ?case unfolding t
  proof (rule reads_struct [OF list_all2_all_nthI])
    show "length vs = length ts" using VStruct.prems(1) t by (auto dest: list_all2_lengthD)
    fix i assume i: "i < length vs"
    with VStruct.prems t have "has_type (vs ! i) (ts ! i)" "type_ok (ts ! i)"
      by (auto simp: list_all2_conv_all_nth list_all_length)
    moreover have "int_len (enc (vs ! i))"
      using VStruct.prems(3) length_enc_item [of "vs ! i" vs] i by (auto intro: int_len_le)
    ultimately show "reads (decodeValue (ts ! i)) (vs ! i)" using VStruct.IH i by auto
  qed (use VStruct.prems in simp)
qed

lemma Unmarshal_enc:
  assumes "has_type v t" and "type_ok t" and "int_len (enc v @ rest)"
  shows "UnmarshalFromBytes (enc v @ rest) t = Ret (v, rest)"
proof -
  let ?s = "\<lparr>rr_reader = Buffer (enc v @ rest), rr_maxSB = length (enc v @ rest)\<rparr>"
  have "reads (decodeValue t) v" using assms by (intro decode_enc) (auto simp: int_len_def)
  moreover have "next_bytes (enc v) ?s" by (simp add: next_bytes_def)
  ultimately have "decodeValue t ?s = (Ret v, past (enc v) ?s)" by (simp add: reads_def gives_past)
  then show ?thesis by (simp add: UnmarshalFromBytes_def past_def)
qed

section \<open>Properties\<close>

text \<open>
  C7: marshalling and unmarshalling round trip. For every value of a type in which no pointer
  points to a nillable type, \<open>MarshalToBytes\<close> succeeds, and \<open>UnmarshalFromBytes\<close> of its result,
  whatever bytes follow, returns that value and exactly the bytes that follow (nil and empty
  slices are kept apart, the size limits of the reader do not interfere, and the loop over the
  items of a slice ends).
\<close>

theorem codec_roundtrip:
  assumes "has_type v t" and "type_ok t" and "MarshalToBytes v = Ret bs" and "int_len (bs @ rest)"
  shows "UnmarshalFromBytes (bs @ rest) t = Ret (v, rest)"
  using assms Unmarshal_enc [of v t rest] by (simp add: MarshalToBytes_enc)

definition example_type :: gtype where
  "example_type = TStruct [TSlice (TPtr (TStruct [TPrim (KInt 64), TBytes]))]"

definition example_value :: gval where
  "example_value = VStruct [VSlice (Some [VPtr (Some (VStruct [VPrim (PInt (- 2)), VBytes None])),
     VPtr None, VPtr (Some (VStruct [VPrim (PInt 300), VBytes (Some [])]))])]"

lemma intFits_64 [simp]: "intFits 64 v"
  unfolding intFits_def
proof (rule bit_word_eqI)
  fix n assume n: "n < LENGTH(64)"
  then have "min n 63 = n" by simp
  with n show "bit v n = bit (signed_take_bit (64 - 1) v) n" by (simp add: bit_simps)
qed

lemma example_length: "length (enc example_value) = 14"
proof -
  have "Int64ToBytes (- 2) = [0xfe]" "Int64ToBytes 300 = [1, 44]" by code_simp+
  then show ?thesis
    by (simp add: example_value_def enc_list_def sized_def enc_bytes_def nullSequence_def)
qed

theorem codec_roundtrip_witness:
  "UnmarshalFromBytes (enc example_value @ [7]) example_type = Ret (example_value, [7])"
proof (rule codec_roundtrip)
  show "has_type example_value example_type" by (simp add: example_value_def example_type_def)
  show "type_ok example_type" by (simp add: example_type_def)
  show "MarshalToBytes example_value = Ret (enc example_value)" by (rule MarshalToBytes_enc)
  show "int_len (enc example_value @ [7])" by (simp add: int_len_def example_length)
qed

text \<open>The three shapes of an encoding.\<close>

lemma enc_shape:
  obtains (sized) base b where "enc v = sized base b" "base \<in> {0x80, 0xC0}" "length b \<le> length (enc v)"
  | (single) x where "enc v = [x]" "unat x < 0x80"
  | (null) "enc v = nullSequence"
proof -
  have b: "(\<exists>b. enc_bytes x = sized 0x80 b) \<or> (\<exists>y. enc_bytes x = [y] \<and> unat y < 0x80) \<or> enc_bytes x = nullSequence" for x
  proof (cases x)
    case (Some y)
    then show ?thesis by (cases "length y = 1 \<and> unat (hd y) < 0x80")
      (auto simp: enc_bytes_def length_Suc_conv)
  qed (simp add: enc_bytes_def)
  have "(\<exists>base b. enc v = sized base b \<and> base \<in> {0x80, 0xC0}) \<or> (\<exists>x. enc v = [x] \<and> unat x < 0x80)
      \<or> enc v = nullSequence"
  proof (induction v)
    case (VSlice x) then show ?case by (cases x) (auto simp: enc_list_def)
  next
    case (VPtr x) then show ?case by (cases x) auto
  qed (use b in \<open>auto simp: enc_list_def\<close>)
  then show thesis using sized single null by (auto simp: sized_def)
qed

lemma skip_raw_null:
  "next_bytes nullSequence s \<Longrightarrow> 2 \<le> rr_maxSB s \<Longrightarrow>
   gives skipOne nullSequence s () \<and> gives ReadRaw nullSequence s nullSequence"
proof -
  assume "next_bytes nullSequence s" and m: "2 \<le> rr_maxSB s"
  then have n: "next_bytes [0xf8] s" "next_bytes [0] (past [0xf8] s)" "next_bytes [] (past [0xf8, 0] s)"
    using next_bytes_Cons [of "0xf8" "[0]" s] by (auto simp: nullSequence_def next_bytes_def)
  have z: "sizeToBytes 0 = [0]" by (simp add: sizeToBytes_def SizeToBytes_nat_bytes)
  have t: "gives readTag [0xf8] s 0xf8" using readTag_gives [OF n(1)] by simp
  have sz: "gives (readSize 1) [0] (past [0xf8] s) 0"
    using readSize_gives [of 0 "past [0xf8] s"] n(2) by (simp add: z)
  have e: "past [] x = x" for x by (simp add: past_def)
  have sk: "skipN 0 (past [0xf8, 0] s) = (Ret (), past [0xf8, 0] s)"
    using skipN_gives [OF n(3)] by (simp add: gives_past e)
  have ra: "readAll 1 (past [0xf8] s) = (Ret [0], past [0xf8, 0] s)"
    using readAll_gives [OF n(2)] by (simp add: gives_past past_append)
  have rm: "readMore [0xf8, 0] 0 (past [0xf8, 0] s) = (Ret [0xf8, 0], past [0xf8, 0] s)"
    using readMore_gives [OF n(3), of "[0xf8, 0]"] m by (simp add: gives_past e)
  have b: "bytesToSize [0] = Ret 0" using sizeToBytes_size(1) [of 0] z by simp
  show ?thesis using t sz sk ra rm b
    by (simp add: skipOne_def ReadRaw_def readRawSized_def gives_past past_append nullSequence_def Let_def
        lift_p_def)
qed

text \<open>
  \<open>skipOne\<close> and \<open>ReadRaw\<close> treat one encoded value as a unit: \<open>skipOne\<close> consumes exactly the bytes
  of the encoding of any value, nil and nested ones included, and \<open>ReadRaw\<close> returns exactly
  these bytes when they are within the reader's size limit.
\<close>

theorem skip_raw_unit:
  assumes "MarshalToBytes v = Ret bs" and "next_bytes bs s" and "int_len bs" and "length bs \<le> rr_maxSB s"
  shows "skipOne s = (Ret (), past bs s) \<and> ReadRaw s = (Ret bs, past bs s)"
proof -
  have bs: "bs = enc v" using assms(1) by (simp add: MarshalToBytes_enc)
  show ?thesis
  proof (cases rule: enc_shape [of v])
    case (sized base b)
    then have "int_len b" using assms(3) bs by (auto intro: int_len_le)
    with sized show ?thesis
      using skipOne_sized [of base b s] ReadRaw_sized [of base b s] assms bs by (simp add: gives_past)
  next
    case (single x)
    then have "gives readTag [x] s (unat x)" using assms(2) bs by (simp add: readTag_gives)
    with single bs show ?thesis by (simp add: gives_past skipOne_def ReadRaw_def ret_p_def Let_def)
  next
    case null
    then show ?thesis using skip_raw_null [of s] assms bs by (simp add: gives_past nullSequence_def)
  qed
qed

theorem skip_raw_unit_witness:
  "skipOne \<lparr>rr_reader = Buffer (enc example_value @ [7]), rr_maxSB = 100\<rparr> =
     (Ret (), \<lparr>rr_reader = Buffer [7], rr_maxSB = 100\<rparr>)"
proof -
  let ?s = "\<lparr>rr_reader = Buffer (enc example_value @ [7]), rr_maxSB = 100\<rparr>"
  have "next_bytes (enc example_value) ?s" by (simp add: next_bytes_def)
  from skip_raw_unit [OF MarshalToBytes_enc(1) this] show ?thesis
    by (simp add: int_len_def example_length past_def)
qed

end
