(* ===== verification/Receiver_Base.thy ===== *)
theory Receiver_Base
  imports BTP_Link_Props Codec
begin

text \<open>
  What the three receivers (src/chain/icon/btp2, src/chain/icon/bridge, src/chain/ethbr) share: the
  relay message items they build, the search in the window of receive statuses, base64, and the
  contract that turns a receiver into a well-behaved partner of the link.
\<close>

section \<open>Relay message items\<close>

text \<open>
  The structs \<open>blockUpdate\<close> and \<open>MessageProof\<close> with their embedded \<open>relayMessageItem\<close>; a nil
  payload is the empty byte list, of the same length and the same use.
\<close>

record relayMessageItem =
  it :: messageItemType
  nextBls :: bmcLinkStatus
  payload :: bytes

datatype item =
  blockUpdate (body: relayMessageItem) (ph: int) (srcHeight: int) (targetHeight: int)
| messageProof (body: relayMessageItem) (startSeq: int) (item_lastSeq: int)

definition item_Type :: "item \<Rightarrow> messageItemType" where
  "item_Type i = it (body i)"

definition item_Len :: "item \<Rightarrow> int" where
  "item_Len i = int (length (payload (body i)))"

definition UpdateBMCLinkStatus :: "item \<Rightarrow> bmcLinkStatus \<Rightarrow> err option \<times> bmcLinkStatus" where
  "UpdateBMCLinkStatus i bls = (None, bls\<lparr>VHeight := VHeight (nextBls (body i)),
     RxSeq := RxSeq (nextBls (body i)), TxSeq := TxSeq (nextBls (body i))\<rparr>)"

text \<open>Only block updates and block proofs have the method \<open>ProofHeight\<close>.\<close>

definition ProofHeight :: "item \<Rightarrow> int" where
  "ProofHeight i = (case i of blockUpdate b h s t \<Rightarrow> h | messageProof b s l \<Rightarrow> 0)"

text \<open>The next status of a block update and of a message proof.\<close>

definition bls_of :: "int \<Rightarrow> int \<Rightarrow> int \<Rightarrow> bmcLinkStatus" where
  "bls_of tx rx h = \<lparr>TxSeq = tx, RxSeq = rx, VHeight = h, VExtra = []\<rparr>"

lemma bls_of_simps [simp]:
  "TxSeq (bls_of tx rx h) = tx" "RxSeq (bls_of tx rx h) = rx" "VHeight (bls_of tx rx h) = h"
  by (simp_all add: bls_of_def)

definition mkBlockUpdate :: "bmcLinkStatus \<Rightarrow> int \<Rightarrow> bytes \<Rightarrow> item" where
  "mkBlockUpdate bs target p = blockUpdate
     \<lparr>it = TypeBlockUpdate, nextBls = bls_of (TxSeq bs) (RxSeq bs) target, payload = p\<rparr>
     target (VHeight bs) target"

definition mkMessageProof :: "bmcLinkStatus \<Rightarrow> int \<Rightarrow> int \<Rightarrow> bytes \<Rightarrow> item" where
  "mkMessageProof bs start ls p = messageProof
     \<lparr>it = TypeMessageProof, nextBls = bls_of (TxSeq bs) ls (VHeight bs), payload = p\<rparr> start ls"

lemmas item_defs = item_Type_def item_Len_def UpdateBMCLinkStatus_def ProofHeight_def
  mkBlockUpdate_def mkMessageProof_def

section \<open>The window of receive statuses\<close>

text \<open>
  \<open>nextReceiveStatus\<close>: the first status at or above the height; at the height itself the one
  after it, whose absence is an index panic.
\<close>

fun nextStatus :: "('r \<Rightarrow> int) \<Rightarrow> 'r list \<Rightarrow> int \<Rightarrow> 'r option result" where
  "nextStatus ht [] h = Ret None"
| "nextStatus ht (r # rs) h = (if h \<le> ht r then
     (if h = ht r then (case rs of [] \<Rightarrow> Panic | x # xs \<Rightarrow> Ret (Some x)) else Ret (Some r))
   else nextStatus ht rs h)"

definition clearStatus :: "('r \<Rightarrow> int) \<Rightarrow> ('r \<Rightarrow> int) \<Rightarrow> 'r list \<Rightarrow> bmcLinkStatus \<Rightarrow> 'r list" where
  "clearStatus ht sq rss bls = drop_through (\<lambda>rs. ht rs \<le> VHeight bls \<and> sq rs \<le> RxSeq bls) rss"

definition ascending :: "('r \<Rightarrow> int) \<Rightarrow> 'r list \<Rightarrow> bool" where
  "ascending ht rss \<longleftrightarrow> sorted_wrt (\<lambda>a b. ht a < ht b) rss"

lemma nextStatus_above:
  "ascending ht rss \<Longrightarrow> nextStatus ht rss h = Ret (Some r) \<Longrightarrow> r \<in> set rss \<and> h < ht r"
  by (induction ht rss h rule: nextStatus.induct)
    (auto simp: ascending_def split: if_splits list.splits)

lemma nextStatus_least:
  "ascending ht rss \<Longrightarrow> nextStatus ht rss h = Ret (Some r) \<Longrightarrow> x \<in> set rss \<Longrightarrow> h < ht x \<Longrightarrow> ht r \<le> ht x"
  by (induction ht rss h rule: nextStatus.induct)
    (auto simp: ascending_def order.order_iff_strict split: if_splits list.splits)

lemma nextStatus_cases:
  "ascending ht rss \<Longrightarrow> nextStatus ht rss h =
     (if rss = [] \<or> ht (last rss) < h then Ret None
      else if ht (last rss) = h then Panic
      else Ret (List.find (\<lambda>r. h < ht r) rss))"
proof (induction ht rss h rule: nextStatus.induct)
  case (2 ht r rs h)
  then have IH: "\<not> h \<le> ht r \<Longrightarrow> nextStatus ht rs h = (if rs = [] \<or> ht (last rs) < h then Ret None
      else if ht (last rs) = h then Panic else Ret (List.find (\<lambda>r. h < ht r) rs))"
    by (simp add: ascending_def)
  have le: "rs \<noteq> [] \<Longrightarrow> ht r < ht (last rs)" using 2(2) by (auto simp: ascending_def)
  have hd: "rs \<noteq> [] \<Longrightarrow> ht r < ht (hd rs)" using 2(2) by (auto simp: ascending_def)
  show ?case using IH le hd by (auto split: list.splits)
qed simp

lemma ascending_clear: "ascending ht rss \<Longrightarrow> ascending ht (clearStatus ht sq rss bls)"
proof -
  assume a: "ascending ht rss"
  obtain pre where "rss = pre @ clearStatus ht sq rss bls"
    using drop_through_suffix unfolding clearStatus_def by blast
  moreover have "ascending ht (pre @ xs) \<Longrightarrow> ascending ht xs" for xs
    by (simp add: ascending_def sorted_wrt_append)
  ultimately show ?thesis using a by metis
qed

lemma ascending_snoc: "ascending ht (rss @ [r]) \<longleftrightarrow> ascending ht rss \<and> (\<forall>x\<in>set rss. ht x < ht r)"
  by (auto simp: ascending_def sorted_wrt_append)

section \<open>Base64\<close>

text \<open>\<open>base64.StdEncoding.DecodeString\<close>: line breaks are skipped, padding is required, the unused
  bits of the last group are not checked.\<close>

definition b64_val :: "char \<Rightarrow> nat option" where
  "b64_val c = (let n = of_char c :: nat in
     if 65 \<le> n \<and> n \<le> 90 then Some (n - 65)
     else if 97 \<le> n \<and> n \<le> 122 then Some (n - 71)
     else if 48 \<le> n \<and> n \<le> 57 then Some (n + 4)
     else if n = 43 then Some 62 else if n = 47 then Some 63 else None)"

definition b64_bytes :: "nat \<Rightarrow> nat \<Rightarrow> nat \<Rightarrow> nat \<Rightarrow> bytes" where
  "b64_bytes a b c d = (let n = ((a * 64 + b) * 64 + c) * 64 + d in
     [word_of_nat (n div 65536), word_of_nat (n div 256 mod 256), word_of_nat (n mod 256)])"

fun b64_groups :: "char list \<Rightarrow> bytes option" where
  "b64_groups [] = Some []"
| "b64_groups (p # q # r # s # rest) = (case (b64_val p, b64_val q) of
     (Some a, Some b) \<Rightarrow>
       if r = CHR ''='' then (if s = CHR ''='' \<and> rest = [] then Some (take 1 (b64_bytes a b 0 0)) else None)
       else (case b64_val r of None \<Rightarrow> None | Some c \<Rightarrow>
         if s = CHR ''='' then (if rest = [] then Some (take 2 (b64_bytes a b c 0)) else None)
         else (case b64_val s of None \<Rightarrow> None | Some d \<Rightarrow>
           map_option (\<lambda>bs. b64_bytes a b c d @ bs) (b64_groups rest)))
   | _ \<Rightarrow> None)"
| "b64_groups _ = None"

definition base64_DecodeString :: "string \<Rightarrow> bytes result" where
  "base64_DecodeString s = (case b64_groups (filter (\<lambda>c. of_char c \<noteq> (10 :: nat) \<and> of_char c \<noteq> (13 :: nat)) s) of
     None \<Rightarrow> Fail (StdError ''illegal base64 data'') | Some bs \<Rightarrow> Ret bs)"

text \<open>Decoding a list of messages, up to the first that is not base64.\<close>

fun decodeAll :: "string list \<Rightarrow> bytes list result" where
  "decodeAll [] = Ret []"
| "decodeAll (m # ms) = bind_r (base64_DecodeString m) (\<lambda>b. bind_r (decodeAll ms) (\<lambda>bs. Ret (b # bs)))"

lemma decodeAll_length: "decodeAll ms = Ret bs \<Longrightarrow> length bs = length ms"
  by (induction ms arbitrary: bs) (auto simp: bind_r_Ret)

section \<open>The contract of a receiver\<close>

text \<open>
  What a handler of the link keeps with the receivers, when it runs undisturbed: the messages are in order,
  and the recorded size is that of the open items.
\<close>

definition in_order :: "(item, 'x) link \<Rightarrow> bool" where
  "in_order l \<longleftrightarrow> ordered l \<and> items_ok item_Len l"

text \<open>
  A family of receivers, one for each state \<open>s\<close> of the receiving side, in the states with \<open>ok\<close>.
  Message proofs do not move the status backwards and keep its height; block updates come one at
  a time, raise the height and keep the sequence number; there are no block proofs.
\<close>

locale chain_receiver =
  fixes R :: "'s \<Rightarrow> item receiver" and ok :: "'s \<Rightarrow> bool"
  assumes update: "r_Update (R s) = UpdateBMCLinkStatus"
    and len: "r_Len (R s) = item_Len"
    and no_block_proof: "r_BuildBlockProof (R s) b h = Ret None"
    and proof_status: "ok s \<Longrightarrow> r_BuildMessageProof (R s) b lim = Ret (Some i) \<Longrightarrow>
      VHeight (nextBls (body i)) = VHeight b \<and> RxSeq b \<le> RxSeq (nextBls (body i))"
    and update_status: "ok s \<Longrightarrow> r_BuildBlockUpdate (R s) b lim = Ret bus \<Longrightarrow>
      bus = [] \<or> (\<exists>i. bus = [i] \<and> VHeight b < VHeight (nextBls (body i)) \<and> RxSeq (nextBls (body i)) = RxSeq b)"
begin

lemma advancing_R: "ok s \<Longrightarrow> advancing UpdateBMCLinkStatus (R s)"
  using proof_status [of s] update_status [of s]
  by (fastforce simp: advancing_def update no_block_proof bls_le_def UpdateBMCLinkStatus_def)

lemma handlers_in_order:
  assumes "ok s" and "in_order l"
  shows "in_order (snd (onReceiveStatus (R s) S fuel rs l))" and "in_order (snd (onRelayResult (R s) S fuel rr l))"
  using assms(2) unfolding in_order_def
  by (blast intro: order.keeps_handlers [OF advancing_R [OF assms(1)]] items.keeps_handlers [OF len])+

end

end
