(* ===== verification/Receive_DB.thy ===== *)
theory Receive_DB
  imports Receiver_Base
begin

text \<open>
  The database of received blocks of the btp2 and the ethbr receiver: blocks are kept under the key
  \<open>"H|"\<close> followed by the big-endian bytes of the height, and the last height under
  \<open>"LastReceiveHeight"\<close>. The store itself (goleveldb) is a record of functions; what the code
  relies on is \<open>leveldb_laws\<close>: an ordered map whose iterators run over a snapshot of the keys of a
  prefix.
\<close>

section \<open>The store\<close>

record 'd leveldb =
  ldb_Put :: "'d \<Rightarrow> bytes \<Rightarrow> bytes \<Rightarrow> err option \<times> 'd"
  ldb_Delete :: "'d \<Rightarrow> bytes \<Rightarrow> err option \<times> 'd"
  ldb_Get :: "'d \<Rightarrow> bytes \<Rightarrow> bytes result"
  ldb_Has :: "'d \<Rightarrow> bytes \<Rightarrow> bool result"
  ldb_Keys :: "'d \<Rightarrow> bytes \<Rightarrow> bytes list"

type_synonym ('d, 'a) dproc = "('d, err, 'a) proc"

text \<open>\<open>bytes.Compare\<close>, the order of the keys.\<close>

fun bytes_less :: "bytes \<Rightarrow> bytes \<Rightarrow> bool" where
  "bytes_less [] ys = (ys \<noteq> [])"
| "bytes_less (x # xs) [] = False"
| "bytes_less (x # xs) (y # ys) = (x < y \<or> x = y \<and> bytes_less xs ys)"

definition put_p :: "'d leveldb \<Rightarrow> bytes \<Rightarrow> bytes \<Rightarrow> ('d, unit) dproc" where
  "put_p D k v = (\<lambda>d. case ldb_Put D d k v of (None, d') \<Rightarrow> (Ret (), d') | (Some e, d') \<Rightarrow> (Fail e, d'))"

definition delete_p :: "'d leveldb \<Rightarrow> bytes \<Rightarrow> ('d, unit) dproc" where
  "delete_p D k = (\<lambda>d. case ldb_Delete D d k of (None, d') \<Rightarrow> (Ret (), d') | (Some e, d') \<Rightarrow> (Fail e, d'))"

section \<open>Operations\<close>

definition ReceiveBlockPrefix :: bytes where
  "ReceiveBlockPrefix = map (of_char :: char \<Rightarrow> byte) ''H|''"

definition LastReceiveHeight :: bytes where
  "LastReceiveHeight = map (of_char :: char \<Rightarrow> byte) ''LastReceiveHeight''"

text \<open>\<open>big.NewInt(h).Bytes()\<close>, and \<open>new(big.Int).SetBytes(b).Int64()\<close>.\<close>

definition heightBytes :: "int \<Rightarrow> bytes" where
  "heightBytes h = nat_bytes (nat \<bar>h\<bar>)"

definition bytesHeight :: "bytes \<Rightarrow> int" where
  "bytesHeight bs = sint (word_of_int (int (be_nat bs)) :: 64 word)"

definition heightKey :: "int \<Rightarrow> bytes" where
  "heightKey h = ReceiveBlockPrefix @ heightBytes h"

definition getFirstHeightForReceiveBlock :: "'d leveldb \<Rightarrow> 'd \<Rightarrow> int" where
  "getFirstHeightForReceiveBlock D d = (case ldb_Keys D d ReceiveBlockPrefix of
     [] \<Rightarrow> 0 | k # _ \<Rightarrow> bytesHeight (drop (length ReceiveBlockPrefix) k))"

definition addReceiveBlock :: "'d leveldb \<Rightarrow> int \<Rightarrow> bytes \<Rightarrow> ('d, unit) dproc" where
  "addReceiveBlock D height data = put_p D (heightKey height) data"

text \<open>The iterator is advanced once only.\<close>

definition removeAllReceiveBlock :: "'d leveldb \<Rightarrow> ('d, unit) dproc" where
  "removeAllReceiveBlock D = get_p (\<lambda>d. case ldb_Keys D d ReceiveBlockPrefix of
     [] \<Rightarrow> ret_p () | k # _ \<Rightarrow> delete_p D k)"

fun deleteKeys :: "'d leveldb \<Rightarrow> bytes list \<Rightarrow> ('d, unit) dproc" where
  "deleteKeys D [] = ret_p ()"
| "deleteKeys D (k # ks) = then_p (delete_p D k) (deleteKeys D ks)"

text \<open>\<open>Seek\<close> finds the first key that is not smaller; \<open>Prev\<close> then visits the smaller ones, backwards.\<close>

definition removeReceiveBlockByHeight :: "'d leveldb \<Rightarrow> int \<Rightarrow> ('d, unit) dproc" where
  "removeReceiveBlockByHeight D height = get_p (\<lambda>d.
     let key = heightKey height; ks = ldb_Keys D d ReceiveBlockPrefix
     in then_p (if dropWhile (\<lambda>k. bytes_less k key) ks \<noteq> []
          then deleteKeys D (rev (takeWhile (\<lambda>k. bytes_less k key) ks)) else ret_p ())
        (delete_p D key))"

definition setLastReceiveHeight :: "'d leveldb \<Rightarrow> int \<Rightarrow> ('d, unit) dproc" where
  "setLastReceiveHeight D height = put_p D LastReceiveHeight (heightBytes height)"

definition getLastReceiveHeight :: "'d leveldb \<Rightarrow> 'd \<Rightarrow> int result" where
  "getLastReceiveHeight D d = (case ldb_Has D d LastReceiveHeight of
      Fail e \<Rightarrow> Fail e
    | Ret has \<Rightarrow> if has then (case ldb_Get D d LastReceiveHeight of
          Ret bs \<Rightarrow> Ret (bytesHeight bs) | Fail e \<Rightarrow> Fail e | Panic \<Rightarrow> Panic | OutOfFuel \<Rightarrow> OutOfFuel)
        else Ret 0
    | Panic \<Rightarrow> Panic | OutOfFuel \<Rightarrow> OutOfFuel)"

text \<open>Errors of the single deletions are dropped.\<close>

definition deleteAllDatabase :: "'d leveldb \<Rightarrow> ('d, unit) dproc" where
  "deleteAllDatabase D = get_p (\<lambda>d. modify_p (\<lambda>d'. fold (\<lambda>k x. snd (ldb_Delete D x k)) (ldb_Keys D d []) d'))"

text \<open>
  The height from which to monitor: the choice at the start of \<open>monitoring\<close>, in both receivers;
  the blocks are requested from the next height on.
\<close>

definition startMonitoring :: "'d leveldb \<Rightarrow> bmcLinkStatus \<Rightarrow> ('d, int) dproc" where
  "startMonitoring D bls =
     then_p (if RxSeq bls < 1 then deleteAllDatabase D else ret_p ())
     (get_p (\<lambda>d. bind_p (lift_p (getLastReceiveHeight D d)) (\<lambda>lastHeight.
       let fb = getFirstHeightForReceiveBlock D d
       in if VHeight bls > lastHeight
          then then_p (deleteAllDatabase D) (ret_p (VHeight bls))
          else let height = (if fb \<noteq> 0 \<and> VHeight bls > fb then VHeight bls
                  else if fb > VHeight bls then fb - 1 else lastHeight)
            in then_p (removeAllReceiveBlock D) (ret_p height))))"

section \<open>What the store promises\<close>

definition leveldb_laws :: "'d leveldb \<Rightarrow> ('d \<Rightarrow> bytes \<Rightarrow> bytes option) \<Rightarrow> bool" where
  "leveldb_laws D view \<longleftrightarrow>
     (\<forall>d k v d'. ldb_Put D d k v = (None, d') \<longrightarrow> view d' = (view d)(k \<mapsto> v)) \<and>
     (\<forall>d k d'. ldb_Delete D d k = (None, d') \<longrightarrow> view d' = (view d)(k := None)) \<and>
     (\<forall>d k v. view d k = Some v \<longrightarrow> ldb_Get D d k = Ret v) \<and>
     (\<forall>d k. ldb_Has D d k = Ret (view d k \<noteq> None)) \<and>
     (\<forall>d p. set (ldb_Keys D d p) = {k \<in> dom (view d). take (length p) k = p} \<and>
        sorted_wrt bytes_less (ldb_Keys D d p))"

lemma bytes_less_irrefl [simp]: "\<not> bytes_less x x"
  by (induction x) auto

lemma bytes_less_trans: "bytes_less x y \<Longrightarrow> bytes_less y z \<Longrightarrow> bytes_less x z"
proof (induction x y arbitrary: z rule: bytes_less.induct)
  case (1 ys) then show ?case by (cases z; cases ys) auto
next
  case (3 x xs y ys) then show ?case by (cases z) auto
qed simp

lemma bytes_less_total: "bytes_less x y \<or> x = y \<or> bytes_less y x"
  by (induction x y rule: bytes_less.induct) auto

lemma bytes_less_prefix [simp]: "bytes_less (p @ x) (p @ y) \<longleftrightarrow> bytes_less x y"
  by (induction p) auto

text \<open>Among byte strings of one length the order is that of the numbers they stand for.\<close>

lemma bytes_less_number: "length x = length y \<Longrightarrow> bytes_less x y \<longleftrightarrow> be_nat x < be_nat y"
proof (induction x y rule: bytes_less.induct)
  case (3 x xs y ys)
  then have l: "length ys = length xs" by simp
  let ?p = "(256 :: nat) ^ length xs"
  have b: "be_nat xs < ?p" "be_nat ys < ?p" using be_nat_bound [of xs] be_nat_bound [of ys] l by simp_all
  have "unat x < unat y \<Longrightarrow> unat x * ?p + be_nat xs < unat y * ?p + be_nat ys"
  proof -
    assume "unat x < unat y"
    then have "(unat x + 1) * ?p \<le> unat y * ?p" by (intro mult_right_mono) simp_all
    with b show ?thesis by simp
  qed
  moreover have "unat y < unat x \<Longrightarrow> unat y * ?p + be_nat ys < unat x * ?p + be_nat xs"
  proof -
    assume "unat y < unat x"
    then have "(unat y + 1) * ?p \<le> unat x * ?p" by (intro mult_right_mono) simp_all
    with b show ?thesis by simp
  qed
  ultimately show ?case
    using 3 l by (cases "x < y"; cases "y < x") (auto simp: be_nat_Cons word_less_nat_alt word_unat_eq_iff)
qed simp_all

section \<open>The first stored height\<close>

text \<open>Every stored block has a positive height of \<open>n\<close> bytes.\<close>

definition uniform :: "('d \<Rightarrow> bytes \<Rightarrow> bytes option) \<Rightarrow> 'd \<Rightarrow> nat \<Rightarrow> bool" where
  "uniform view d n \<longleftrightarrow> (\<forall>k\<in>dom (view d). take (length ReceiveBlockPrefix) k = ReceiveBlockPrefix \<longrightarrow>
     (\<exists>h. 0 < h \<and> h < 2 ^ 63 \<and> k = heightKey h \<and> length (heightBytes h) = n))"

lemma bytesHeight_heightBytes: "0 \<le> h \<Longrightarrow> h < 2 ^ 63 \<Longrightarrow> bytesHeight (heightBytes h) = h"
  by (simp add: bytesHeight_def heightBytes_def int_word_sint)

lemma heightKey_less:
  assumes "length (heightBytes g) = length (heightBytes h)" and "0 \<le> g" and "0 \<le> h"
  shows "bytes_less (heightKey g) (heightKey h) \<longleftrightarrow> g < h"
  using assms bytes_less_number [of "heightBytes g" "heightBytes h"]
  by (auto simp: heightKey_def heightBytes_def nat_less_iff)

lemma heightKey_inj: "0 \<le> g \<Longrightarrow> 0 \<le> h \<Longrightarrow> heightKey g = heightKey h \<longleftrightarrow> g = h"
proof -
  assume "0 \<le> g" "0 \<le> h"
  then show ?thesis
    unfolding heightKey_def heightBytes_def by (metis abs_of_nonneg be_nat_nat_bytes nat_0_le same_append_eq)
qed

lemma heightKey_prefix [simp]:
  "take (length ReceiveBlockPrefix) (heightKey h) = ReceiveBlockPrefix"
  "drop (length ReceiveBlockPrefix) (heightKey h) = heightBytes h"
  by (simp_all add: heightKey_def)

lemma Keys_laws:
  assumes "leveldb_laws D view"
  shows "set (ldb_Keys D d p) = {k \<in> dom (view d). take (length p) k = p}"
    and "sorted_wrt bytes_less (ldb_Keys D d p)"
  using assms unfolding leveldb_laws_def by blast+

lemma first_height:
  assumes "leveldb_laws D view" and "uniform view d n"
  shows "(\<exists>h>0. view d (heightKey h) \<noteq> None) \<and> 0 < getFirstHeightForReceiveBlock D d \<and>
       view d (heightKey (getFirstHeightForReceiveBlock D d)) \<noteq> None \<and>
       (\<forall>h>0. view d (heightKey h) \<noteq> None \<longrightarrow> getFirstHeightForReceiveBlock D d \<le> h) \<or>
     \<not> (\<exists>h>0. view d (heightKey h) \<noteq> None) \<and> getFirstHeightForReceiveBlock D d = 0"
proof (cases "ldb_Keys D d ReceiveBlockPrefix")
  case Nil
  with Keys_laws(1) [OF assms(1), of d ReceiveBlockPrefix] have "view d (heightKey h) = None" for h
    by (metis (mono_tags, lifting) domIff empty_iff empty_set heightKey_prefix(1) mem_Collect_eq)
  with Nil show ?thesis by (simp add: getFirstHeightForReceiveBlock_def)
next
  case (Cons k ks)
  with Keys_laws(1) [OF assms(1), of d ReceiveBlockPrefix] have "k \<in> dom (view d)"
    "take (length ReceiveBlockPrefix) k = ReceiveBlockPrefix" by auto
  with assms(2) obtain g where g: "0 < g" "g < 2 ^ 63" "k = heightKey g" "length (heightBytes g) = n"
    unfolding uniform_def by blast
  have first: "getFirstHeightForReceiveBlock D d = g"
    using g bytesHeight_heightBytes [of g] by (simp add: getFirstHeightForReceiveBlock_def Cons)
  have "g \<le> h" if h: "0 < h" "view d (heightKey h) \<noteq> None" for h
  proof -
    from h have "heightKey h \<in> set (k # ks)"
      using Keys_laws(1) [OF assms(1), of d ReceiveBlockPrefix] by (simp add: Cons domIff)
    moreover from h assms(2) obtain h' where "heightKey h = heightKey h'" "0 < h'" "length (heightBytes h') = n"
      unfolding uniform_def by (metis domIff heightKey_prefix(1))
    then have "length (heightBytes h) = n" using h(1) heightKey_inj [of h h'] by simp
    ultimately show "g \<le> h"
      using Keys_laws(2) [OF assms(1), of d ReceiveBlockPrefix] g h(1) heightKey_less [of g h] heightKey_inj [of g h]
      by (auto simp: Cons)
  qed
  with first g \<open>k \<in> dom (view d)\<close> show ?thesis by auto
qed

text \<open>
  When the heights of all stored blocks have the same number of bytes,
  \<open>getFirstHeightForReceiveBlock\<close> is the least of them, and stored; without a block it is 0.
\<close>
theorem first_height_least:
  assumes "leveldb_laws D view" and "uniform view d n"
  shows "if \<exists>h>0. view d (heightKey h) \<noteq> None
     then view d (heightKey (getFirstHeightForReceiveBlock D d)) \<noteq> None \<and>
       (\<forall>h>0. view d (heightKey h) \<noteq> None \<longrightarrow> getFirstHeightForReceiveBlock D d \<le> h)
     else getFirstHeightForReceiveBlock D d = 0"
  using first_height [OF assms] by auto

text \<open>
  heights of different byte lengths are ordered wrongly: with the blocks 255 and 256 stored,
  and no others, the first stored height is said to be 256.
\<close>
theorem first_height_wrong:
  assumes "leveldb_laws D view"
    and "{k \<in> dom (view d). take (length ReceiveBlockPrefix) k = ReceiveBlockPrefix} = {heightKey 255, heightKey 256}"
  shows "getFirstHeightForReceiveBlock D d = 256"
proof -
  have l: "bytes_less (heightKey 256) (heightKey 255)"
    by (simp add: heightKey_def heightBytes_def nat_bytes.simps)
  note ks = Keys_laws [OF assms(1), of d ReceiveBlockPrefix, unfolded assms(2)]
  then obtain k r where K: "ldb_Keys D d ReceiveBlockPrefix = k # r"
    by (cases "ldb_Keys D d ReceiveBlockPrefix") auto
  have "k = heightKey 256"
  proof (rule ccontr)
    assume "k \<noteq> heightKey 256"
    with ks(1) K have "k = heightKey 255" "heightKey 256 \<in> set r" by auto
    with ks(2) K have "bytes_less (heightKey 255) (heightKey 256)" by simp
    with l bytes_less_trans bytes_less_irrefl show False by blast
  qed
  then show ?thesis
    using bytesHeight_heightBytes [of 256] by (simp add: getFirstHeightForReceiveBlock_def K)
qed

section \<open>Removal\<close>

lemma delete_p_view:
  "leveldb_laws D view \<Longrightarrow> delete_p D k d = (Ret (), d') \<Longrightarrow> view d' = (view d)(k := None)"
  by (auto simp: delete_p_def leveldb_laws_def split: prod.splits option.splits)

lemma deleteKeys_view:
  "leveldb_laws D view \<Longrightarrow> deleteKeys D ks d = (Ret (), d') \<Longrightarrow>
   view d' k = (if k \<in> set ks then None else view d k)"
proof (induction ks arbitrary: d)
  case (Cons x xs)
  from Cons.prems(2) obtain d1 where "delete_p D x d = (Ret (), d1)" "deleteKeys D xs d1 = (Ret (), d')"
    by (auto elim!: bind_p_RetE)
  with Cons.IH [of d1] Cons.prems(1) delete_p_view show ?case by fastforce
qed (simp add: ret_p_def)

lemma takeWhile_sorted:
  "sorted_wrt bytes_less ks \<Longrightarrow> x \<in> set ks \<Longrightarrow> x \<in> set (takeWhile (\<lambda>k. bytes_less k key) ks) \<longleftrightarrow> bytes_less x key"
proof (induction ks)
  case (Cons a ks)
  then show ?case using bytes_less_trans [of a x key] by (auto dest: set_takeWhileD)
qed simp

text \<open>
  Once the block of a height is stored, \<open>removeReceiveBlockByHeight\<close> for that height removes it
  and exactly the blocks whose keys are smaller; every other entry of the store stays.
\<close>
theorem removeReceiveBlockByHeight_removes:
  assumes "leveldb_laws D view" and "removeReceiveBlockByHeight D h d = (Ret (), d')"
    and "view d (heightKey h) \<noteq> None"
  shows "view d' k = (if take (length ReceiveBlockPrefix) k = ReceiveBlockPrefix \<and>
       (k = heightKey h \<or> bytes_less k (heightKey h)) then None else view d k)"
proof -
  let ?ks = "ldb_Keys D d ReceiveBlockPrefix" and ?P = "\<lambda>k. bytes_less k (heightKey h)"
  note ks = Keys_laws [OF assms(1), of d ReceiveBlockPrefix]
  have "heightKey h \<in> set ?ks" using ks(1) assms(3) by (simp add: domIff)
  then have "dropWhile ?P ?ks \<noteq> []" by (auto simp: dropWhile_eq_Nil_conv intro!: bexI [of _ "heightKey h"])
  with assms(2) obtain d1 where "deleteKeys D (rev (takeWhile ?P ?ks)) d = (Ret (), d1)"
    "delete_p D (heightKey h) d1 = (Ret (), d')"
    by (auto simp: removeReceiveBlockByHeight_def get_p_def Let_def elim!: bind_p_RetE)
  then have v: "view d' k = (if k = heightKey h \<or> k \<in> set (takeWhile ?P ?ks) then None else view d k)"
    using deleteKeys_view [OF assms(1)] delete_p_view [OF assms(1)] by simp
  show ?thesis
  proof (cases "k \<in> set ?ks")
    case True
    with v ks takeWhile_sorted [OF ks(2) True, of "heightKey h"] show ?thesis by auto
  next
    case False
    then have "k \<notin> set (takeWhile ?P ?ks)" by (auto dest: set_takeWhileD)
    with v False ks(1) show ?thesis by (auto simp: domIff)
  qed
qed

text \<open>
  \<open>removeAllReceiveBlock\<close> removes one block, the first, and leaves all the others.
\<close>
theorem removeAllReceiveBlock_one:
  assumes "leveldb_laws D view" and "removeAllReceiveBlock D d = (Ret (), d')"
  shows "view d' = (case ldb_Keys D d ReceiveBlockPrefix of [] \<Rightarrow> view d | k # ks \<Rightarrow> (view d)(k := None))"
  using assms delete_p_view [OF assms(1)]
  by (auto simp: removeAllReceiveBlock_def get_p_def ret_p_def split: list.splits)

section \<open>Where monitoring starts\<close>

text \<open>
  Monitoring resumes below every stored block that is above the verified height, so that no
  such block is missed, except when the first stored block is the one at the verified height;
  then it resumes at the last received height.
\<close>
theorem startMonitoring_height:
  assumes "leveldb_laws D view" and "uniform view d n" and "1 \<le> RxSeq bls"
    and "startMonitoring D bls d = (Ret height, d')" and "getLastReceiveHeight D d = Ret lastHeight"
  shows "if getFirstHeightForReceiveBlock D d = VHeight bls \<and> VHeight bls \<le> lastHeight then height = lastHeight
     else \<forall>h>VHeight bls. 0 < h \<and> view d (heightKey h) \<noteq> None \<longrightarrow> height < h"
proof -
  let ?fb = "getFirstHeightForReceiveBlock D d"
  have height: "height = (if VHeight bls > lastHeight then VHeight bls
      else if ?fb \<noteq> 0 \<and> VHeight bls > ?fb then VHeight bls else if ?fb > VHeight bls then ?fb - 1 else lastHeight)"
    using assms(3-5)
    by (auto simp: startMonitoring_def get_p_def lift_p_def ret_p_def Let_def elim!: bind_p_RetE split: if_splits)
  have fb: "?fb \<noteq> 0 \<and> ?fb \<le> h" if "0 < h" "view d (heightKey h) \<noteq> None" for h
  proof -
    from first_height [OF assms(1,2)] that show ?thesis by auto
  qed
  show ?thesis
  proof (cases "?fb = VHeight bls \<and> VHeight bls \<le> lastHeight")
    case False
    have "height < h" if "VHeight bls < h" "0 < h" "view d (heightKey h) \<noteq> None" for h
      using fb [OF that(2,3)] that(1) False height by (auto split: if_splits)
    with False show ?thesis by auto
  qed (use height in auto)
qed

section \<open>A store\<close>

text \<open>A store that keeps its laws: an association list, newest entry first.\<close>

fun insert_key :: "bytes \<Rightarrow> bytes list \<Rightarrow> bytes list" where
  "insert_key k [] = [k]"
| "insert_key k (x # xs) = (if k = x then x # xs else if bytes_less k x then k # x # xs else x # insert_key k xs)"

definition list_store :: "(bytes \<times> bytes) list leveldb" where
  "list_store = \<lparr>ldb_Put = (\<lambda>d k v. (None, (k, v) # d)), ldb_Delete = (\<lambda>d k. (None, filter (\<lambda>e. fst e \<noteq> k) d)),
     ldb_Get = (\<lambda>d k. case map_of d k of None \<Rightarrow> Fail ErrNotFound | Some v \<Rightarrow> Ret v),
     ldb_Has = (\<lambda>d k. Ret (map_of d k \<noteq> None)),
     ldb_Keys = (\<lambda>d p. foldr insert_key (filter (\<lambda>k. take (length p) k = p) (map fst d)) [])\<rparr>"

lemma set_insert_key [simp]: "set (insert_key k xs) = insert k (set xs)"
  by (induction xs) auto

lemma sorted_insert_key: "sorted_wrt bytes_less xs \<Longrightarrow> sorted_wrt bytes_less (insert_key k xs)"
proof (induction xs)
  case (Cons x xs)
  then show ?case using bytes_less_trans [of k x] bytes_less_total [of k x] by auto
qed simp

lemma list_store_laws: "leveldb_laws list_store map_of"
proof -
  have "set (foldr insert_key ks []) = set ks \<and> sorted_wrt bytes_less (foldr insert_key ks [])" for ks
    by (induction ks) (auto intro: sorted_insert_key)
  moreover have "map_of (filter (\<lambda>e. fst e \<noteq> k) d) = (map_of d)(k := None)" for k and d :: "(bytes \<times> bytes) list"
    by (induction d) (auto simp: fun_eq_iff)
  ultimately show ?thesis
    by (auto simp: leveldb_laws_def list_store_def dom_map_of_conv_image_fst)
qed

definition stored_blocks :: "(bytes \<times> bytes) list" where
  "stored_blocks = [(heightKey 300, [3]), (LastReceiveHeight, heightBytes 500), (heightKey 400, [4]), (heightKey 350, [5])]"

lemma stored_blocks_uniform: "uniform map_of stored_blocks 2"
proof -
  have "\<not> take (length ReceiveBlockPrefix) LastReceiveHeight = ReceiveBlockPrefix" by code_simp
  moreover have "length (heightBytes 300) = 2" "length (heightBytes 400) = 2" "length (heightBytes 350) = 2" by code_simp+
  ultimately show ?thesis
    unfolding uniform_def stored_blocks_def
    by (auto simp: dom_def split: if_splits intro: exI [of _ 300] exI [of _ 400] exI [of _ 350])
qed

theorem first_height_least_witness:
  "getFirstHeightForReceiveBlock list_store stored_blocks \<le> 350"
proof -
  have "map_of stored_blocks (heightKey 350) \<noteq> None" by code_simp
  with first_height_least [OF list_store_laws stored_blocks_uniform] show ?thesis
    by (metis (mono_tags, lifting) zero_less_numeral)
qed

theorem first_height_wrong_witness:
  "getFirstHeightForReceiveBlock list_store [(heightKey 255, [1]), (heightKey 256, [2])] = 256"
  by (rule first_height_wrong [OF list_store_laws]) (auto simp: dom_def split: if_splits)

theorem removeReceiveBlockByHeight_removes_witness:
  "\<exists>d'. removeReceiveBlockByHeight list_store 350 stored_blocks = (Ret (), d') \<and>
     map_of d' (heightKey 300) = None \<and> map_of d' (heightKey 400) = Some [4]"
proof -
  have "fst (removeReceiveBlockByHeight list_store 350 stored_blocks) = Ret ()" by code_simp
  then obtain d' where r: "removeReceiveBlockByHeight list_store 350 stored_blocks = (Ret (), d')"
    by (metis prod.collapse)
  have "map_of stored_blocks (heightKey 350) \<noteq> None" by code_simp
  note R = removeReceiveBlockByHeight_removes [OF list_store_laws r this]
  have "bytes_less (heightKey 300) (heightKey 350)" "\<not> bytes_less (heightKey 400) (heightKey 350)"
    "heightKey 400 \<noteq> heightKey 350" "map_of stored_blocks (heightKey 400) = Some [4]" by code_simp+
  with r R [of "heightKey 300"] R [of "heightKey 400"] show ?thesis by simp
qed

theorem removeAllReceiveBlock_one_witness:
  "\<exists>d'. removeAllReceiveBlock list_store stored_blocks = (Ret (), d') \<and>
     map_of d' = (map_of stored_blocks)(heightKey 300 := None)"
proof -
  have "fst (removeAllReceiveBlock list_store stored_blocks) = Ret ()" by code_simp
  then obtain d' where r: "removeAllReceiveBlock list_store stored_blocks = (Ret (), d')"
    by (metis prod.collapse)
  have "ldb_Keys list_store stored_blocks ReceiveBlockPrefix = [heightKey 300, heightKey 350, heightKey 400]"
    by code_simp
  with r removeAllReceiveBlock_one [OF list_store_laws r] show ?thesis by simp
qed

lemma returned: "(case fst p of Ret _ \<Rightarrow> True | _ \<Rightarrow> False) \<Longrightarrow> \<exists>x y. p = (Ret x, y)"
  by (cases p; cases "fst p") auto

theorem startMonitoring_height_witness:
  "fst (startMonitoring list_store (status_at 300 9) stored_blocks) = Ret 500 \<and>
   (\<exists>height. fst (startMonitoring list_store (status_at 320 9) stored_blocks) = Ret height \<and> height < 350)"
proof -
  have l: "getLastReceiveHeight list_store stored_blocks = Ret 500" by code_simp
  have f: "getFirstHeightForReceiveBlock list_store stored_blocks = 300" by code_simp
  have "case fst (startMonitoring list_store (status_at 300 9) stored_blocks) of Ret _ \<Rightarrow> True | _ \<Rightarrow> False"
    "case fst (startMonitoring list_store (status_at 320 9) stored_blocks) of Ret _ \<Rightarrow> True | _ \<Rightarrow> False" by code_simp+
  then obtain a b x y where a: "startMonitoring list_store (status_at 300 9) stored_blocks = (Ret a, x)"
    and b: "startMonitoring list_store (status_at 320 9) stored_blocks = (Ret b, y)"
    by (auto dest!: returned)
  have s: "map_of stored_blocks (heightKey 350) \<noteq> None" by code_simp
  have "a = 500"
    using startMonitoring_height [OF list_store_laws stored_blocks_uniform _ a l] f by (simp add: status_at_def)
  moreover have "b < 350"
    using startMonitoring_height [OF list_store_laws stored_blocks_uniform _ b l] f s by (auto simp: status_at_def)
  ultimately show ?thesis using a b by simp
qed

end
