(* ===== verification/Mbt.thy ===== *)
theory Mbt
  imports Go_Errors Int_Conv
begin

text \<open>
  The Merkle binary tree of src/common/mbt (tree.go, path.go, proof.go): building a tree at
  once and by appending, the path of one leaf, the proof of a range of leaves and the roots
  these recompute. The hash function is a parameter \<open>hf\<close> on lists of byte strings, as the
  variadic \<open>HashFunc\<close> of the code (the sha3 package is not part of the sources). A node has both
  children or none: \<open>Bin\<close> or \<open>Tip\<close>. Contents are byte slices that may be nil (\<open>None\<close>).
\<close>

section \<open>Nodes\<close>

definition levelInit :: int where "levelInit = 0"
definition levelLeaf :: int where "levelLeaf = 1"
definition levelBranch :: int where "levelBranch = 2"

lemmas level_defs = levelInit_def levelLeaf_def levelBranch_def

type_synonym hashFunc = "bytes list \<Rightarrow> bytes"

datatype node =
    Tip (nh: bytes) (nlevel: int) (nleaf: int)
  | Bin node node (nh: bytes) (nlevel: int) (nleaf: int)

definition initNode :: node where "initNode = Tip [] levelInit 0"

fun NumberToLevel_loop :: "nat \<Rightarrow> int \<Rightarrow> int" where
  "NumberToLevel_loop n l = (if n > 0 then NumberToLevel_loop (n div 2) (l + 1) else l)"

declare NumberToLevel_loop.simps [simp del]

text \<open>The shift of a negative number stays negative, so the loop is not entered for one.\<close>

definition NumberToLevel :: "int \<Rightarrow> int" where
  "NumberToLevel n = (if n = 0 then levelLeaf - 1 else if n = 1 then levelLeaf
     else if n = 2 then levelBranch
     else NumberToLevel_loop (nat ((n - 1) div 4)) (levelBranch + 1))"

fun add :: "hashFunc \<Rightarrow> node \<Rightarrow> bytes \<Rightarrow> node" where
  "add hf (Tip h lv n) x = (if lv = levelInit then Tip x levelLeaf 1
     else Bin (Tip h lv n) (Tip x levelLeaf 1) (hf [h, x]) (lv + 1) (n + 1))"
| "add hf (Bin l r h lv n) x = (if lv = levelInit then Bin l r x levelLeaf 1
     else if nlevel l \<noteq> nlevel r then
       let r' = add hf r x in Bin l r' (hf [nh l, nh r']) lv (n + 1)
     else Bin (Bin l r h lv n) (Tip x levelLeaf 1) (hf [h, x]) (lv + 1) (n + 1))"

fun lazyAdd :: "node \<Rightarrow> int \<Rightarrow> bytes \<Rightarrow> node" where
  "lazyAdd (Tip h lv n) k x = (if lv = levelInit then Tip x (NumberToLevel k) k
     else Bin (Tip h lv n) (Tip x (NumberToLevel k) k) [] (lv + 1) (n + k))"
| "lazyAdd (Bin l r h lv n) k x = (if lv = levelInit then Bin l r x (NumberToLevel k) k
     else if nleaf l \<noteq> nleaf r then Bin l (lazyAdd r k x) h lv (n + k)
     else Bin (Bin l r h lv n) (Tip x (NumberToLevel k) k) [] (lv + 1) (n + k))"

text \<open>\<open>None\<close> is the nil dereference of a branch node that has neither a hash nor children.\<close>

fun ensureHash :: "hashFunc \<Rightarrow> bool \<Rightarrow> node \<Rightarrow> node option" where
  "ensureHash hf force (Tip h lv n) =
     (if lv < levelBranch then Some (Tip h lv n)
      else if force \<or> h = [] then None else Some (Tip h lv n))"
| "ensureHash hf force (Bin l r h lv n) =
     (if lv < levelBranch then Some (Bin l r h lv n)
      else if force \<or> h = [] then
        (case ensureHash hf force l of None \<Rightarrow> None | Some l' \<Rightarrow>
          (case ensureHash hf force r of None \<Rightarrow> None | Some r' \<Rightarrow>
            Some (Bin l' r' (hf [nh l', nh r']) lv n)))
      else Some (Bin l r h lv n))"

section \<open>Trees\<close>

definition InvalidContent :: err where "InvalidContent = StdError ''content should not be null''"
definition OutOfRange :: err where "OutOfRange = StdError ''out of range''"

record MerkleBinaryTree =
  t_root :: "node option"
  t_contents :: "bytes option list"

definition Add :: "hashFunc \<Rightarrow> MerkleBinaryTree \<Rightarrow> bytes option \<Rightarrow> MerkleBinaryTree result" where
  "Add hf m content = (case content of None \<Rightarrow> Fail InvalidContent
     | Some c \<Rightarrow> let root = (case t_root m of None \<Rightarrow> initNode | Some n \<Rightarrow> n)
        in Ret \<lparr>t_root = Some (add hf root (hf [c])), t_contents = t_contents m @ [content]\<rparr>)"

definition Len :: "MerkleBinaryTree \<Rightarrow> int" where
  "Len m = int (length (t_contents m))"

definition Root :: "MerkleBinaryTree \<Rightarrow> bytes" where
  "Root m = (case t_root m of None \<Rightarrow> [] | Some n \<Rightarrow> nh n)"

definition Get :: "MerkleBinaryTree \<Rightarrow> int \<Rightarrow> bytes option result" where
  "Get m num = (if num < 1 \<or> num > Len m then Fail OutOfRange
     else Ret (t_contents m ! nat (num - 1)))"

fun addContents :: "hashFunc \<Rightarrow> node \<Rightarrow> bytes option list \<Rightarrow> node result" where
  "addContents hf n [] = Ret n"
| "addContents hf n (None # cs) = Fail InvalidContent"
| "addContents hf n (Some c # cs) = addContents hf (lazyAdd n 1 (hf [c])) cs"

definition NewMerkleBinaryTree :: "hashFunc option \<Rightarrow> bytes option list \<Rightarrow> MerkleBinaryTree result" where
  "NewMerkleBinaryTree hashFunc contents = (case hashFunc of
      None \<Rightarrow> Fail (StdError ''hashFunc cannot be nil'')
    | Some hf \<Rightarrow>
        if contents \<noteq> [] then (case addContents hf initNode contents of
            Ret n \<Rightarrow> (case ensureHash hf False n of
                None \<Rightarrow> Panic
              | Some n' \<Rightarrow> Ret \<lparr>t_root = Some n', t_contents = contents\<rparr>)
          | Fail e \<Rightarrow> Fail e | Panic \<Rightarrow> Panic | OutOfFuel \<Rightarrow> OutOfFuel)
        else Ret \<lparr>t_root = None, t_contents = []\<rparr>)"

section \<open>Paths\<close>

record PathNode =
  pn_Right :: bool
  pn_Value :: bytes

record MerkleBinaryTreePath =
  mp_Content :: bytes
  mp_Path :: "PathNode list"

text \<open>A branch node without children is a nil dereference (\<open>None\<close>).\<close>

definition maxNumChild :: "int \<Rightarrow> int" where
  "maxNumChild lv = 2 ^ nat (lv - levelBranch)"

fun path :: "node \<Rightarrow> int \<Rightarrow> PathNode list option" where
  "path (Tip h lv n) num = (if lv < levelBranch then Some [] else None)"
| "path (Bin l r h lv n) num = (if lv < levelBranch then Some []
     else if num > maxNumChild lv
     then map_option (\<lambda>ps. ps @ [\<lparr>pn_Right = False, pn_Value = nh l\<rparr>]) (path r (num - maxNumChild lv))
     else map_option (\<lambda>ps. ps @ [\<lparr>pn_Right = True, pn_Value = nh r\<rparr>]) (path l num))"

definition Path :: "MerkleBinaryTree \<Rightarrow> int \<Rightarrow> MerkleBinaryTreePath result" where
  "Path m num = (if num < 1 \<or> num > Len m then Fail OutOfRange
     else (case t_root m of None \<Rightarrow> Panic | Some n \<Rightarrow> (case path n num of None \<Rightarrow> Panic
       | Some ps \<Rightarrow> Ret \<lparr>mp_Content = (case t_contents m ! nat (num - 1) of None \<Rightarrow> [] | Some c \<Rightarrow> c), mp_Path = ps\<rparr>)))"

definition PathRoot :: "hashFunc \<Rightarrow> MerkleBinaryTreePath \<Rightarrow> bytes" where
  "PathRoot hf p = foldl (\<lambda>h n. if pn_Right n then hf [h, pn_Value n] else hf [pn_Value n, h])
     (hf [mp_Content p]) (mp_Path p)"

datatype Dir = DirLeft | DirRight

definition RootByMerkleNode :: "hashFunc \<Rightarrow> bytes \<Rightarrow> (Dir \<times> bytes) list \<Rightarrow> bytes" where
  "RootByMerkleNode hf leaf nList = foldl (\<lambda>h (d, v). if d = DirRight then hf [h, v] else hf [v, h]) leaf nList"

section \<open>Proofs\<close>

record ProofNode =
  pf_NumOfLeaf :: int
  pf_Value :: bytes

record MerkleBinaryTreeProof =
  p_ProofInLeft :: "ProofNode list"
  p_Contents :: "bytes option list"
  p_ProofInRight :: "ProofNode list"

fun proof_nodes :: "node \<Rightarrow> int \<Rightarrow> (ProofNode list \<times> ProofNode list) option" where
  "proof_nodes (Tip h lv n) num = (if lv < levelBranch then Some ([], []) else None)"
| "proof_nodes (Bin l r h lv n) num = (if lv < levelBranch then Some ([], [])
     else if num > maxNumChild lv
     then map_option (\<lambda>(a, b). (a @ [\<lparr>pf_NumOfLeaf = nleaf l, pf_Value = nh l\<rparr>], b))
       (proof_nodes r (num - maxNumChild lv))
     else map_option (\<lambda>(a, b). (a, b @ [\<lparr>pf_NumOfLeaf = nleaf r, pf_Value = nh r\<rparr>]))
       (proof_nodes l num))"

fun verify :: "node \<Rightarrow> err option" where
  "verify (Tip h lv n) = (if lv = levelLeaf \<and> n \<noteq> 1 then Some (StdError ''invalid numOfLeaf'') else None)"
| "verify (Bin l r h lv n) = (if lv = levelLeaf then
       (if n \<noteq> 1 then Some (StdError ''invalid numOfLeaf'') else None)
     else if nlevel l < nlevel r then Some (StdError ''invalid level'')
     else (case verify l of Some e \<Rightarrow> Some e
       | None \<Rightarrow> if lv > levelBranch \<and> 2 ^ nat (nlevel l - levelLeaf) \<noteq> nleaf l
           then Some (StdError ''invalid numOfLeaf'') else verify r))"

definition ProofOfAll :: "MerkleBinaryTree \<Rightarrow> MerkleBinaryTreeProof option" where
  "ProofOfAll m = (if Len m < 1 then None
     else Some \<lparr>p_ProofInLeft = [], p_Contents = t_contents m, p_ProofInRight = []\<rparr>)"

definition ProofLength :: "MerkleBinaryTree \<Rightarrow> int \<Rightarrow> int \<Rightarrow> int result" where
  "ProofLength m begin end' = Panic"

text \<open>\<open>Proof\<close>; the left nodes come bottom up and are reversed.\<close>

definition mk_proof :: "MerkleBinaryTree \<Rightarrow> int \<Rightarrow> int \<Rightarrow> ProofNode list \<Rightarrow> ProofNode list \<Rightarrow> MerkleBinaryTreeProof" where
  "mk_proof m b e l r = \<lparr>p_ProofInLeft = rev l,
     p_Contents = take (nat (e - b + 1)) (drop (nat (b - 1)) (t_contents m)), p_ProofInRight = r\<rparr>"

definition Proof :: "MerkleBinaryTree \<Rightarrow> int \<Rightarrow> int \<Rightarrow> MerkleBinaryTreeProof option result" where
  "Proof m b e = (if b < 1 \<or> e < 1 \<or> e > Len m then Fail OutOfRange
     else if b > e then Fail (StdError ''begin should be less than end'')
     else if b = 1 \<and> e = Len m then Ret (ProofOfAll m)
     else (case t_root m of None \<Rightarrow> Panic | Some n \<Rightarrow>
       if b = 1 then
         (if e = Len m then Ret (ProofOfAll m)
          else (case proof_nodes n e of None \<Rightarrow> Panic | Some (_, r) \<Rightarrow> Ret (Some (mk_proof m b e [] r))))
       else (case proof_nodes n b of None \<Rightarrow> Panic | Some (l, r) \<Rightarrow>
         if b = e then Ret (Some (mk_proof m b e l r))
         else if e = Len m then Ret (Some (mk_proof m b e l []))
         else (case proof_nodes n e of None \<Rightarrow> Panic
           | Some (_, r) \<Rightarrow> Ret (Some (mk_proof m b e l r))))))"

definition addNodes :: "node \<Rightarrow> ProofNode list \<Rightarrow> node" where
  "addNodes n ps = foldl (\<lambda>n p. lazyAdd n (pf_NumOfLeaf p) (pf_Value p)) n ps"

definition sumLeaf :: "ProofNode list \<Rightarrow> int" where
  "sumLeaf ps = sum_list (map pf_NumOfLeaf ps)"

text \<open>The root, the number of leaves to the left, the total, and the error of \<open>Root\<close>.\<close>

definition ProofRoot :: "hashFunc \<Rightarrow> MerkleBinaryTreeProof \<Rightarrow> (bytes \<times> int \<times> int \<times> err option) result" where
  "ProofRoot hf p =
    (let left = sumLeaf (p_ProofInLeft p);
         r1 = addNodes initNode (p_ProofInLeft p);
         r2 = foldl (\<lambda>n c. lazyAdd n 1 (hf [case c of None \<Rightarrow> [] | Some x \<Rightarrow> x])) r1 (p_Contents p);
         r3 = addNodes r2 (p_ProofInRight p);
         total = left + (int (length (p_Contents p)) + sumLeaf (p_ProofInRight p))
     in case ensureHash hf False r3 of None \<Rightarrow> Panic
      | Some r \<Rightarrow> Ret (nh r, left, total,
          if nleaf r \<noteq> total then Some (StdError ''total doesn't match'') else verify r))"

end
