(* ===== verification/Mbt_Props.thy ===== *)
theory Mbt_Props
  imports Mbt
begin

text \<open>
  Correctness of the Merkle binary tree against a reference root: a list of leaf hashes is split
  at the largest power of two below its length. A partial tree, whose tips stand for blocks of
  leaves, represents a list of leaf hashes; adding an aligned block keeps that, and paths and
  range proofs consist of aligned blocks.
\<close>

section \<open>Splitting\<close>

definition msplit :: "nat \<Rightarrow> nat" where
  "msplit n = 2 ^ (nat_bitlen (n - 1) - 1)"

lemma nat_bitlen_eq: "2 ^ a \<le> n \<Longrightarrow> n < 2 ^ (a + 1) \<Longrightarrow> nat_bitlen n = a + 1"
  using nat_bitlen_le [of n "a + 1"] nat_bitlen_le [of n a] by linarith

lemma msplit_eq: "2 ^ a < n \<Longrightarrow> n \<le> 2 ^ (a + 1) \<Longrightarrow> msplit n = 2 ^ a"
  using nat_bitlen_eq [of a "n - 1"] by (simp add: msplit_def)

lemma msplit_exp:
  assumes "2 \<le> n"
  obtains a where "msplit n = 2 ^ a" "2 ^ a < n" "n \<le> 2 ^ (a + 1)"
proof -
  let ?b = "nat_bitlen (n - 1)"
  have b: "0 < ?b" using assms nat_bitlen_le [of "n - 1" 0] by simp
  then obtain a where a: "?b = a + 1" by (metis add.commute gr0_implies_Suc plus_1_eq_Suc)
  have "n - 1 < 2 ^ (a + 1)" "\<not> n - 1 < 2 ^ a"
    using nat_bitlen_le [of "n - 1" "a + 1"] nat_bitlen_le [of "n - 1" a] a by simp_all
  then have "2 ^ a < n" "n \<le> 2 ^ (a + 1)" using assms by simp_all
  with a show thesis by (intro that [of a]) (simp_all add: msplit_def)
qed

lemma msplit_bounds: "2 \<le> n \<Longrightarrow> 0 < msplit n \<and> msplit n < n"
  by (rule msplit_exp [of n]) simp_all

lemma loop_bitlen: "NumberToLevel_loop n l = l + int (nat_bitlen n)"
proof (induction n l rule: NumberToLevel_loop.induct)
  case (1 n l)
  then show ?case
    by (cases "n > 0") (auto simp: NumberToLevel_loop.simps [of n] nat_bitlen.simps [of n]
        NumberToLevel_loop.simps [of 0] nat_bitlen.simps [of 0])
qed

lemma level_eq: "2 ^ a < n \<Longrightarrow> n \<le> 2 ^ (a + 1) \<Longrightarrow> NumberToLevel (int n) = int a + 2"
proof (cases a)
  case 0
  assume "2 ^ a < n" "n \<le> 2 ^ (a + 1)"
  with 0 have "n = 2" by simp
  with 0 show ?thesis by (simp add: NumberToLevel_def level_defs)
next
  case (Suc b)
  assume *: "2 ^ a < n" "n \<le> 2 ^ (a + 1)"
  have "(2 :: nat) \<le> 2 ^ a" using Suc by simp
  with * have n: "2 < n" by linarith
  have "nat ((int n - 1) div 4) = (n - 1) div 4" using n by (simp add: nat_div_distrib)
  moreover have "nat_bitlen ((n - 1) div 4) = b"
  proof (cases b)
    case 0
    with * Suc have "n - 1 < 4" by simp
    then show ?thesis using 0 by (simp add: nat_bitlen.simps)
  next
    case c: (Suc c)
    have "2 ^ c \<le> (n - 1) div 4" "(n - 1) div 4 < 2 ^ (c + 1)"
      using * Suc c by (simp_all add: less_eq_div_iff_mult_less_eq div_less_iff_less_mult)
    then show ?thesis using nat_bitlen_eq c by simp
  qed
  ultimately show ?thesis using n Suc by (simp add: NumberToLevel_def level_defs loop_bitlen)
qed

lemma level_1: "NumberToLevel 1 = 1"
  by (simp add: NumberToLevel_def level_defs)

text \<open>The level of a block of \<open>2 ^ a\<close> leaves.\<close>

lemma level_pow: "NumberToLevel (2 ^ a) = int a + 1"
proof (cases a)
  case (Suc b)
  then show ?thesis using level_eq [of b "2 ^ a"] by simp
qed (simp add: level_1)

section \<open>The reference root\<close>

function mroot :: "hashFunc \<Rightarrow> bytes list \<Rightarrow> bytes" where
  "mroot hf xs = (if length xs < 2 then (case xs of [] \<Rightarrow> [] | x # _ \<Rightarrow> x)
     else hf [mroot hf (take (msplit (length xs)) xs), mroot hf (drop (msplit (length xs)) xs)])"
  by pat_completeness auto
termination
  by (relation "measure (\<lambda>(hf, xs). length xs)") (use msplit_bounds in \<open>force simp: min_def not_less\<close>)+

declare mroot.simps [simp del]

lemma mroot_single [simp]: "mroot hf [x] = x"
  by (simp add: mroot.simps)

lemma mroot_append:
  "length xs = 2 ^ a \<Longrightarrow> ys \<noteq> [] \<Longrightarrow> length ys \<le> 2 ^ a \<Longrightarrow> mroot hf (xs @ ys) = hf [mroot hf xs, mroot hf ys]"
proof -
  assume *: "length xs = 2 ^ a" "ys \<noteq> []" "length ys \<le> 2 ^ a"
  have y: "0 < length ys" "1 \<le> (2 :: nat) ^ a" using *(2) by simp_all
  have l: "length (xs @ ys) = 2 ^ a + length ys" using *(1) by simp
  have m: "msplit (length (xs @ ys)) = 2 ^ a" unfolding l using y *(3) by (intro msplit_eq) auto
  have "\<not> length (xs @ ys) < 2" unfolding l using y by linarith
  note m = m this
  show ?thesis by (subst mroot.simps) (use m * in simp)
qed

section \<open>Partial trees\<close>

text \<open>
  \<open>repr hf t xs\<close>: the partial tree \<open>t\<close> stands for the leaf hashes \<open>xs\<close>, with the shape, the
  levels and the numbers of leaves of the reference tree; a branch has no hash yet.
  \<open>growable t\<close>: the last block is complete, so that further blocks can be added.
\<close>

definition pow2 :: "nat \<Rightarrow> bool" where
  "pow2 n \<longleftrightarrow> (\<exists>a. n = 2 ^ a)"

fun repr :: "hashFunc \<Rightarrow> node \<Rightarrow> bytes list \<Rightarrow> bool" where
  "repr hf (Tip h lv n) xs \<longleftrightarrow> xs \<noteq> [] \<and> h = mroot hf xs \<and> n = int (length xs) \<and> lv = NumberToLevel n"
| "repr hf (Bin l r h lv n) xs \<longleftrightarrow> 2 \<le> length xs \<and> h = [] \<and> n = int (length xs) \<and> lv = NumberToLevel n \<and>
     repr hf l (take (msplit (length xs)) xs) \<and> repr hf r (drop (msplit (length xs)) xs)"

fun growable :: "node \<Rightarrow> bool" where
  "growable (Tip h lv n) \<longleftrightarrow> pow2 (nat n)"
| "growable (Bin l r h lv n) \<longleftrightarrow> growable r"

text \<open>A block of \<open>s\<close> leaves at position \<open>p\<close> is within the largest aligned block there.\<close>

definition aligned :: "nat \<Rightarrow> nat \<Rightarrow> bool" where
  "aligned p s \<longleftrightarrow> 0 < s \<and> (\<exists>v. 2 ^ v dvd p \<and> s \<le> 2 ^ v)"

lemma pow2_exp [simp]: "pow2 (2 ^ a)"
  by (auto simp: pow2_def)

lemma aligned_1 [simp]: "aligned p 1"
  unfolding aligned_def by (auto intro: exI [of _ 0])

lemma aligned_le: "aligned p s \<Longrightarrow> 0 < p \<Longrightarrow> s \<le> p"
  by (auto simp: aligned_def dest: dvd_imp_le)

lemma aligned_part:
  assumes "aligned (2 ^ a + q) s" and "0 < q" and "q < 2 ^ a"
  shows "aligned q s" and "q + s \<le> 2 ^ a"
proof -
  obtain v where v: "2 ^ v dvd 2 ^ a + q" "s \<le> 2 ^ v" "0 < s" using assms(1) by (auto simp: aligned_def)
  have "v \<le> a"
  proof (rule ccontr)
    assume "\<not> v \<le> a"
    then have "2 ^ Suc a \<le> (2 :: nat) ^ v" by (intro power_increasing) auto
    with dvd_imp_le [OF v(1)] assms(3) show False by simp
  qed
  then have d: "2 ^ v dvd (2 :: nat) ^ a" by (rule le_imp_power_dvd)
  with v(1) have dq: "2 ^ v dvd q" by (simp add: dvd_add_right_iff)
  then show "aligned q s" using v by (auto simp: aligned_def)
  from d obtain m where m: "(2 :: nat) ^ a = 2 ^ v * m" by (elim dvdE)
  from dq obtain k where k: "q = 2 ^ v * k" by (elim dvdE)
  from assms(3) have "k < m" unfolding m k by simp
  then have "2 ^ v * (k + 1) \<le> 2 ^ v * m" by (intro mult_le_mono2) simp
  then show "q + s \<le> 2 ^ a" using v(2) unfolding m k by simp
qed

lemma aligned_shift: "aligned q s \<Longrightarrow> q + s \<le> 2 ^ a \<Longrightarrow> aligned (2 ^ a + q) s"
proof -
  assume al: "aligned q s" and le: "q + s \<le> 2 ^ a"
  then obtain v where v: "2 ^ v dvd q" "s \<le> 2 ^ v" "0 < s" by (auto simp: aligned_def)
  show ?thesis
  proof (cases "v \<le> a")
    case True
    then have "2 ^ v dvd (2 :: nat) ^ a" by (rule le_imp_power_dvd)
    with v have "2 ^ v dvd 2 ^ a + q" by (simp add: dvd_add_right_iff)
    with v show ?thesis by (auto simp: aligned_def)
  next
    case False
    then have "(2 :: nat) ^ a < 2 ^ v" by simp
    moreover have "2 ^ v \<le> q" if "0 < q" using that v(1) by (intro dvd_imp_le)
    ultimately have "q = 0" using le v(3) by (metis add_leD1 gr_zeroI leD le_less_trans)
    with le v(3) show ?thesis by (auto simp: aligned_def intro: exI [of _ a])
  qed
qed

lemma repr_length: "repr hf t xs \<Longrightarrow> nleaf t = int (length xs) \<and> nlevel t = NumberToLevel (int (length xs)) \<and> xs \<noteq> []"
  by (cases t) auto

lemma level_branch: "2 \<le> n \<Longrightarrow> 2 \<le> NumberToLevel (int n)"
proof -
  assume "2 \<le> n"
  then obtain a where "2 ^ a < n" "n \<le> 2 ^ (a + 1)" by (rule msplit_exp)
  then show ?thesis by (simp add: level_eq)
qed

lemma level_pos: "0 < n \<Longrightarrow> NumberToLevel (int n) \<noteq> levelInit"
proof (cases "n = 1")
  case False
  assume "0 < n"
  with False show ?thesis using level_branch [of n] by (simp add: levelInit_def)
qed (simp add: level_1 levelInit_def)

lemma repr_Bin:
  assumes "length xs = 2 ^ a" and "ys \<noteq> []" and "length ys \<le> 2 ^ a"
    and "repr hf l xs" and "repr hf r ys" and "lv = int a + 2" and "n = 2 ^ a + int (length ys)"
  shows "repr hf (Bin l r [] lv n) (xs @ ys)"
proof -
  have y: "0 < length ys" "1 \<le> (2 :: nat) ^ a" using assms(2) by simp_all
  have l: "length (xs @ ys) = 2 ^ a + length ys" using assms(1) by simp
  have "msplit (length (xs @ ys)) = 2 ^ a" "NumberToLevel (int (length (xs @ ys))) = int a + 2"
    unfolding l using y assms(3) by (intro msplit_eq level_eq; simp)+
  moreover have "2 \<le> length (xs @ ys)" unfolding l using y by linarith
  ultimately show ?thesis using assms by simp
qed

lemma repr_lazyAdd:
  assumes "repr hf t xs" and "growable t" and "aligned (length xs) (length ys)"
  shows "repr hf (lazyAdd t (int (length ys)) (mroot hf ys)) (xs @ ys)"
  using assms
proof (induction t arbitrary: xs)
  case (Tip h lv n)
  then obtain a where a: "length xs = 2 ^ a" by (auto simp: pow2_def)
  have y: "ys \<noteq> []" "length ys \<le> 2 ^ a" using Tip.prems(3) aligned_le a by (auto simp: aligned_def)
  have lv: "lv = int a + 1" "n = 2 ^ a" using Tip.prems(1) a by (simp_all add: level_pow)
  have "repr hf (Bin (Tip h lv n) (Tip (mroot hf ys) (NumberToLevel (int (length ys))) (int (length ys))) []
      (lv + 1) (n + int (length ys))) (xs @ ys)"
    using a y Tip.prems(1) lv by (intro repr_Bin [of _ a]) auto
  moreover have "lazyAdd (Tip h lv n) k x = Bin (Tip h lv n) (Tip x (NumberToLevel k) k) [] (lv + 1) (n + k)" for k x
    using lv by (simp add: levelInit_def)
  ultimately show ?case by metis
next
  case (Bin l r h lv n)
  then have xs2: "2 \<le> length xs" by simp
  from msplit_exp [OF this] obtain a where a: "msplit (length xs) = 2 ^ a" "2 ^ a < length xs" "length xs \<le> 2 ^ (a + 1)" .
  let ?u = "take (2 ^ a) xs" and ?w = "drop (2 ^ a) xs"
  have xs: "xs = ?u @ ?w" by simp
  have u: "length ?u = 2 ^ a" using a by simp
  have w: "?w \<noteq> []" "length ?w \<le> 2 ^ a" using a by auto
  have lw: "length xs = 2 ^ a + length ?w" using a by simp
  have lr: "repr hf l ?u" "repr hf r ?w" and n: "n = int (length xs)" and h: "h = []" using Bin.prems(1) a(1) by auto
  have lv: "lv = int a + 2" using Bin.prems(1) a(2,3) level_eq by simp
  have nl: "nleaf l = 2 ^ a" "nleaf r = int (length ?w)" using repr_length [OF lr(1)] repr_length [OF lr(2)] u by simp_all
  have y: "ys \<noteq> []" using Bin.prems(3) by (auto simp: aligned_def)
  show ?case
  proof (cases "length ?w = 2 ^ a")
    case True
    then have "length xs = 2 ^ a + 2 ^ a" using lw by linarith
    then have l2: "length xs = 2 ^ (a + 1)" by simp
    have "length ys \<le> 2 ^ (a + 1)" using aligned_le [OF Bin.prems(3)] l2 by simp
    then have "repr hf (Bin (Bin l r h lv n) (Tip (mroot hf ys) (NumberToLevel (int (length ys))) (int (length ys))) []
        (lv + 1) (n + int (length ys))) (xs @ ys)"
      using l2 y lv n by (intro repr_Bin [of _ "a + 1"] Bin.prems(1)) (simp_all del: repr.simps, simp)
    moreover have "lazyAdd (Bin l r h lv n) k x = Bin (Bin l r h lv n) (Tip x (NumberToLevel k) k) [] (lv + 1) (n + k)" for k x
      using lv nl True by (simp add: levelInit_def)
    ultimately show ?thesis by metis
  next
    case False
    with w have w': "0 < length ?w" "length ?w < 2 ^ a" by auto
    have "aligned (2 ^ a + length ?w) (length ys)" using Bin.prems(3) unfolding lw [symmetric] .
    note al = aligned_part [OF this w']
    have "repr hf (lazyAdd r (int (length ys)) (mroot hf ys)) (?w @ ys)"
      using Bin.IH(2) [OF lr(2) _ al(1)] Bin.prems(2) by simp
    note this_r = this
    have nn: "n + int (length ys) = 2 ^ a + int (length (?w @ ys))" unfolding n by (subst lw) simp
    have "repr hf (Bin l (lazyAdd r (int (length ys)) (mroot hf ys)) [] lv (n + int (length ys))) (?u @ ?w @ ys)"
      by (rule repr_Bin [OF u _ _ lr(1) this_r lv nn]) (use y al(2) in simp_all)
    moreover have "int (length ?w) \<noteq> int (2 ^ a)" using w'(2) by (simp only: of_nat_eq_iff)
    then have "nleaf l \<noteq> nleaf r" using nl by simp
    then have "lazyAdd (Bin l r h lv n) k x = Bin l (lazyAdd r k x) h lv (n + k)" for k x
      using lv by (simp add: levelInit_def)
    moreover have "?u @ ?w @ ys = xs @ ys" by simp
    ultimately show ?thesis unfolding h by metis
  qed
qed

lemma growable_lazyAdd: "repr hf t xs \<Longrightarrow> pow2 k \<Longrightarrow> growable (lazyAdd t (int k) x)"
proof (induction t arbitrary: xs)
  case (Tip h lv n)
  then show ?case using level_pos [of "length xs"] by auto
next
  case (Bin l r h lv n)
  have "0 < length xs" using Bin.prems(1) by auto
  from level_pos [OF this] have "lv \<noteq> levelInit" using Bin.prems(1) by auto
  with Bin.IH(2) [of "drop (msplit (length xs)) xs"] Bin.prems show ?case by auto
qed

text \<open>Blocks added one after the other, from position \<open>p\<close> on; all but the last are complete.\<close>

fun blocks_ok :: "nat \<Rightarrow> bytes list list \<Rightarrow> bool" where
  "blocks_ok p [] \<longleftrightarrow> True"
| "blocks_ok p (ys # yss) \<longleftrightarrow> aligned p (length ys) \<and> (yss = [] \<or> pow2 (length ys)) \<and> blocks_ok (p + length ys) yss"

definition addBlocks :: "hashFunc \<Rightarrow> node \<Rightarrow> bytes list list \<Rightarrow> node" where
  "addBlocks hf t yss = foldl (\<lambda>t ys. lazyAdd t (int (length ys)) (mroot hf ys)) t yss"

lemma repr_addBlocks:
  "repr hf t xs \<Longrightarrow> growable t \<Longrightarrow> blocks_ok (length xs) yss \<Longrightarrow> repr hf (addBlocks hf t yss) (xs @ concat yss)"
proof (induction yss arbitrary: t xs)
  case (Cons ys yss)
  let ?t = "lazyAdd t (int (length ys)) (mroot hf ys)"
  have r: "repr hf ?t (xs @ ys)" using Cons.prems by (intro repr_lazyAdd) auto
  show ?case
  proof (cases "yss = []")
    case True
    with r show ?thesis by (simp add: addBlocks_def)
  next
    case False
    then have "growable ?t" using Cons.prems by (intro growable_lazyAdd) auto
    from Cons.IH [OF r this] Cons.prems show ?thesis by (simp add: addBlocks_def)
  qed
qed (simp add: addBlocks_def)

lemma repr_build:
  assumes "yss \<noteq> []" and "blocks_ok 0 yss"
  shows "repr hf (addBlocks hf initNode yss) (concat yss)"
proof -
  obtain ys zss where yss: "yss = ys # zss" using assms(1) by (cases yss) auto
  let ?t = "Tip (mroot hf ys) (NumberToLevel (int (length ys))) (int (length ys))"
  have i: "lazyAdd initNode (int (length ys)) (mroot hf ys) = ?t" by (simp add: initNode_def)
  have r: "repr hf ?t ys" using assms(2) yss by (auto simp: aligned_def)
  show ?thesis
  proof (cases "zss = []")
    case True
    with r i yss show ?thesis by (simp add: addBlocks_def)
  next
    case False
    with assms(2) yss have "growable ?t" "blocks_ok (length ys) zss" by auto
    from repr_addBlocks [OF r this] i yss show ?thesis by (simp add: addBlocks_def)
  qed
qed

text \<open>Single leaves can always be added.\<close>

lemma blocks_ok_leaves: "blocks_ok p (map (\<lambda>x. [x]) xs)"
  by (induction xs arbitrary: p) (auto simp: pow2_def intro: exI [of _ 0] simp flip: One_nat_def)

lemma concat_leaves [simp]: "concat (map (\<lambda>x. [x]) xs) = xs"
  by (induction xs) auto

section \<open>Hashed trees\<close>

fun hashed :: "hashFunc \<Rightarrow> node \<Rightarrow> bytes list \<Rightarrow> bool" where
  "hashed hf (Tip h lv n) xs \<longleftrightarrow> xs \<noteq> [] \<and> h = mroot hf xs \<and> n = int (length xs) \<and> lv = NumberToLevel n"
| "hashed hf (Bin l r h lv n) xs \<longleftrightarrow> 2 \<le> length xs \<and> h = mroot hf xs \<and> n = int (length xs) \<and> lv = NumberToLevel n \<and>
     hashed hf l (take (msplit (length xs)) xs) \<and> hashed hf r (drop (msplit (length xs)) xs)"

fun singles :: "node \<Rightarrow> bool" where
  "singles (Tip h lv n) \<longleftrightarrow> n = 1"
| "singles (Bin l r h lv n) \<longleftrightarrow> singles l \<and> singles r"

lemma hashedD: "hashed hf t xs \<Longrightarrow> nh t = mroot hf xs \<and> nleaf t = int (length xs) \<and>
    nlevel t = NumberToLevel (int (length xs)) \<and> xs \<noteq> []"
  by (cases t) auto

text \<open>The parts of a hashed branch, with the exponent of the split.\<close>

lemma hashed_BinE:
  assumes "hashed hf (Bin l r h lv n) xs"
  obtains a where "length (take (2 ^ a) xs) = 2 ^ a" "drop (2 ^ a) xs \<noteq> []" "length (drop (2 ^ a) xs) \<le> 2 ^ a"
    "hashed hf l (take (2 ^ a) xs)" "hashed hf r (drop (2 ^ a) xs)" "lv = int a + 2" "n = int (length xs)"
    "2 ^ a < length xs" "h = hf [mroot hf (take (2 ^ a) xs), mroot hf (drop (2 ^ a) xs)]"
proof -
  from assms have x: "2 \<le> length xs" by simp
  from msplit_exp [OF x] obtain a where a: "msplit (length xs) = 2 ^ a" "2 ^ a < length xs" "length xs \<le> 2 ^ (a + 1)" .
  have "lv = int a + 2" using assms level_eq [OF a(2,3)] by simp
  moreover have "mroot hf xs = hf [mroot hf (take (2 ^ a) xs), mroot hf (drop (2 ^ a) xs)]"
    using x a by (simp add: mroot.simps [of hf xs])
  ultimately show thesis using assms a by (intro that [of a]) auto
qed

lemma ensureHash_hashed:
  assumes "repr hf t xs" and "singles t \<or> (\<forall>l. hf l \<noteq> [])"
  obtains t' where "ensureHash hf False t = Some t'" "hashed hf t' xs" "singles t \<Longrightarrow> singles t'"
proof -
  have "\<exists>t'. ensureHash hf False t = Some t' \<and> hashed hf t' xs \<and> (singles t \<longrightarrow> singles t')"
    using assms
  proof (induction t arbitrary: xs)
    case (Tip h lv n)
    show ?case
    proof (cases "length xs = 1")
      case True
      with Tip show ?thesis by (simp add: level_1 level_defs)
    next
      case False
      with Tip have x: "2 \<le> length xs" by (cases xs) (auto simp: neq_Nil_conv)
      then have "mroot hf xs \<noteq> []" using Tip by (simp add: mroot.simps [of hf xs])
      with Tip show ?thesis by simp
    qed
  next
    case (Bin l r h lv n)
    have x: "2 \<le> length xs" and h: "h = []" using Bin.prems(1) by simp_all
    have "\<not> lv < levelBranch" using Bin.prems(1) level_branch [OF x] by (simp add: level_defs)
    moreover from Bin.IH(1) [of "take (msplit (length xs)) xs"] Bin.prems obtain l' where
      "ensureHash hf False l = Some l'" "hashed hf l' (take (msplit (length xs)) xs)" "singles l \<longrightarrow> singles l'" by auto
    moreover from Bin.IH(2) [of "drop (msplit (length xs)) xs"] Bin.prems obtain r' where
      "ensureHash hf False r = Some r'" "hashed hf r' (drop (msplit (length xs)) xs)" "singles r \<longrightarrow> singles r'" by auto
    ultimately show ?case using Bin.prems(1) h x
      by (auto simp: hashedD mroot.simps [of hf xs] dest!: hashedD)
  qed
  then show thesis using that by blast
qed

lemma singles_lazyAdd: "singles t \<or> t = initNode \<Longrightarrow> singles (lazyAdd t 1 x)"
  by (induction t) (auto simp: initNode_def)

lemma hashed_verify: "hashed hf t xs \<Longrightarrow> verify t = None"
proof (induction t arbitrary: xs)
  case (Tip h lv n)
  show ?case
  proof (cases "length xs = 1")
    case False
    with Tip have "2 \<le> length xs" by (cases xs) (auto simp: neq_Nil_conv)
    then have "lv \<noteq> levelLeaf" using Tip level_branch [of "length xs"] by (simp add: level_defs)
    then show ?thesis by simp
  qed (use Tip in \<open>simp add: level_1 level_defs\<close>)
next
  case (Bin l r h lv n)
  from Bin.prems show ?case
  proof (rule hashed_BinE)
    fix a assume *: "length (take (2 ^ a) xs) = 2 ^ a" "drop (2 ^ a) xs \<noteq> []" "length (drop (2 ^ a) xs) \<le> 2 ^ a"
      "hashed hf l (take (2 ^ a) xs)" "hashed hf r (drop (2 ^ a) xs)" "lv = int a + 2"
    have l: "nlevel l = int a + 1" "nleaf l = 2 ^ a" using hashedD [OF *(4)] *(1) level_pow [of a] by simp_all
    have "nlevel r \<le> int a + 1"
    proof (cases "length (drop (2 ^ a) xs) = 1")
      case True
      then show ?thesis using hashedD [OF *(5)] level_1 by simp
    next
      case False
      with *(2) have "2 \<le> length (drop (2 ^ a) xs)" by (cases "drop (2 ^ a) xs") (auto simp: neq_Nil_conv)
      then show ?thesis
      proof (rule msplit_exp)
        fix b assume b: "2 ^ b < length (drop (2 ^ a) xs)" "length (drop (2 ^ a) xs) \<le> 2 ^ (b + 1)"
        then have "(2 :: nat) ^ b < 2 ^ a" using *(3) by linarith
        then have "b < a" by simp
        then show ?thesis using hashedD [OF *(5)] level_eq [OF b] by simp
      qed
    qed
    with l * Bin.IH(1) [OF *(4)] Bin.IH(2) [OF *(5)] show ?thesis by (simp add: level_defs)
  qed
qed

section \<open>Paths and proofs\<close>

lemma maxNumChild_level [simp]: "maxNumChild (int a + 2) = 2 ^ a"
  by (simp add: maxNumChild_def levelBranch_def)

lemma hashed_path:
  assumes "hashed hf t xs" and "singles t" and "1 \<le> k" and "k \<le> length xs"
  shows "\<exists>ps. path t (int k) = Some ps \<and>
    foldl (\<lambda>h n. if pn_Right n then hf [h, pn_Value n] else hf [pn_Value n, h]) (xs ! (k - 1)) ps = mroot hf xs"
  using assms
proof (induction t arbitrary: xs k)
  case (Tip h lv n)
  then obtain x where "xs = [x]" by (cases xs) auto
  with Tip show ?case by (simp add: level_1 level_defs)
next
  case (Bin l r h lv n)
  from Bin.prems(1) show ?case
  proof (rule hashed_BinE)
    fix a assume *: "length (take (2 ^ a) xs) = 2 ^ a" "hashed hf l (take (2 ^ a) xs)" "hashed hf r (drop (2 ^ a) xs)"
      "lv = int a + 2" "2 ^ a < length xs" "h = hf [mroot hf (take (2 ^ a) xs), mroot hf (drop (2 ^ a) xs)]"
    have h: "mroot hf xs = hf [nh l, nh r]" using *(6) Bin.prems(1) hashedD [OF *(2)] hashedD [OF *(3)] by simp
    have c: "int k > 2 ^ a \<longleftrightarrow> 2 ^ a < k" by (metis of_nat_less_iff of_nat_numeral of_nat_power)
    show ?case
    proof (cases "2 ^ a < k")
      case True
      then have k: "int k - 2 ^ a = int (k - 2 ^ a)" by simp
      have "xs ! (k - 1) = drop (2 ^ a) xs ! (k - 2 ^ a - 1)" using True *(5) by simp
      moreover have "1 \<le> k - 2 ^ a" "k - 2 ^ a \<le> length (drop (2 ^ a) xs)" using True Bin.prems(4) by auto
      from Bin.IH(2) [OF *(3) _ this] Bin.prems(2) obtain ps where
        "path r (int k - 2 ^ a) = Some ps" "foldl (\<lambda>h n. if pn_Right n then hf [h, pn_Value n] else hf [pn_Value n, h])
          (drop (2 ^ a) xs ! (k - 2 ^ a - 1)) ps = mroot hf (drop (2 ^ a) xs)" unfolding k by auto
      ultimately show ?thesis using True c *(4) h hashedD [OF *(3)] by (simp add: levelBranch_def)
    next
      case False
      have "xs ! (k - 1) = take (2 ^ a) xs ! (k - 1)" using False Bin.prems(3) by simp
      moreover have "k \<le> length (take (2 ^ a) xs)" using False *(1) by simp
      from Bin.IH(1) [OF *(2) _ Bin.prems(3) this] Bin.prems(2) obtain ps where
        "path l (int k) = Some ps" "foldl (\<lambda>h n. if pn_Right n then hf [h, pn_Value n] else hf [pn_Value n, h])
          (take (2 ^ a) xs ! (k - 1)) ps = mroot hf (take (2 ^ a) xs)" by auto
      ultimately show ?thesis using False c *(4) h hashedD [OF *(2)] by (simp add: levelBranch_def)
    qed
  qed
qed

definition blk :: "hashFunc \<Rightarrow> bytes list \<Rightarrow> ProofNode" where
  "blk hf ys = \<lparr>pf_NumOfLeaf = int (length ys), pf_Value = mroot hf ys\<rparr>"

lemma blocks_ok_append:
  "\<forall>ys\<in>set A. pow2 (length ys) \<Longrightarrow>
   blocks_ok p (A @ B) \<longleftrightarrow> blocks_ok p A \<and> blocks_ok (p + length (concat A)) B"
  by (induction A arbitrary: p) (auto simp: add.assoc)

lemma blocks_ok_shift: "blocks_ok q Z \<Longrightarrow> q + length (concat Z) \<le> 2 ^ a \<Longrightarrow> blocks_ok (2 ^ a + q) Z"
proof (induction Z arbitrary: q)
  case (Cons z Z)
  then show ?case using aligned_shift [of q "length z" a] Cons.IH [of "q + length z"] by (auto simp: add.assoc)
qed simp

lemma pow2_between: "pow2 n \<Longrightarrow> 2 ^ a < n \<Longrightarrow> n \<le> 2 ^ (a + 1) \<Longrightarrow> n = 2 ^ (a + 1)"
proof -
  assume "pow2 n" "2 ^ a < n" "n \<le> 2 ^ (a + 1)"
  then obtain b where "n = 2 ^ b" "(2 :: nat) ^ a < 2 ^ b" "(2 :: nat) ^ b \<le> 2 ^ (a + 1)" by (auto simp: pow2_def)
  then have "a < b" "b \<le> a + 1"
    using power_strict_increasing_iff [of "2 :: nat" a b] power_increasing_iff [of "2 :: nat" b "a + 1"] by simp_all
  with \<open>n = 2 ^ b\<close> show ?thesis by (cases "b = a + 1") auto
qed

text \<open>The nodes a proof lists for leaf \<open>k\<close>: blocks that cover what is left of it and right of it.\<close>

definition covers :: "hashFunc \<Rightarrow> node \<Rightarrow> bytes list \<Rightarrow> nat \<Rightarrow> bytes list list \<Rightarrow> bytes list list \<Rightarrow> bool" where
  "covers hf t xs k L R \<longleftrightarrow> proof_nodes t (int k) = Some (map (blk hf) (rev L), map (blk hf) R) \<and>
     concat L = take (k - 1) xs \<and> concat R = drop k xs \<and> blocks_ok 0 L \<and> (\<forall>ys\<in>set L. pow2 (length ys)) \<and>
     blocks_ok k R \<and> (pow2 (length xs) \<longrightarrow> (\<forall>ys\<in>set R. pow2 (length ys)))"

lemma blk_node: "hashed hf t xs \<Longrightarrow> \<lparr>pf_NumOfLeaf = nleaf t, pf_Value = nh t\<rparr> = blk hf xs"
  by (simp add: blk_def hashedD)

lemma covers_right:
  assumes "covers hf r w (k - 2 ^ a) L R" and "length u = 2 ^ a" and "length w \<le> 2 ^ a" and "2 ^ a < k"
    and "k \<le> 2 ^ a + length w" and "hashed hf l u" and "lv = int a + 2"
  shows "covers hf (Bin l r h lv n) (u @ w) k (u # L) R"
proof -
  note c = assms(1) [unfolded covers_def]
  have k: "int k - 2 ^ a = int (k - 2 ^ a)" "2 ^ a < int k" using assms(4) by simp_all
  have "proof_nodes r (int k - 2 ^ a) = Some (map (blk hf) (rev L), map (blk hf) R)" unfolding k using c by simp
  then have "proof_nodes (Bin l r h lv n) (int k) = Some (map (blk hf) (rev (u # L)), map (blk hf) R)"
    using k(2) assms(7) blk_node [OF assms(6)] by (simp add: levelBranch_def)
  moreover have "concat (u # L) = take (k - 1) (u @ w)" using c assms(2,4) by simp
  moreover have "blocks_ok 0 (u # L)"
  proof -
    have "length (concat L) \<le> 2 ^ a" using c assms(3) by simp
    then have "blocks_ok (2 ^ a + 0) L" using c by (intro blocks_ok_shift) auto
    moreover have "aligned 0 (2 ^ a)" by (auto simp: aligned_def)
    ultimately show ?thesis using assms(2) by simp
  qed
  moreover have "blocks_ok k R"
  proof -
    have "length (concat R) = length w - (k - 2 ^ a)" using c by simp
    then have "k - 2 ^ a + length (concat R) \<le> 2 ^ a" using assms(3-5) by simp
    then have "blocks_ok (2 ^ a + (k - 2 ^ a)) R" using c by (intro blocks_ok_shift) auto
    then show ?thesis using assms(4) by simp
  qed
  moreover have "pow2 (length w)" if "pow2 (length (u @ w))"
  proof -
    have "length (u @ w) = 2 ^ (a + 1)" using that assms(2-5) by (intro pow2_between) auto
    then show ?thesis using assms(2) by simp
  qed
  ultimately show ?thesis using c assms(2,4) by (simp add: covers_def)
qed

lemma covers_left:
  assumes "covers hf l u k L R" and "length u = 2 ^ a" and "w \<noteq> []" and "length w \<le> 2 ^ a" and "1 \<le> k" and "k \<le> 2 ^ a"
    and "hashed hf r w" and "lv = int a + 2"
  shows "covers hf (Bin l r h lv n) (u @ w) k L (R @ [w])"
proof -
  note c = assms(1) [unfolded covers_def]
  have p: "\<forall>ys\<in>set R. pow2 (length ys)" using c assms(2) by simp
  have k: "\<not> 2 ^ a < int k" using assms(6) by (metis not_less of_nat_le_iff of_nat_numeral of_nat_power)
  have "proof_nodes (Bin l r h lv n) (int k) = Some (map (blk hf) (rev L), map (blk hf) (R @ [w]))"
    using k c assms(8) blk_node [OF assms(7)] by (simp add: levelBranch_def)
  moreover have "blocks_ok k (R @ [w])"
  proof -
    have "k + length (concat R) = 2 ^ a" using c assms(2,6) by simp
    moreover have "aligned (2 ^ a) (length w)" using assms(3,4) by (auto simp: aligned_def intro: exI [of _ a])
    ultimately show ?thesis using c p by (simp add: blocks_ok_append)
  qed
  moreover have "pow2 (length w)" if "pow2 (length (u @ w))"
  proof -
    have "length (u @ w) = 2 ^ (a + 1)" using that assms(2-4) by (intro pow2_between) auto
    then show ?thesis using assms(2) by simp
  qed
  ultimately show ?thesis using c p assms(2,5,6) by (simp add: covers_def)
qed

lemma hashed_covers:
  assumes "hashed hf t xs" and "singles t" and "1 \<le> k" and "k \<le> length xs"
  shows "\<exists>L R. covers hf t xs k L R"
  using assms
proof (induction t arbitrary: xs k)
  case (Tip h lv n)
  then obtain x where "xs = [x]" by (cases xs) auto
  with Tip have "covers hf (Tip h lv n) xs k [] []" by (simp add: covers_def level_1 level_defs)
  then show ?case by blast
next
  case (Bin l r h lv n)
  from Bin.prems(1) show ?case
  proof (rule hashed_BinE)
    fix a assume *: "length (take (2 ^ a) xs) = 2 ^ a" "drop (2 ^ a) xs \<noteq> []" "length (drop (2 ^ a) xs) \<le> 2 ^ a"
      "hashed hf l (take (2 ^ a) xs)" "hashed hf r (drop (2 ^ a) xs)" "lv = int a + 2" "2 ^ a < length xs"
    show ?case
    proof (cases "2 ^ a < k")
      case True
      then have "1 \<le> k - 2 ^ a" "k - 2 ^ a \<le> length (drop (2 ^ a) xs)" using Bin.prems(4) by auto
      from Bin.IH(2) [OF *(5) _ this] Bin.prems(2) obtain L R where
        "covers hf r (drop (2 ^ a) xs) (k - 2 ^ a) L R" by auto
      from covers_right [OF this *(1,3) True _ *(4,6)] Bin.prems(4) *(7) show ?thesis by fastforce
    next
      case False
      with Bin.IH(1) [OF *(4), of k] Bin.prems *(1) obtain L R where
        "covers hf l (take (2 ^ a) xs) k L R" by auto
      from covers_left [OF this *(1,2,3) Bin.prems(3) _ *(5,6)] False show ?thesis by fastforce
    qed
  qed
qed

section \<open>Building a tree\<close>

definition leaves :: "hashFunc \<Rightarrow> bytes option list \<Rightarrow> bytes list" where
  "leaves hf cs = map (\<lambda>c. hf [case c of None \<Rightarrow> [] | Some x \<Rightarrow> x]) cs"

lemma addContents_blocks:
  "None \<notin> set cs \<Longrightarrow> addContents hf n cs = Ret (addBlocks hf n (map (\<lambda>x. [x]) (leaves hf cs)))"
  by (induction hf n cs rule: addContents.induct) (auto simp: addBlocks_def leaves_def)

lemma singles_addContents:
  "singles n \<or> n = initNode \<Longrightarrow> addContents hf n cs = Ret t \<Longrightarrow> cs \<noteq> [] \<Longrightarrow> singles t"
proof (induction hf n cs rule: addContents.induct)
  case (3 hf n c cs)
  then show ?case using singles_lazyAdd [of n] by (cases "cs = []") auto
qed auto

lemma NewMerkleBinaryTree_spec:
  assumes "None \<notin> set cs" and "cs \<noteq> []"
  obtains t where "NewMerkleBinaryTree (Some hf) cs = Ret \<lparr>t_root = Some t, t_contents = cs\<rparr>"
    "hashed hf t (leaves hf cs)" "singles t"
proof -
  let ?t = "addBlocks hf initNode (map (\<lambda>x. [x]) (leaves hf cs))"
  have a: "addContents hf initNode cs = Ret ?t" by (rule addContents_blocks [OF assms(1)])
  have "repr hf ?t (concat (map (\<lambda>x. [x]) (leaves hf cs)))"
    using assms(2) by (intro repr_build blocks_ok_leaves) (auto simp: leaves_def)
  then have r: "repr hf ?t (leaves hf cs)" by simp
  moreover have s: "singles ?t" using singles_addContents [OF _ a assms(2)] by simp
  ultimately obtain t' where "ensureHash hf False ?t = Some t'" "hashed hf t' (leaves hf cs)" "singles t'"
    by (metis ensureHash_hashed)
  with a assms(2) show thesis by (intro that [of t']) (simp_all add: NewMerkleBinaryTree_def)
qed

lemma NewMerkleBinaryTree_ret:
  assumes "NewMerkleBinaryTree (Some hf) cs = Ret m"
  shows "None \<notin> set cs" and "t_contents m = cs"
proof -
  have *: "None \<in> set cs \<Longrightarrow> addContents hf n cs = Fail InvalidContent" for n
    by (induction hf n cs rule: addContents.induct) auto
  show "None \<notin> set cs"
    using * [of initNode] assms by (cases "cs = []") (auto simp: NewMerkleBinaryTree_def)
  show "t_contents m = cs"
    using assms by (auto simp: NewMerkleBinaryTree_def split: if_splits outcome.splits option.splits)
qed

section \<open>Properties\<close>

text \<open>
  C22: \<open>NewMerkleBinaryTree\<close> fails exactly on a nil content, and otherwise its root is the reference
  root of the hashed contents: the list split at the largest power of two below its length,
  recursively. The empty list gives the tree without a root.
\<close>

theorem NewMerkleBinaryTree_root:
  "(if None \<in> set cs then NewMerkleBinaryTree (Some hf) cs = Fail InvalidContent
    else \<exists>m. NewMerkleBinaryTree (Some hf) cs = Ret m \<and> Root m = mroot hf (leaves hf cs) \<and>
      Len m = int (length cs))"
proof (cases "None \<in> set cs")
  case True
  moreover have "None \<in> set cs \<Longrightarrow> addContents hf n cs = Fail InvalidContent" for n
    by (induction hf n cs rule: addContents.induct) auto
  ultimately show ?thesis by (auto simp: NewMerkleBinaryTree_def)
next
  case F: False
  show ?thesis
  proof (cases "cs = []")
    case False
    with F obtain t where "NewMerkleBinaryTree (Some hf) cs = Ret \<lparr>t_root = Some t, t_contents = cs\<rparr>"
      "hashed hf t (leaves hf cs)" by (metis NewMerkleBinaryTree_spec)
    with F show ?thesis by (auto simp: Root_def Len_def dest: hashedD)
  qed (simp add: NewMerkleBinaryTree_def Root_def Len_def leaves_def mroot.simps)
qed

text \<open>
  For every leaf of a tree, \<open>Path\<close> returns a path whose recomputed root is the root of the
  tree; for every other number it returns an out-of-range error.
\<close>

theorem Path_root:
  assumes "NewMerkleBinaryTree (Some hf) cs = Ret m"
  shows "if 1 \<le> num \<and> num \<le> Len m then \<exists>p. Path m num = Ret p \<and> PathRoot hf p = Root m
     else Path m num = Fail OutOfRange"
proof (cases "1 \<le> num \<and> num \<le> Len m")
  case True
  note c = NewMerkleBinaryTree_ret [OF assms]
  then have "cs \<noteq> []" using True by (auto simp: Len_def)
  with c assms obtain t where t: "m = \<lparr>t_root = Some t, t_contents = cs\<rparr>" "hashed hf t (leaves hf cs)" "singles t"
    by (metis NewMerkleBinaryTree_spec outcome.inject(1))
  obtain k where k: "num = int k" "1 \<le> k" "k \<le> length cs" using True c(2) by (intro that [of "nat num"]) (auto simp: Len_def)
  from hashed_path [OF t(2,3) k(2)] k(3) obtain ps where ps: "path t num = Some ps"
    "foldl (\<lambda>h n. if pn_Right n then hf [h, pn_Value n] else hf [pn_Value n, h]) (leaves hf cs ! (k - 1)) ps = mroot hf (leaves hf cs)"
    by (auto simp: k(1) leaves_def)
  have "leaves hf cs ! (k - 1) = hf [case cs ! (k - 1) of None \<Rightarrow> [] | Some x \<Rightarrow> x]" using k by (simp add: leaves_def)
  moreover have "nat (num - 1) = k - 1" using k by simp
  ultimately show ?thesis
    using True ps t hashedD [OF t(2)] by (auto simp: Path_def PathRoot_def Root_def)
qed (auto simp: Path_def)

lemma addNodes_blk: "addNodes n (map (blk hf) L) = addBlocks hf n L"
  by (induction L arbitrary: n) (simp_all add: addNodes_def addBlocks_def blk_def)

lemma sumLeaf_blk: "sumLeaf (map (blk hf) L) = int (length (concat L))"
  by (induction L) (simp_all add: sumLeaf_def blk_def)

lemma addLeaves_blocks:
  "foldl (\<lambda>n c. lazyAdd n 1 (hf [case c of None \<Rightarrow> [] | Some x \<Rightarrow> x])) n cs =
   addBlocks hf n (map (\<lambda>x. [x]) (leaves hf cs))"
  by (induction cs arbitrary: n) (simp_all add: addBlocks_def leaves_def)

lemma addBlocks_append: "addBlocks hf (addBlocks hf n L) R = addBlocks hf n (L @ R)"
  by (simp add: addBlocks_def)

lemma ProofRoot_blocks:
  assumes "p_ProofInLeft p = map (blk hf) L" and "p_ProofInRight p = map (blk hf) R" and "p_Contents p \<noteq> []"
    and "blocks_ok 0 L" and "\<forall>ys\<in>set L. pow2 (length ys)"
    and "blocks_ok (length (concat L) + length (p_Contents p)) R"
    and "concat L @ leaves hf (p_Contents p) @ concat R = xs" and "\<forall>l. hf l \<noteq> []"
  shows "ProofRoot hf p = Ret (mroot hf xs, int (length (concat L)), int (length xs), None)"
proof -
  let ?C = "map (\<lambda>x. [x]) (leaves hf (p_Contents p))"
  let ?t = "addBlocks hf initNode (L @ ?C @ R)"
  have len: "length (leaves hf (p_Contents p)) = length (p_Contents p)" by (simp add: leaves_def)
  have c: "\<forall>ys\<in>set ?C. pow2 (length ys)" by (auto simp: pow2_def intro: exI [of _ 0])
  have "blocks_ok 0 (L @ ?C @ R)"
    using assms(4-6) c blocks_ok_leaves by (simp add: blocks_ok_append len)
  then have "repr hf ?t (concat (L @ ?C @ R))" using assms(3) len by (intro repr_build) auto
  then have "repr hf ?t xs" using assms(7) by simp
  then obtain t where t: "ensureHash hf False ?t = Some t" "hashed hf t xs"
    using assms(8) by (metis ensureHash_hashed)
  have "int (length (concat L)) + (int (length (p_Contents p)) + int (length (concat R))) = int (length xs)"
    using arg_cong [OF assms(7), of length] len by simp
  then show ?thesis
    using t hashedD [OF t(2)] hashed_verify [OF t(2)]
    unfolding ProofRoot_def assms(1,2) addNodes_blk addLeaves_blocks addBlocks_append sumLeaf_blk Let_def by simp
qed

lemma Proof_cases:
  assumes "hashed hf t (leaves hf cs)" and "singles t" and "1 \<le> b" and "b \<le> e" and "e \<le> length cs"
  shows "\<exists>p L R. Proof \<lparr>t_root = Some t, t_contents = cs\<rparr> (int b) (int e) = Ret (Some p) \<and>
    p_ProofInLeft p = map (blk hf) L \<and> p_ProofInRight p = map (blk hf) R \<and>
    p_Contents p = take (e - b + 1) (drop (b - 1) cs) \<and> concat L = take (b - 1) (leaves hf cs) \<and>
    concat R = drop e (leaves hf cs) \<and> blocks_ok 0 L \<and> (\<forall>ys\<in>set L. pow2 (length ys)) \<and> blocks_ok e R"
proof -
  let ?m = "\<lparr>t_root = Some t, t_contents = cs\<rparr>"
  have l: "length (leaves hf cs) = length cs" by (simp add: leaves_def)
  obtain Lb Rb where b: "covers hf t (leaves hf cs) b Lb Rb"
    using hashed_covers [OF assms(1-3)] assms(4,5) l by auto
  obtain Le Re where e: "covers hf t (leaves hf cs) e Le Re"
    using hashed_covers [OF assms(1,2), of e] assms(3-5) l by auto
  have n: "nat (int e - int b + 1) = e - b + 1" "nat (int b - 1) = b - 1" using assms(3,4) by auto
  consider "b = 1 \<and> e = length cs" | "b = 1 \<and> e \<noteq> length cs" | "b \<noteq> 1 \<and> b = e"
    | "b \<noteq> 1 \<and> b \<noteq> e \<and> e = length cs" | "b \<noteq> 1 \<and> b \<noteq> e \<and> e \<noteq> length cs" by blast
  then show ?thesis
  proof cases
    case 1
    then show ?thesis
      by (intro exI [of _ "\<lparr>p_ProofInLeft = [], p_Contents = cs, p_ProofInRight = []\<rparr>"] exI [of _ "[]"])
        (use assms l in \<open>auto simp: Proof_def Len_def ProofOfAll_def\<close>)
  next
    case 2
    then show ?thesis
      by (intro exI [of _ "mk_proof ?m 1 (int e) [] (map (blk hf) Re)"] exI [of _ "[]"] exI [of _ Re])
        (use assms e n in \<open>auto simp: Proof_def Len_def covers_def mk_proof_def\<close>)
  next
    case 3
    then show ?thesis
      by (intro exI [of _ "mk_proof ?m (int b) (int e) (map (blk hf) (rev Lb)) (map (blk hf) Rb)"] exI [of _ Lb] exI [of _ Rb])
        (use assms b n in \<open>auto simp: Proof_def Len_def covers_def mk_proof_def rev_map\<close>)
  next
    case 4
    then show ?thesis
      by (intro exI [of _ "mk_proof ?m (int b) (int e) (map (blk hf) (rev Lb)) []"] exI [of _ Lb] exI [of _ "[]"])
        (use assms b n l in \<open>auto simp: Proof_def Len_def covers_def mk_proof_def rev_map\<close>)
  next
    case 5
    then show ?thesis
      by (intro exI [of _ "mk_proof ?m (int b) (int e) (map (blk hf) (rev Lb)) (map (blk hf) Re)"] exI [of _ Lb] exI [of _ Re])
        (use assms b e n in \<open>auto simp: Proof_def Len_def covers_def mk_proof_def rev_map\<close>)
  qed
qed

lemma Proof_verifies:
  assumes "NewMerkleBinaryTree (Some hf) cs = Ret m" and "\<forall>l. hf l \<noteq> []"
    and "1 \<le> b" and "b \<le> e" and "e \<le> Len m"
  shows "\<exists>p. Proof m b e = Ret (Some p) \<and> ProofRoot hf p = Ret (Root m, b - 1, Len m, None)"
proof -
  note c = NewMerkleBinaryTree_ret [OF assms(1)]
  have "cs \<noteq> []" using assms(3-5) c(2) by (auto simp: Len_def)
  with c assms(1) obtain t where t: "m = \<lparr>t_root = Some t, t_contents = cs\<rparr>" "hashed hf t (leaves hf cs)" "singles t"
    by (metis NewMerkleBinaryTree_spec outcome.inject(1))
  obtain i j where ij: "b = int i" "e = int j" "1 \<le> i" "i \<le> j" "j \<le> length cs"
    using assms(3-5) c(2) by (intro that [of "nat b" "nat e"]) (auto simp: Len_def)
  from Proof_cases [OF t(2,3) ij(3-5)] obtain p L R where p: "Proof m b e = Ret (Some p)"
    "p_ProofInLeft p = map (blk hf) L" "p_ProofInRight p = map (blk hf) R"
    "p_Contents p = take (j - i + 1) (drop (i - 1) cs)" "concat L = take (i - 1) (leaves hf cs)"
    "concat R = drop j (leaves hf cs)" "blocks_ok 0 L" "\<forall>ys\<in>set L. pow2 (length ys)" "blocks_ok j R"
    by (auto simp: t(1) ij(1,2))
  have len: "length (concat L) = i - 1" "length (p_Contents p) = j - i + 1" using p(4,5) ij by (simp_all add: leaves_def)
  have "take (i - 1) xs @ take (j - i + 1) (drop (i - 1) xs) @ drop j xs = xs" for xs :: "bytes list"
  proof -
    have "drop j xs = drop (j - i + 1) (drop (i - 1) xs)" using ij by simp
    then show ?thesis by (simp only: append_take_drop_id)
  qed
  moreover have "leaves hf (p_Contents p) = take (j - i + 1) (drop (i - 1) (leaves hf cs))"
    by (simp add: p(4) leaves_def take_map drop_map)
  ultimately have "concat L @ leaves hf (p_Contents p) @ concat R = leaves hf cs" unfolding p(5,6) by metis
  moreover have "length (concat L) + length (p_Contents p) = j" using len ij by simp
  ultimately have "ProofRoot hf p = Ret (mroot hf (leaves hf cs), int (length (concat L)), int (length (leaves hf cs)), None)"
    using p(2,3,7-9) assms(2) len(2) by (intro ProofRoot_blocks) auto
  then show ?thesis using p(1) len(1) ij t(1) hashedD [OF t(2)] by (auto simp: Root_def Len_def leaves_def)
qed

text \<open>
  C18: for every range of leaves \<open>b..e\<close> of a tree, \<open>Proof\<close> returns a proof from which \<open>Root\<close>
  recomputes the root of the tree, the number of leaves before the range and the number of all
  leaves, and accepts its own verification, provided the hash function never returns the empty
  string.
\<close>

theorem Proof_root:
  assumes "NewMerkleBinaryTree (Some hf) cs = Ret m" and "\<forall>l. hf l \<noteq> []"
    and "1 \<le> b" and "b \<le> e" and "e \<le> Len m"
  shows "\<exists>p. Proof m b e = Ret (Some p) \<and> ProofRoot hf p = Ret (Root m, b - 1, Len m, None)"
  by (rule Proof_verifies [OF assms])

text \<open>A small hash function for the witnesses: it is not collision free, but never empty.\<close>

definition toy_hash :: hashFunc where
  "toy_hash l = [sum_list (map sum_list l) + of_nat (length l), 7]"

theorem Path_root_witness:
  "\<exists>p. Path \<lparr>t_root = Some (Bin (Bin (Tip [2, 7] 1 1) (Tip [3, 7] 1 1) [21, 7] 2 2) (Tip [4, 7] 1 1) [41, 7] 3 3),
       t_contents = [Some [1], Some [2], Some [3]]\<rparr> 3 = Ret p \<and> PathRoot toy_hash p = [41, 7]"
proof -
  have "NewMerkleBinaryTree (Some toy_hash) [Some [1], Some [2], Some [3]] =
    Ret \<lparr>t_root = Some (Bin (Bin (Tip [2, 7] 1 1) (Tip [3, 7] 1 1) [21, 7] 2 2) (Tip [4, 7] 1 1) [41, 7] 3 3),
       t_contents = [Some [1], Some [2], Some [3]]\<rparr>" by code_simp
  from Path_root [OF this, of 3] show ?thesis by (simp add: Len_def Root_def)
qed

theorem Proof_root_witness:
  "\<exists>m p. NewMerkleBinaryTree (Some toy_hash) (map (\<lambda>n. Some [n]) [1, 2, 3, 4, 5, 6]) = Ret m \<and>
     Proof m 2 3 = Ret (Some p) \<and> ProofRoot toy_hash p = Ret (Root m, 1, 6, None)"
proof -
  let ?cs = "map (\<lambda>n. Some [n]) [1, 2, 3, 4, 5, 6 :: 8 word]"
  have n: "None \<notin> set ?cs" "?cs \<noteq> []" by auto
  obtain t where t: "NewMerkleBinaryTree (Some toy_hash) ?cs = Ret \<lparr>t_root = Some t, t_contents = ?cs\<rparr>"
    by (rule NewMerkleBinaryTree_spec [OF n])
  moreover have "\<forall>l. toy_hash l \<noteq> []" by (simp add: toy_hash_def)
  ultimately show ?thesis using Proof_root [OF t, of 2 3] by (auto simp: Len_def)
qed

fun addAll :: "hashFunc \<Rightarrow> MerkleBinaryTree \<Rightarrow> bytes option list \<Rightarrow> MerkleBinaryTree result" where
  "addAll hf m [] = Ret m"
| "addAll hf m (c # cs) = (case Add hf m c of Ret m' \<Rightarrow> addAll hf m' cs | r \<Rightarrow> r)"

definition emptyTree :: MerkleBinaryTree where "emptyTree = \<lparr>t_root = None, t_contents = []\<rparr>"

definition tag_hash :: hashFunc where "tag_hash l = of_nat (length l) # concat l"

definition eight :: "bytes option list" where "eight = map (\<lambda>n. Some [n]) [1, 2, 3, 4, 5, 6, 7, 8]"

lemma levels_small [simp]: "NumberToLevel 1 = levelLeaf"
  by (simp add: NumberToLevel_def)

text \<open>
  Appending to a tree. For seven contents \<open>Add\<close> one after the other gives the tree
  \<open>NewMerkleBinaryTree\<close> builds at once, for every hash function; with the eighth the two part:
  \<open>add\<close> compares levels where \<open>lazyAdd\<close> compares numbers of leaves, puts the eighth leaf beside the
  seven others, and the path to it no longer recomputes the root.
\<close>

theorem Add_agrees_until_eight:
  "addAll hf emptyTree [Some a, Some b, Some c, Some d, Some e, Some f, Some g] =
     NewMerkleBinaryTree (Some hf) [Some a, Some b, Some c, Some d, Some e, Some f, Some g] \<and>
   (\<exists>m n p. addAll tag_hash emptyTree eight = Ret m \<and> NewMerkleBinaryTree (Some tag_hash) eight = Ret n \<and>
      Root m \<noteq> Root n \<and> Path m 8 = Ret p \<and> PathRoot tag_hash p \<noteq> Root m)"
proof (intro conjI)
  show "addAll hf emptyTree [Some a, Some b, Some c, Some d, Some e, Some f, Some g] =
     NewMerkleBinaryTree (Some hf) [Some a, Some b, Some c, Some d, Some e, Some f, Some g]"
    by (simp add: Add_def emptyTree_def NewMerkleBinaryTree_def initNode_def level_defs Let_def)
  have "(case addAll tag_hash emptyTree eight of Ret m \<Rightarrow> (case NewMerkleBinaryTree (Some tag_hash) eight of Ret n \<Rightarrow>
      (case Path m 8 of Ret p \<Rightarrow> Root m \<noteq> Root n \<and> PathRoot tag_hash p \<noteq> Root m | _ \<Rightarrow> False) | _ \<Rightarrow> False) | _ \<Rightarrow> False)"
    by code_simp
  then show "\<exists>m n p. addAll tag_hash emptyTree eight = Ret m \<and> NewMerkleBinaryTree (Some tag_hash) eight = Ret n \<and>
      Root m \<noteq> Root n \<and> Path m 8 = Ret p \<and> PathRoot tag_hash p \<noteq> Root m"
    by (auto split: outcome.splits)
qed

end
