(* ===== verification/Btp2_Receiver.thy ===== *)
theory Btp2_Receiver
  imports Receive_DB Mbt_Props
begin

text \<open>
  The ICON BTP2 block receiver (src/chain/icon/btp2): it follows the BTP blocks of the source chain,
  keeps a window of receive statuses, and builds block updates, message proofs and relay messages
  for the link. The JSON-RPC client (src/chain/icon/client), whose answers come from a remote node,
  the store and the hash function are parameters; the websocket is represented by the handler of
  one notification. Heights and sequence numbers are unbounded integers.
\<close>

section \<open>State and parameters\<close>

record iconClient =
  ic_GetBTPHeader :: "int \<Rightarrow> int \<Rightarrow> string result"
  ic_GetBTPProof :: "int \<Rightarrow> int \<Rightarrow> string result"
  ic_GetBTPMessage :: "int \<Rightarrow> int \<Rightarrow> string list result"
  ic_GetBTPLinkNetworkId :: "int result"
  ic_GetBTPLinkOffset :: "int result"
  ic_GetBTPNetworkInfo :: "int \<Rightarrow> int option result"

text \<open>
  \<open>ic_GetBTPNetworkInfo\<close> gives the start height of the network, \<open>None\<close> when it does not parse.
  \<open>b_out\<close> is what was sent on the channel \<open>rsc\<close>, oldest first.
\<close>

record 'd btp2 =
  b_db :: 'd
  b_nid :: int
  b_rss :: "receiveStatus list"
  b_seq :: int
  b_startHeight :: int
  b_out :: "receiveStatus list"

type_synonym ('d, 'a) bproc = "('d btp2, err, 'a) proc"

definition newBTP2 :: "'d \<Rightarrow> 'd btp2" where
  "newBTP2 d = \<lparr>b_db = d, b_nid = 0, b_rss = [], b_seq = 0, b_startHeight = 0, b_out = []\<rparr>"

definition on_db :: "('d, 'a) dproc \<Rightarrow> ('d, 'a) bproc" where
  "on_db m = (\<lambda>b. case m (b_db b) of (r, d) \<Rightarrow> (r, b\<lparr>b_db := d\<rparr>))"

section \<open>Block headers\<close>

text \<open>The fields of \<open>client.BTPBlockHeader\<close>, and those of \<open>client.VerifierStatus\<close>, in order.\<close>

definition BTPBlockHeader :: gtype where
  "BTPBlockHeader = TStruct [TPrim (KInt 64), TPrim (KInt 32), TBytes, TSlice (TSlice TBytes), TPrim (KInt 64),
     TPrim (KInt 64), TBytes, TPrim (KInt 64), TBytes, TBytes]"

definition VerifierStatus :: gtype where
  "VerifierStatus = TStruct [TPrim (KInt 64), TPrim (KInt 64), TPrim (KInt 64)]"

definition int_field :: "gval \<Rightarrow> nat \<Rightarrow> int" where
  "int_field v n = (case v of VStruct vs \<Rightarrow> (if n < length vs
     then (case vs ! n of VPrim (PInt w) \<Rightarrow> sint w | _ \<Rightarrow> 0) else 0) | _ \<Rightarrow> 0)"

abbreviation "MainHeight v \<equiv> int_field v 0"
abbreviation "UpdateNumber v \<equiv> int_field v 5"
abbreviation "MessageCount v \<equiv> int_field v 7"

definition decodeAs :: "gtype \<Rightarrow> bytes \<Rightarrow> gval result" where
  "decodeAs t b = bind_r (UnmarshalFromBytes b t) (\<lambda>(v, rest). Ret v)"

section \<open>Starting\<close>

definition btp2_getNetworkId :: "iconClient \<Rightarrow> ('d, unit) bproc" where
  "btp2_getNetworkId C = get_p (\<lambda>b. if b_nid b = 0
     then bind_p (lift_p (ic_GetBTPLinkNetworkId C)) (\<lambda>nid. modify_p (\<lambda>b. b\<lparr>b_nid := nid\<rparr>))
     else ret_p ())"

definition btp2_setStartHeight :: "iconClient \<Rightarrow> ('d, unit) bproc" where
  "btp2_setStartHeight C = get_p (\<lambda>b. bind_p (lift_p (ic_GetBTPNetworkInfo C (b_nid b))) (\<lambda>sh.
     modify_p (\<lambda>b. b\<lparr>b_startHeight := (case sh of None \<Rightarrow> 0 | Some h \<Rightarrow> h) + 1\<rparr>)))"

definition btp2_Start :: "iconClient \<Rightarrow> ('d, unit) bproc" where
  "btp2_Start C = then_p (btp2_getNetworkId C) (btp2_setStartHeight C)"

text \<open>\<open>monitoring\<close> up to the request: its result is the height of the request.\<close>

definition btp2_monitoring :: "'d leveldb \<Rightarrow> bmcLinkStatus \<Rightarrow> ('d, int) bproc" where
  "btp2_monitoring D bls = (if VHeight bls < 1 then fail_p (StdError ''cannot catchup from zero height'')
     else bind_p (on_db (startMonitoring D bls)) (\<lambda>height.
       bind_p (lift_p (decodeAs VerifierStatus (VExtra bls))) (\<lambda>vs.
       then_p (modify_p (\<lambda>b. if RxSeq bls \<noteq> 0 then b\<lparr>b_seq := RxSeq bls + int_field vs 0\<rparr> else b))
         (ret_p (height + 1)))))"

section \<open>Notifications\<close>

text \<open>
  The callback of \<open>monitorBTP2Block\<close> for one notification, given its header and its progress:
  counting the messages of the block, recording the block, and the whole.
\<close>

definition btp2_countMessages :: "iconClient \<Rightarrow> gval \<Rightarrow> ('d, unit) bproc" where
  "btp2_countMessages C bh = get_p (\<lambda>b. if MessageCount bh \<noteq> 0 then
     bind_p (lift_p (ic_GetBTPMessage C (MainHeight bh) (b_nid b))) (\<lambda>msgs.
       if UpdateNumber bh div 2 \<noteq> b_seq b then fail_p (StdError ''invalid seq'')
       else modify_p (\<lambda>b. b\<lparr>b_seq := b_seq b + int (length msgs)\<rparr>))
   else ret_p ())"

definition btp2_record :: "'d leveldb \<Rightarrow> bytes \<Rightarrow> gval \<Rightarrow> ('d, unit) bproc" where
  "btp2_record D h bh = then_p (on_db (addReceiveBlock D (MainHeight bh) h))
     (modify_p (\<lambda>b. let rs = \<lparr>rs_Height = MainHeight bh, rs_Seq = b_seq b\<rparr> in
        b\<lparr>b_rss := b_rss b @ [rs], b_out := b_out b @ [rs]\<rparr>))"

definition btp2_onBlock :: "iconClient \<Rightarrow> 'd leveldb \<Rightarrow> string \<Rightarrow> int \<Rightarrow> ('d, unit) bproc" where
  "btp2_onBlock C D header progress = bind_p (lift_p (base64_DecodeString header)) (\<lambda>h.
     then_p (if progress \<noteq> 0 then on_db (setLastReceiveHeight D progress) else ret_p ())
     (if header = [] then ret_p ()
      else bind_p (lift_p (decodeAs BTPBlockHeader h)) (\<lambda>bh. get_p (\<lambda>b.
        if MainHeight bh \<noteq> b_startHeight b then then_p (btp2_countMessages C bh) (btp2_record D h bh)
        else ret_p ()))))"

definition btp2_nextReceiveStatus :: "'d btp2 \<Rightarrow> bmcLinkStatus \<Rightarrow> receiveStatus option result" where
  "btp2_nextReceiveStatus b bls = nextStatus rs_Height (b_rss b) (VHeight bls)"

definition btp2_clearReceiveStatus :: "bmcLinkStatus \<Rightarrow> ('d, unit) bproc" where
  "btp2_clearReceiveStatus bls = modify_p (\<lambda>b. b\<lparr>b_rss := clearStatus rs_Height rs_Seq (b_rss b) bls\<rparr>)"

definition btp2_getReceiveStatusForSequence :: "'d btp2 \<Rightarrow> int \<Rightarrow> receiveStatus option" where
  "btp2_getReceiveStatusForSequence b seq = List.find (\<lambda>rs. rs_Seq rs \<le> seq \<and> seq \<le> rs_Seq rs) (b_rss b)"

definition btp2_getReceiveStatusForHeight :: "'d btp2 \<Rightarrow> int \<Rightarrow> receiveStatus option" where
  "btp2_getReceiveStatusForHeight b h = List.find (\<lambda>rs. rs_Height rs = h) (b_rss b)"

text \<open>A finalized status; the error of the removal is dropped.\<close>

definition btp2_FinalizedStatus :: "'d leveldb \<Rightarrow> bmcLinkStatus \<Rightarrow> ('d, unit) bproc" where
  "btp2_FinalizedStatus D bls = then_p (modify_p (\<lambda>b. snd (on_db (removeReceiveBlockByHeight D (VHeight bls)) b)))
     (btp2_clearReceiveStatus bls)"

definition btp2_GetHeightForSeq :: "'d btp2 \<Rightarrow> int \<Rightarrow> int" where
  "btp2_GetHeightForSeq b seq = (case btp2_getReceiveStatusForSequence b seq of
     Some rs \<Rightarrow> rs_Height rs | None \<Rightarrow> 0)"

definition btp2_GetStatus :: "'d btp2 \<Rightarrow> receiveStatus result" where
  "btp2_GetStatus b = (if b_rss b = [] then Panic else Ret (last (b_rss b)))"

section \<open>Building\<close>

definition btp2_getBtpHeader :: "iconClient \<Rightarrow> 'd btp2 \<Rightarrow> int \<Rightarrow> (bytes \<times> bytes) result" where
  "btp2_getBtpHeader C b height =
     bind_r (ic_GetBTPHeader C height (b_nid b)) (\<lambda>hB64.
     bind_r (base64_DecodeString hB64) (\<lambda>h.
     bind_r (ic_GetBTPProof C height (b_nid b)) (\<lambda>pB64.
     bind_r (base64_DecodeString pB64) (\<lambda>p. Ret (h, p)))))"

definition btp2_NewBlockUpdate :: "bmcLinkStatus \<Rightarrow> int \<Rightarrow> gval \<Rightarrow> item result" where
  "btp2_NewBlockUpdate bs target v = bind_r (MustMarshalToBytes v) (\<lambda>p. Ret (mkBlockUpdate bs target p))"

definition btp2_NewMessageProof :: "bmcLinkStatus \<Rightarrow> int \<Rightarrow> gval \<Rightarrow> item result" where
  "btp2_NewMessageProof bs ls v = bind_r (MustMarshalToBytes v) (\<lambda>p. Ret (mkMessageProof bs (RxSeq bs) ls p))"

text \<open>\<open>client.BTPBlockUpdate\<close>.\<close>

definition BTPBlockUpdate :: "bytes \<Rightarrow> bytes \<Rightarrow> gval" where
  "BTPBlockUpdate h p = VStruct [VBytes (Some h), VBytes (Some p)]"

definition btp2_BuildBlockUpdate :: "iconClient \<Rightarrow> 'd btp2 \<Rightarrow> bmcLinkStatus \<Rightarrow> int \<Rightarrow> item list result" where
  "btp2_BuildBlockUpdate C b bls limit = bind_r (btp2_nextReceiveStatus b bls) (\<lambda>next. case next of
      None \<Rightarrow> Fail (Errorc IllegalArgumentError ''No blockUpdate available to create.'')
    | Some rs \<Rightarrow>
        bind_r (btp2_getBtpHeader C b (rs_Height rs)) (\<lambda>(h, p).
        bind_r (decodeAs BTPBlockHeader h) (\<lambda>bh.
        bind_r (MustMarshalToBytes (BTPBlockUpdate h p)) (\<lambda>bbu.
          if limit < int (length bbu) then Ret []
          else bind_r (btp2_NewBlockUpdate bls (MainHeight bh) (BTPBlockUpdate h p)) (\<lambda>bu. Ret [bu])))))"

definition btp2_BuildBlockProof :: "'d btp2 \<Rightarrow> bmcLinkStatus \<Rightarrow> int \<Rightarrow> item option result" where
  "btp2_BuildBlockProof b bls height = Ret None"

definition btp2_getMessage :: "iconClient \<Rightarrow> hashFunc \<Rightarrow> 'd btp2 \<Rightarrow> int \<Rightarrow> MerkleBinaryTree result" where
  "btp2_getMessage C hf b height =
     bind_r (ic_GetBTPMessage C height (b_nid b)) (\<lambda>msgs.
     bind_r (decodeAll msgs) (\<lambda>ms. NewMerkleBinaryTree (Some hf) (map Some ms)))"

text \<open>
  A Merkle proof as a value of the codec. The proof of all messages has nil node lists, every
  other proof has empty ones.
\<close>

definition nodes_val :: "ProofNode list \<Rightarrow> gval" where
  "nodes_val ns = VSlice (Some (map (\<lambda>n. VStruct [VPrim (PInt (word_of_int (pf_NumOfLeaf n))), VBytes (Some (pf_Value n))]) ns))"

definition proof_val :: "bool \<Rightarrow> MerkleBinaryTreeProof \<Rightarrow> gval" where
  "proof_val all p = VStruct [if all then VSlice None else nodes_val (p_ProofInLeft p),
     VSlice (Some (map VBytes (p_Contents p))), if all then VSlice None else nodes_val (p_ProofInRight p)]"

text \<open>\<open>mbt.Proof(begin, end)\<close> and its encoding; a nil proof is dereferenced.\<close>

definition encodedProof :: "MerkleBinaryTree \<Rightarrow> int \<Rightarrow> int \<Rightarrow> gval result" where
  "encodedProof m b e = bind_r (Proof m b e) (\<lambda>p. case p of
      None \<Rightarrow> Panic | Some p \<Rightarrow> Ret (proof_val (b = 1 \<and> e = Len m) p))"

text \<open>The loop over the ends of the range: it returns with the first proof that is over the limit.\<close>

fun proofLoop :: "MerkleBinaryTree \<Rightarrow> bmcLinkStatus \<Rightarrow> int \<Rightarrow> int \<Rightarrow> int list \<Rightarrow> item option result" where
  "proofLoop m bls limit offset [] = Ret None"
| "proofLoop m bls limit offset (i # is) =
     bind_r (encodedProof m (offset + 1) i) (\<lambda>p.
     bind_r (MustMarshalToBytes p) (\<lambda>bs.
       if limit < int (length bs)
       then bind_r (btp2_NewMessageProof bls (RxSeq bls + i) p) (\<lambda>mp. Ret (Some mp))
       else proofLoop m bls limit offset is))"

definition btp2_BuildMessageProof ::
    "iconClient \<Rightarrow> hashFunc \<Rightarrow> 'd btp2 \<Rightarrow> bmcLinkStatus \<Rightarrow> int \<Rightarrow> item option result" where
  "btp2_BuildMessageProof C hf b bls limit = (case btp2_getReceiveStatusForHeight b (VHeight bls) of
      None \<Rightarrow> Ret None
    | Some rs \<Rightarrow> bind_r (btp2_getMessage C hf b (VHeight bls)) (\<lambda>m.
        let messageCnt = Len m; offset = RxSeq bls - (rs_Seq rs - messageCnt)
        in if RxSeq bls - rs_Seq rs = 0 then Ret None
        else bind_r (if messageCnt > 0 then proofLoop m bls limit offset [offset + 1..messageCnt - 1] else Ret None)
          (\<lambda>r. case r of
            Some mp \<Rightarrow> Ret (Some mp)
          | None \<Rightarrow> bind_r (encodedProof m (offset + 1) messageCnt) (\<lambda>p.
              bind_r (btp2_NewMessageProof bls (RxSeq bls + messageCnt) p) (\<lambda>mp. Ret (Some mp))))))"

definition RelayMessageTypeBlockUpdate :: int where "RelayMessageTypeBlockUpdate = 1"
definition RelayMessageTypeMessageProof :: int where "RelayMessageTypeMessageProof = 2"

text \<open>\<open>NewTypePrefixedMessage\<close>; the type assertion of an item of the wrong struct panics.\<close>

definition NewTypePrefixedMessage :: "item \<Rightarrow> gval result" where
  "NewTypePrefixedMessage rmi = (case item_Type rmi of
      TypeBlockUpdate \<Rightarrow> (case rmi of
        blockUpdate r h s t \<Rightarrow> Ret (VStruct [VPrim (PInt (word_of_int RelayMessageTypeBlockUpdate)), VBytes (Some (payload r))])
      | messageProof r s l \<Rightarrow> Panic)
    | TypeMessageProof \<Rightarrow> (case rmi of
        messageProof r s l \<Rightarrow> Ret (VStruct [VPrim (PInt (word_of_int RelayMessageTypeMessageProof)), VBytes (Some (payload r))])
      | blockUpdate r h s t \<Rightarrow> Panic)
    | TypeBlockProof \<Rightarrow> Fail (StdError ''in valid valud''))"

fun prefixedMessages :: "item list \<Rightarrow> gval list result" where
  "prefixedMessages [] = Ret []"
| "prefixedMessages (i # is) = bind_r (NewTypePrefixedMessage i) (\<lambda>t.
     bind_r (prefixedMessages is) (\<lambda>ts. Ret (VPtr (Some t) # ts)))"

definition btp2_BuildRelayMessage :: "item list \<Rightarrow> bytes result" where
  "btp2_BuildRelayMessage rmis = bind_r (prefixedMessages rmis) (\<lambda>ts.
     MarshalToBytes (VPtr (Some (VStruct [VSlice (Some ts)]))))"

text \<open>The receiver as the link sees it.\<close>

definition btp2_receiver :: "iconClient \<Rightarrow> hashFunc \<Rightarrow> 'd btp2 \<Rightarrow> item receiver" where
  "btp2_receiver C hf b = \<lparr>r_Type = item_Type, r_Len = item_Len, r_Update = UpdateBMCLinkStatus,
     r_ProofHeight = ProofHeight,
     r_Start = (\<lambda>bls. case fst (btp2_Start C b) of Fail e \<Rightarrow> Some e | _ \<Rightarrow> None),
     r_BuildBlockUpdate = btp2_BuildBlockUpdate C b, r_BuildBlockProof = btp2_BuildBlockProof b,
     r_BuildMessageProof = btp2_BuildMessageProof C hf b, r_GetHeightForSeq = btp2_GetHeightForSeq b,
     r_BuildRelayMessage = btp2_BuildRelayMessage\<rparr>"

section \<open>The window\<close>

text \<open>Heights ascend strictly, sequence numbers do not descend and end below the counter.\<close>

definition btp2_window :: "'d btp2 \<Rightarrow> bool" where
  "btp2_window b \<longleftrightarrow> ascending rs_Height (b_rss b) \<and> sorted_wrt (\<le>) (map rs_Seq (b_rss b) @ [b_seq b])"

lemma on_dbD:
  "on_db m b = (r, b') \<Longrightarrow> b_rss b' = b_rss b \<and> b_seq b' = b_seq b \<and> b_out b' = b_out b \<and>
     b_startHeight b' = b_startHeight b \<and> b_nid b' = b_nid b \<and> m (b_db b) = (r, b_db b')"
  by (auto simp: on_db_def split: prod.splits)

lemma btp2_countMessagesD:
  assumes "btp2_countMessages C bh b = (r, b')"
  shows "\<exists>n. b' = b\<lparr>b_seq := b_seq b + int n\<rparr> \<and> (r = Ret () \<longrightarrow> (if MessageCount bh = 0 then n = 0
     else UpdateNumber bh div 2 = b_seq b \<and> (\<exists>msgs. ic_GetBTPMessage C (MainHeight bh) (b_nid b) = Ret msgs \<and> n = length msgs)))"
proof (cases "MessageCount bh = 0")
  case True
  with assms show ?thesis by (intro exI [of _ 0]) (auto simp: btp2_countMessages_def proc_defs)
next
  case False
  show ?thesis
  proof (cases "ic_GetBTPMessage C (MainHeight bh) (b_nid b)")
    case (Ret msgs)
    with False assms show ?thesis
      by (cases "UpdateNumber bh div 2 = b_seq b"; intro exI [of _ "if UpdateNumber bh div 2 = b_seq b then length msgs else 0"])
        (auto simp: btp2_countMessages_def proc_defs bind_p_def)
  qed (use False assms in \<open>auto simp: btp2_countMessages_def proc_defs bind_p_def intro!: exI [of _ 0]\<close>)
qed

lemma btp2_recordD:
  assumes "btp2_record D h bh b = (r, b')"
  shows "if r = Ret () then b_rss b' = b_rss b @ [\<lparr>rs_Height = MainHeight bh, rs_Seq = b_seq b\<rparr>] \<and>
       b_out b' = b_out b @ [\<lparr>rs_Height = MainHeight bh, rs_Seq = b_seq b\<rparr>] \<and> b_seq b' = b_seq b \<and>
       addReceiveBlock D (MainHeight bh) h (b_db b) = (Ret (), b_db b')
     else b_rss b' = b_rss b \<and> b_seq b' = b_seq b"
proof -
  obtain q b1 where 1: "on_db (addReceiveBlock D (MainHeight bh) h) b = (q, b1)" by fastforce
  with assms on_dbD [OF 1] show ?thesis
    by (cases q) (auto simp: btp2_record_def modify_p_def Let_def)
qed

text \<open>What one notification does: nothing to the window, or it appends the status of its block.\<close>

lemma btp2_onBlockD:
  assumes "btp2_onBlock C D header progress b = (r, b')"
  shows "(\<exists>n. b_rss b' = b_rss b \<and> b_seq b' = b_seq b + int n) \<or>
    (\<exists>n h bh. base64_DecodeString header = Ret h \<and> decodeAs BTPBlockHeader h = Ret bh \<and>
       b_rss b' = b_rss b @ [\<lparr>rs_Height = MainHeight bh, rs_Seq = b_seq b + int n\<rparr>] \<and> b_seq b' = b_seq b + int n)"
proof (cases "base64_DecodeString header")
  case h: (Ret h)
  obtain q b1 where 1: "(if progress \<noteq> 0 then on_db (setLastReceiveHeight D progress) else ret_p ()) b = (q, b1)"
    by fastforce
  then have b1: "b_rss b1 = b_rss b" "b_seq b1 = b_seq b"
    by (auto simp: ret_p_def dest: on_dbD split: if_splits)
  consider (same) "b' = b1" | (body) bh where "decodeAs BTPBlockHeader h = Ret bh"
    "then_p (btp2_countMessages C bh) (btp2_record D h bh) b1 = (r, b')"
    using assms h 1 by (cases q; cases "header = []"; cases "decodeAs BTPBlockHeader h")
      (auto simp: btp2_onBlock_def lift_p_def bind_p_def get_p_def ret_p_def split: if_splits)
  then show ?thesis
  proof cases
    case same
    with b1 show ?thesis by (intro disjI1 exI [of _ 0]) simp
  next
    case body
    obtain q2 b2 where 2: "btp2_countMessages C bh b1 = (q2, b2)" by fastforce
    then obtain n where n: "b2 = b1\<lparr>b_seq := b_seq b1 + int n\<rparr>" using btp2_countMessagesD by blast
    show ?thesis
    proof (cases "q2 = Ret ()")
      case True
      with body(2) 2 have 3: "btp2_record D h bh b2 = (r, b')" by simp
      from btp2_recordD [OF 3] n b1 h body(1) show ?thesis by (auto split: if_splits)
    next
      case False
      with body(2) 2 have "b' = b2" by (cases q2) auto
      with n b1 show ?thesis by auto
    qed
  qed
qed (use assms in \<open>auto simp: btp2_onBlock_def lift_p_def intro!: exI [of _ 0]\<close>)

text \<open>
  C36: the handler of a notification keeps the window in order, whatever its outcome, when the block
  is above those in the window; so does the handler of a finalized status.
\<close>
theorem btp2_window_kept:
  assumes "btp2_window b"
    and "\<And>h bh rs. base64_DecodeString header = Ret h \<Longrightarrow> decodeAs BTPBlockHeader h = Ret bh \<Longrightarrow>
      rs \<in> set (b_rss b) \<Longrightarrow> rs_Height rs < MainHeight bh"
  shows "btp2_window (snd (btp2_onBlock C D header progress b)) \<and> btp2_window (snd (btp2_FinalizedStatus D bls b))"
proof
  obtain r b' where "btp2_onBlock C D header progress b = (r, b')" by fastforce
  with btp2_onBlockD [OF this] show "btp2_window (snd (btp2_onBlock C D header progress b))"
    using assms by (fastforce simp: btp2_window_def ascending_snoc sorted_wrt_append)
  obtain q b1 where 1: "on_db (removeReceiveBlockByHeight D (VHeight bls)) b = (q, b1)" by fastforce
  obtain pre where pre: "b_rss b = pre @ clearStatus rs_Height rs_Seq (b_rss b) bls"
    using drop_through_suffix unfolding clearStatus_def by blast
  have "ascending rs_Height (clearStatus rs_Height rs_Seq (b_rss b) bls)"
    using assms(1) by (intro ascending_clear) (simp add: btp2_window_def)
  moreover have "sorted (map rs_Seq (clearStatus rs_Height rs_Seq (b_rss b) bls) @ [b_seq b])"
    using assms(1) arg_cong [OF pre, of "\<lambda>x. sorted (map rs_Seq x @ [b_seq b])"]
    by (simp add: btp2_window_def sorted_append)
  ultimately show "btp2_window (snd (btp2_FinalizedStatus D bls b))"
    using on_dbD [OF 1]
    by (simp add: btp2_FinalizedStatus_def btp2_clearReceiveStatus_def modify_p_def bind_p_def 1 btp2_window_def)
qed

text \<open>
  A notification with a header that is accepted appends one receive status, to the window and
  to the channel: the height of the block, and the sequence number raised by its number of
  messages, which must follow on; and it stores the header under its height.
\<close>
theorem btp2_block_recorded:
  assumes "leveldb_laws D view" and "base64_DecodeString header = Ret h" and "header \<noteq> []"
    and "decodeAs BTPBlockHeader h = Ret bh" and "MainHeight bh \<noteq> b_startHeight b"
    and "btp2_onBlock C D header progress b = (Ret (), b')"
  shows "\<exists>n. b_rss b' = b_rss b @ [\<lparr>rs_Height = MainHeight bh, rs_Seq = b_seq b + int n\<rparr>] \<and>
      b_out b' = b_out b @ [\<lparr>rs_Height = MainHeight bh, rs_Seq = b_seq b + int n\<rparr>] \<and>
      (if MessageCount bh = 0 then n = 0 else UpdateNumber bh div 2 = b_seq b \<and>
        (\<exists>msgs. ic_GetBTPMessage C (MainHeight bh) (b_nid b) = Ret msgs \<and> n = length msgs)) \<and>
      view (b_db b') (heightKey (MainHeight bh)) = Some h"
proof -
  from assms(2-6) obtain b1 where
    1: "(if progress \<noteq> 0 then on_db (setLastReceiveHeight D progress) else ret_p ()) b = (Ret (), b1)"
    and 2: "(if MainHeight bh \<noteq> b_startHeight b1 then then_p (btp2_countMessages C bh) (btp2_record D h bh)
        else ret_p ()) b1 = (Ret (), b')"
    by (auto simp: btp2_onBlock_def lift_p_def get_p_def elim!: bind_p_RetE)
  from 1 have b1: "b_rss b1 = b_rss b" "b_seq b1 = b_seq b" "b_out b1 = b_out b" "b_nid b1 = b_nid b"
    "b_startHeight b1 = b_startHeight b"
    by (auto simp: ret_p_def dest: on_dbD split: if_splits)
  from 2 assms(5) b1(5) obtain b2 where c: "btp2_countMessages C bh b1 = (Ret (), b2)"
    and r: "btp2_record D h bh b2 = (Ret (), b')"
    by (auto elim!: bind_p_RetE)
  from btp2_countMessagesD [OF c] obtain n where n: "b2 = b1\<lparr>b_seq := b_seq b1 + int n\<rparr>"
    "if MessageCount bh = 0 then n = 0 else UpdateNumber bh div 2 = b_seq b1 \<and>
       (\<exists>msgs. ic_GetBTPMessage C (MainHeight bh) (b_nid b1) = Ret msgs \<and> n = length msgs)" by auto
  have "view (b_db b') (heightKey (MainHeight bh)) = Some h"
    using btp2_recordD [OF r] assms(1)
    by (auto simp: addReceiveBlock_def put_p_def leveldb_laws_def split: prod.splits option.splits)
  with btp2_recordD [OF r] n b1 show ?thesis by auto
qed

section \<open>Message proofs\<close>

lemma Proof_range:
  assumes "Proof m b e = Ret (Some p)"
  shows "1 \<le> b" and "b \<le> e" and "e \<le> Len m" and "int (length (p_Contents p)) = e - b + 1"
proof -
  show r: "1 \<le> b" "b \<le> e" "e \<le> Len m"
    using assms by (auto simp: Proof_def split: if_splits)
  have "length (take (nat (e - b + 1)) (drop (nat (b - 1)) (t_contents m))) = nat (e - b + 1)"
    using r by (auto simp: Len_def min_def)
  then show "int (length (p_Contents p)) = e - b + 1"
    using assms r
    by (auto simp: Proof_def mk_proof_def ProofOfAll_def Len_def split: if_splits option.splits prod.splits)
qed

lemma encodedProof_Ret:
  "encodedProof m b e = Ret v \<longleftrightarrow> (\<exists>p. Proof m b e = Ret (Some p) \<and> v = proof_val (b = 1 \<and> e = Len m) p)"
  by (auto simp: encodedProof_def bind_r_Ret split: option.splits)

lemma btp2_NewMessageProof_enc: "btp2_NewMessageProof bs ls v = Ret (mkMessageProof bs (RxSeq bs) ls (enc v))"
  by (simp add: btp2_NewMessageProof_def MarshalToBytes_enc)

lemma proofLoop_Some:
  "proofLoop m bls limit offset is = Ret (Some mp) \<Longrightarrow> \<exists>i\<in>set is. \<exists>p. Proof m (offset + 1) i = Ret (Some p) \<and>
     mp = mkMessageProof bls (RxSeq bls) (RxSeq bls + i) (enc (proof_val (offset = 0 \<and> i = Len m) p)) \<and>
     limit < item_Len mp"
  by (induction "is")
    (auto simp: bind_r_Ret encodedProof_Ret btp2_NewMessageProof_enc MarshalToBytes_enc item_defs split: if_splits)

lemma btp2_BuildMessageProof_Some:
  assumes "btp2_BuildMessageProof C hf b bls limit = Ret (Some mp)"
  obtains rs m j p where "btp2_getReceiveStatusForHeight b (VHeight bls) = Some rs"
    and "btp2_getMessage C hf b (VHeight bls) = Ret m" and "RxSeq bls \<noteq> rs_Seq rs"
    and "Proof m (RxSeq bls - (rs_Seq rs - Len m) + 1) j = Ret (Some p)"
    and "mp = mkMessageProof bls (RxSeq bls) (RxSeq bls + j)
      (enc (proof_val (RxSeq bls - (rs_Seq rs - Len m) = 0 \<and> j = Len m) p))"
    and "j < Len m \<Longrightarrow> limit < item_Len mp"
proof -
  from assms obtain rs where rs: "btp2_getReceiveStatusForHeight b (VHeight bls) = Some rs"
    by (auto simp: btp2_BuildMessageProof_def split: option.splits)
  with assms obtain m where m: "btp2_getMessage C hf b (VHeight bls) = Ret m" "RxSeq bls \<noteq> rs_Seq rs"
    by (auto simp: btp2_BuildMessageProof_def bind_r_Ret Let_def split: if_splits)
  let ?o = "RxSeq bls - (rs_Seq rs - Len m)"
  let ?loop = "if Len m > 0 then proofLoop m bls limit ?o [?o + 1..Len m - 1] else Ret None"
  let ?last = "bind_r (encodedProof m (?o + 1) (Len m)) (\<lambda>p.
      bind_r (btp2_NewMessageProof bls (RxSeq bls + Len m) p) (\<lambda>mp. Ret (Some mp)))"
  have "btp2_BuildMessageProof C hf b bls limit = bind_r ?loop (\<lambda>r. case r of Some mp \<Rightarrow> Ret (Some mp) | None \<Rightarrow> ?last)"
    using rs m by (simp add: btp2_BuildMessageProof_def Let_def)
  with assms obtain r where r: "?loop = Ret r" and rest: "(case r of Some mp \<Rightarrow> Ret (Some mp) | None \<Rightarrow> ?last) = Ret (Some mp)"
    by (auto simp: bind_r_Ret)
  show thesis
  proof (cases r)
    case (Some x)
    with r rest have "proofLoop m bls limit ?o [?o + 1..Len m - 1] = Ret (Some mp)" by (auto split: if_splits)
    from proofLoop_Some [OF this] show thesis using that [OF rs m] by auto
  next
    case None
    with rest show thesis
      using that [OF rs m] by (auto simp: bind_r_Ret encodedProof_Ret btp2_NewMessageProof_enc)
  qed
qed

text \<open>
  C23: a message proof of the btp2 receiver proves what it carries: from its Merkle proof, the root
  of the messages of the block is recomputed, the messages before it being those already
  relayed. But it advances the sequence number by the position of its last message in the
  block, that is by as many messages too many as were relayed before; and a proof that does not
  reach the last message of the block is always longer than the limit it was given.
\<close>
theorem btp2_message_proof:
  assumes "btp2_BuildMessageProof C hf b bls limit = Ret (Some mp)" and "\<forall>l. hf l \<noteq> []"
    and "btp2_getReceiveStatusForHeight b (VHeight bls) = Some rs"
    and "btp2_getMessage C hf b (VHeight bls) = Ret m"
  shows "\<exists>p offset. offset = RxSeq bls - (rs_Seq rs - Len m) \<and> 0 \<le> offset \<and>
     (\<exists>a. payload (body mp) = enc (proof_val a p)) \<and>
     ProofRoot hf p = Ret (Root m, offset, Len m, None) \<and>
     item_lastSeq mp = RxSeq bls + offset + int (length (p_Contents p)) \<and>
     (offset + int (length (p_Contents p)) < Len m \<longrightarrow> limit < item_Len mp)"
proof -
  from assms(1) obtain rs' m' j p where mp: "btp2_getReceiveStatusForHeight b (VHeight bls) = Some rs'"
    "btp2_getMessage C hf b (VHeight bls) = Ret m'"
    "Proof m' (RxSeq bls - (rs_Seq rs' - Len m') + 1) j = Ret (Some p)"
    "mp = mkMessageProof bls (RxSeq bls) (RxSeq bls + j)
      (enc (proof_val (RxSeq bls - (rs_Seq rs' - Len m') = 0 \<and> j = Len m') p))"
    "j < Len m' \<longrightarrow> limit < item_Len mp"
    by (rule btp2_BuildMessageProof_Some) blast
  then have eq: "rs' = rs" "m' = m" using assms(3,4) by simp_all
  let ?o = "RxSeq bls - (rs_Seq rs - Len m)"
  from mp(3) eq have P: "Proof m (?o + 1) j = Ret (Some p)" by simp
  from assms(4) obtain cs where cs: "NewMerkleBinaryTree (Some hf) cs = Ret m"
    by (auto simp: btp2_getMessage_def bind_r_Ret)
  note r = Proof_range [OF P]
  obtain q where q: "Proof m (?o + 1) j = Ret (Some q)" "ProofRoot hf q = Ret (Root m, ?o + 1 - 1, Len m, None)"
    using Proof_verifies [OF cs assms(2) r(1-3)] by blast
  then have "ProofRoot hf p = Ret (Root m, ?o, Len m, None)" using P by simp
  with mp(4,5) r eq show ?thesis
    by (intro exI [of _ p] exI [of _ ?o]) (auto simp: mkMessageProof_def)
qed

section \<open>With the link\<close>

text \<open>The node answers a request for a height with the header of that height.\<close>

definition faithful :: "iconClient \<Rightarrow> int \<Rightarrow> bool" where
  "faithful C nid \<longleftrightarrow> (\<forall>h s bs bh. ic_GetBTPHeader C h nid = Ret s \<longrightarrow> base64_DecodeString s = Ret bs \<longrightarrow>
     decodeAs BTPBlockHeader bs = Ret bh \<longrightarrow> MainHeight bh = h)"

abbreviation btp2_of :: "iconClient \<times> hashFunc \<times> 'd btp2 \<Rightarrow> item receiver" where
  "btp2_of s \<equiv> (case s of (C, hf, b) \<Rightarrow> btp2_receiver C hf b)"

abbreviation btp2_ok :: "iconClient \<times> hashFunc \<times> 'd btp2 \<Rightarrow> bool" where
  "btp2_ok s \<equiv> (case s of (C, hf, b) \<Rightarrow> btp2_window b \<and> faithful C (b_nid b))"

lemma btp2_BuildBlockUpdate_Ret:
  assumes "btp2_BuildBlockUpdate C b bls limit = Ret bus" and "btp2_window b" and "faithful C (b_nid b)"
  shows "bus = [] \<or> (\<exists>i. bus = [i] \<and> VHeight bls < VHeight (nextBls (body i)) \<and> RxSeq (nextBls (body i)) = RxSeq bls)"
proof -
  from assms(1) obtain rs h p bh where n: "btp2_nextReceiveStatus b bls = Ret (Some rs)"
    and h: "btp2_getBtpHeader C b (rs_Height rs) = Ret (h, p)" and bh: "decodeAs BTPBlockHeader h = Ret bh"
    and bus: "bus = [] \<or> bus = [mkBlockUpdate bls (MainHeight bh) (enc (BTPBlockUpdate h p))]"
    by (auto simp: btp2_BuildBlockUpdate_def btp2_NewBlockUpdate_def bind_r_Ret MarshalToBytes_enc
        split: option.splits if_splits)
  from h bh assms(3) have "MainHeight bh = rs_Height rs"
    by (auto simp: btp2_getBtpHeader_def bind_r_Ret faithful_def)
  moreover have "VHeight bls < rs_Height rs"
    using nextStatus_above [of rs_Height "b_rss b"] n assms(2)
    by (auto simp: btp2_nextReceiveStatus_def btp2_window_def)
  ultimately show ?thesis using bus by (auto simp: mkBlockUpdate_def)
qed

lemma btp2_BuildMessageProof_Ret:
  assumes "btp2_BuildMessageProof C hf b bls limit = Ret (Some i)"
  shows "VHeight (nextBls (body i)) = VHeight bls \<and> RxSeq bls \<le> RxSeq (nextBls (body i))"
proof -
  from assms obtain m o' j p s where P: "Proof m (o' + 1) j = Ret (Some p)" "i = mkMessageProof bls (RxSeq bls) (RxSeq bls + j) s"
    by (rule btp2_BuildMessageProof_Some) blast
  from Proof_range(1,2) [OF P(1)] P(2) show ?thesis by (auto simp: mkMessageProof_def)
qed

interpretation btp2: chain_receiver btp2_of btp2_ok
proof (unfold_locales, goal_cases)
  case (4 s b lim i)
  then show ?case by (cases s) (auto simp: btp2_receiver_def dest: btp2_BuildMessageProof_Ret)
next
  case (5 s b lim bus)
  then show ?case by (cases s) (simp add: btp2_receiver_def btp2_BuildBlockUpdate_Ret)
qed (auto simp: btp2_receiver_def btp2_BuildBlockProof_def)

section \<open>Relay messages\<close>

text \<open>The type of \<open>BTPRelayMessage\<close>, and the message a list of items stands for.\<close>

definition BTPRelayMessage :: gtype where
  "BTPRelayMessage = TStruct [TSlice (TPtr (TStruct [TPrim (KInt 64), TBytes]))]"

definition relayed_items :: "item list \<Rightarrow> gval" where
  "relayed_items rmis = VStruct [VSlice (Some (map (\<lambda>i. VPtr (Some (VStruct [VPrim (PInt (case i of
       blockUpdate r h s t \<Rightarrow> 1 | messageProof r s l \<Rightarrow> 2)), VBytes (Some (payload (body i)))]))) rmis))]"

lemma prefixedMessages_Ret:
  "\<forall>i\<in>set rmis. item_Type i = (case i of blockUpdate r h s t \<Rightarrow> TypeBlockUpdate | messageProof r s l \<Rightarrow> TypeMessageProof) \<Longrightarrow>
   prefixedMessages rmis = Ret (map (\<lambda>i. VPtr (Some (VStruct [VPrim (PInt (case i of
       blockUpdate r h s t \<Rightarrow> 1 | messageProof r s l \<Rightarrow> 2)), VBytes (Some (payload (body i)))]))) rmis)"
  by (induction rmis)
    (auto simp: NewTypePrefixedMessage_def RelayMessageTypeBlockUpdate_def RelayMessageTypeMessageProof_def
      split: item.splits)

text \<open>
  C37: the relay message built from block updates and message proofs decodes, with the codec, to
  their types and payloads in order.
\<close>
theorem btp2_relay_message_decodes:
  assumes "\<forall>i\<in>set rmis. item_Type i = (case i of blockUpdate r h s t \<Rightarrow> TypeBlockUpdate | messageProof r s l \<Rightarrow> TypeMessageProof)"
    and "length (enc (relayed_items rmis)) < 2 ^ 63"
  shows "\<exists>bs. btp2_BuildRelayMessage rmis = Ret bs \<and> UnmarshalFromBytes bs BTPRelayMessage = Ret (relayed_items rmis, [])"
proof -
  have "btp2_BuildRelayMessage rmis = Ret (enc (relayed_items rmis))"
    by (simp add: btp2_BuildRelayMessage_def prefixedMessages_Ret [OF assms(1)] MarshalToBytes_enc relayed_items_def)
  moreover have "UnmarshalFromBytes (enc (relayed_items rmis) @ []) BTPRelayMessage = Ret (relayed_items rmis, [])"
  proof (rule Unmarshal_enc)
    show "has_type (relayed_items rmis) BTPRelayMessage"
      by (simp add: relayed_items_def BTPRelayMessage_def list_all_iff)
    show "type_ok BTPRelayMessage" by (simp add: BTPRelayMessage_def)
    show "int_len (enc (relayed_items rmis) @ [])" using assms(2) by (simp add: int_len_def)
  qed
  ultimately show ?thesis by simp
qed

section \<open>An instance\<close>

text \<open>A node with one BTP block at height 100, of two messages.\<close>

definition one_block :: iconClient where
  "one_block = \<lparr>ic_GetBTPHeader = (\<lambda>h n. if h = 100 then Ret ''ymQAgMABCIACgIA='' else Fail ErrNotFound),
     ic_GetBTPProof = (\<lambda>h n. if h = 100 then Ret ''AQI='' else Fail ErrNotFound),
     ic_GetBTPMessage = (\<lambda>h n. if h = 100 then Ret [''aGk='', ''eW91''] else Ret []),
     ic_GetBTPLinkNetworkId = Ret 1, ic_GetBTPLinkOffset = Ret 0, ic_GetBTPNetworkInfo = (\<lambda>n. Ret (Some 10))\<rparr>"

definition following :: "(bytes \<times> bytes) list btp2" where
  "following = (newBTP2 [])\<lparr>b_nid := 1, b_rss := [\<lparr>rs_Height = 90, rs_Seq = 4\<rparr>], b_seq := 4, b_startHeight := 11\<rparr>"

definition block_header :: gval where
  "block_header = VStruct [VPrim (PInt 100), VPrim (PInt 0), VBytes (Some []), VSlice (Some []), VPrim (PInt 1),
     VPrim (PInt 8), VBytes (Some []), VPrim (PInt 2), VBytes (Some []), VBytes (Some [])]"

definition header_bytes :: bytes where
  "header_bytes = [0xca, 0x64, 0, 0x80, 0xc0, 1, 8, 0x80, 2, 0x80, 0x80]"

lemmas base64_eval = base64_DecodeString_def b64_val_def b64_bytes_def Let_def

lemma header_base64: "base64_DecodeString ''ymQAgMABCIACgIA='' = Ret header_bytes"
  by (simp add: base64_eval header_bytes_def)

lemma header_enc: "enc block_header = header_bytes"
proof -
  have "Int64ToBytes 100 = [100]" "Int64ToBytes 0 = [0]" "Int64ToBytes 1 = [1]" "Int64ToBytes 8 = [8]" "Int64ToBytes 2 = [2]"
    by code_simp+
  then show ?thesis
    by (simp add: block_header_def header_bytes_def enc_list_def sized_def enc_bytes_def)
qed

lemma header_decodes: "decodeAs BTPBlockHeader header_bytes = Ret block_header"
proof -
  have "UnmarshalFromBytes (enc block_header @ []) BTPBlockHeader = Ret (block_header, [])"
  proof (rule Unmarshal_enc)
    show "has_type block_header BTPBlockHeader" "type_ok BTPBlockHeader"
      by (simp_all add: block_header_def BTPBlockHeader_def intFits_def)
    show "int_len (enc block_header @ [])" by (simp add: header_enc int_len_def header_bytes_def)
  qed
  then show ?thesis by (simp add: decodeAs_def header_enc)
qed

lemma header_fields: "MainHeight block_header = 100" "UpdateNumber block_header = 8" "MessageCount block_header = 2"
  by (simp_all add: int_field_def block_header_def)

definition noticed :: "(bytes \<times> bytes) list btp2" where
  "noticed = following\<lparr>b_db := [(heightKey 100, header_bytes), (LastReceiveHeight, heightBytes 100)],
     b_rss := [\<lparr>rs_Height = 90, rs_Seq = 4\<rparr>, \<lparr>rs_Height = 100, rs_Seq = 6\<rparr>], b_seq := 6,
     b_out := [\<lparr>rs_Height = 100, rs_Seq = 6\<rparr>]\<rparr>"

lemma noticed_run: "btp2_onBlock one_block list_store ''ymQAgMABCIACgIA='' 100 following = (Ret (), noticed)"
  by (simp add: btp2_onBlock_def header_base64 header_decodes header_fields btp2_countMessages_def btp2_record_def
      one_block_def following_def newBTP2_def noticed_def list_store_def on_db_def setLastReceiveHeight_def
      addReceiveBlock_def put_p_def proc_defs bind_p_def Let_def)

theorem btp2_window_kept_witness:
  "btp2_window (snd (btp2_onBlock one_block list_store ''ymQAgMABCIACgIA='' 100 following)) \<and>
   btp2_window (snd (btp2_FinalizedStatus list_store (status_at 90 4) following))"
  by (rule btp2_window_kept)
    (auto simp: btp2_window_def following_def newBTP2_def ascending_def header_base64 header_decodes header_fields)

theorem btp2_block_recorded_witness:
  "\<exists>n. b_rss noticed = b_rss following @ [\<lparr>rs_Height = 100, rs_Seq = b_seq following + int n\<rparr>] \<and> n = 2 \<and>
     map_of (b_db noticed) (heightKey 100) = Some header_bytes"
proof -
  have "MainHeight block_header \<noteq> b_startHeight following" by (simp add: header_fields following_def)
  from btp2_block_recorded [OF list_store_laws header_base64 _ header_decodes this noticed_run]
  show ?thesis by (auto simp: header_fields one_block_def)
qed

lemma messages_base64: "decodeAll [''aGk='', ''eW91''] = Ret [[0x68, 0x69], [0x79, 0x6f, 0x75]]"
  by (simp add: base64_eval)

lemma one_block_faithful: "faithful one_block 1"
  by (auto simp: faithful_def one_block_def header_base64 header_decodes header_fields split: if_splits)

definition message_tree :: MerkleBinaryTree where
  "message_tree = \<lparr>t_root = Some (Bin (Tip (toy_hash [[0x68, 0x69]]) 1 1) (Tip (toy_hash [[0x79, 0x6f, 0x75]]) 1 1)
       (toy_hash [toy_hash [[0x68, 0x69]], toy_hash [[0x79, 0x6f, 0x75]]]) 2 2),
     t_contents = [Some [0x68, 0x69], Some [0x79, 0x6f, 0x75]]\<rparr>"

lemma message_tree_new: "NewMerkleBinaryTree (Some toy_hash) [Some [0x68, 0x69], Some [0x79, 0x6f, 0x75]] = Ret message_tree"
  by code_simp

lemma message_tree_len: "Len message_tree = 2"
  by (simp add: Len_def message_tree_def)

lemma toy_hash_ne: "\<forall>l. toy_hash l \<noteq> []"
  by (simp add: toy_hash_def)

lemma message_tree_built: "btp2_getMessage one_block toy_hash noticed 100 = Ret message_tree"
  using message_tree_new by (simp add: btp2_getMessage_def one_block_def messages_base64 del: decodeAll.simps)

text \<open>With the first of the two messages relayed, the proof of the second claims two more.\<close>

theorem btp2_message_proof_witness:
  "\<exists>mp p. btp2_BuildMessageProof one_block toy_hash noticed (status_at 100 5) 1000 = Ret (Some mp) \<and>
     ProofRoot toy_hash p = Ret (Root message_tree, 1, 2, None) \<and> length (p_Contents p) = 1 \<and> item_lastSeq mp = 7"
proof -
  have rs: "btp2_getReceiveStatusForHeight noticed (VHeight (status_at 100 5)) = Some \<lparr>rs_Height = 100, rs_Seq = 6\<rparr>"
    by (simp add: btp2_getReceiveStatusForHeight_def noticed_def status_at_def)
  have m: "btp2_getMessage one_block toy_hash noticed (VHeight (status_at 100 5)) = Ret message_tree"
    using message_tree_built by (simp add: status_at_def)
  note L = message_tree_len
  obtain q where P: "Proof message_tree 2 2 = Ret (Some q)"
    using Proof_verifies [OF message_tree_new toy_hash_ne, of 2 2] L by auto
  obtain mp where mp: "btp2_BuildMessageProof one_block toy_hash noticed (status_at 100 5) 1000 = Ret (Some mp)"
    "item_lastSeq mp = 7"
    using rs m P by (simp add: btp2_BuildMessageProof_def Let_def L status_at_def encodedProof_def btp2_NewMessageProof_enc
        mkMessageProof_def)
  from btp2_message_proof [OF mp(1) toy_hash_ne rs m] mp show ?thesis
    by (auto simp: L status_at_def)
qed

lemma noticed_ok: "btp2_ok (one_block, toy_hash, noticed)"
  using one_block_faithful by (simp add: noticed_def following_def btp2_window_def ascending_def)

text \<open>A link that starts at height 95 with four messages, and learns of the block at 100.\<close>

definition first_update :: item where
  "first_update = mkBlockUpdate (status_at 95 4) 100 (enc (BTPBlockUpdate header_bytes [1, 2]))"

definition first_proof :: item where
  "first_proof = mkMessageProof (status_at 100 4) 4 6 (enc (proof_val True
     \<lparr>p_ProofInLeft = [], p_Contents = t_contents message_tree, p_ProofInRight = []\<rparr>))"

lemma first_lengths: "item_Len first_update = 16" "item_Len first_proof = 13"
  by (simp_all add: first_update_def first_proof_def item_defs BTPBlockUpdate_def proof_val_def header_bytes_def
      message_tree_def enc_list_def sized_def enc_bytes_def nullSequence_def)

lemma first_update_built: "btp2_BuildBlockUpdate one_block noticed (status_at 95 4) 90 = Ret [first_update]"
proof -
  have h: "btp2_getBtpHeader one_block noticed 100 = Ret (header_bytes, [1, 2])"
    using header_base64 by (simp add: btp2_getBtpHeader_def one_block_def) (simp add: base64_eval)
  have "btp2_nextReceiveStatus noticed (status_at 95 4) = Ret (Some \<lparr>rs_Height = 100, rs_Seq = 6\<rparr>)"
    by (simp add: btp2_nextReceiveStatus_def noticed_def status_at_def)
  moreover have "length (enc (BTPBlockUpdate header_bytes [1, 2])) = 16"
    using first_lengths(1) by (simp add: first_update_def item_defs)
  ultimately show ?thesis
    by (simp add: btp2_BuildBlockUpdate_def h header_decodes header_fields MarshalToBytes_enc btp2_NewBlockUpdate_def first_update_def)
qed

lemma first_proof_built: "btp2_BuildMessageProof one_block toy_hash noticed (status_at 100 4) 74 = Ret (Some first_proof)"
proof -
  have rs: "btp2_getReceiveStatusForHeight noticed 100 = Some \<lparr>rs_Height = 100, rs_Seq = 6\<rparr>"
    by (simp add: btp2_getReceiveStatusForHeight_def noticed_def)
  obtain q where q: "Proof message_tree 1 1 = Ret (Some q)" "length (enc (proof_val False q)) \<le> 74"
  proof -
    have "case Proof message_tree 1 1 of Ret (Some q) \<Rightarrow> length (enc (proof_val False q)) \<le> 74 | _ \<Rightarrow> False" by code_simp
    then show thesis using that by (auto split: outcome.splits option.splits)
  qed
  have all: "Proof message_tree 1 2 = Ret (Some \<lparr>p_ProofInLeft = [], p_Contents = t_contents message_tree, p_ProofInRight = []\<rparr>)"
    using message_tree_len by (simp add: Proof_def ProofOfAll_def)
  have "proofLoop message_tree (status_at 100 4) 74 0 [1] = Ret None"
    using q message_tree_len by (simp add: encodedProof_def MarshalToBytes_enc)
  with all show ?thesis
    using rs message_tree_built message_tree_len
    by (simp add: btp2_BuildMessageProof_def status_at_def Let_def encodedProof_def btp2_NewMessageProof_enc first_proof_def upto.simps)
qed

lemma first_relay_built: "btp2_BuildRelayMessage [first_update, first_proof] = Ret (enc (relayed_items [first_update, first_proof]))"
  by (simp add: btp2_BuildRelayMessage_def NewTypePrefixedMessage_def RelayMessageTypeBlockUpdate_def
      RelayMessageTypeMessageProof_def first_update_def first_proof_def mkBlockUpdate_def mkMessageProof_def item_Type_def
      MarshalToBytes_enc relayed_items_def)

definition opened :: "(item, unit) link" where
  "opened = (NewLink ''btp://0x1.icon/cx00'' ())\<lparr>l_limitSize := 90, l_bls := status_at 95 4,
     l_p := s_GetPreference (calm_sender (status_at 95 4))\<rparr>"

definition relaying :: "(item, unit) link" where
  "relaying = opened\<lparr>l_rms := [(newRelayMessage (opened\<lparr>l_bls := status_at 100 6\<rparr>)
       (enc (relayed_items [first_update, first_proof])) [first_update, first_proof])\<lparr>rm_sendingStatus := True\<rparr>],
     l_rss := [\<lparr>rs_Height = 100, rs_Seq = 6\<rparr>], l_bls := status_at 100 6, l_relayState := PENDING, l_once := True\<rparr>"

lemma first_updates:
  "UpdateBMCLinkStatus first_update (status_at 95 4) = (None, status_at 100 4)"
  "UpdateBMCLinkStatus first_proof (status_at 100 4) = (None, status_at 100 6)"
  "ProofHeight first_update = 100"
  by (simp_all add: first_update_def first_proof_def UpdateBMCLinkStatus_def mkBlockUpdate_def mkMessageProof_def
      status_at_def ProofHeight_def)

lemma opened_run:
  "Start (btp2_receiver one_block toy_hash noticed) (calm_sender (status_at 95 4)) (NewLink ''btp://0x1.icon/cx00'' ()) = (Ret (), opened)"
  by (simp add: Start_def startSenderChannel_def updateBMCLinkStatus_def opt_fail_def opened_def calm_sender_def
      btp2_receiver_def btp2_Start_def btp2_getNetworkId_def btp2_setStartHeight_def one_block_def noticed_def following_def
      NewLink_def proc_defs bind_p_def)

lemma relaying_run:
  "onReceiveStatus (btp2_receiver one_block toy_hash noticed) (calm_sender (status_at 95 4)) (Suc (Suc (Suc 0)))
     \<lparr>rs_Height = 100, rs_Seq = 6\<rparr> opened = (Ret (), relaying)"
proof -
  have st: "VHeight (status_at h q) = h" "RxSeq (status_at h q) = q" for h q by (simp_all add: status_at_def)
  show ?thesis
    by (simp add: onReceiveStatus_def handleUndeliveredRelayMessage_def handleRelayMessage_def sendRelayMessage_def
        buildRelayMessage_def buildProof_def buildMessageProof_def updateBls_def appendRelayMessageItem_def appendRelayMessage_def
        resetRelayMessageItem_def report_def getReceiveStatusForHeight_def targetSeq_def emptyProof_def needsBlockProof_def
        isOverLimit_def behind_def opened_def relaying_def NewLink_def calm_sender_def btp2_receiver_def
        first_update_built first_proof_built first_relay_built first_lengths first_updates st newRelayMessage_def
        proc_defs bind_p_def)
qed

theorem btp2_relay_message_decodes_witness:
  "\<exists>bs. btp2_BuildRelayMessage [first_update, first_proof] = Ret bs \<and>
     UnmarshalFromBytes bs BTPRelayMessage = Ret (relayed_items [first_update, first_proof], [])"
proof (rule btp2_relay_message_decodes)
  have "Int64ToBytes 1 = [1]" "Int64ToBytes 2 = [2]" by code_simp+
  moreover have "length (payload (body first_update)) = 16" "length (payload (body first_proof)) = 13"
    using first_lengths by (simp_all add: item_Len_def)
  ultimately show "length (enc (relayed_items [first_update, first_proof])) < 2 ^ 63"
    by (simp add: relayed_items_def first_update_def first_proof_def mkBlockUpdate_def mkMessageProof_def
        enc_list_def sized_def enc_bytes_def)
qed (simp add: first_update_def first_proof_def mkBlockUpdate_def mkMessageProof_def item_Type_def)

end
