(* ===== verification/Bridge_Receiver.thy ===== *)
theory Bridge_Receiver
  imports Btp2_Receiver
begin

text \<open>
  The ICON bridge receiver (src/chain/icon/bridge): like the btp2 receiver it follows BTP blocks, but it
  relays receipts with the messages instead of Merkle proofs, and its block updates carry
  nothing. The client and the Keccak hash (go-ethereum) are parameters.
\<close>

section \<open>Data\<close>

record Event =
  Next :: bytes
  Sequence :: int
  Message :: bytes

record ReceiptProof =
  rp_Index :: int
  rp_Events :: "Event list"
  rp_Height :: int

record bridgeStatus =
  gs_height :: int
  gs_seq :: int
  gs_rp :: ReceiptProof

text \<open>\<open>g_rs\<close> is the last status, of which only height and sequence number are read.\<close>

record bridge =
  g_nid :: int
  g_rss :: "bridgeStatus list"
  g_rs :: "int \<times> int"
  g_startHeight :: int
  g_out :: "bridgeStatus list"

type_synonym 'a gproc = "(bridge, err, 'a) proc"

definition newBridge :: bridge where
  "newBridge = \<lparr>g_nid = 0, g_rss = [], g_rs = (0, 0), g_startHeight = 0, g_out = []\<rparr>"

section \<open>Receiving\<close>

definition messageToEvent :: "(bytes \<Rightarrow> bytes) \<Rightarrow> string \<Rightarrow> string \<Rightarrow> int \<Rightarrow> Event result" where
  "messageToEvent K next msg seq = bind_r (base64_DecodeString msg) (\<lambda>b.
     Ret \<lparr>Next = K (string_bytes next), Sequence = seq, Message = b\<rparr>)"

text \<open>The events of a block: the messages are numbered from \<open>sn\<close>; those up to \<open>rxSeq\<close> are left out.\<close>

fun newEvents :: "(bytes \<Rightarrow> bytes) \<Rightarrow> string \<Rightarrow> int \<Rightarrow> int \<Rightarrow> string list \<Rightarrow> Event list result" where
  "newEvents K next rxSeq sn [] = Ret []"
| "newEvents K next rxSeq sn (m # ms) = (if sn > rxSeq
     then bind_r (messageToEvent K next m sn) (\<lambda>e. bind_r (newEvents K next rxSeq (sn + 1) ms) (\<lambda>es. Ret (e # es)))
     else newEvents K next rxSeq (sn + 1) ms)"

definition bridge_newReceiveStatus ::
    "(bytes \<Rightarrow> bytes) \<Rightarrow> int \<Rightarrow> int \<Rightarrow> int \<Rightarrow> string list \<Rightarrow> string \<Rightarrow> bridgeStatus result" where
  "bridge_newReceiveStatus K height rxSeq sn msgs next = bind_r (newEvents K next rxSeq sn msgs) (\<lambda>evts.
     Ret \<lparr>gs_height = height, gs_seq = sn, gs_rp = \<lparr>rp_Index = 0, rp_Events = evts, rp_Height = height\<rparr>\<rparr>)"

definition bridge_getNetworkId :: "iconClient \<Rightarrow> unit gproc" where
  "bridge_getNetworkId C = get_p (\<lambda>b. if g_nid b = 0
     then bind_p (lift_p (ic_GetBTPLinkNetworkId C)) (\<lambda>nid. modify_p (\<lambda>b. b\<lparr>g_nid := nid\<rparr>))
     else ret_p ())"

definition bridge_setStartHeight :: "iconClient \<Rightarrow> unit gproc" where
  "bridge_setStartHeight C = get_p (\<lambda>b. bind_p (lift_p (ic_GetBTPNetworkInfo C (g_nid b))) (\<lambda>sh.
     modify_p (\<lambda>b. b\<lparr>g_startHeight := (case sh of None \<Rightarrow> 0 | Some h \<Rightarrow> h) + 1\<rparr>)))"

definition bridge_Start :: "iconClient \<Rightarrow> unit gproc" where
  "bridge_Start C = then_p (bridge_getNetworkId C) (bridge_setStartHeight C)"

text \<open>\<open>monitoring\<close> and \<open>monitorBTP2Block\<close> up to the request: the height asked for, and the offset.\<close>

definition bridge_monitoring :: "iconClient \<Rightarrow> bmcLinkStatus \<Rightarrow> (int \<times> int) gproc" where
  "bridge_monitoring C bls = (if VHeight bls < 1 then fail_p (StdError ''cannot catchup from zero height'')
     else bind_p (lift_p (ic_GetBTPLinkOffset C)) (\<lambda>offset.
       then_p (modify_p (\<lambda>b. if fst (g_rs b) = 0 then b\<lparr>g_rs := (VHeight bls, RxSeq bls)\<rparr> else b))
         (ret_p (VHeight bls, offset + 1))))"

text \<open>The status from which monitoring restarts after a connection error.\<close>

definition bridge_restart :: "bridge \<Rightarrow> bmcLinkStatus" where
  "bridge_restart b = bls_of 0 (snd (g_rs b)) (fst (g_rs b))"

text \<open>The callback for one notification; \<open>bls\<close> and \<open>offset\<close> are those of the monitoring call.\<close>

definition bridge_onBlock ::
    "iconClient \<Rightarrow> (bytes \<Rightarrow> bytes) \<Rightarrow> string \<Rightarrow> bmcLinkStatus \<Rightarrow> int \<Rightarrow> string \<Rightarrow> unit gproc" where
  "bridge_onBlock C K dst bls offset header =
     bind_p (lift_p (base64_DecodeString header)) (\<lambda>h.
     bind_p (lift_p (decodeAs BTPBlockHeader h)) (\<lambda>bh. get_p (\<lambda>b.
       if MainHeight bh \<noteq> g_startHeight b then
         bind_p (lift_p (ic_GetBTPMessage C (MainHeight bh) (g_nid b))) (\<lambda>msgs.
         bind_p (lift_p (bridge_newReceiveStatus K (MainHeight bh) (RxSeq bls) (offset + UpdateNumber bh div 2) msgs dst))
           (\<lambda>rs. modify_p (\<lambda>b. b\<lparr>g_rs := (gs_height rs, gs_seq rs), g_rss := g_rss b @ [rs], g_out := g_out b @ [rs]\<rparr>)))
       else ret_p ())))"

definition bridge_nextReceiveStatus :: "bridge \<Rightarrow> bmcLinkStatus \<Rightarrow> bridgeStatus option result" where
  "bridge_nextReceiveStatus b bls = nextStatus gs_height (g_rss b) (VHeight bls)"

definition bridge_clearReceiveStatus :: "bmcLinkStatus \<Rightarrow> unit gproc" where
  "bridge_clearReceiveStatus bls = modify_p (\<lambda>b. b\<lparr>g_rss := clearStatus gs_height gs_seq (g_rss b) bls\<rparr>)"

definition bridge_getReceiveStatusForSequence :: "bridge \<Rightarrow> int \<Rightarrow> bridgeStatus option" where
  "bridge_getReceiveStatusForSequence b seq = List.find (\<lambda>rs. gs_seq rs \<le> seq \<and> seq \<le> gs_seq rs) (g_rss b)"

definition bridge_GetHeightForSeq :: "bridge \<Rightarrow> int \<Rightarrow> int" where
  "bridge_GetHeightForSeq b seq = (case bridge_getReceiveStatusForSequence b seq of
     Some rs \<Rightarrow> gs_height rs | None \<Rightarrow> 0)"

definition bridge_GetStatus :: "bridge \<Rightarrow> bridgeStatus result" where
  "bridge_GetStatus b = (if g_rss b = [] then Panic else Ret (last (g_rss b)))"

section \<open>Building\<close>

definition bridge_newBlockUpdate :: "bmcLinkStatus \<Rightarrow> int \<Rightarrow> item" where
  "bridge_newBlockUpdate bs target = mkBlockUpdate bs target []"

text \<open>A nil status is dereferenced.\<close>

definition bridge_BuildBlockUpdate :: "bridge \<Rightarrow> bmcLinkStatus \<Rightarrow> int \<Rightarrow> item list result" where
  "bridge_BuildBlockUpdate b bls limit = bind_r (bridge_nextReceiveStatus b bls) (\<lambda>rs. case rs of
     None \<Rightarrow> Panic | Some rs \<Rightarrow> Ret [bridge_newBlockUpdate bls (gs_height rs)])"

definition bridge_BuildBlockProof :: "bridge \<Rightarrow> bmcLinkStatus \<Rightarrow> int \<Rightarrow> item option result" where
  "bridge_BuildBlockProof b bls height = Ret None"

text \<open>The encodings of events, of a receipt and of a relay message.\<close>

definition event_val :: "Event \<Rightarrow> gval" where
  "event_val e = VStruct [VBytes (Some (Next e)), VPrim (PInt (word_of_int (Sequence e))), VBytes (Some (Message e))]"

definition receipt_val :: "int \<Rightarrow> bytes \<Rightarrow> int \<Rightarrow> gval" where
  "receipt_val index events height =
     VStruct [VPrim (PInt (word_of_int index)), VBytes (Some events), VPrim (PInt (word_of_int height))]"

definition relay_val :: "bytes list \<Rightarrow> gval" where
  "relay_val receipts = VStruct [VSlice (Some (map (\<lambda>r. VBytes (Some r)) receipts))]"

definition bridge_newMessageProof :: "bmcLinkStatus \<Rightarrow> int \<Rightarrow> ReceiptProof \<Rightarrow> item result" where
  "bridge_newMessageProof bs ls rp =
     bind_r (MarshalToBytes (VSlice (Some (map (\<lambda>e. VPtr (Some (event_val e))) (rp_Events rp))))) (\<lambda>evts.
     bind_r (MarshalToBytes (VPtr (Some (receipt_val (rp_Index rp) evts (rp_Height rp))))) (\<lambda>r.
     bind_r (MarshalToBytes (VPtr (Some (relay_val [r])))) (\<lambda>b.
       Ret (mkMessageProof bs (RxSeq bs) ls b))))"

text \<open>\<open>unsafe.Sizeof\<close> of a pointer to an event.\<close>

definition sizeOfEvent :: "Event \<Rightarrow> int" where
  "sizeOfEvent rp = 8"

text \<open>The loop over the indices from the offset on; an index outside the events panics.\<close>

fun bridge_proofLoop ::
    "bridgeStatus \<Rightarrow> bmcLinkStatus \<Rightarrow> int \<Rightarrow> int list \<Rightarrow> Event list \<Rightarrow> int \<Rightarrow> item result" where
  "bridge_proofLoop rs bls limit [] evts rmSize =
     bridge_newMessageProof bls (RxSeq bls + int (length (rp_Events (gs_rp rs))))
       \<lparr>rp_Index = rp_Index (gs_rp rs), rp_Events = evts, rp_Height = gs_height rs\<rparr>"
| "bridge_proofLoop rs bls limit (i # is) evts rmSize =
     (if i < 0 \<or> int (length (rp_Events (gs_rp rs))) \<le> i then Panic
      else let e = rp_Events (gs_rp rs) ! nat i; size = sizeOfEvent e
        in if limit < rmSize + size
           then bridge_newMessageProof bls (RxSeq bls + i)
             \<lparr>rp_Index = rp_Index (gs_rp rs), rp_Events = evts, rp_Height = gs_height rs\<rparr>
           else bridge_proofLoop rs bls limit is (evts @ [e]) (rmSize + size))"

definition bridge_BuildMessageProof :: "bridge \<Rightarrow> bmcLinkStatus \<Rightarrow> int \<Rightarrow> item option result" where
  "bridge_BuildMessageProof b bls limit = (case bridge_getReceiveStatusForSequence b (RxSeq bls + 1) of
      None \<Rightarrow> Ret None
    | Some rs \<Rightarrow> let messageCnt = int (length (rp_Events (gs_rp rs))); offset = RxSeq bls - (gs_seq rs - messageCnt)
        in bind_r (bridge_proofLoop rs bls limit [offset..messageCnt - 1] [] 0) (\<lambda>mp. Ret (Some mp)))"

text \<open>Only the first message proof among the items is relayed; without one the message is nil.\<close>

fun bridge_BuildRelayMessage :: "item list \<Rightarrow> bytes result" where
  "bridge_BuildRelayMessage [] = Ret []"
| "bridge_BuildRelayMessage (rmi # rmis) = (if item_Type rmi = TypeMessageProof
     then (case rmi of messageProof r s l \<Rightarrow> Ret (payload r) | blockUpdate r h s t \<Rightarrow> Panic)
     else bridge_BuildRelayMessage rmis)"

definition bridge_receiver :: "iconClient \<Rightarrow> bridge \<Rightarrow> item receiver" where
  "bridge_receiver C b = \<lparr>r_Type = item_Type, r_Len = item_Len, r_Update = UpdateBMCLinkStatus,
     r_ProofHeight = ProofHeight,
     r_Start = (\<lambda>bls. case fst (bridge_Start C b) of Fail e \<Rightarrow> Some e | _ \<Rightarrow> None),
     r_BuildBlockUpdate = bridge_BuildBlockUpdate b, r_BuildBlockProof = bridge_BuildBlockProof b,
     r_BuildMessageProof = bridge_BuildMessageProof b, r_GetHeightForSeq = bridge_GetHeightForSeq b,
     r_BuildRelayMessage = bridge_BuildRelayMessage\<rparr>"

section \<open>Receive statuses\<close>

lemma newEvents_spec:
  "newEvents K next rxSeq sn msgs = Ret evts \<Longrightarrow>
   map Sequence evts = filter (\<lambda>s. s > rxSeq) [sn..sn + int (length msgs) - 1] \<and>
   (\<forall>e\<in>set evts. Next e = K (string_bytes next) \<and>
      (\<exists>m. msgs ! nat (Sequence e - sn) = m \<and> base64_DecodeString m = Ret (Message e)))"
proof (induction msgs arbitrary: sn evts)
  case (Cons m ms)
  have u: "[sn..sn + int (length (m # ms)) - 1] = sn # [sn + 1..sn + 1 + int (length ms) - 1]"
    by (simp add: upto.simps [of sn])
  have idx: "nat (s - sn) = Suc (nat (s - (sn + 1)))" if "sn + 1 \<le> s" for s
    using that by simp
  show ?case
  proof (cases "sn > rxSeq")
    case True
    with Cons.prems obtain e es where e: "messageToEvent K next m sn = Ret e"
      "newEvents K next rxSeq (sn + 1) ms = Ret es" "evts = e # es" by (auto simp: bind_r_Ret)
    note IH = Cons.IH [OF e(2)]
    have "Next e = K (string_bytes next)" "Sequence e = sn" "base64_DecodeString m = Ret (Message e)"
      using e(1) by (auto simp: messageToEvent_def bind_r_Ret)
    moreover have "sn + 1 \<le> Sequence x" if "x \<in> set es" for x
    proof -
      have "Sequence x \<in> set (map Sequence es)" using that by simp
      with IH show ?thesis by auto
    qed
    ultimately show ?thesis using True IH e(3) unfolding u by (auto simp: idx)
  next
    case False
    with Cons.prems have n: "newEvents K next rxSeq (sn + 1) ms = Ret evts" by simp
    note IH = Cons.IH [OF n]
    have "sn + 1 \<le> Sequence x" if "x \<in> set evts" for x
    proof -
      have "Sequence x \<in> set (map Sequence evts)" using that by simp
      with IH show ?thesis by auto
    qed
    with False IH show ?thesis unfolding u by (auto simp: idx)
  qed
qed simp

text \<open>
  The status of a block carries an event for each message numbered above the relayed sequence
  number, in order, decoded from that message; but its sequence number is the number of the first
  message of the block, not of the last.
\<close>
theorem bridge_status_events:
  assumes "bridge_newReceiveStatus K height rxSeq sn msgs next = Ret rs"
  shows "gs_height rs = height \<and> gs_seq rs = sn \<and>
    map Sequence (rp_Events (gs_rp rs)) = filter (\<lambda>s. s > rxSeq) [sn..sn + int (length msgs) - 1] \<and>
    (\<forall>e\<in>set (rp_Events (gs_rp rs)). base64_DecodeString (msgs ! nat (Sequence e - sn)) = Ret (Message e))"
  using assms newEvents_spec [of K "next" rxSeq sn msgs]
  by (auto simp: bridge_newReceiveStatus_def bind_r_Ret)

section \<open>Message proofs\<close>

lemma bridge_newMessageProof_enc:
  "\<exists>b. bridge_newMessageProof bs ls rp = Ret (mkMessageProof bs (RxSeq bs) ls b)"
  by (auto simp: bridge_newMessageProof_def MarshalToBytes_enc)

lemma bridge_message_proof_eq:
  assumes "bridge_getReceiveStatusForSequence b (RxSeq bls + 1) = Some rs" and "rp_Events (gs_rp rs) \<noteq> []"
  shows "bridge_BuildMessageProof b bls limit = bind_r (if limit < 8
     then bridge_newMessageProof bls (RxSeq bls + (int (length (rp_Events (gs_rp rs))) - 1))
       \<lparr>rp_Index = rp_Index (gs_rp rs), rp_Events = [], rp_Height = gs_height rs\<rparr>
     else bridge_newMessageProof bls (RxSeq bls + int (length (rp_Events (gs_rp rs))))
       \<lparr>rp_Index = rp_Index (gs_rp rs), rp_Events = [last (rp_Events (gs_rp rs))], rp_Height = gs_height rs\<rparr>)
     (\<lambda>mp. Ret (Some mp))"
proof -
  let ?n = "int (length (rp_Events (gs_rp rs)))"
  from assms(1) have "gs_seq rs = RxSeq bls + 1"
    by (auto simp: bridge_getReceiveStatusForSequence_def find_Some_iff)
  then have off: "RxSeq bls - (gs_seq rs - ?n) = ?n - 1" by simp
  have "nat (?n - 1) = length (rp_Events (gs_rp rs)) - 1" "0 < length (rp_Events (gs_rp rs))" using assms(2) by auto
  then show ?thesis
    using assms by (simp add: bridge_BuildMessageProof_def Let_def off sizeOfEvent_def last_conv_nth)
qed

text \<open>
  C38: for a block whose first message is the next to relay, and which has several, the message
  proof carries the last event only, and yet advances the sequence number by all of them; only
  a block of one message is relayed completely. When the limit is below the size of a pointer,
  the proof carries no event and still skips all messages but one.
\<close>
theorem bridge_message_proof:
  assumes "bridge_getReceiveStatusForSequence b (RxSeq bls + 1) = Some rs" and "rp_Events (gs_rp rs) \<noteq> []"
  shows "bridge_BuildMessageProof b bls limit = bind_r (if limit < 8
     then bridge_newMessageProof bls (RxSeq bls + (int (length (rp_Events (gs_rp rs))) - 1))
       \<lparr>rp_Index = rp_Index (gs_rp rs), rp_Events = [], rp_Height = gs_height rs\<rparr>
     else bridge_newMessageProof bls (RxSeq bls + int (length (rp_Events (gs_rp rs))))
       \<lparr>rp_Index = rp_Index (gs_rp rs), rp_Events = [last (rp_Events (gs_rp rs))], rp_Height = gs_height rs\<rparr>)
     (\<lambda>mp. Ret (Some mp))"
  by (rule bridge_message_proof_eq [OF assms])

lemma bridge_empty_block_panic:
  assumes "bridge_getReceiveStatusForSequence b (RxSeq bls + 1) = Some rs" and "rp_Events (gs_rp rs) = []"
  shows "bridge_BuildMessageProof b bls limit = Panic"
proof -
  from assms(1) have "gs_seq rs = RxSeq bls + 1"
    by (auto simp: bridge_getReceiveStatusForSequence_def find_Some_iff)
  then show ?thesis using assms by (simp add: bridge_BuildMessageProof_def upto.simps)
qed

text \<open>
  A block without messages whose number is the next sequence number makes \<open>BuildMessageProof\<close>
  index its events at \<open>-1\<close> and panic.
\<close>
theorem bridge_empty_block_panics:
  assumes "bridge_getReceiveStatusForSequence b (RxSeq bls + 1) = Some rs" and "rp_Events (gs_rp rs) = []"
  shows "bridge_BuildMessageProof b bls limit = Panic"
  by (rule bridge_empty_block_panic [OF assms])

section \<open>With the link\<close>

lemma bridge_BuildMessageProof_Ret:
  assumes "bridge_BuildMessageProof b bls limit = Ret (Some i)"
  shows "VHeight (nextBls (body i)) = VHeight bls \<and> RxSeq bls \<le> RxSeq (nextBls (body i))"
proof -
  from assms obtain rs where rs: "bridge_getReceiveStatusForSequence b (RxSeq bls + 1) = Some rs"
    by (auto simp: bridge_BuildMessageProof_def split: option.splits)
  show ?thesis
  proof (cases "rp_Events (gs_rp rs) = []")
    case True
    with bridge_empty_block_panic rs assms show ?thesis by simp
  next
    case False
    then have "0 < length (rp_Events (gs_rp rs))" by simp
    with assms bridge_message_proof_eq [OF rs False, of limit] show ?thesis
      by (auto simp: bind_r_Ret bridge_newMessageProof_def MarshalToBytes_enc mkMessageProof_def split: if_splits)
  qed
qed

lemma bridge_BuildBlockUpdate_Ret:
  assumes "ascending gs_height (g_rss b)" and "bridge_BuildBlockUpdate b bls limit = Ret bus"
  shows "\<exists>i. bus = [i] \<and> VHeight bls < VHeight (nextBls (body i)) \<and> RxSeq (nextBls (body i)) = RxSeq bls"
proof -
  from assms(2) obtain rs where rs: "bridge_nextReceiveStatus b bls = Ret (Some rs)"
    and bus: "bus = [bridge_newBlockUpdate bls (gs_height rs)]"
    by (auto simp: bridge_BuildBlockUpdate_def bind_r_Ret split: option.splits)
  from nextStatus_above [OF assms(1)] rs have "VHeight bls < gs_height rs"
    by (auto simp: bridge_nextReceiveStatus_def)
  with bus show ?thesis by (simp add: bridge_newBlockUpdate_def mkBlockUpdate_def)
qed

fun bridge_of :: "iconClient \<times> bridge \<Rightarrow> item receiver" where
  "bridge_of (C, b) = bridge_receiver C b"

fun bridge_ok :: "iconClient \<times> bridge \<Rightarrow> bool" where
  "bridge_ok (C, b) \<longleftrightarrow> ascending gs_height (g_rss b)"

interpretation bridge: chain_receiver bridge_of bridge_ok
proof (unfold_locales, goal_cases)
  case (4 s b lim i)
  then show ?case by (cases s) (auto simp: bridge_receiver_def dest: bridge_BuildMessageProof_Ret)
next
  case (5 s b lim bus)
  then show ?case by (cases s) (auto simp: bridge_receiver_def dest: bridge_BuildBlockUpdate_Ret)
qed (auto simp: bridge_receiver_def bridge_BuildBlockProof_def)

section \<open>An instance\<close>

text \<open>The bridge at the node of one block, whose two messages have the numbers 5 and 6.\<close>

definition bridge_start :: bridge where
  "bridge_start = newBridge\<lparr>g_nid := 1, g_rs := (95, 4), g_startHeight := 11\<rparr>"

definition two_events :: "Event list" where
  "two_events = [\<lparr>Next = [7], Sequence = 5, Message = [0x68, 0x69]\<rparr>, \<lparr>Next = [7], Sequence = 6, Message = [0x79, 0x6f, 0x75]\<rparr>]"

definition status_100 :: bridgeStatus where
  "status_100 = \<lparr>gs_height = 100, gs_seq = 5, gs_rp = \<lparr>rp_Index = 0, rp_Events = two_events, rp_Height = 100\<rparr>\<rparr>"

definition bridge_noticed :: bridge where
  "bridge_noticed = bridge_start\<lparr>g_rs := (100, 5), g_rss := [status_100], g_out := [status_100]\<rparr>"

lemma status_100_new: "bridge_newReceiveStatus (\<lambda>b. [7]) 100 4 5 [''aGk='', ''eW91''] ''btp://x'' = Ret status_100"
proof -
  have "base64_DecodeString ''aGk='' = Ret [0x68, 0x69]" "base64_DecodeString ''eW91'' = Ret [0x79, 0x6f, 0x75]"
    by (simp_all add: base64_eval)
  then show ?thesis
    by (simp add: bridge_newReceiveStatus_def messageToEvent_def status_100_def two_events_def)
qed

lemma bridge_noticed_run:
  "bridge_onBlock one_block (\<lambda>b. [7]) ''btp://x'' (status_at 95 4) 1 ''ymQAgMABCIACgIA='' bridge_start = (Ret (), bridge_noticed)"
proof -
  have "ic_GetBTPMessage one_block 100 n = Ret [''aGk='', ''eW91'']" for n by (simp add: one_block_def)
  then show ?thesis
    using status_100_new
    by (simp add: bridge_onBlock_def header_base64 header_decodes header_fields bridge_start_def newBridge_def status_at_def
        bridge_noticed_def proc_defs bind_p_def) (simp add: status_100_def)
qed

theorem bridge_status_events_witness:
  "map Sequence (rp_Events (gs_rp status_100)) = [5, 6]"
  using bridge_status_events [OF status_100_new] by (simp add: upto.simps)

lemma bridge_noticed_seq: "bridge_getReceiveStatusForSequence bridge_noticed 5 = Some status_100"
  by (simp add: bridge_getReceiveStatusForSequence_def bridge_noticed_def status_100_def)

text \<open>The first of the two messages, number 5, is in no proof.\<close>

theorem bridge_message_proof_witness:
  "\<exists>mp. bridge_BuildMessageProof bridge_noticed (status_at 100 4) 1000 = Ret (Some mp) \<and>
     bridge_newMessageProof (status_at 100 4) 6 \<lparr>rp_Index = 0, rp_Events = [two_events ! 1], rp_Height = 100\<rparr> = Ret mp"
proof -
  have s: "bridge_getReceiveStatusForSequence bridge_noticed (RxSeq (status_at 100 4) + 1) = Some status_100"
    using bridge_noticed_seq by (simp add: status_at_def)
  have ne: "rp_Events (gs_rp status_100) \<noteq> []" by (simp add: status_100_def two_events_def)
  obtain b where "bridge_newMessageProof (status_at 100 4) 6 \<lparr>rp_Index = 0, rp_Events = [two_events ! 1], rp_Height = 100\<rparr>
      = Ret (mkMessageProof (status_at 100 4) (RxSeq (status_at 100 4)) 6 b)"
    using bridge_newMessageProof_enc by blast
  with bridge_message_proof [OF s ne, of 1000] show ?thesis
    by (simp add: status_100_def two_events_def status_at_def)
qed

definition bridge_idle :: bridge where
  "bridge_idle = bridge_start\<lparr>g_rss := [\<lparr>gs_height = 100, gs_seq = 5,
     gs_rp = \<lparr>rp_Index = 0, rp_Events = [], rp_Height = 100\<rparr>\<rparr>]\<rparr>"

theorem bridge_empty_block_panics_witness:
  "bridge_BuildMessageProof bridge_idle (status_at 100 4) 1000 = Panic"
  by (rule bridge_empty_block_panics [of _ _ "hd (g_rss bridge_idle)"])
    (simp_all add: bridge_getReceiveStatusForSequence_def bridge_idle_def status_at_def)

definition bridge_update :: item where
  "bridge_update = mkBlockUpdate (status_at 95 4) 100 []"

definition bridge_proof :: item where
  "bridge_proof = mkMessageProof (status_at 100 4) 4 6 (enc (relay_val [enc (receipt_val 0
     (enc (VSlice (Some [event_val (two_events ! 1)]))) 100)]))"

lemma bridge_update_built: "bridge_BuildBlockUpdate bridge_noticed (status_at 95 4) 90 = Ret [bridge_update]"
  by (simp add: bridge_BuildBlockUpdate_def bridge_nextReceiveStatus_def bridge_noticed_def status_100_def status_at_def
      bridge_newBlockUpdate_def bridge_update_def)

lemma bridge_proof_built: "bridge_BuildMessageProof bridge_noticed (status_at 100 4) 90 = Ret (Some bridge_proof)"
proof -
  have s: "bridge_getReceiveStatusForSequence bridge_noticed (RxSeq (status_at 100 4) + 1) = Some status_100"
    using bridge_noticed_seq by (simp add: status_at_def)
  have ne: "rp_Events (gs_rp status_100) \<noteq> []" by (simp add: status_100_def two_events_def)
  from bridge_message_proof_eq [OF s ne, of 90] show ?thesis
    by (simp add: status_100_def two_events_def status_at_def bridge_newMessageProof_def MarshalToBytes_enc bridge_proof_def)
qed

lemma bridge_lengths: "item_Len bridge_update = 0" "item_Len bridge_proof = 15"
proof -
  have "Int64ToBytes 0 = [0]" "Int64ToBytes 100 = [100]" "Int64ToBytes 6 = [6]" by code_simp+
  then show "item_Len bridge_update = 0" "item_Len bridge_proof = 15"
    by (simp_all add: bridge_update_def bridge_proof_def item_defs relay_val_def receipt_val_def event_val_def two_events_def
        enc_list_def sized_def enc_bytes_def)
qed

lemma bridge_updates:
  "UpdateBMCLinkStatus bridge_update (status_at 95 4) = (None, status_at 100 4)"
  "UpdateBMCLinkStatus bridge_proof (status_at 100 4) = (None, status_at 100 6)"
  "ProofHeight bridge_update = 100"
  by (simp_all add: bridge_update_def bridge_proof_def UpdateBMCLinkStatus_def mkBlockUpdate_def mkMessageProof_def
      status_at_def ProofHeight_def)

lemma bridge_relay_built: "bridge_BuildRelayMessage [bridge_update, bridge_proof] = Ret (payload (body bridge_proof))"
  by (simp add: bridge_update_def bridge_proof_def mkBlockUpdate_def mkMessageProof_def item_Type_def)

definition bridge_relaying :: "(item, unit) link" where
  "bridge_relaying = opened\<lparr>l_rms := [(newRelayMessage (opened\<lparr>l_bls := status_at 100 6\<rparr>)
       (payload (body bridge_proof)) [bridge_update, bridge_proof])\<lparr>rm_sendingStatus := True\<rparr>],
     l_rss := [\<lparr>rs_Height = 100, rs_Seq = 5\<rparr>], l_bls := status_at 100 6, l_relayState := PENDING, l_once := True\<rparr>"

lemma bridge_opened_run:
  "Start (bridge_receiver one_block bridge_noticed) (calm_sender (status_at 95 4)) (NewLink ''btp://0x1.icon/cx00'' ()) = (Ret (), opened)"
  by (simp add: Start_def startSenderChannel_def updateBMCLinkStatus_def opt_fail_def opened_def calm_sender_def
      bridge_receiver_def bridge_Start_def bridge_getNetworkId_def bridge_setStartHeight_def one_block_def bridge_noticed_def
      bridge_start_def newBridge_def NewLink_def proc_defs bind_p_def)

lemma bridge_relaying_run:
  "onReceiveStatus (bridge_receiver one_block bridge_noticed) (calm_sender (status_at 95 4)) (Suc (Suc (Suc 0)))
     \<lparr>rs_Height = 100, rs_Seq = 5\<rparr> opened = (Ret (), bridge_relaying)"
proof -
  have st: "VHeight (status_at h q) = h" "RxSeq (status_at h q) = q" for h q by (simp_all add: status_at_def)
  show ?thesis
    by (simp add: onReceiveStatus_def handleUndeliveredRelayMessage_def handleRelayMessage_def sendRelayMessage_def
        buildRelayMessage_def buildProof_def buildMessageProof_def updateBls_def appendRelayMessageItem_def appendRelayMessage_def
        resetRelayMessageItem_def report_def getReceiveStatusForHeight_def targetSeq_def emptyProof_def needsBlockProof_def
        isOverLimit_def behind_def opened_def bridge_relaying_def NewLink_def calm_sender_def bridge_receiver_def
        bridge_update_built bridge_proof_built bridge_relay_built bridge_lengths bridge_updates st newRelayMessage_def
        proc_defs bind_p_def del: bridge_BuildRelayMessage.simps)
qed

end
