(* ===== verification/Ethbr_Receiver.thy ===== *)
theory Ethbr_Receiver
  imports Bridge_Receiver
begin

text \<open>
  The EVM bridge receiver (src/chain/ethbr): it follows the blocks of an EVM chain, collects the
  Message events of the BMC contract for its link into receive statuses, and builds message
  proofs that carry the receipts. The ABI decoder, Keccak and the RLP encoder of go-ethereum are
  parameters, the store is the one of the received blocks; the node is represented by
  the handler of one block notification.
\<close>

section \<open>State\<close>

record ethLog =
  el_Topics :: "bytes list"
  el_Data :: bytes
  el_TxIndex :: int
  el_BlockNumber :: int

record BlockNotification =
  v_Height :: int
  v_Logs :: "ethLog list"

record ethbrStatus =
  es_height :: int
  es_startSeq :: int
  es_lastSeq :: int
  es_rps :: "ReceiptProof list"

record 'd ethbr =
  e_db :: 'd
  e_rss :: "ethbrStatus list"
  e_seq :: int
  e_receiveHeight :: int
  e_out :: "ethbrStatus list"

type_synonym ('d, 'a) eproc = "('d ethbr, err, 'a) proc"

definition newEthBridge :: "'d \<Rightarrow> 'd ethbr" where
  "newEthBridge d = \<lparr>e_db = d, e_rss = [], e_seq = 0, e_receiveHeight = 0, e_out = []\<rparr>"

text \<open>\<open>big.Int.Int64\<close>, and the conversion of an unsigned integer: the low 64 bits.\<close>

definition Int64 :: "int \<Rightarrow> int" where
  "Int64 i = sint (word_of_int i :: 64 word)"

section \<open>The database\<close>

text \<open>The methods of the receiver on its database, which are those of the btp2 receiver.\<close>

definition ethbr_on_db :: "('d, 'a) dproc \<Rightarrow> ('d, 'a) eproc" where
  "ethbr_on_db m = (\<lambda>e. case m (e_db e) of (r, d) \<Rightarrow> (r, e\<lparr>e_db := d\<rparr>))"

definition ethbr_getFirstHeightForReceiveBlock :: "'d leveldb \<Rightarrow> 'd ethbr \<Rightarrow> int" where
  "ethbr_getFirstHeightForReceiveBlock D e = getFirstHeightForReceiveBlock D (e_db e)"

definition ethbr_addBTPBlockDatabase :: "'d leveldb \<Rightarrow> int \<Rightarrow> bytes \<Rightarrow> ('d, unit) eproc" where
  "ethbr_addBTPBlockDatabase D height data = ethbr_on_db (addReceiveBlock D height data)"

definition ethbr_removeAllReceiveBlock :: "'d leveldb \<Rightarrow> ('d, unit) eproc" where
  "ethbr_removeAllReceiveBlock D = ethbr_on_db (removeAllReceiveBlock D)"

definition ethbr_removeReceiveBlockByHeight :: "'d leveldb \<Rightarrow> int \<Rightarrow> ('d, unit) eproc" where
  "ethbr_removeReceiveBlockByHeight D height = ethbr_on_db (removeReceiveBlockByHeight D height)"

definition ethbr_setLastReceiveHeight :: "'d leveldb \<Rightarrow> int \<Rightarrow> ('d, unit) eproc" where
  "ethbr_setLastReceiveHeight D height = ethbr_on_db (setLastReceiveHeight D height)"

definition ethbr_getLastReceiveHeight :: "'d leveldb \<Rightarrow> 'd ethbr \<Rightarrow> int result" where
  "ethbr_getLastReceiveHeight D e = getLastReceiveHeight D (e_db e)"

definition ethbr_deleteAllDatabase :: "'d leveldb \<Rightarrow> ('d, unit) eproc" where
  "ethbr_deleteAllDatabase D = ethbr_on_db (deleteAllDatabase D)"

text \<open>\<open>monitoring\<close> up to the request: its result is the height of the request.\<close>

definition ethbr_monitoring :: "'d leveldb \<Rightarrow> bmcLinkStatus \<Rightarrow> ('d, int) eproc" where
  "ethbr_monitoring D bls =
     then_p (if RxSeq bls < 1 then ethbr_deleteAllDatabase D else ret_p ())
     (get_p (\<lambda>e. bind_p (lift_p (ethbr_getLastReceiveHeight D e)) (\<lambda>lastHeight.
       let fb = ethbr_getFirstHeightForReceiveBlock D e
       in bind_p (if VHeight bls > lastHeight
            then then_p (ethbr_deleteAllDatabase D) (ret_p (VHeight bls))
            else let height = (if fb \<noteq> 0 \<and> VHeight bls > fb then VHeight bls
                   else if fb > VHeight bls then fb - 1 else lastHeight)
              in then_p (ethbr_removeAllReceiveBlock D) (ret_p height))
          (\<lambda>height. then_p (modify_p (\<lambda>e. if RxSeq bls \<noteq> 0 then e\<lparr>e_seq := RxSeq bls\<rparr> else e))
            (ret_p (height + 1))))))"

section \<open>Notifications\<close>

text \<open>\<open>logToEvent\<close>; \<open>U\<close> is \<open>binding.UnpackEventLog\<close>. Too few topics are an index panic.\<close>

definition logToEvent :: "(bytes \<Rightarrow> bytes result) \<Rightarrow> ethLog \<Rightarrow> Event result" where
  "logToEvent U el = bind_r (U (el_Data el)) (\<lambda>msg. case el_Topics el of
      t0 # t1 # t2 # _ \<Rightarrow> Ret \<lparr>Next = t1, Sequence = int (be_nat t2), Message = msg\<rparr>
    | _ \<Rightarrow> Panic)"

text \<open>The receipts of a block by transaction index: a map, here in order of insertion.\<close>

fun addEvent :: "int \<Rightarrow> int \<Rightarrow> Event \<Rightarrow> (int \<times> ReceiptProof) list \<Rightarrow> (int \<times> ReceiptProof) list" where
  "addEvent tx bn evt [] = [(tx, \<lparr>rp_Index = Int64 tx, rp_Events = [evt], rp_Height = Int64 bn\<rparr>)]"
| "addEvent tx bn evt ((t, rp) # rest) = (if t = tx
     then (t, rp\<lparr>rp_Events := rp_Events rp @ [evt]\<rparr>) # rest
     else (t, rp) # addEvent tx bn evt rest)"

text \<open>The loop over the logs: the first and the last sequence number above \<open>seq\<close>, and the receipts.\<close>

fun logLoop :: "(bytes \<Rightarrow> bytes result) \<Rightarrow> bytes \<Rightarrow> int \<Rightarrow> ethLog list \<Rightarrow> int \<Rightarrow> int \<Rightarrow>
    (int \<times> ReceiptProof) list \<Rightarrow> (int \<times> int \<times> (int \<times> ReceiptProof) list) result" where
  "logLoop U dstHash seq [] sn0 sn1 rpsMap = Ret (sn0, sn1, rpsMap)"
| "logLoop U dstHash seq (el # els) sn0 sn1 rpsMap = bind_r (logToEvent U el) (\<lambda>evt.
     let s = Int64 (Sequence evt)
     in if s \<le> seq then logLoop U dstHash seq els sn0 sn1 rpsMap
        else logLoop U dstHash seq els (if sn0 = 0 then s else sn0) s
          (if Next evt = dstHash then addEvent (el_TxIndex el) (el_BlockNumber el) evt rpsMap else rpsMap))"

definition ethbr_newReceiveStatus :: "int \<Rightarrow> int \<Rightarrow> int \<Rightarrow> ReceiptProof list \<Rightarrow> ethbrStatus" where
  "ethbr_newReceiveStatus height first final rps =
     \<lparr>es_height = height, es_startSeq = first, es_lastSeq = final, es_rps = rps\<rparr>"

text \<open>
  The callback of \<open>MonitorBlock\<close>; \<open>K\<close> is Keccak. The receipts are sorted by index, so the
  order in which the map is visited does not matter.
\<close>

definition ethbr_record :: "(bytes \<Rightarrow> bytes result) \<Rightarrow> (bytes \<Rightarrow> bytes) \<Rightarrow> string \<Rightarrow> BlockNotification \<Rightarrow> ('d, unit) eproc" where
  "ethbr_record U K dst v = get_p (\<lambda>e.
     bind_p (lift_p (logLoop U (K (string_bytes dst)) (e_seq e) (v_Logs v) 0 0 [])) (\<lambda>(sn0, sn1, rpsMap).
       if rpsMap \<noteq> [] then
         let rs = ethbr_newReceiveStatus (Int64 (v_Height v)) sn0 sn1 (sort_key rp_Index (map snd rpsMap))
         in modify_p (\<lambda>e. e\<lparr>e_seq := sn1, e_rss := e_rss e @ [rs], e_out := e_out e @ [rs]\<rparr>)
       else ret_p ()))"

definition ethbr_onBlock ::
    "'d leveldb \<Rightarrow> (bytes \<Rightarrow> bytes result) \<Rightarrow> (bytes \<Rightarrow> bytes) \<Rightarrow> string \<Rightarrow> BlockNotification \<Rightarrow> ('d, unit) eproc" where
  "ethbr_onBlock D U K dst v =
     then_p (modify_p (\<lambda>e. e\<lparr>e_receiveHeight := Int64 (v_Height v)\<rparr>))
     (then_p (if Int64 (v_Height v) mod 500 = 0 then ethbr_setLastReceiveHeight D (Int64 (v_Height v)) else ret_p ())
     (if v_Logs v \<noteq> [] then ethbr_record U K dst v else ret_p ()))"

section \<open>The window\<close>

definition ethbr_nextReceiveStatus :: "'d ethbr \<Rightarrow> bmcLinkStatus \<Rightarrow> ethbrStatus option result" where
  "ethbr_nextReceiveStatus e bls = nextStatus es_height (e_rss e) (VHeight bls)"

definition ethbr_clearReceiveStatus :: "bmcLinkStatus \<Rightarrow> ('d, unit) eproc" where
  "ethbr_clearReceiveStatus bls = modify_p (\<lambda>e. e\<lparr>e_rss := clearStatus es_height es_lastSeq (e_rss e) bls\<rparr>)"

definition ethbr_getReceiveStatusForSequence :: "'d ethbr \<Rightarrow> int \<Rightarrow> ethbrStatus option" where
  "ethbr_getReceiveStatusForSequence e seq = List.find (\<lambda>rs. es_startSeq rs \<le> seq \<and> seq \<le> es_lastSeq rs) (e_rss e)"

definition ethbr_getReceiveStatusForHeight :: "'d ethbr \<Rightarrow> int \<Rightarrow> ethbrStatus option" where
  "ethbr_getReceiveStatusForHeight e h = List.find (\<lambda>rs. es_height rs = h) (e_rss e)"

definition ethbr_GetHeightForSeq :: "'d ethbr \<Rightarrow> int \<Rightarrow> int" where
  "ethbr_GetHeightForSeq e seq = (case ethbr_getReceiveStatusForSequence e seq of
     Some rs \<Rightarrow> es_height rs | None \<Rightarrow> 0)"

definition ethbr_GetStatus :: "'d ethbr \<Rightarrow> ethbrStatus result" where
  "ethbr_GetStatus e = (if e_rss e = [] then Panic else Ret (last (e_rss e)))"

text \<open>A finalized status; the error of the removal is dropped.\<close>

definition ethbr_FinalizedStatus :: "'d leveldb \<Rightarrow> bmcLinkStatus \<Rightarrow> ('d, unit) eproc" where
  "ethbr_FinalizedStatus D bls = then_p (modify_p (\<lambda>e. snd (ethbr_removeReceiveBlockByHeight D (VHeight bls) e)))
     (ethbr_clearReceiveStatus bls)"

section \<open>Building\<close>

definition ethbr_NewBlockUpdate :: "bmcLinkStatus \<Rightarrow> int \<Rightarrow> item" where
  "ethbr_NewBlockUpdate bs target = mkBlockUpdate bs target []"

definition ethbr_BuildBlockUpdate :: "'d ethbr \<Rightarrow> bmcLinkStatus \<Rightarrow> int \<Rightarrow> item list result" where
  "ethbr_BuildBlockUpdate e bls limit = bind_r (ethbr_nextReceiveStatus e bls) (\<lambda>rs. case rs of
      None \<Rightarrow> Fail (Errorc IllegalArgumentError ''No blockUpdate available to create.'')
    | Some rs \<Rightarrow> Ret [ethbr_NewBlockUpdate bls (es_height rs)])"

definition ethbr_BuildBlockProof :: "'d ethbr \<Rightarrow> bmcLinkStatus \<Rightarrow> int \<Rightarrow> item option result" where
  "ethbr_BuildBlockProof e bls height = Ret None"

text \<open>The encoded receipts, without the empty ones; \<open>E\<close> is \<open>rlp.EncodeToBytes\<close> of go-ethereum on events.\<close>

fun encodeReceipts :: "(Event list \<Rightarrow> bytes result) \<Rightarrow> ReceiptProof list \<Rightarrow> bytes list result" where
  "encodeReceipts E [] = Ret []"
| "encodeReceipts E (rp # rps) = (if rp_Events rp = [] then encodeReceipts E rps
     else bind_r (E (rp_Events rp)) (\<lambda>b.
       bind_r (MarshalToBytes (VPtr (Some (receipt_val (rp_Index rp) b (rp_Height rp))))) (\<lambda>r.
       bind_r (encodeReceipts E rps) (\<lambda>rs. Ret (r # rs)))))"

definition ethbr_NewMessageProof ::
    "(Event list \<Rightarrow> bytes result) \<Rightarrow> bmcLinkStatus \<Rightarrow> int \<Rightarrow> int \<Rightarrow> ReceiptProof list \<Rightarrow> item result" where
  "ethbr_NewMessageProof E bs start ls rps = bind_r (encodeReceipts E rps) (\<lambda>rs.
     bind_r (MarshalToBytes (VPtr (Some (relay_val rs)))) (\<lambda>b. Ret (mkMessageProof bs start ls b)))"

text \<open>
  The loop over the events of a receipt. Each event with the next sequence number appends the
  pointer \<open>trp\<close> to the list of receipts and then the event to \<open>trp\<close>: \<open>k\<close> counts the pointers.
  The first component tells that the limit was reached and the method returns.
\<close>

fun eventLoop :: "int \<Rightarrow> Event list \<Rightarrow> nat \<Rightarrow> ReceiptProof \<Rightarrow> int \<Rightarrow> int \<Rightarrow> bool \<times> nat \<times> ReceiptProof \<times> int \<times> int" where
  "eventLoop limit [] k trp seq rmSize = (False, k, trp, seq, rmSize)"
| "eventLoop limit (evt # evts) k trp seq rmSize = (if Int64 (Sequence evt) = seq
     then let size = sizeOfEvent evt in
       if limit < rmSize + size \<and> rmSize > 0 then (True, Suc k, trp, seq, rmSize)
       else eventLoop limit evts (Suc k) (trp\<lparr>rp_Events := rp_Events trp @ [evt]\<rparr>) (Int64 (Sequence evt) + 1) (rmSize + size)
     else eventLoop limit evts k trp seq rmSize)"

text \<open>The loop over the receipts; removing the last receipt of an empty list panics.\<close>

fun receiptLoop :: "(Event list \<Rightarrow> bytes result) \<Rightarrow> bmcLinkStatus \<Rightarrow> int \<Rightarrow> ReceiptProof list \<Rightarrow>
    ReceiptProof list \<Rightarrow> int \<Rightarrow> int \<Rightarrow> item result" where
  "receiptLoop E bls limit [] rps seq rmSize = ethbr_NewMessageProof E bls (RxSeq bls + 1) (seq - 1) rps"
| "receiptLoop E bls limit (rp # rest) rps seq rmSize =
     (case eventLoop limit (rp_Events rp) 0 \<lparr>rp_Index = rp_Index rp, rp_Events = [], rp_Height = rp_Height rp\<rparr> seq rmSize of
       (stop, k, trp, seq', rmSize') \<Rightarrow> let rps' = rps @ replicate k trp in
         if stop \<or> limit < rmSize' then ethbr_NewMessageProof E bls (RxSeq bls + 1) (seq' - 1) rps'
         else if rp_Events trp = []
         then (if rps' = [] then Panic else receiptLoop E bls limit rest (butlast rps') seq' rmSize')
         else receiptLoop E bls limit rest rps' seq' rmSize')"

definition ethbr_BuildMessageProof ::
    "(Event list \<Rightarrow> bytes result) \<Rightarrow> 'd ethbr \<Rightarrow> bmcLinkStatus \<Rightarrow> int \<Rightarrow> item option result" where
  "ethbr_BuildMessageProof E e bls limit = (case ethbr_getReceiveStatusForSequence e (RxSeq bls + 1) of
      None \<Rightarrow> Ret None
    | Some rs \<Rightarrow> if es_lastSeq rs - (es_startSeq rs - 1) > 0
        then bind_r (receiptLoop E bls limit (es_rps rs) [] (RxSeq bls + 1) 0) (\<lambda>mp. Ret (Some mp))
        else Ret None)"

text \<open>Only the first message proof among the items is relayed; without one the message is nil.\<close>

fun ethbr_BuildRelayMessage :: "item list \<Rightarrow> bytes result" where
  "ethbr_BuildRelayMessage [] = Ret []"
| "ethbr_BuildRelayMessage (rmi # rmis) = (if item_Type rmi = TypeMessageProof
     then (case rmi of messageProof r s l \<Rightarrow> Ret (payload r) | blockUpdate r h s t \<Rightarrow> Panic)
     else ethbr_BuildRelayMessage rmis)"

definition ethbr_receiver :: "(Event list \<Rightarrow> bytes result) \<Rightarrow> 'd ethbr \<Rightarrow> item receiver" where
  "ethbr_receiver E e = \<lparr>r_Type = item_Type, r_Len = item_Len, r_Update = UpdateBMCLinkStatus,
     r_ProofHeight = ProofHeight, r_Start = (\<lambda>bls. None),
     r_BuildBlockUpdate = ethbr_BuildBlockUpdate e, r_BuildBlockProof = ethbr_BuildBlockProof e,
     r_BuildMessageProof = ethbr_BuildMessageProof E e, r_GetHeightForSeq = ethbr_GetHeightForSeq e,
     r_BuildRelayMessage = ethbr_BuildRelayMessage\<rparr>"

section \<open>What a block adds\<close>

lemma logToEvent_fun:
  "logLoop U h seq els a b m = Ret r \<Longrightarrow> \<exists>ev. \<forall>el\<in>set els. logToEvent U el = Ret (ev el)"
proof (induction els arbitrary: a b m)
  case (Cons el els)
  then obtain evt where e: "logToEvent U el = Ret evt" by (auto simp: bind_r_Ret)
  with Cons.prems have "\<exists>a b m. logLoop U h seq els a b m = Ret r" by (auto simp: Let_def split: if_splits)
  with Cons.IH obtain ev where "\<forall>el\<in>set els. logToEvent U el = Ret (ev el)" by blast
  with e show ?case by (intro exI [of _ "ev(el := evt)"]) auto
qed simp

text \<open>The logs above a sequence number, and among them those to a destination.\<close>

definition fresh :: "(ethLog \<Rightarrow> Event) \<Rightarrow> int \<Rightarrow> ethLog list \<Rightarrow> ethLog list" where
  "fresh ev seq els = filter (\<lambda>el. seq < Int64 (Sequence (ev el))) els"

definition own :: "(ethLog \<Rightarrow> Event) \<Rightarrow> bytes \<Rightarrow> int \<Rightarrow> ethLog list \<Rightarrow> ethLog list" where
  "own ev h seq els = filter (\<lambda>el. Next (ev el) = h) (fresh ev seq els)"

abbreviation addLog :: "(ethLog \<Rightarrow> Event) \<Rightarrow> ethLog \<Rightarrow> (int \<times> ReceiptProof) list \<Rightarrow> (int \<times> ReceiptProof) list" where
  "addLog ev el \<equiv> addEvent (el_TxIndex el) (el_BlockNumber el) (ev el)"

lemma logLoop_eq:
  "\<forall>el\<in>set els. logToEvent U el = Ret (ev el) \<Longrightarrow> 0 \<le> seq \<Longrightarrow>
   logLoop U h seq els a b m = Ret
     (if a = 0 \<and> fresh ev seq els \<noteq> [] then Int64 (Sequence (ev (hd (fresh ev seq els)))) else a,
      if fresh ev seq els = [] then b else Int64 (Sequence (ev (last (fresh ev seq els)))),
      fold (addLog ev) (own ev h seq els) m)"
  by (induction els arbitrary: a b m) (auto simp: Let_def fresh_def own_def)

definition events_at :: "(int \<times> ReceiptProof) list \<Rightarrow> int \<Rightarrow> Event list" where
  "events_at m t = (case map_of m t of None \<Rightarrow> [] | Some rp \<Rightarrow> rp_Events rp)"

definition receipts_ok :: "(int \<times> ReceiptProof) list \<Rightarrow> bool" where
  "receipts_ok m \<longleftrightarrow> distinct (map fst m) \<and> (\<forall>(t, rp)\<in>set m. rp_Index rp = Int64 t \<and> rp_Events rp \<noteq> [])"

lemma events_at_add: "events_at (addEvent tx bn evt m) t = events_at m t @ (if t = tx then [evt] else [])"
  by (induction tx bn evt m rule: addEvent.induct) (auto simp: events_at_def)

lemma keys_add: "set (map fst (addEvent tx bn evt m)) = insert tx (set (map fst m))"
  by (induction tx bn evt m rule: addEvent.induct) auto

lemma receipts_ok_add: "receipts_ok m \<Longrightarrow> receipts_ok (addEvent tx bn evt m)"
proof (induction tx bn evt m rule: addEvent.induct)
  case (2 tx bn evt t rp rest)
  have "t \<noteq> tx \<Longrightarrow> t \<notin> set (map fst rest) \<Longrightarrow> t \<notin> set (map fst (addEvent tx bn evt rest))"
    unfolding keys_add by simp
  with 2 show ?case by (auto simp: receipts_ok_def)
qed (simp add: receipts_ok_def)

lemma fold_addLog:
  "receipts_ok m \<Longrightarrow> receipts_ok (fold (addLog ev) els m) \<and>
   events_at (fold (addLog ev) els m) t = events_at m t @ map ev (filter (\<lambda>el. el_TxIndex el = t) els) \<and>
   set (map fst (fold (addLog ev) els m)) = set (map fst m) \<union> el_TxIndex ` set els"
proof (induction els arbitrary: m)
  case (Cons el els)
  from Cons.IH [OF receipts_ok_add [OF Cons.prems]] show ?case
    unfolding fold_simps keys_add events_at_add by auto
qed simp

text \<open>The receipts of a block, sorted by index.\<close>

definition block_receipts :: "(ethLog \<Rightarrow> Event) \<Rightarrow> ethLog list \<Rightarrow> ReceiptProof list" where
  "block_receipts ev els = sort_key rp_Index (map snd (fold (addLog ev) els []))"

lemma Int64_id: "0 \<le> i \<Longrightarrow> i < 2 ^ 63 \<Longrightarrow> Int64 i = i"
  by (simp add: Int64_def int_word_sint)

lemma distinct_map_sort_key: "distinct (map f xs) \<Longrightarrow> distinct (map f (sort_key f xs))"
  by (simp add: distinct_map)

lemma block_receipts_spec:
  assumes "\<forall>el\<in>set els. 0 \<le> el_TxIndex el \<and> el_TxIndex el < 2 ^ 63"
  shows "sorted_wrt (<) (map rp_Index (block_receipts ev els)) \<and>
    rp_Index ` set (block_receipts ev els) = el_TxIndex ` set els \<and>
    (\<forall>rp\<in>set (block_receipts ev els). rp_Events rp = map ev (filter (\<lambda>el. el_TxIndex el = rp_Index rp) els))"
proof -
  let ?m = "fold (addLog ev) els []"
  have ok: "receipts_ok ?m" and keys: "set (map fst ?m) = el_TxIndex ` set els"
    and evs: "events_at ?m t = map ev (filter (\<lambda>el. el_TxIndex el = t) els)" for t
    using fold_addLog [of "[]" ev els] by (simp_all add: receipts_ok_def events_at_def)
  have idx: "rp_Index rp = t" if "(t, rp) \<in> set ?m" for t rp
  proof -
    have "t \<in> el_TxIndex ` set els" using that keys by force
    then have "Int64 t = t" using assms Int64_id by auto
    with that ok show ?thesis by (auto simp: receipts_ok_def)
  qed
  have map: "map rp_Index (map snd ?m) = map fst ?m" using idx by auto
  have "distinct (map rp_Index (map snd ?m))" unfolding map using ok by (simp add: receipts_ok_def)
  then have d: "distinct (map rp_Index (block_receipts ev els))"
    unfolding block_receipts_def by (rule distinct_map_sort_key)
  have "sorted (map rp_Index (block_receipts ev els))" by (simp add: block_receipts_def)
  with d have 1: "sorted_wrt (<) (map rp_Index (block_receipts ev els))"
    by (simp add: strict_sorted_iff)
  have 2: "rp_Index ` set (block_receipts ev els) = el_TxIndex ` set els"
  proof -
    have "rp_Index ` set (block_receipts ev els) = set (map rp_Index (map snd ?m))" by (simp add: block_receipts_def image_image)
    then show ?thesis unfolding map keys .
  qed
  have "rp_Events rp = map ev (filter (\<lambda>el. el_TxIndex el = rp_Index rp) els)" if "rp \<in> set (block_receipts ev els)" for rp
  proof -
    from that obtain t where t: "(t, rp) \<in> set ?m" by (auto simp: block_receipts_def)
    with ok have "map_of ?m t = Some rp" by (simp add: receipts_ok_def)
    with evs [of t] idx [OF t] show ?thesis by (simp add: events_at_def)
  qed
  with 1 2 show ?thesis by blast
qed

lemma fold_addLog_ne: "fold (addLog ev) els [] = [] \<longleftrightarrow> els = []"
proof -
  have "set (map fst (fold (addLog ev) els [])) = el_TxIndex ` set els"
    using fold_addLog [of "[]" ev els] by (simp add: receipts_ok_def)
  then have "set (map fst (fold (addLog ev) els [])) = {} \<longleftrightarrow> els = []" by simp
  then show ?thesis by simp
qed

lemma ethbr_on_dbD:
  "ethbr_on_db m e = (r, e') \<Longrightarrow> e_rss e' = e_rss e \<and> e_seq e' = e_seq e \<and> e_out e' = e_out e"
  by (auto simp: ethbr_on_db_def split: prod.splits)

text \<open>What one notification does to the window.\<close>

definition block_added :: "(ethLog \<Rightarrow> Event) \<Rightarrow> bytes \<Rightarrow> BlockNotification \<Rightarrow> 'd ethbr \<Rightarrow> 'd ethbr \<Rightarrow> bool" where
  "block_added ev h v e e' \<longleftrightarrow> (let fs = fresh ev (e_seq e) (v_Logs v); os = own ev h (e_seq e) (v_Logs v) in
     if os = [] then e_rss e' = e_rss e \<and> e_seq e' = e_seq e
     else e_seq e' = Int64 (Sequence (ev (last fs))) \<and>
       e_rss e' = e_rss e @ [\<lparr>es_height = Int64 (v_Height v), es_startSeq = Int64 (Sequence (ev (hd fs))),
         es_lastSeq = Int64 (Sequence (ev (last fs))), es_rps = block_receipts ev os\<rparr>])"

lemma ethbr_recordD:
  assumes "ethbr_record U K dst v e = (r, e')" and "0 \<le> e_seq e"
  shows "if r = Ret () then \<forall>ev. (\<forall>el\<in>set (v_Logs v). logToEvent U el = Ret (ev el)) \<longrightarrow>
      block_added ev (K (string_bytes dst)) v e e' else e' = e"
proof (cases "logLoop U (K (string_bytes dst)) (e_seq e) (v_Logs v) 0 0 []")
  case (Ret z)
  show ?thesis
  proof -
    obtain ev0 where ev0: "\<forall>el\<in>set (v_Logs v). logToEvent U el = Ret (ev0 el)" using logToEvent_fun [OF Ret] by blast
    have r: "r = Ret ()" using assms(1) Ret
      by (cases z) (auto simp: ethbr_record_def get_p_def lift_p_def bind_p_def modify_p_def ret_p_def Let_def split: if_splits)
    have "block_added ev (K (string_bytes dst)) v e e'" if ev: "\<forall>el\<in>set (v_Logs v). logToEvent U el = Ret (ev el)" for ev
    proof -
      have "own ev (K (string_bytes dst)) (e_seq e) (v_Logs v) \<noteq> [] \<Longrightarrow> fresh ev (e_seq e) (v_Logs v) \<noteq> []"
        by (auto simp: own_def)
      then show ?thesis
        using assms(1) logLoop_eq [OF ev assms(2), of "K (string_bytes dst)" 0 0 "[]"]
        by (auto simp: ethbr_record_def get_p_def lift_p_def bind_p_def modify_p_def ret_p_def Let_def fold_addLog_ne
            block_added_def ethbr_newReceiveStatus_def block_receipts_def split: if_splits)
    qed
    with r show ?thesis by simp
  qed
qed (use assms in \<open>auto simp: ethbr_record_def get_p_def lift_p_def bind_p_def\<close>)

lemma ethbr_onBlockD:
  assumes "ethbr_onBlock D U K dst v e = (r, e')" and "0 \<le> e_seq e"
  shows "(\<exists>ev. block_added ev (K (string_bytes dst)) v e e') \<or> e_rss e' = e_rss e \<and> e_seq e' = e_seq e"
    and "r = Ret () \<Longrightarrow> \<forall>el\<in>set (v_Logs v). logToEvent U el = Ret (ev el) \<Longrightarrow> block_added ev (K (string_bytes dst)) v e e'"
proof -
  let ?e0 = "e\<lparr>e_receiveHeight := Int64 (v_Height v)\<rparr>"
  obtain q e1 where 1: "(if Int64 (v_Height v) mod 500 = 0 then ethbr_setLastReceiveHeight D (Int64 (v_Height v)) else ret_p ()) ?e0
      = (q, e1)" by fastforce
  then have e1: "e_rss e1 = e_rss e" "e_seq e1 = e_seq e"
    by (auto simp: ret_p_def ethbr_setLastReceiveHeight_def dest: ethbr_on_dbD split: if_splits)
  have added: "block_added ev h v e1 e' \<longleftrightarrow> block_added ev h v e e'" for ev h
    by (simp add: block_added_def e1)
  have run: "(case q of Ret u \<Rightarrow> (if v_Logs v \<noteq> [] then ethbr_record U K dst v else ret_p ()) e1
      | Fail x \<Rightarrow> (Fail x, e1) | Panic \<Rightarrow> (Panic, e1) | OutOfFuel \<Rightarrow> (OutOfFuel, e1)) = (r, e')"
    using assms(1) 1 by (simp add: ethbr_onBlock_def modify_p_def bind_p_def)
  have empty: "v_Logs v = [] \<Longrightarrow> block_added ev h v e1 e1" for ev h
    by (simp add: block_added_def own_def fresh_def)
  show "(\<exists>ev. block_added ev (K (string_bytes dst)) v e e') \<or> e_rss e' = e_rss e \<and> e_seq e' = e_seq e"
  proof (cases "q = Ret () \<and> v_Logs v \<noteq> [] \<and> r = Ret ()")
    case True
    with run have rec: "ethbr_record U K dst v e1 = (Ret (), e')" by simp
    then obtain z where "logLoop U (K (string_bytes dst)) (e_seq e1) (v_Logs v) 0 0 [] = Ret z"
      by (auto simp: ethbr_record_def get_p_def lift_p_def elim: bind_p_RetE)
    from logToEvent_fun [OF this] ethbr_recordD [OF rec] assms(2) e1 added show ?thesis by auto
  next
    case False
    with run e1 assms(2) show ?thesis
      by (cases q) (auto simp: ret_p_def dest!: ethbr_recordD split: if_splits)
  qed
  show "r = Ret () \<Longrightarrow> \<forall>el\<in>set (v_Logs v). logToEvent U el = Ret (ev el) \<Longrightarrow> block_added ev (K (string_bytes dst)) v e e'"
    using run empty assms(2) e1 added ethbr_recordD [of U K dst v e1 r e']
    by (cases q) (auto simp: ret_p_def split: if_splits)
qed

text \<open>
  C24: a block notification that succeeds appends to the window one status, with a receipt for each
  transaction that emitted an event to the destination above the counter, in the order of
  the transactions, holding exactly these events in the order of the logs; without such an event the
  window does not change. But the range of sequence numbers of the status, and the counter, are taken from the
  first and the last event above the counter to whatever destination.
\<close>
theorem ethbr_block_added:
  assumes "ethbr_onBlock D U K dst v e = (Ret (), e')" and "0 \<le> e_seq e"
    and "\<forall>el\<in>set (v_Logs v). logToEvent U el = Ret (ev el) \<and> 0 \<le> el_TxIndex el \<and> el_TxIndex el < 2 ^ 63"
    and "fs = filter (\<lambda>el. e_seq e < Int64 (Sequence (ev el))) (v_Logs v)"
    and "os = filter (\<lambda>el. Next (ev el) = K (string_bytes dst)) fs"
  shows "if os = [] then e_rss e' = e_rss e \<and> e_seq e' = e_seq e
    else \<exists>rps. e_rss e' = e_rss e @ [\<lparr>es_height = Int64 (v_Height v), es_startSeq = Int64 (Sequence (ev (hd fs))),
         es_lastSeq = Int64 (Sequence (ev (last fs))), es_rps = rps\<rparr>] \<and>
      e_seq e' = Int64 (Sequence (ev (last fs))) \<and> sorted_wrt (<) (map rp_Index rps) \<and>
      rp_Index ` set rps = el_TxIndex ` set os \<and>
      (\<forall>rp\<in>set rps. rp_Events rp = map ev (filter (\<lambda>el. el_TxIndex el = rp_Index rp) os))"
proof -
  have fs: "fs = fresh ev (e_seq e) (v_Logs v)" and os: "os = own ev (K (string_bytes dst)) (e_seq e) (v_Logs v)"
    by (simp_all add: assms(4,5) fresh_def own_def)
  have "block_added ev (K (string_bytes dst)) v e e'" using ethbr_onBlockD(2) [OF assms(1,2)] assms(3) by simp
  moreover have "\<forall>el\<in>set os. 0 \<le> el_TxIndex el \<and> el_TxIndex el < 2 ^ 63"
    using assms(3) by (auto simp: assms(4,5))
  note block_receipts_spec [OF this, of ev]
  ultimately show ?thesis by (auto simp: block_added_def Let_def fs [symmetric] os [symmetric])
qed

text \<open>
  When the last event of a block above the counter goes to another destination, the counter becomes its
  sequence number, and blocks with events to the receiver's own destination up to that number add nothing to
  the window: the messages are not relayed.
\<close>
theorem ethbr_foreign_hides:
  assumes "ethbr_onBlock D U K dst v e = (Ret (), e')" and "0 \<le> e_seq e"
    and "\<forall>el\<in>set (v_Logs v) \<union> set (v_Logs w). logToEvent U el = Ret (ev el)"
    and "fs = filter (\<lambda>el. e_seq e < Int64 (Sequence (ev el))) (v_Logs v)"
    and "\<exists>el\<in>set fs. Next (ev el) = K (string_bytes dst)"
    and "ethbr_onBlock D U K dst w e' = (Ret (), e'')"
    and "\<forall>el\<in>set (v_Logs w). Next (ev el) = K (string_bytes dst) \<longrightarrow> Int64 (Sequence (ev el)) \<le> Int64 (Sequence (ev (last fs)))"
  shows "e_seq e' = Int64 (Sequence (ev (last fs))) \<and> e_rss e'' = e_rss e'"
proof -
  have fs: "fs = fresh ev (e_seq e) (v_Logs v)" by (simp add: assms(4) fresh_def)
  have "own ev (K (string_bytes dst)) (e_seq e) (v_Logs v) \<noteq> []"
    using assms(5) by (auto simp: own_def fs filter_empty_conv)
  with ethbr_onBlockD(2) [OF assms(1,2)] assms(3) have s: "e_seq e' = Int64 (Sequence (ev (last fs)))"
    by (simp add: block_added_def Let_def fs)
  have "fs \<noteq> []" using assms(5) by auto
  then have "last fs \<in> set fs" by simp
  then have "0 \<le> e_seq e'" using assms(2) s by (simp add: assms(4))
  from ethbr_onBlockD(2) [OF assms(6) this] assms(3)
  have "block_added ev (K (string_bytes dst)) w e' e''" by simp
  moreover have "own ev (K (string_bytes dst)) (e_seq e') (v_Logs w) = []"
    using assms(7) s by (auto simp: own_def fresh_def filter_empty_conv)
  ultimately show ?thesis using s by (simp add: block_added_def)
qed

section \<open>The window stays in order\<close>

text \<open>Heights ascend, the ranges of sequence numbers are disjoint and ascend, and end below the counter.\<close>

definition ethbr_window :: "'d ethbr \<Rightarrow> bool" where
  "ethbr_window e \<longleftrightarrow> 0 \<le> e_seq e \<and> sorted_wrt (\<lambda>a b. es_height a < es_height b \<and> es_lastSeq a < es_startSeq b) (e_rss e) \<and>
     (\<forall>rs\<in>set (e_rss e). es_lastSeq rs \<le> e_seq e)"

lemma block_added_window:
  assumes "block_added ev h v e e'" and "ethbr_window e" and "\<forall>rs\<in>set (e_rss e). es_height rs < Int64 (v_Height v)"
  shows "ethbr_window e'"
proof (cases "own ev h (e_seq e) (v_Logs v) = []")
  case True
  with assms show ?thesis by (simp add: block_added_def ethbr_window_def)
next
  case False
  let ?fs = "fresh ev (e_seq e) (v_Logs v)"
  from False have "?fs \<noteq> []" by (auto simp: own_def)
  then have "hd ?fs \<in> set ?fs" "last ?fs \<in> set ?fs" by auto
  then have "e_seq e < Int64 (Sequence (ev (hd ?fs)))" "e_seq e < Int64 (Sequence (ev (last ?fs)))"
    by (auto simp: fresh_def)
  with assms False show ?thesis
    by (fastforce simp: block_added_def ethbr_window_def Let_def sorted_wrt_append)
qed

lemma ethbr_FinalizedStatusD:
  assumes "ethbr_FinalizedStatus D bls e = (r, e')"
  shows "e_seq e' = e_seq e \<and> (\<exists>pre. e_rss e = pre @ e_rss e')"
proof -
  let ?e1 = "snd (ethbr_removeReceiveBlockByHeight D (VHeight bls) e)"
  have 1: "e_rss ?e1 = e_rss e \<and> e_seq ?e1 = e_seq e"
    using ethbr_on_dbD by (metis ethbr_removeReceiveBlockByHeight_def prod.collapse)
  have "e' = ?e1\<lparr>e_rss := clearStatus es_height es_lastSeq (e_rss ?e1) bls\<rparr>"
    using assms by (simp add: ethbr_FinalizedStatus_def ethbr_clearReceiveStatus_def modify_p_def bind_p_def)
  with 1 show ?thesis unfolding clearStatus_def
    using drop_through_suffix [of "e_rss e" "\<lambda>rs. es_height rs \<le> VHeight bls \<and> es_lastSeq rs \<le> RxSeq bls"] by simp
qed

text \<open>
  C25: notifications of growing heights and finalized statuses keep the window in order: its
  heights ascend, its ranges of sequence numbers are disjoint, and none is above the counter.
\<close>
theorem ethbr_window_kept:
  assumes "ethbr_window e" and "\<forall>rs\<in>set (e_rss e). es_height rs < Int64 (v_Height v)"
  shows "ethbr_window (snd (ethbr_onBlock D U K dst v e)) \<and> ethbr_window (snd (ethbr_FinalizedStatus D bls e))"
proof
  obtain r e' where run: "ethbr_onBlock D U K dst v e = (r, e')" by fastforce
  have "0 \<le> e_seq e" using assms(1) by (simp add: ethbr_window_def)
  from ethbr_onBlockD(1) [OF run this] show "ethbr_window (snd (ethbr_onBlock D U K dst v e))"
  proof
    assume "\<exists>ev. block_added ev (K (string_bytes dst)) v e e'"
    then show ?thesis using block_added_window assms run by auto
  qed (use assms(1) run in \<open>simp add: ethbr_window_def\<close>)
  obtain r e' where f: "ethbr_FinalizedStatus D bls e = (r, e')" by fastforce
  from ethbr_FinalizedStatusD [OF f] obtain pre where "e_rss e = pre @ e_rss e'" "e_seq e' = e_seq e" by blast
  with assms(1) f show "ethbr_window (snd (ethbr_FinalizedStatus D bls e))"
    by (auto simp: ethbr_window_def sorted_wrt_append)
qed

section \<open>Message proofs\<close>

lemma eventLoop_run:
  "map (\<lambda>e. Int64 (Sequence e)) evts = [seq..seq + int (length evts) - 1] \<Longrightarrow> rm + 8 * int (length evts) \<le> limit \<Longrightarrow>
   eventLoop limit evts k trp seq rm =
     (False, k + length evts, trp\<lparr>rp_Events := rp_Events trp @ evts\<rparr>, seq + int (length evts), rm + 8 * int (length evts))"
proof (induction evts arbitrary: k trp seq rm)
  case (Cons e evts)
  have u: "[seq..seq + int (length (e # evts)) - 1] = seq # [seq + 1..seq + 1 + int (length evts) - 1]"
    by (simp add: upto.simps [of seq])
  from Cons.prems(1) have s: "Int64 (Sequence e) = seq"
    "map (\<lambda>e. Int64 (Sequence e)) evts = [seq + 1..seq + 1 + int (length evts) - 1]" unfolding u by simp_all
  from Cons.IH [OF s(2)] Cons.prems(2) s(1) show ?case
    by (simp add: sizeOfEvent_def Let_def algebra_simps)
qed simp

lemma eventLoop_none:
  "\<forall>e\<in>set evts. Int64 (Sequence e) \<noteq> seq \<Longrightarrow> eventLoop limit evts k trp seq rm = (False, k, trp, seq, rm)"
  by (induction evts) auto

lemma eventLoop_mono: "eventLoop limit evts k trp seq rm = (stop, k', trp', seq', rm') \<Longrightarrow> seq \<le> seq'"
  by (induction limit evts k trp seq rm rule: eventLoop.induct) (auto simp: Let_def split: if_splits)

lemma receiptLoop_run:
  "\<forall>rp\<in>set rest. rp_Events rp \<noteq> [] \<Longrightarrow>
   map (\<lambda>e. Int64 (Sequence e)) (concat (map rp_Events rest)) = [seq..seq + int (length (concat (map rp_Events rest))) - 1] \<Longrightarrow>
   rm + 8 * int (length (concat (map rp_Events rest))) \<le> limit \<Longrightarrow>
   receiptLoop E bls limit rest rps seq rm =
     ethbr_NewMessageProof E bls (RxSeq bls + 1) (seq + int (length (concat (map rp_Events rest))) - 1)
       (rps @ concat (map (\<lambda>rp. replicate (length (rp_Events rp)) rp) rest))"
proof (induction rest arbitrary: rps seq rm)
  case (Cons rp rest)
  let ?n = "int (length (rp_Events rp))" and ?N = "int (length (concat (map rp_Events rest)))"
  have ne: "Suc 0 \<le> length (rp_Events rp)" using Cons.prems(1) by (simp add: Suc_le_eq)
  have "[seq..seq + int (length (concat (map rp_Events (rp # rest)))) - 1] = [seq..seq + ?n - 1] @ [seq + ?n..seq + ?n + ?N - 1]"
    using upto_split2 [of seq "seq + ?n - 1" "seq + ?n + ?N - 1"] ne by (simp add: algebra_simps)
  with Cons.prems(2) have
    s: "map (\<lambda>e. Int64 (Sequence e)) (rp_Events rp) = [seq..seq + ?n - 1]"
    "map (\<lambda>e. Int64 (Sequence e)) (concat (map rp_Events rest)) = [seq + ?n..seq + ?n + ?N - 1]"
    by (simp_all add: append_eq_append_conv)
  have l: "rm + 8 * ?n + 8 * ?N \<le> limit" using Cons.prems(3) by (simp add: algebra_simps)
  then have "rm + 8 * ?n \<le> limit" by linarith
  note ev = eventLoop_run [OF s(1) this, of 0 "\<lparr>rp_Index = rp_Index rp, rp_Events = [], rp_Height = rp_Height rp\<rparr>"]
  from Cons.prems(1) have "\<forall>rp\<in>set rest. rp_Events rp \<noteq> []" by simp
  note IH = Cons.IH [OF this s(2) l, of "rps @ replicate (length (rp_Events rp)) rp"]
  have trp: "\<lparr>rp_Index = rp_Index rp, rp_Events = rp_Events rp, rp_Height = rp_Height rp\<rparr> = rp" by simp
  show ?case using ev IH Cons.prems(1) \<open>rm + 8 * ?n \<le> limit\<close>
    by (simp add: trp Let_def add.assoc)
qed simp

lemma ethbr_message_proof_eq:
  assumes "ethbr_getReceiveStatusForSequence e (RxSeq bls + 1) = Some rs"
    and "\<forall>rp\<in>set (es_rps rs). rp_Events rp \<noteq> []" and "n = length (concat (map rp_Events (es_rps rs)))"
    and "map (\<lambda>e. Int64 (Sequence e)) (concat (map rp_Events (es_rps rs))) = [RxSeq bls + 1..RxSeq bls + int n]"
    and "8 * int n \<le> limit"
  shows "ethbr_BuildMessageProof E e bls limit =
    bind_r (ethbr_NewMessageProof E bls (RxSeq bls + 1) (RxSeq bls + int n)
      (concat (map (\<lambda>rp. replicate (length (rp_Events rp)) rp) (es_rps rs)))) (\<lambda>mp. Ret (Some mp))"
proof -
  have "es_startSeq rs \<le> es_lastSeq rs"
    using assms(1) by (auto simp: ethbr_getReceiveStatusForSequence_def find_Some_iff)
  moreover note receiptLoop_run [OF assms(2), of "RxSeq bls + 1" 0 limit E bls "[]"]
  ultimately show ?thesis
    using assms(1,4,5) by (simp add: ethbr_BuildMessageProof_def assms(3))
qed

text \<open>
  C35: when the events of the status are numbered consecutively from the next sequence number on and
  the limit allows eight bytes for each, the proof advances over all of them; but it carries
  every receipt as many times as the receipt has events.
\<close>
theorem ethbr_message_proof:
  assumes "ethbr_getReceiveStatusForSequence e (RxSeq bls + 1) = Some rs"
    and "\<forall>rp\<in>set (es_rps rs). rp_Events rp \<noteq> []" and "n = length (concat (map rp_Events (es_rps rs)))"
    and "map (\<lambda>e. Int64 (Sequence e)) (concat (map rp_Events (es_rps rs))) = [RxSeq bls + 1..RxSeq bls + int n]"
    and "8 * int n \<le> limit"
  shows "ethbr_BuildMessageProof E e bls limit =
    bind_r (ethbr_NewMessageProof E bls (RxSeq bls + 1) (RxSeq bls + int n)
      (concat (map (\<lambda>rp. replicate (length (rp_Events rp)) rp) (es_rps rs)))) (\<lambda>mp. Ret (Some mp))"
  by (rule ethbr_message_proof_eq [OF assms])

text \<open>
  When the first receipt of the status has no event with the next sequence number, as after a
  part of the block was relayed, \<open>BuildMessageProof\<close> removes the last receipt of an
  empty list and panics.
\<close>
theorem ethbr_resume_panics:
  assumes "ethbr_getReceiveStatusForSequence e (RxSeq bls + 1) = Some rs" and "es_rps rs = rp # rest"
    and "\<forall>evt\<in>set (rp_Events rp). Int64 (Sequence evt) \<noteq> RxSeq bls + 1" and "0 \<le> limit"
  shows "ethbr_BuildMessageProof E e bls limit = Panic"
proof -
  have "es_startSeq rs \<le> es_lastSeq rs"
    using assms(1) by (auto simp: ethbr_getReceiveStatusForSequence_def find_Some_iff)
  then show ?thesis
    using assms eventLoop_none [OF assms(3)] by (simp add: ethbr_BuildMessageProof_def Let_def)
qed

section \<open>With the link\<close>

lemma ethbr_NewMessageProofD:
  "ethbr_NewMessageProof E bs start ls rps = Ret i \<Longrightarrow> \<exists>p. i = mkMessageProof bs start ls p"
  by (auto simp: ethbr_NewMessageProof_def bind_r_Ret)

lemma receiptLoopD:
  "receiptLoop E bls limit rest rps seq rm = Ret i \<Longrightarrow> \<exists>ls p. i = mkMessageProof bls (RxSeq bls + 1) ls p \<and> seq - 1 \<le> ls"
proof (induction rest arbitrary: rps seq rm)
  case Nil
  then show ?case using ethbr_NewMessageProofD by fastforce
next
  case (Cons rp rest)
  obtain stop k trp seq' rm' where ev: "eventLoop limit (rp_Events rp) 0
      \<lparr>rp_Index = rp_Index rp, rp_Events = [], rp_Height = rp_Height rp\<rparr> seq rm = (stop, k, trp, seq', rm')"
    by (metis prod_cases5)
  note m = eventLoop_mono [OF ev]
  consider (stop) "ethbr_NewMessageProof E bls (RxSeq bls + 1) (seq' - 1) (rps @ replicate k trp) = Ret i"
    | (more) rps' where "receiptLoop E bls limit rest rps' seq' rm' = Ret i"
    using Cons.prems ev by (auto simp: Let_def split: if_splits)
  then show ?case
  proof cases
    case stop
    with m ethbr_NewMessageProofD [OF stop] show ?thesis by auto
  next
    case more
    from Cons.IH [OF more] m show ?thesis by fastforce
  qed
qed

lemma ethbr_BuildMessageProof_Ret:
  assumes "ethbr_BuildMessageProof E e bls limit = Ret (Some i)"
  shows "VHeight (nextBls (body i)) = VHeight bls \<and> RxSeq bls \<le> RxSeq (nextBls (body i))"
  using assms
  by (auto simp: ethbr_BuildMessageProof_def bind_r_Ret mkMessageProof_def dest!: receiptLoopD split: option.splits if_splits)

lemma ethbr_BuildBlockUpdate_Ret:
  assumes "ascending es_height (e_rss e)" and "ethbr_BuildBlockUpdate e bls limit = Ret bus"
  shows "\<exists>i. bus = [i] \<and> VHeight bls < VHeight (nextBls (body i)) \<and> RxSeq (nextBls (body i)) = RxSeq bls"
proof -
  from assms(2) obtain rs where rs: "ethbr_nextReceiveStatus e bls = Ret (Some rs)"
    and bus: "bus = [ethbr_NewBlockUpdate bls (es_height rs)]"
    by (auto simp: ethbr_BuildBlockUpdate_def bind_r_Ret split: option.splits)
  from nextStatus_above [OF assms(1)] rs have "VHeight bls < es_height rs"
    by (auto simp: ethbr_nextReceiveStatus_def)
  with bus show ?thesis by (simp add: ethbr_NewBlockUpdate_def mkBlockUpdate_def)
qed

fun ethbr_of :: "(Event list \<Rightarrow> bytes result) \<times> 'd ethbr \<Rightarrow> item receiver" where
  "ethbr_of (E, e) = ethbr_receiver E e"

fun ethbr_ok :: "(Event list \<Rightarrow> bytes result) \<times> 'd ethbr \<Rightarrow> bool" where
  "ethbr_ok (E, e) \<longleftrightarrow> ethbr_window e"

lemma ethbr_window_ascending: "ethbr_window e \<Longrightarrow> ascending es_height (e_rss e)"
  unfolding ethbr_window_def ascending_def by (auto elim: sorted_wrt_mono_rel [rotated])

interpretation ethbr: chain_receiver ethbr_of ethbr_ok
proof (unfold_locales, goal_cases)
  case (4 s b lim i)
  then show ?case by (cases s) (auto simp: ethbr_receiver_def dest: ethbr_BuildMessageProof_Ret)
next
  case (5 s b lim bus)
  then show ?case
    by (cases s) (auto simp: ethbr_receiver_def dest: ethbr_BuildBlockUpdate_Ret [OF ethbr_window_ascending])
qed (auto simp: ethbr_receiver_def ethbr_BuildBlockProof_def)

section \<open>Relaying through the link\<close>


definition events_of :: "ethbrStatus \<Rightarrow> Event list" where
  "events_of rs = concat (map rp_Events (es_rps rs))"

definition numbered :: "ethbrStatus \<Rightarrow> bool" where
  "numbered rs \<longleftrightarrow> list_all (\<lambda>rp. rp_Events rp \<noteq> []) (es_rps rs) \<and> es_startSeq rs \<le> es_lastSeq rs \<and>
     map (\<lambda>e. Int64 (Sequence e)) (events_of rs) = [es_startSeq rs..es_lastSeq rs]"

fun gapless :: "int \<Rightarrow> ethbrStatus list \<Rightarrow> bool" where
  "gapless seq [] = True"
| "gapless seq (rs # rss) \<longleftrightarrow> es_startSeq rs = seq + 1 \<and> numbered rs \<and> gapless (es_lastSeq rs) rss"


lemma gapless_starts: "gapless seq rss \<Longrightarrow> rs \<in> set rss \<Longrightarrow> seq < es_startSeq rs"
  by (induction seq rss rule: gapless.induct) (auto simp: numbered_def)

lemma gapless_tail:
  "gapless seq (rs # rss) \<Longrightarrow> ascending es_height (rs # rss) \<Longrightarrow>
   gapless (es_lastSeq rs) (filter (\<lambda>x. es_height rs < es_height x) (rs # rss))"
  by (auto simp: ascending_def filter_id_conv [THEN iffD2])







section \<open>An instance\<close>

text \<open>
  A block with three logs: two of one transaction to the own destination, numbered 5 and 6, then one to
  another destination, numbered 9. Addresses and payloads are single bytes.
\<close>

definition mk_log :: "byte \<Rightarrow> byte \<Rightarrow> int \<Rightarrow> ethLog" where
  "mk_log to sn tx = \<lparr>el_Topics = [[0], [to], [sn]], el_Data = [sn], el_TxIndex = tx, el_BlockNumber = 100\<rparr>"

definition mk_event :: "byte \<Rightarrow> byte \<Rightarrow> Event" where
  "mk_event to sn = \<lparr>Next = [to], Sequence = int (unat sn), Message = [sn]\<rparr>"

definition ev_of :: "ethLog \<Rightarrow> Event" where
  "ev_of el = mk_event (hd (el_Topics el ! 1)) (hd (el_Topics el ! 2))"

definition three_logs :: BlockNotification where
  "three_logs = \<lparr>v_Height = 100, v_Logs = [mk_log 7 5 3, mk_log 7 6 3, mk_log 8 9 4]\<rparr>"

definition two_logs :: BlockNotification where
  "two_logs = \<lparr>v_Height = 100, v_Logs = [mk_log 7 5 3, mk_log 7 6 3]\<rparr>"

definition late_log :: BlockNotification where
  "late_log = \<lparr>v_Height = 101, v_Logs = [mk_log 7 7 0]\<rparr>"

definition eth_start :: "(bytes \<times> bytes) list ethbr" where
  "eth_start = (newEthBridge [])\<lparr>e_seq := 4\<rparr>"

definition own_receipt :: ReceiptProof where
  "own_receipt = \<lparr>rp_Index = 3, rp_Events = [mk_event 7 5, mk_event 7 6], rp_Height = 100\<rparr>"

definition mixed_status :: ethbrStatus where
  "mixed_status = \<lparr>es_height = 100, es_startSeq = 5, es_lastSeq = 9, es_rps = [own_receipt]\<rparr>"

definition plain_status :: ethbrStatus where
  "plain_status = \<lparr>es_height = 100, es_startSeq = 5, es_lastSeq = 6, es_rps = [own_receipt]\<rparr>"

definition eth_mixed :: "(bytes \<times> bytes) list ethbr" where
  "eth_mixed = eth_start\<lparr>e_seq := 9, e_receiveHeight := 100, e_rss := [mixed_status], e_out := [mixed_status]\<rparr>"

definition eth_plain :: "(bytes \<times> bytes) list ethbr" where
  "eth_plain = eth_start\<lparr>e_seq := 6, e_receiveHeight := 100, e_rss := [plain_status], e_out := [plain_status]\<rparr>"

abbreviation "onBlock_here \<equiv> ethbr_onBlock list_store Ret (\<lambda>b. [7]) ''btp://x''"

lemma mk_log_event: "logToEvent Ret (mk_log to sn tx) = Ret (ev_of (mk_log to sn tx))"
  by (simp add: logToEvent_def mk_log_def ev_of_def mk_event_def)

lemma Int64_small: "Int64 3 = 3" "Int64 5 = 5" "Int64 6 = 6" "Int64 7 = 7" "Int64 9 = 9" "Int64 100 = 100" "Int64 101 = 101"
  by (simp_all add: Int64_id)

lemmas eth_run = ethbr_onBlock_def ethbr_record_def proc_defs bind_p_def Let_def mk_log_event ev_of_def mk_log_def mk_event_def
  Int64_small ethbr_newReceiveStatus_def eth_start_def newEthBridge_def

lemma mixed_run: "onBlock_here three_logs eth_start = (Ret (), eth_mixed)"
  by (simp add: eth_run three_logs_def eth_mixed_def mixed_status_def own_receipt_def logToEvent_def)

lemma plain_run: "onBlock_here two_logs eth_start = (Ret (), eth_plain)"
  by (simp add: eth_run two_logs_def eth_plain_def plain_status_def own_receipt_def logToEvent_def)

lemma late_run: "onBlock_here late_log eth_mixed = (Ret (), eth_mixed\<lparr>e_receiveHeight := 101\<rparr>)"
  by (simp add: eth_run late_log_def eth_mixed_def logToEvent_def)

theorem ethbr_block_added_witness:
  "\<exists>rps. e_rss eth_mixed = [\<lparr>es_height = 100, es_startSeq = 5, es_lastSeq = 9, es_rps = rps\<rparr>] \<and> rp_Index ` set rps = {3}"
proof -
  have dec: "\<forall>el\<in>set (v_Logs three_logs). logToEvent Ret el = Ret (ev_of el) \<and> 0 \<le> el_TxIndex el \<and> el_TxIndex el < 2 ^ 63"
    using mk_log_event by (simp add: three_logs_def) (simp add: mk_log_def)
  have fs: "filter (\<lambda>el. e_seq eth_start < Int64 (Sequence (ev_of el))) (v_Logs three_logs) = v_Logs three_logs"
    "filter (\<lambda>el. Next (ev_of el) = (\<lambda>b. [7]) (string_bytes ''btp://x'')) (v_Logs three_logs) = [mk_log 7 5 3, mk_log 7 6 3]"
    by (simp_all add: eth_run three_logs_def)
  show ?thesis
    using ethbr_block_added [OF mixed_run _ dec refl refl] unfolding fs
    by (auto simp: eth_run three_logs_def)
qed

theorem ethbr_foreign_hides_witness:
  "e_seq eth_mixed = 9 \<and> e_rss (eth_mixed\<lparr>e_receiveHeight := 101\<rparr>) = e_rss eth_mixed"
proof -
  let ?fs = "v_Logs three_logs"
  have "e_seq eth_mixed = Int64 (Sequence (ev_of (last ?fs))) \<and> e_rss (eth_mixed\<lparr>e_receiveHeight := 101\<rparr>) = e_rss eth_mixed"
  proof (rule ethbr_foreign_hides [OF mixed_run _ _ _ _ late_run])
    show "\<forall>el\<in>set (v_Logs three_logs) \<union> set (v_Logs late_log). logToEvent Ret el = Ret (ev_of el)"
      by (simp add: three_logs_def late_log_def mk_log_event)
  qed (simp_all add: eth_run three_logs_def late_log_def)
  then show ?thesis by (simp add: eth_run three_logs_def)
qed

theorem ethbr_window_kept_witness:
  "ethbr_window (snd (onBlock_here late_log eth_plain)) \<and>
   ethbr_window (snd (ethbr_FinalizedStatus list_store (status_at 100 6) eth_plain))"
  by (rule ethbr_window_kept)
    (simp_all add: ethbr_window_def eth_plain_def plain_status_def eth_start_def newEthBridge_def late_log_def Int64_small)

lemma plain_status_found: "ethbr_getReceiveStatusForSequence eth_plain 5 = Some plain_status"
  by (simp add: ethbr_getReceiveStatusForSequence_def eth_plain_def plain_status_def)

definition pair_enc :: "Event list \<Rightarrow> bytes result" where
  "pair_enc evts = Ret [1, 2]"

text \<open>The one receipt of the block, with its two events, is relayed twice.\<close>

theorem ethbr_message_proof_witness:
  "ethbr_BuildMessageProof pair_enc eth_plain (status_at 100 4) 90 =
    bind_r (ethbr_NewMessageProof pair_enc (status_at 100 4) 5 6 [own_receipt, own_receipt]) (\<lambda>mp. Ret (Some mp))"
  using ethbr_message_proof [of eth_plain "status_at 100 4" plain_status "Suc (Suc 0)" 90 pair_enc] plain_status_found
  by (simp add: plain_status_def own_receipt_def mk_event_def Int64_small status_at_def upto.simps)

definition split_status :: ethbrStatus where
  "split_status = \<lparr>es_height = 100, es_startSeq = 5, es_lastSeq = 6, es_rps =
     [\<lparr>rp_Index = 3, rp_Events = [mk_event 7 5], rp_Height = 100\<rparr>, \<lparr>rp_Index = 4, rp_Events = [mk_event 7 6], rp_Height = 100\<rparr>]\<rparr>"

text \<open>With the message of the first receipt relayed, the proof of the second panics.\<close>

theorem ethbr_resume_panics_witness:
  "ethbr_BuildMessageProof (\<lambda>evts. Ret []) (eth_plain\<lparr>e_rss := [split_status]\<rparr>) (status_at 100 5) 90 = Panic"
  by (rule ethbr_resume_panics [of _ _ split_status "hd (es_rps split_status)" "tl (es_rps split_status)"])
    (simp_all add: ethbr_getReceiveStatusForSequence_def split_status_def status_at_def mk_event_def Int64_small)

definition eth_update :: item where
  "eth_update = mkBlockUpdate (status_at 95 4) 100 []"

definition eth_proof :: item where
  "eth_proof = mkMessageProof (status_at 100 4) 5 6 (enc (relay_val [enc (receipt_val 3 [1, 2] 100), enc (receipt_val 3 [1, 2] 100)]))"

lemma eth_update_built: "ethbr_BuildBlockUpdate eth_plain (status_at 95 4) 90 = Ret [eth_update]"
  by (simp add: ethbr_BuildBlockUpdate_def ethbr_nextReceiveStatus_def eth_plain_def plain_status_def status_at_def
      ethbr_NewBlockUpdate_def eth_update_def)

lemma eth_proof_built: "ethbr_BuildMessageProof pair_enc eth_plain (status_at 100 4) 90 = Ret (Some eth_proof)"
proof -
  have "ethbr_BuildMessageProof pair_enc eth_plain (status_at 100 4) 90 =
    bind_r (ethbr_NewMessageProof pair_enc (status_at 100 4) 5 6 [own_receipt, own_receipt]) (\<lambda>mp. Ret (Some mp))"
    using ethbr_message_proof_eq [of eth_plain "status_at 100 4" plain_status "Suc (Suc 0)" 90 pair_enc] plain_status_found
    by (simp add: plain_status_def own_receipt_def mk_event_def Int64_small status_at_def upto.simps)
  then show ?thesis
    by (simp add: ethbr_NewMessageProof_def own_receipt_def pair_enc_def MarshalToBytes_enc eth_proof_def)
qed

lemma eth_lengths: "item_Len eth_update = 0" "item_Len eth_proof = 16"
proof -
  have "Int64ToBytes 3 = [3]" "Int64ToBytes 100 = [100]" by code_simp+
  then show "item_Len eth_update = 0" "item_Len eth_proof = 16"
    by (simp_all add: eth_update_def eth_proof_def item_defs relay_val_def receipt_val_def enc_list_def sized_def enc_bytes_def)
qed

lemma eth_updates:
  "UpdateBMCLinkStatus eth_update (status_at 95 4) = (None, status_at 100 4)"
  "UpdateBMCLinkStatus eth_proof (status_at 100 4) = (None, status_at 100 6)"
  "ProofHeight eth_update = 100"
  by (simp_all add: eth_update_def eth_proof_def UpdateBMCLinkStatus_def mkBlockUpdate_def mkMessageProof_def
      status_at_def ProofHeight_def)

lemma eth_relay_built: "ethbr_BuildRelayMessage [eth_update, eth_proof] = Ret (payload (body eth_proof))"
  by (simp add: eth_update_def eth_proof_def mkBlockUpdate_def mkMessageProof_def item_Type_def)

definition eth_relaying :: "(item, unit) link" where
  "eth_relaying = opened\<lparr>l_rms := [(newRelayMessage (opened\<lparr>l_bls := status_at 100 6\<rparr>)
       (payload (body eth_proof)) [eth_update, eth_proof])\<lparr>rm_sendingStatus := True\<rparr>],
     l_rss := [\<lparr>rs_Height = 100, rs_Seq = 6\<rparr>], l_bls := status_at 100 6, l_relayState := PENDING, l_once := True\<rparr>"

lemma eth_opened_run:
  "Start (ethbr_receiver pair_enc eth_plain) (calm_sender (status_at 95 4)) (NewLink ''btp://0x1.icon/cx00'' ()) = (Ret (), opened)"
  by (simp add: Start_def startSenderChannel_def updateBMCLinkStatus_def opt_fail_def opened_def calm_sender_def
      ethbr_receiver_def NewLink_def proc_defs bind_p_def)

lemma eth_relaying_run:
  "onReceiveStatus (ethbr_receiver pair_enc eth_plain) (calm_sender (status_at 95 4)) (Suc (Suc (Suc 0)))
     \<lparr>rs_Height = 100, rs_Seq = 6\<rparr> opened = (Ret (), eth_relaying)"
proof -
  have st: "VHeight (status_at h q) = h" "RxSeq (status_at h q) = q" for h q by (simp_all add: status_at_def)
  show ?thesis
    by (simp add: onReceiveStatus_def handleUndeliveredRelayMessage_def handleRelayMessage_def sendRelayMessage_def
        buildRelayMessage_def buildProof_def buildMessageProof_def updateBls_def appendRelayMessageItem_def appendRelayMessage_def
        resetRelayMessageItem_def report_def getReceiveStatusForHeight_def targetSeq_def emptyProof_def needsBlockProof_def
        isOverLimit_def behind_def opened_def eth_relaying_def NewLink_def calm_sender_def ethbr_receiver_def
        eth_update_built eth_proof_built eth_relay_built eth_lengths eth_updates st newRelayMessage_def
        proc_defs bind_p_def del: ethbr_BuildRelayMessage.simps)
qed



end
