(* ===== verification/Ethbr_Sender.thy ===== *)
theory Ethbr_Sender
  imports Ethbr_Receiver Parse_Int Relay_Queue
begin

text \<open>
  The sender of relay messages to an Ethereum chain, src/chain/ethbr/sender.go, with the parts of its
  client (src/chain/ethbr/client/client.go) that read the result of a transaction. The node, reached
  through go-ethereum and the generated contract binding, is a parameter: a record of functions on its state.
\<close>

section \<open>The node\<close>

text \<open>
  \<open>en_transaction\<close> tells whether a transaction is pending, \<open>en_receipt\<close> gives the status of its receipt,
  \<open>en_call\<close> the error of repeating it as a call, if any.
\<close>

record 'n eth_node =
  en_transactOpts :: "'n \<Rightarrow> unit result \<times> 'n"
  en_handleRelayMessage :: "string \<Rightarrow> bytes \<Rightarrow> 'n \<Rightarrow> bytes result \<times> 'n"
  en_transaction :: "bytes \<Rightarrow> 'n \<Rightarrow> bool result \<times> 'n"
  en_receipt :: "bytes \<Rightarrow> 'n \<Rightarrow> nat result \<times> 'n"
  en_call :: "bytes \<Rightarrow> 'n \<Rightarrow> err option result \<times> 'n"
  en_status :: "string \<Rightarrow> 'n \<Rightarrow> (int \<times> int \<times> int \<times> bytes) result \<times> 'n"

text \<open>\<open>GetRevertMessage\<close>: the message of the error of the call; a call without error dereferences nil.\<close>

definition GetRevertMessage :: "'n eth_node \<Rightarrow> bytes \<Rightarrow> 'n \<Rightarrow> string result \<times> 'n" where
  "GetRevertMessage N h n = (case en_call N h n of (r, n') \<Rightarrow>
     (bind_r r (\<lambda>e. case e of None \<Rightarrow> Panic | Some e \<Rightarrow> Ret (Go_Errors.Message e)), n'))"

section \<open>State\<close>

definition ethbr_txSizeLimit :: nat where "ethbr_txSizeLimit = (524288 * 100 + 136) div 137"

record 'n esender =
  et_queue :: queue
  et_running :: "(string \<times> bytes) list"
  et_rr :: "relayResult list"
  et_node :: 'n

definition esender_init :: "'n \<Rightarrow> 'n esender" where
  "esender_init n = \<lparr>et_queue = ethbr_newQueue, et_running = [], et_rr = [], et_node = n\<rparr>"

section \<open>Sending\<close>

definition ethbr_relay :: "'n eth_node \<Rightarrow> string \<Rightarrow> bytes \<Rightarrow> 'n \<Rightarrow> bytes result \<times> 'n" where
  "ethbr_relay N src m n = (case en_transactOpts N n of
      (Ret _, n') \<Rightarrow> en_handleRelayMessage N src m n'
    | (Fail e, n') \<Rightarrow> (Fail e, n') | (Panic, n') \<Rightarrow> (Panic, n') | (OutOfFuel, n') \<Rightarrow> (OutOfFuel, n'))"

definition ethbr_Relay :: "'n eth_node \<Rightarrow> string \<Rightarrow> string \<Rightarrow> bytes \<Rightarrow> 'n esender \<Rightarrow> string result \<times> 'n esender" where
  "ethbr_Relay N src i m s = (if ethbr_MaxQueueSize \<le> ethbr_queue_len (et_queue s)
     then (Fail (Errorc InvalidStateError ''pending queue full''), s)
     else (case ethbr_relay N src m (et_node s) of
         (Ret h, n) \<Rightarrow> (Ret i, s\<lparr>et_node := n, et_queue := snd (ethbr_enqueue i h (et_queue s)), et_running := et_running s @ [(i, h)]\<rparr>)
       | (Fail e, n) \<Rightarrow> (Fail e, s\<lparr>et_node := n\<rparr>) | (Panic, n) \<Rightarrow> (Panic, s\<lparr>et_node := n\<rparr>) | (OutOfFuel, n) \<Rightarrow> (OutOfFuel, s\<lparr>et_node := n\<rparr>)))"

section \<open>Results\<close>

text \<open>\<open>strconv.Atoi\<close>.\<close>

definition Atoi :: "string \<Rightarrow> int result" where
  "Atoi s = (case SetString s 10 of Some v \<Rightarrow> if - (2 ^ 63) \<le> v \<and> v < 2 ^ 63 then Ret v else Fail syntaxError | None \<Rightarrow> Fail syntaxError)"

text \<open>
  The error that the message of a reverted transaction stands for: the last word of its second part, when
  it has more than two parts separated by colons. A negative number gives nil.
\<close>

definition revertError :: "string \<Rightarrow> err option result" where
  "revertError msg = (let msgs = str_split (CHR '':'') msg in
     if length msgs > 2 then (let codeMsg = str_split (CHR '' '') (msgs ! 1) in
       (case Atoi (last codeMsg) of Ret c \<Rightarrow> Ret (ethbr_NewRevertError c) | Fail e \<Rightarrow> Ret (Some e) | Panic \<Rightarrow> Panic | OutOfFuel \<Rightarrow> OutOfFuel))
     else Ret (ethbr_NewRevertError 25))"

text \<open>\<open>GetResult\<close>: the error it returns, \<open>None\<close> for nil.\<close>

fun ethbr_GetResult :: "nat \<Rightarrow> 'n eth_node \<Rightarrow> bytes \<Rightarrow> 'n \<Rightarrow> err option result \<times> 'n" where
  "ethbr_GetResult 0 N h n = (OutOfFuel, n)"
| "ethbr_GetResult (Suc fuel) N h n = (case en_transaction N h n of
      (Fail e, n1) \<Rightarrow> (Ret (Some e), n1)
    | (Ret pending, n1) \<Rightarrow> (if pending then ethbr_GetResult fuel N h n1 else (case en_receipt N h n1 of
          (Fail e, n2) \<Rightarrow> (Ret (Some e), n2)
        | (Ret status, n2) \<Rightarrow> (if status = 0 then (case GetRevertMessage N h n2 of
              (Fail e, n3) \<Rightarrow> (Ret (Some e), n3)
            | (Ret msg, n3) \<Rightarrow> (revertError msg, n3)
            | (Panic, n3) \<Rightarrow> (Panic, n3) | (OutOfFuel, n3) \<Rightarrow> (OutOfFuel, n3))
            else (Ret None, n2))
        | (Panic, n2) \<Rightarrow> (Panic, n2) | (OutOfFuel, n2) \<Rightarrow> (OutOfFuel, n2)))
    | (Panic, n1) \<Rightarrow> (Panic, n1) | (OutOfFuel, n1) \<Rightarrow> (OutOfFuel, n1))"

definition ethbr_reportOf :: "string \<Rightarrow> err option \<Rightarrow> relayResult list" where
  "ethbr_reportOf i e = (if e = None then [\<lparr>rr_Id = i, rr_Err = - 1, rr_Finalized = True\<rparr>]
     else (case CoderOf e of Some x \<Rightarrow> (case ErrorCode x of Some ec \<Rightarrow> [\<lparr>rr_Id = i, rr_Err = ec, rr_Finalized = True\<rparr>] | None \<Rightarrow> [])
       | None \<Rightarrow> []))"

definition ethbr_result :: "nat \<Rightarrow> 'n eth_node \<Rightarrow> string \<times> bytes \<Rightarrow> 'n esender \<Rightarrow> unit result \<times> 'n esender" where
  "ethbr_result fuel N g s = (case ethbr_GetResult fuel N (snd g) (et_node s) of
      (Ret e, n) \<Rightarrow> (Ret (), s\<lparr>et_node := n, et_queue := ethbr_dequeue (fst g) (et_queue s), et_rr := et_rr s @ ethbr_reportOf (fst g) e,
          et_running := remove1 g (et_running s)\<rparr>)
    | (Fail e, n) \<Rightarrow> (Fail e, s\<lparr>et_node := n\<rparr>) | (Panic, n) \<Rightarrow> (Panic, s\<lparr>et_node := n\<rparr>) | (OutOfFuel, n) \<Rightarrow> (OutOfFuel, s\<lparr>et_node := n\<rparr>))"

definition ethbr_GetPreference :: preference where
  "ethbr_GetPreference = \<lparr>TxSizeLimit = int ethbr_txSizeLimit, MarginForLimit = 0, LatestResult = False, FilledBlockUpdate = False\<rparr>"

definition ethbr_sender_GetStatus :: "'n eth_node \<Rightarrow> string \<Rightarrow> 'n esender \<Rightarrow> bmcLinkStatus result \<times> 'n esender" where
  "ethbr_sender_GetStatus N src s = (case en_status N src (et_node s) of (r, n) \<Rightarrow>
     (bind_r r (\<lambda>(tx, rx, h, x). Ret \<lparr>TxSeq = Int64 tx, RxSeq = Int64 rx, VHeight = Int64 h, VExtra = x\<rparr>), s\<lparr>et_node := n\<rparr>))"

section \<open>Steps\<close>

text \<open>
  As for the ICON sender: accepted messages, ended goroutines with what \<open>GetResult\<close> returned, and a queue and a
  node that others change in between.
\<close>

inductive ethbr_run :: "'n eth_node \<Rightarrow> string \<Rightarrow> string list \<Rightarrow> (string \<times> err option) list \<Rightarrow> 'n esender \<Rightarrow> bool" for N src where
  start: "ethbr_run N src [] [] (esender_init n)"
| accepted: "ethbr_run N src acc fin s \<Longrightarrow> ethbr_Relay N src i m (s\<lparr>et_queue := q, et_node := n\<rparr>) = (Ret i, s') \<Longrightarrow>
    ethbr_run N src (acc @ [i]) fin s'"
| refused: "ethbr_run N src acc fin s \<Longrightarrow> ethbr_Relay N src i m (s\<lparr>et_queue := q, et_node := n\<rparr>) = (Fail e, s') \<Longrightarrow>
    ethbr_run N src acc fin s'"
| finished: "ethbr_run N src acc fin s \<Longrightarrow> g \<in> set (et_running s) \<Longrightarrow>
    ethbr_result fuel N g (s\<lparr>et_queue := q, et_node := n\<rparr>) = (Ret (), s') \<Longrightarrow>
    fst (ethbr_GetResult fuel N (snd g) n) = Ret e \<Longrightarrow> ethbr_run N src acc (fin @ [(fst g, e)]) s'"

section \<open>Accepted, awaited and reported\<close>

definition ethbr_code_due :: "err option \<Rightarrow> int option" where
  "ethbr_code_due e = (case e of None \<Rightarrow> Some (- 1) | Some x \<Rightarrow> if CoderOf (Some x) = None then None else Some (CodeOf (Some x)))"

lemma ethbr_reportOf_due:
  "ethbr_reportOf i e = (case ethbr_code_due e of None \<Rightarrow> [] | Some v \<Rightarrow> [\<lparr>rr_Id = i, rr_Err = v, rr_Finalized = True\<rparr>])"
  using CoderOf_coder [of e]
  by (auto simp: ethbr_reportOf_def ethbr_code_due_def CodeOf_def split: option.split)

lemma ethbr_Relay_accepts:
  "ethbr_Relay N src i m s = (Ret j, s') \<Longrightarrow> \<exists>h. et_running s' = et_running s @ [(i, h)] \<and> et_rr s' = et_rr s"
  by (auto simp: ethbr_Relay_def split: if_splits prod.splits outcome.splits)

lemma ethbr_Relay_refuses: "ethbr_Relay N src i m s = (Fail e, s') \<Longrightarrow> et_running s' = et_running s \<and> et_rr s' = et_rr s"
  by (auto simp: ethbr_Relay_def split: if_splits prod.splits outcome.splits)

lemma ethbr_result_ends:
  assumes "ethbr_result fuel N g s = (Ret (), s')" and "fst (ethbr_GetResult fuel N (snd g) (et_node s)) = Ret e"
  shows "et_running s' = remove1 g (et_running s) \<and> et_rr s' = et_rr s @ ethbr_reportOf (fst g) e"
  using assms by (auto simp: ethbr_result_def split: prod.splits outcome.splits)

interpretation ethbr_reports: reporting_sender et_running et_rr
    "\<lambda>i s s'. \<exists>m q n. ethbr_Relay N src i m (s\<lparr>et_queue := q, et_node := n\<rparr>) = (Ret i, s')"
    "\<lambda>s s'. \<exists>i m q n e. ethbr_Relay N src i m (s\<lparr>et_queue := q, et_node := n\<rparr>) = (Fail e, s')"
    "\<lambda>g e s s'. \<exists>fuel q n. ethbr_result fuel N g (s\<lparr>et_queue := q, et_node := n\<rparr>) = (Ret (), s') \<and>
       fst (ethbr_GetResult fuel N (snd g) n) = Ret e"
    ethbr_code_due for N src
proof (unfold_locales, goal_cases)
  case (1 i s s')
  then show ?case using ethbr_Relay_accepts by fastforce
next
  case (2 s s')
  then show ?case using ethbr_Relay_refuses by fastforce
next
  case (3 g e s s')
  then obtain fuel q n where "ethbr_result fuel N g (s\<lparr>et_queue := q, et_node := n\<rparr>) = (Ret (), s')"
    "fst (ethbr_GetResult fuel N (snd g) n) = Ret e" by blast
  from ethbr_result_ends [OF this(1), of e] this(2) show ?case by (simp add: ethbr_reportOf_due)
qed

text \<open>
  In every run of the Ethereum sender the accepted messages are, with the multiplicity of their identifiers, those that
  are awaited and those whose goroutine ended, and what was reported to the link are the ended ones whose
  outcome is success (\<open>-1\<close>) or an error with a code, each once, final, with that code, in the order in which they ended.
\<close>
theorem ethbr_run_accounts:
  assumes "ethbr_run N src acc fin s"
  shows "mset acc = mset (map fst (et_running s)) + mset (map fst fin) \<and>
    et_rr s = map (\<lambda>(i, e). \<lparr>rr_Id = i, rr_Err = the (ethbr_code_due e), rr_Finalized = True\<rparr>)
      (filter (\<lambda>(i, e). ethbr_code_due e \<noteq> None) fin)"
proof -
  from assms have "ethbr_reports.accounted acc fin s"
  proof (induction rule: ethbr_run.induct)
    case (start n)
    show ?case by (simp add: ethbr_reports.accounted_def esender_init_def)
  next
    case (accepted acc fin s i m q n s')
    then show ?case by (blast intro: ethbr_reports.accounted_accepts)
  next
    case (refused acc fin s i m q n e s')
    then show ?case by (blast intro: ethbr_reports.accounted_refuses)
  next
    case (finished acc fin s g fuel q n s' e)
    then show ?case by (blast intro: ethbr_reports.accounted_ends)
  qed
  then show ?thesis by (simp add: ethbr_reports.accounted_def)
qed

section \<open>Reporting results\<close>

fun pending_for :: "'n eth_node \<Rightarrow> bytes \<Rightarrow> nat \<Rightarrow> 'n \<Rightarrow> 'n option" where
  "pending_for N h 0 n = Some n"
| "pending_for N h (Suc k) n = (case en_transaction N h n of (Ret True, n') \<Rightarrow> pending_for N h k n' | _ \<Rightarrow> None)"

lemma ethbr_GetResult_waits:
  "pending_for N h k n = Some n' \<Longrightarrow> ethbr_GetResult (fuel + k) N h n = ethbr_GetResult fuel N h n'"
  by (induction k arbitrary: n) (auto split: prod.splits outcome.splits bool.splits)

lemma split_no_sep: "c \<notin> set s \<Longrightarrow> str_split c s = [s]"
  by (induction s) auto

lemma split_sep: "c \<notin> set s \<Longrightarrow> str_split c (s @ c # t) = s # str_split c t"
  by (induction s) auto

lemma digit_char: "d < 10 \<Longrightarrow> digit_val (char_of (48 + d :: nat)) = Some d \<and> char_of (48 + d) \<notin> set ''-+_: ''"
proof -
  assume d: "d < 10"
  then have "char_code (char_of (48 + d)) = 48 + d" by (simp add: char_code_def)
  moreover from this have "char_of (48 + d) \<noteq> c" if "char_code c < 48 \<or> 57 < char_code c" for c using that d by auto
  ultimately show ?thesis using d by (auto simp: digit_val_def char_code_def)
qed

lemma dec_nat_chars: "\<forall>c\<in>set (dec_nat n). \<exists>d<10. c = char_of (48 + d :: nat)"
proof (induction n rule: dec_nat.induct)
  case (1 n)
  show ?case
  proof (cases "n < 10")
    case False
    with 1 have "\<forall>c\<in>set (dec_nat (n div 10)). \<exists>d<10. c = char_of (48 + d :: nat)" by simp
    moreover have "\<exists>d<10. char_of (48 + n mod 10) = (char_of (48 + d :: nat) :: char)" by (rule exI [of _ "n mod 10"]) simp
    ultimately show ?thesis using False unfolding dec_nat.simps [of n] by auto
  qed (auto simp: dec_nat.simps [of n])
qed

lemma parse_dec: "parse_digits 10 False (dec_nat n) 0 = Some n \<and> dec_nat n \<noteq> []"
proof (induction n rule: dec_nat.induct)
  case (1 n)
  then show ?case
    using digit_char by (cases "n < 10") (simp_all add: dec_nat.simps [of n] parse_digits_append)
qed

lemma Atoi_dec: "n < 2 ^ 63 \<Longrightarrow> Atoi (dec_nat n) = Ret (int n)"
proof -
  assume n: "n < 2 ^ 63"
  obtain c cs where e: "dec_nat n = c # cs" using parse_dec [of n] by (cases "dec_nat n") auto
  then have "c \<notin> set ''-+_: ''" using dec_nat_chars [of n] digit_char by (metis list.set_intros(1))
  then have "SetString (dec_nat n) 10 = Some (int n)" using parse_dec [of n] e by (auto simp: SetString_def strip_sign_def Let_def)
  with n show ?thesis by (simp add: Atoi_def)
qed

lemma split_length: "length (str_split c s) = Suc (count_list s c)"
  by (induction s) (auto split: list.splits)

lemma split_ne: "str_split c s \<noteq> []"
  using split_length [of c s] by auto

lemma split_last: "c \<notin> set w \<Longrightarrow> last (str_split c (a @ c # w)) = w"
proof (induction a)
  case Nil
  then show ?case by (simp add: split_no_sep)
next
  case (Cons x a)
  have "str_split c (a @ c # w) \<noteq> []" "1 < length (str_split c (a @ c # w))" by (simp_all add: split_ne split_length)
  with Cons show ?case by (cases "str_split c (a @ c # w)") (auto split: if_splits)
qed

text \<open>The word of a message that is read as the code: the last of its second part.\<close>

lemma revertError_word:
  assumes "CHR '':'' \<notin> set pre" and "CHR '':'' \<notin> set mid" and "mid = w \<or> mid = a @ CHR '' '' # w" and "CHR '' '' \<notin> set w"
  shows "revertError (pre @ CHR '':'' # mid @ CHR '':'' # rest) =
    (case Atoi w of Ret v \<Rightarrow> Ret (ethbr_NewRevertError v) | Fail e \<Rightarrow> Ret (Some e) | Panic \<Rightarrow> Panic | OutOfFuel \<Rightarrow> OutOfFuel)"
proof -
  have "str_split (CHR '':'') (pre @ CHR '':'' # mid @ CHR '':'' # rest) = pre # mid # str_split (CHR '':'') rest"
    using assms(1,2) split_sep by metis
  moreover have "last (str_split (CHR '' '') mid) = w"
    using assms(3,4) split_last [OF assms(4), of a] by (auto simp: split_no_sep)
  ultimately show ?thesis using split_ne [of "CHR '':''" rest] by (simp add: revertError_def Let_def)
qed

lemma revertError_short: "count_list msg (CHR '':'') \<le> 1 \<Longrightarrow> revertError msg = Ret (ethbr_NewRevertError 25)"
  by (simp add: revertError_def split_length)

lemma ethbr_revert_report:
  "ethbr_reportOf i (ethbr_NewRevertError ec) = [\<lparr>rr_Id = i, rr_Err = if 0 \<le> ec then ec else - 1, rr_Finalized = True\<rparr>]"
  by (simp add: ethbr_NewRevertError_def CodeBTP_def Let_def ethbr_reportOf_def CoderOf_def NewBase_def)

text \<open>The report that a word gives: a number is the code, a negative one counts as success, no number gives none.\<close>

definition word_report :: "string \<Rightarrow> string \<Rightarrow> relayResult list" where
  "word_report i w = (case Atoi w of Ret v \<Rightarrow> [\<lparr>rr_Id = i, rr_Err = if 0 \<le> v then v else - 1, rr_Finalized = True\<rparr>] | _ \<Rightarrow> [])"

lemma syntaxError_silent: "ethbr_reportOf i (Some syntaxError) = []"
  by (simp add: ethbr_reportOf_def CoderOf_def syntaxError_def)

lemma word_report_eq:
  "(case Atoi w of Ret v \<Rightarrow> Ret (ethbr_NewRevertError v) | Fail e \<Rightarrow> Ret (Some e) | Panic \<Rightarrow> Panic | OutOfFuel \<Rightarrow> OutOfFuel) = Ret x \<Longrightarrow>
   ethbr_reportOf i x = word_report i w"
  "\<exists>x. (case Atoi w of Ret v \<Rightarrow> Ret (ethbr_NewRevertError v) | Fail e \<Rightarrow> Ret (Some e) | Panic \<Rightarrow> Panic | OutOfFuel \<Rightarrow> OutOfFuel) = Ret x"
  by (auto simp: Atoi_def word_report_def ethbr_revert_report syntaxError_silent split: option.splits if_splits)

lemma revertError_total: "\<exists>x. revertError msg = Ret x"
  unfolding revertError_def Let_def using word_report_eq(2) by auto

lemma ethbr_GetResult_mined:
  assumes "en_transaction N h n1 = (Ret False, n2)" and "en_receipt N h n2 = (Ret status, n3)"
    and "status = 0 \<Longrightarrow> en_call N h n3 = (Ret (Some e), n4)"
  shows "\<exists>n'. ethbr_GetResult (Suc fuel) N h n1 = (if status = 0 then revertError (Go_Errors.Message e) else Ret None, n')"
  using assms by (cases "status = 0") (simp_all add: GetRevertMessage_def)

text \<open>
  C17: when a transaction that was pending any number of times is mined - and, if it failed, repeating it as a call gives an
  error -, the goroutine of the message ends and the message leaves the queue. A successful transaction is reported as
  success. For one that failed the message of the error decides: without a second colon the report is code 25; else the last
  word before the second colon and after the first is read as a number, which is reported as the code;
  a negative number is reported as success, and when the word is no number nothing is reported.
\<close>
theorem ethbr_result_reports:
  assumes "pending_for N h k (et_node s) = Some n1" and "en_transaction N h n1 = (Ret False, n2)" and "en_receipt N h n2 = (Ret status, n3)"
    and "status = 0 \<Longrightarrow> en_call N h n3 = (Ret (Some e), n4)"
  shows "\<exists>s' rep. ethbr_result (Suc fuel + k) N (i, h) s = (Ret (), s') \<and>
    et_rr s' = et_rr s @ rep \<and> et_queue s' = ethbr_dequeue i (et_queue s) \<and>
    (status \<noteq> 0 \<longrightarrow> rep = [\<lparr>rr_Id = i, rr_Err = - 1, rr_Finalized = True\<rparr>]) \<and>
    (status = 0 \<and> count_list (Go_Errors.Message e) (CHR '':'') \<le> 1 \<longrightarrow> rep = [\<lparr>rr_Id = i, rr_Err = 25, rr_Finalized = True\<rparr>]) \<and>
    (\<forall>pre mid rest a w. status = 0 \<and> Go_Errors.Message e = pre @ '':'' @ mid @ '':'' @ rest \<and> CHR '':'' \<notin> set pre \<and> CHR '':'' \<notin> set mid \<and>
      (mid = w \<or> mid = a @ '' '' @ w) \<and> CHR '' '' \<notin> set w \<longrightarrow>
      rep = (case Atoi w of Ret v \<Rightarrow> [\<lparr>rr_Id = i, rr_Err = if 0 \<le> v then v else - 1, rr_Finalized = True\<rparr>] | _ \<Rightarrow> []))"
proof -
  have w: "ethbr_GetResult (Suc fuel + k) N h (et_node s) = ethbr_GetResult (Suc fuel) N h n1" by (rule ethbr_GetResult_waits [OF assms(1)])
  obtain x where x: "revertError (Go_Errors.Message e) = Ret x" using revertError_total by blast
  let ?y = "if status = 0 then x else None"
  from ethbr_GetResult_mined [OF assms(2-4), of fuel] x obtain n' where
    g: "ethbr_GetResult (Suc fuel) N h n1 = (Ret ?y, n')" by (auto split: if_splits)
  have ok: "ethbr_reportOf i None = [\<lparr>rr_Id = i, rr_Err = - 1, rr_Finalized = True\<rparr>]" by (simp add: ethbr_reportOf_def)
  have short: "count_list (Go_Errors.Message e) (CHR '':'') \<le> 1 \<Longrightarrow> ethbr_reportOf i x = [\<lparr>rr_Id = i, rr_Err = 25, rr_Finalized = True\<rparr>]"
    using x ethbr_revert_report [of i 25] by (auto simp: revertError_short)
  have word: "ethbr_reportOf i x = word_report i w"
    if "Go_Errors.Message e = pre @ '':'' @ mid @ '':'' @ rest" "CHR '':'' \<notin> set pre" "CHR '':'' \<notin> set mid"
      "mid = w \<or> mid = a @ '' '' @ w" "CHR '' '' \<notin> set w" for pre mid rest a w
  proof -
    have "revertError (Go_Errors.Message e) = (case Atoi w of Ret v \<Rightarrow> Ret (ethbr_NewRevertError v) | Fail e \<Rightarrow> Ret (Some e)
        | Panic \<Rightarrow> Panic | OutOfFuel \<Rightarrow> OutOfFuel)"
      using revertError_word [OF that(2,3) _ that(5), of a rest] that(1,4) by simp
    from trans [OF sym [OF this] x] show ?thesis by (rule word_report_eq(1))
  qed
  let ?s = "s\<lparr>et_node := n', et_queue := ethbr_dequeue i (et_queue s),
      et_rr := et_rr s @ ethbr_reportOf i ?y, et_running := remove1 (i, h) (et_running s)\<rparr>"
  have run: "ethbr_result (Suc fuel + k) N (i, h) s = (Ret (), ?s)"
    unfolding ethbr_result_def snd_conv w g by simp
  have words: "\<forall>pre mid rest a w. status = 0 \<and> Go_Errors.Message e = pre @ '':'' @ mid @ '':'' @ rest \<and> CHR '':'' \<notin> set pre \<and>
      CHR '':'' \<notin> set mid \<and> (mid = w \<or> mid = a @ '' '' @ w) \<and> CHR '' '' \<notin> set w \<longrightarrow>
      ethbr_reportOf i ?y = (case Atoi w of Ret v \<Rightarrow> [\<lparr>rr_Id = i, rr_Err = if 0 \<le> v then v else - 1, rr_Finalized = True\<rparr>] | _ \<Rightarrow> [])"
  proof (intro allI impI, elim conjE, goal_cases)
    case (1 pre mid rest a w)
    from word [OF 1(2-6)] 1(1) show ?case by (simp add: word_report_def)
  qed
  show ?thesis
    by (rule exI [of _ ?s], rule exI [of _ "ethbr_reportOf i ?y"], intro conjI, rule run) (use ok short words in simp_all)
qed

lemma char_eq_50: "char_of (50 :: nat) = CHR ''2''" and char_eq_55: "char_of (55 :: nat) = CHR ''7''"
  by code_simp+

text \<open>A node whose transactions revert with a message.\<close>

definition reverting_node :: "string \<Rightarrow> unit eth_node" where
  "reverting_node m = \<lparr>en_transactOpts = (\<lambda>n. (Ret (), n)), en_handleRelayMessage = (\<lambda>src m n. (Ret [9], n)),
     en_transaction = (\<lambda>h n. (Ret False, n)), en_receipt = (\<lambda>h n. (Ret 0, n)), en_call = (\<lambda>h n. (Ret (Some (StdError m)), n)),
     en_status = (\<lambda>src n. (Panic, n))\<rparr>"

definition eth_sent_one :: "unit esender" where
  "eth_sent_one = \<lparr>et_queue = [\<lparr>rt_id = ''m'', rt_txHash = [9]\<rparr>], et_running = [(''m'', [9])], et_rr = [], et_node = ()\<rparr>"

lemma eth_sent_one_run: "ethbr_run (reverting_node msg) src [''m''] [] eth_sent_one"
proof -
  have "ethbr_Relay (reverting_node msg) src ''m'' [7] ((esender_init ())\<lparr>et_queue := [], et_node := ()\<rparr>) = (Ret ''m'', eth_sent_one)"
    by (simp add: ethbr_Relay_def ethbr_relay_def reverting_node_def esender_init_def ethbr_newQueue_def ethbr_queue_len_def
        ethbr_MaxQueueSize_def ethbr_enqueue_def eth_sent_one_def)
  from ethbr_run.accepted [OF ethbr_run.start this] show ?thesis by simp
qed

lemma eth_reported_run:
  "ethbr_run (reverting_node ''reverted'') src [''m''] [(''m'', ethbr_NewRevertError 25)]
     \<lparr>et_queue = [], et_running = [], et_rr = [\<lparr>rr_Id = ''m'', rr_Err = 25, rr_Finalized = True\<rparr>], et_node = ()\<rparr>"
proof -
  have g: "ethbr_GetResult 1 (reverting_node ''reverted'') [9] () = (Ret (ethbr_NewRevertError 25), ())"
    by (simp add: reverting_node_def GetRevertMessage_def revertError_short)
  have "ethbr_result 1 (reverting_node ''reverted'') (''m'', [9]) (eth_sent_one\<lparr>et_queue := [], et_node := ()\<rparr>) =
      (Ret (), \<lparr>et_queue = [], et_running = [], et_rr = [\<lparr>rr_Id = ''m'', rr_Err = 25, rr_Finalized = True\<rparr>], et_node = ()\<rparr>)"
    using g by (simp add: ethbr_result_def eth_sent_one_def ethbr_dequeue_def drop_through_def ethbr_revert_report)
  from ethbr_run.finished [OF eth_sent_one_run _ this] g show ?thesis by (simp add: eth_sent_one_def)
qed

theorem ethbr_run_accounts_witness:
  "[\<lparr>rr_Id = ''m'', rr_Err = 25, rr_Finalized = True\<rparr>] =
    map (\<lambda>(i, e). \<lparr>rr_Id = i, rr_Err = the (ethbr_code_due e), rr_Finalized = True\<rparr>) [(''m'', ethbr_NewRevertError 25)]"
proof -
  have d: "ethbr_code_due (ethbr_NewRevertError 25) \<noteq> None"
    using ethbr_reportOf_due [of "''m''" "ethbr_NewRevertError 25"]
    by (cases "ethbr_code_due (ethbr_NewRevertError 25)") (simp_all add: ethbr_revert_report)
  from ethbr_run_accounts [OF eth_reported_run] show ?thesis by (simp add: d)
qed

text \<open>A transaction that succeeded, and one that reverted with a code.\<close>

definition mined_node :: "unit eth_node" where
  "mined_node = (reverting_node [])\<lparr>en_receipt := \<lambda>h n. (Ret 1, n), en_call := \<lambda>h n. (Ret None, n)\<rparr>"

theorem ethbr_result_reports_witness:
  "(\<exists>s'. ethbr_result 1 (reverting_node ''execution reverted: BMVRevert 27:old'') (''m'', [9]) eth_sent_one = (Ret (), s') \<and>
     et_rr s' = [\<lparr>rr_Id = ''m'', rr_Err = 27, rr_Finalized = True\<rparr>]) \<and>
   (\<exists>s'. ethbr_result 1 mined_node (''m'', [9]) eth_sent_one = (Ret (), s') \<and>
     et_rr s' = [\<lparr>rr_Id = ''m'', rr_Err = - 1, rr_Finalized = True\<rparr>])"
proof -
  let ?N = "reverting_node ''execution reverted: BMVRevert 27:old''"
  have "dec_nat 27 = ''27''"
    by (simp add: dec_nat.simps [of 27] dec_nat.simps [of 2] char_eq_50 char_eq_55)
  then have 27: "Atoi ''27'' = Ret 27" using Atoi_dec [of 27] by simp
  have msg: "0 = (0 :: nat) \<and> Go_Errors.Message (StdError ''execution reverted: BMVRevert 27:old'') =
      ''execution reverted'' @ '':'' @ '' BMVRevert 27'' @ '':'' @ ''old'' \<and> CHR '':'' \<notin> set ''execution reverted'' \<and>
      CHR '':'' \<notin> set '' BMVRevert 27'' \<and> ('' BMVRevert 27'' = ''27'' \<or> '' BMVRevert 27'' = '' BMVRevert'' @ '' '' @ ''27'') \<and>
      CHR '' '' \<notin> set ''27''" by simp
  have "pending_for ?N [9] 0 (et_node eth_sent_one) = Some ()" "en_transaction ?N [9] () = (Ret False, ())" "en_receipt ?N [9] () = (Ret 0, ())"
    "en_call ?N [9] () = (Ret (Some (StdError ''execution reverted: BMVRevert 27:old'')), ())" by (simp_all add: reverting_node_def)
  from ethbr_result_reports [OF this, of 0 "''m''"]
  have 1: "\<exists>s'. ethbr_result 1 ?N (''m'', [9]) eth_sent_one = (Ret (), s') \<and>
     et_rr s' = [\<lparr>rr_Id = ''m'', rr_Err = 27, rr_Finalized = True\<rparr>]"
  proof (elim exE conjE, goal_cases)
    case (1 s' rep)
    from 1(6) [rule_format, OF msg] have "rep = [\<lparr>rr_Id = ''m'', rr_Err = 27, rr_Finalized = True\<rparr>]"
      unfolding 27 by simp
    with 1(1,2) show ?case by (intro exI [of _ s']) (simp add: eth_sent_one_def)
  qed
  have "pending_for mined_node [9] 0 (et_node eth_sent_one) = Some ()" "en_transaction mined_node [9] () = (Ret False, ())"
    "en_receipt mined_node [9] () = (Ret 1, ())" by (simp_all add: mined_node_def reverting_node_def)
  moreover have "(1 :: nat) = 0 \<Longrightarrow> en_call mined_node [9] () = (Ret (Some (StdError [])), ())" by simp
  ultimately have "\<exists>s' rep. ethbr_result (Suc 0 + 0) mined_node (''m'', [9]) eth_sent_one = (Ret (), s') \<and>
      et_rr s' = et_rr eth_sent_one @ rep \<and> rep = [\<lparr>rr_Id = ''m'', rr_Err = - 1, rr_Finalized = True\<rparr>]"
    using ethbr_result_reports [of mined_node "[9]" 0 eth_sent_one "()" "()" 1 "()" "StdError []" "()" 0 "''m''"] by simp metis
  then have "\<exists>s'. ethbr_result 1 mined_node (''m'', [9]) eth_sent_one = (Ret (), s') \<and>
     et_rr s' = [\<lparr>rr_Id = ''m'', rr_Err = - 1, rr_Finalized = True\<rparr>]"
  proof (elim exE conjE, goal_cases)
    case (1 s' rep)
    then show ?case by (intro exI [of _ s']) (simp add: eth_sent_one_def)
  qed
  with 1 show ?thesis by blast
qed

end
