(* ===== verification/Sender_Link.thy ===== *)
theory Sender_Link
  imports Icon_Sender_Props Ethbr_Sender
begin

text \<open>
  The senders of both chains as the link sees them (the interface \<open>Sender\<close> of src/common/types/type.go), and what the link's record of
  sent messages has to do with what a sender accepted (\<open>sendRelayMessage\<close> of src/common/link/link.go with \<open>Relay\<close> of the senders).
  The contract is a locale, with both senders as its instances.
\<close>

section \<open>The senders of both chains\<close>


definition after_call :: "('e \<Rightarrow> err) \<Rightarrow> (('e, 'a) outcome \<times> 's) \<Rightarrow> 'a result \<times> 's option" where
  "after_call f p = (case p of
      (Ret x, s) \<Rightarrow> (Ret x, Some s) | (Fail e, s) \<Rightarrow> (Fail (f e), Some s) | (Panic, s) \<Rightarrow> (Panic, None) | (OutOfFuel, s) \<Rightarrow> (OutOfFuel, None))"

definition error_of :: "'a result \<Rightarrow> err option" where
  "error_of r = (case r of Ret x \<Rightarrow> None | Fail e \<Rightarrow> Some e | _ \<Rightarrow> Some (StdError ''ended''))"

definition alive :: "('s \<Rightarrow> 'a result \<times> 's option) \<Rightarrow> 's option \<Rightarrow> 'a result \<times> 's option" where
  "alive f s = (case s of None \<Rightarrow> (OutOfFuel, None) | Some s \<Rightarrow> f s)"


definition ethbr_sender :: "'n eth_node \<Rightarrow> string \<Rightarrow> 'n esender option sender" where
  "ethbr_sender N src = \<lparr>s_Start = (\<lambda>_. None), s_GetPreference = ethbr_GetPreference,
     s_GetStatus = alive (\<lambda>s. after_call id (ethbr_sender_GetStatus N src s)),
     s_Relay = (\<lambda>s i m. apfst error_of (alive (\<lambda>s. after_call id (ethbr_Relay N src i m s)) s))\<rparr>"

section \<open>Sent is accepted\<close>

text \<open>
  \<open>has acc s\<close>: the sender in state \<open>s\<close> has accepted the messages \<open>acc\<close>. A call of \<open>Relay\<close> that returns nil accepts one more, one that
  returns an error none.
\<close>

locale accepting_sender =
  fixes S :: "'s sender" and has :: "string list \<Rightarrow> 's \<Rightarrow> bool"
  assumes relay_accepts: "has acc s \<Longrightarrow> s_Relay S s i m = (None, s') \<Longrightarrow> has (acc @ [i]) s'"
    and relay_refuses: "has acc s \<Longrightarrow> s_Relay S s i m = (Some e, s') \<Longrightarrow> has acc s'"
begin

lemma send_loop_accepts:
  assumes "sendRelayMessage_loop S pre rest l = (r, l')" and "l_rms l = pre @ rest" and "has acc (l_s l)"
  shows "\<exists>k\<le>length rest. l_rms l' = pre @ map (rm_sendingStatus_update (\<lambda>_. True)) (take k rest) @ drop k rest \<and>
    has (acc @ map rm_id (filter (\<lambda>rm. \<not> rm_sendingStatus rm) (take k rest))) (l_s l') \<and>
    (k = length rest \<or> l_relayState l' = PENDING \<or> (\<exists>e. r = Fail e))"
  using assms
proof (induction rest arbitrary: pre l acc)
  case Nil
  then show ?case by (auto simp: ret_p_def)
next
  case (Cons rm rest)
  let ?rm = "rm\<lparr>rm_sendingStatus := True\<rparr>"
  show ?case
  proof (cases "rm_sendingStatus rm")
    case True
    then have same: "?rm = rm" by (cases rm) simp
    from True Cons.prems(1) have "sendRelayMessage_loop S (pre @ [rm]) rest l = (r, l')" by simp
    from Cons.IH [OF this _ Cons.prems(3)] Cons.prems(2) obtain k where "k \<le> length rest"
      "l_rms l' = (pre @ [rm]) @ map (rm_sendingStatus_update (\<lambda>_. True)) (take k rest) @ drop k rest"
      "has (acc @ map rm_id (filter (\<lambda>rm. \<not> rm_sendingStatus rm) (take k rest))) (l_s l')"
      "k = length rest \<or> l_relayState l' = PENDING \<or> (\<exists>e. r = Fail e)" by auto
    with True same show ?thesis by (intro exI [of _ "Suc k"]) auto
  next
    case False
    obtain e s where R: "s_Relay S (l_s l) (rm_id rm) (rm_message rm) = (e, s)" by fastforce
    show ?thesis
    proof (cases e)
      case (Some x)
      with False R Cons.prems(1,2) relay_refuses [OF Cons.prems(3)] show ?thesis
        by (intro exI [of _ 0]) (auto simp: get_p_def modify_p_def fail_p_def bind_p_def split: if_splits)
    next
      case None
      let ?l = "l\<lparr>l_s := s, l_rms := pre @ ?rm # rest\<rparr>"
      from None False R Cons.prems(1) have "sendRelayMessage_loop S (pre @ [?rm]) rest ?l = (r, l')"
        by (simp add: get_p_def modify_p_def bind_p_def)
      moreover have "has (acc @ [rm_id rm]) (l_s ?l)" using relay_accepts [OF Cons.prems(3)] R None by simp
      ultimately obtain k where "k \<le> length rest"
        "l_rms l' = (pre @ [?rm]) @ map (rm_sendingStatus_update (\<lambda>_. True)) (take k rest) @ drop k rest"
        "has ((acc @ [rm_id rm]) @ map rm_id (filter (\<lambda>rm. \<not> rm_sendingStatus rm) (take k rest))) (l_s l')"
        "k = length rest \<or> l_relayState l' = PENDING \<or> (\<exists>e. r = Fail e)"
        using Cons.IH [of "pre @ [?rm]" ?l "acc @ [rm_id rm]"] by auto
      with False show ?thesis by (intro exI [of _ "Suc k"]) auto
    qed
  qed
qed

lemma send_accepts:
  assumes "sendRelayMessage S l = (r, l')" and "has acc (l_s l)"
  shows "\<exists>k\<le>length (l_rms l). l_rms l' = map (rm_sendingStatus_update (\<lambda>_. True)) (take k (l_rms l)) @ drop k (l_rms l) \<and>
    has (acc @ map rm_id (filter (\<lambda>rm. \<not> rm_sendingStatus rm) (take k (l_rms l)))) (l_s l') \<and>
    (k = length (l_rms l) \<or> l_relayState l' = PENDING \<or> (\<exists>e. r = Fail e))"
  using send_loop_accepts [of "[]" "l_rms l" l r l' acc] assms by (simp add: sendRelayMessage_def get_p_def)

end


definition ethbr_has :: "'n eth_node \<Rightarrow> string \<Rightarrow> (string \<times> err option) list \<Rightarrow> string list \<Rightarrow> 'n esender option \<Rightarrow> bool" where
  "ethbr_has N src fin acc st \<longleftrightarrow> (\<forall>s. st = Some s \<longrightarrow> ethbr_run N src acc fin s)"


lemma ethbr_same_queue: "s\<lparr>et_queue := et_queue s, et_node := et_node s\<rparr> = s" for s :: "'n esender"
  by simp


interpretation ethbr_accepts: accepting_sender "ethbr_sender N src" "ethbr_has N src fin" for N src fin
proof (unfold_locales, goal_cases)
  case (1 acc s i m s')
  show ?case
    unfolding ethbr_has_def
  proof (intro allI impI)
    fix t assume t: "s' = Some t"
    with 1(2) obtain u j where u: "s = Some u" "ethbr_Relay N src i m u = (Ret j, t)"
      by (auto simp: ethbr_sender_def alive_def after_call_def error_of_def split: option.splits prod.splits outcome.splits)
    moreover have "j = i" using u(2) by (auto simp: ethbr_Relay_def split: if_splits prod.splits outcome.splits)
    ultimately show "ethbr_run N src (acc @ [i]) fin t"
      using 1(1) ethbr_run.accepted [of N src acc fin u i m "et_node u" "et_queue u" t] by (simp add: ethbr_has_def ethbr_same_queue)
  qed
next
  case (2 acc s i m e s')
  show ?case
    unfolding ethbr_has_def
  proof (intro allI impI)
    fix t assume t: "s' = Some t"
    with 2(2) obtain u x where u: "s = Some u" "ethbr_Relay N src i m u = (Fail x, t)"
      by (auto simp: ethbr_sender_def alive_def after_call_def error_of_def split: option.splits prod.splits outcome.splits)
    with 2(1) ethbr_run.refused [of N src acc fin u i m "et_node u" "et_queue u" x t] show "ethbr_run N src acc fin t"
      by (simp add: ethbr_has_def ethbr_same_queue)
  qed
qed


text \<open>The same with the sender to an Ethereum chain.\<close>
theorem ethbr_sent_accepted:
  assumes "ethbr_run N src acc fin s" and "l_s l = Some s" and "sendRelayMessage (ethbr_sender N src) l = (r, l')" and "l_s l' = Some s'"
  shows "\<exists>k\<le>length (l_rms l). l_rms l' = map (rm_sendingStatus_update (\<lambda>_. True)) (take k (l_rms l)) @ drop k (l_rms l) \<and>
    ethbr_run N src (acc @ map rm_id (filter (\<lambda>rm. \<not> rm_sendingStatus rm) (take k (l_rms l)))) fin s' \<and>
    (k = length (l_rms l) \<or> l_relayState l' = PENDING \<or> (\<exists>e. r = Fail e))"
  using ethbr_accepts.send_accepts [OF assms(3), of fin acc] assms(1,2,4) by (simp add: ethbr_has_def)

section \<open>Witnesses\<close>

text \<open>A link with one message that was not sent.\<close>

definition holding :: "'s \<Rightarrow> (unit, 's) link" where
  "holding s = (NewLink ''btp://0x1.icon/cx00'' s)\<lparr>l_rms :=
     [\<lparr>rm_id = ''m'', rm_bls = zeroBls, rm_message = [7], rm_rmis = [], rm_sendingStatus = False\<rparr>], l_relayState := RUNNING\<rparr>"

definition handed :: "'s \<Rightarrow> (unit, 's) link" where
  "handed s = (holding s)\<lparr>l_rms := map (rm_sendingStatus_update (\<lambda>_. True)) (l_rms (holding s))\<rparr>"

lemma handed_run:
  assumes "s_Relay S s ''m'' [7] = (None, s')"
  shows "sendRelayMessage S (holding s) = (Ret (), handed s')"
  using assms by (simp add: sendRelayMessage_def holding_def handed_def NewLink_def bind_p_def proc_defs)


theorem ethbr_sent_accepted_witness:
  "map rm_sendingStatus (l_rms (handed (Some eth_sent_one))) = [True] \<and>
   ethbr_run mined_node ''btp://x'' [''m''] [] eth_sent_one"
proof -
  have "ethbr_Relay mined_node ''btp://x'' ''m'' [7] (esender_init ()) = (Ret ''m'', eth_sent_one)"
    by (simp add: ethbr_Relay_def ethbr_relay_def mined_node_def reverting_node_def esender_init_def ethbr_newQueue_def
        ethbr_queue_len_def ethbr_MaxQueueSize_def ethbr_enqueue_def eth_sent_one_def)
  then have "s_Relay (ethbr_sender mined_node ''btp://x'') (Some (esender_init ())) ''m'' [7] = (None, Some eth_sent_one)"
    by (simp add: ethbr_sender_def alive_def after_call_def error_of_def)
  note run = handed_run [OF this]
  have "l_s (holding (Some (esender_init ()))) = Some (esender_init ())" "l_s (handed (Some eth_sent_one)) = Some eth_sent_one"
    by (simp_all add: holding_def handed_def NewLink_def)
  from ethbr_sent_accepted [OF ethbr_run.start this(1) run this(2)] show ?thesis
    by (auto simp: holding_def handed_def NewLink_def le_Suc_eq)
qed

end
