(* ===== verification/Db.thy ===== *)
theory Db
  imports Go_Errors "HOL-Library.Multiset"
begin

text \<open>
  The key-value databases of src/common/db: the interface of a bucket, the database in memory
  (map\_db.go) and the layer that collects writes over another database (layer\_db.go). A bucket is a
  record of functions on the state of its database; locks are left out, since every method holds its
  lock from beginning to end. The backends over goleveldb and rocksdb are not modelled.
\<close>

section \<open>Buckets\<close>

text \<open>\<open>Bucket\<close>; a nil slice is \<open>None\<close>.\<close>

record 'd bucket =
  bk_Get :: "'d \<Rightarrow> bytes \<Rightarrow> bytes option result"
  bk_Has :: "'d \<Rightarrow> bytes \<Rightarrow> bool result"
  bk_Set :: "'d \<Rightarrow> bytes \<Rightarrow> bytes \<Rightarrow> err option \<times> 'd"
  bk_Delete :: "'d \<Rightarrow> bytes \<Rightarrow> err option \<times> 'd"

definition DoGet :: "'d bucket \<Rightarrow> 'd \<Rightarrow> bytes \<Rightarrow> bytes option result" where
  "DoGet B d key = bind_r (bk_Get B d key) (\<lambda>v. case v of
     None \<Rightarrow> Fail (Errorc NotFoundError ''NotFound'') | Some b \<Rightarrow> Ret (Some b))"

text \<open>\<open>errorBucket\<close>, the bucket \<open>BucketOf\<close> gives when the database has none.\<close>

definition errorBucket :: "err \<Rightarrow> 'd bucket" where
  "errorBucket e = \<lparr>bk_Get = (\<lambda>d k. Fail e), bk_Has = (\<lambda>d k. Fail e),
     bk_Set = (\<lambda>d k v. (Some e, d)), bk_Delete = (\<lambda>d k. (Some e, d))\<rparr>"

section \<open>The database in memory\<close>

type_synonym mapBucketData = "bytes \<rightharpoonup> bytes"

definition mapBucket :: "mapBucketData bucket" where
  "mapBucket = \<lparr>bk_Get = (\<lambda>d k. Ret (d k)), bk_Has = (\<lambda>d k. Ret (d k \<noteq> None)),
     bk_Set = (\<lambda>d k v. (None, d(k \<mapsto> v))), bk_Delete = (\<lambda>d k. (None, d(k := None)))\<rparr>"

text \<open>
  \<open>mapDatabase\<close>: the buckets by id. A bucket that was given out is the entry of its id, so it is
  seen by all who hold it.
\<close>

type_synonym mapDatabase = "string \<rightharpoonup> mapBucketData"

definition mapDatabase_GetBucket :: "string \<Rightarrow> mapDatabase \<Rightarrow> err option \<times> mapDatabase" where
  "mapDatabase_GetBucket bid t = (None, case t bid of Some bk \<Rightarrow> t | None \<Rightarrow> t(bid \<mapsto> Map.empty))"

definition mapDatabase_view :: "mapDatabase \<Rightarrow> string \<Rightarrow> mapBucketData" where
  "mapDatabase_view t bid = (case t bid of Some bk \<Rightarrow> bk | None \<Rightarrow> Map.empty)"

text \<open>The methods of the bucket of an id, on the state of the whole database.\<close>

definition mapDatabase_bucket :: "string \<Rightarrow> mapDatabase bucket" where
  "mapDatabase_bucket bid =
     \<lparr>bk_Get = (\<lambda>t k. bk_Get mapBucket (mapDatabase_view t bid) k), bk_Has = (\<lambda>t k. bk_Has mapBucket (mapDatabase_view t bid) k),
      bk_Set = (\<lambda>t k v. map_prod (\<lambda>e. e) (\<lambda>bk. t(bid \<mapsto> bk)) (bk_Set mapBucket (mapDatabase_view t bid) k v)),
      bk_Delete = (\<lambda>t k. map_prod (\<lambda>e. e) (\<lambda>bk. t(bid \<mapsto> bk)) (bk_Delete mapBucket (mapDatabase_view t bid) k))\<rparr>"

text \<open>\<open>Database\<close>: opening a bucket, and the methods of a bucket that was opened.\<close>

record 'd database =
  db_GetBucket :: "string \<Rightarrow> 'd \<Rightarrow> err option \<times> 'd"
  db_bucket :: "string \<Rightarrow> 'd bucket"

definition map_db :: "mapDatabase database" where
  "map_db = \<lparr>db_GetBucket = mapDatabase_GetBucket, db_bucket = mapDatabase_bucket\<rparr>"

section \<open>Layers\<close>

text \<open>
  \<open>layerBucket\<close>: the written keys, newest first, until the layer was flushed; a deleted key holds
  nil. Only the first entry of a key counts.
\<close>

record 'd layerBucket =
  lb_data :: "(bytes \<times> bytes option) list option"
  lb_real :: 'd

definition layer_Get :: "'d bucket \<Rightarrow> 'd layerBucket \<Rightarrow> bytes \<Rightarrow> bytes option result" where
  "layer_Get B bk key = (case lb_data bk of
      Some data \<Rightarrow> (case map_of data key of Some v \<Rightarrow> Ret v | None \<Rightarrow> bk_Get B (lb_real bk) key)
    | None \<Rightarrow> bk_Get B (lb_real bk) key)"

definition layer_Has :: "'d bucket \<Rightarrow> 'd layerBucket \<Rightarrow> bytes \<Rightarrow> bool result" where
  "layer_Has B bk key = (case lb_data bk of
      Some data \<Rightarrow> (case map_of data key of Some v \<Rightarrow> Ret (v \<noteq> None) | None \<Rightarrow> bk_Has B (lb_real bk) key)
    | None \<Rightarrow> bk_Has B (lb_real bk) key)"

definition put_entry :: "bytes \<Rightarrow> bytes option \<Rightarrow> (bytes \<times> bytes option) list \<Rightarrow> (bytes \<times> bytes option) list" where
  "put_entry key v data = (key, v) # filter (\<lambda>e. fst e \<noteq> key) data"

definition layer_Set :: "'d bucket \<Rightarrow> 'd layerBucket \<Rightarrow> bytes \<Rightarrow> bytes \<Rightarrow> err option \<times> 'd layerBucket" where
  "layer_Set B bk key v = (case lb_data bk of
      Some data \<Rightarrow> (None, bk\<lparr>lb_data := Some (put_entry key (Some v) data)\<rparr>)
    | None \<Rightarrow> map_prod (\<lambda>e. e) (\<lambda>d. bk\<lparr>lb_real := d\<rparr>) (bk_Set B (lb_real bk) key v))"

definition layer_Delete :: "'d bucket \<Rightarrow> 'd layerBucket \<Rightarrow> bytes \<Rightarrow> err option \<times> 'd layerBucket" where
  "layer_Delete B bk key = (case lb_data bk of
      Some data \<Rightarrow> (None, bk\<lparr>lb_data := Some (put_entry key None data)\<rparr>)
    | None \<Rightarrow> map_prod (\<lambda>e. e) (\<lambda>d. bk\<lparr>lb_real := d\<rparr>) (bk_Delete B (lb_real bk) key))"

definition layerBucket_of :: "'d bucket \<Rightarrow> 'd layerBucket bucket" where
  "layerBucket_of B = \<lparr>bk_Get = layer_Get B, bk_Has = layer_Has B, bk_Set = layer_Set B, bk_Delete = layer_Delete B\<rparr>"

text \<open>
  Writing the entries to the bucket below, up to the first error; Go visits them in an
  unspecified order, here \<open>visit\<close> of the entries.
\<close>

fun writeEntries :: "'d bucket \<Rightarrow> (bytes \<times> bytes option) list \<Rightarrow> 'd \<Rightarrow> err option \<times> 'd" where
  "writeEntries B [] d = (None, d)"
| "writeEntries B ((k, v) # es) d =
     (case (case v of None \<Rightarrow> bk_Delete B d k | Some b \<Rightarrow> bk_Set B d k b) of
        (Some e, d') \<Rightarrow> (Some e, d') | (None, d') \<Rightarrow> writeEntries B es d')"

definition layer_Flush :: "'d bucket \<Rightarrow> ((bytes \<times> bytes option) list \<Rightarrow> (bytes \<times> bytes option) list) \<Rightarrow> bool \<Rightarrow>
    'd layerBucket \<Rightarrow> err option \<times> 'd layerBucket" where
  "layer_Flush B visit write bk = (case (if write then lb_data bk else None) of
      Some data \<Rightarrow> (case writeEntries B (visit data) (lb_real bk) of
          (Some e, d) \<Rightarrow> (Some e, bk\<lparr>lb_real := d\<rparr>)
        | (None, d) \<Rightarrow> (None, \<lparr>lb_data = None, lb_real = d\<rparr>))
    | None \<Rightarrow> (None, bk\<lparr>lb_data := None\<rparr>))"

text \<open>\<open>layerDB\<close>: the layered buckets by id, over one database.\<close>

record 'd layerDB =
  ly_flushed :: bool
  ly_real :: 'd
  ly_buckets :: "(string \<times> (bytes \<times> bytes option) list option) list"

definition NewLayerDB :: "'d \<Rightarrow> 'd layerDB" where
  "NewLayerDB d = \<lparr>ly_flushed = False, ly_real = d, ly_buckets = []\<rparr>"

definition layerDB_GetBucket :: "'d database \<Rightarrow> string \<Rightarrow> 'd layerDB \<Rightarrow> err option \<times> 'd layerDB" where
  "layerDB_GetBucket M bid l = (case map_of (ly_buckets l) bid of Some _ \<Rightarrow> (None, l)
    | None \<Rightarrow> (case db_GetBucket M bid (ly_real l) of
        (Some e, d) \<Rightarrow> (Some e, l\<lparr>ly_real := d\<rparr>)
      | (None, d) \<Rightarrow> (None, if ly_flushed l then l\<lparr>ly_real := d\<rparr>
          else l\<lparr>ly_real := d, ly_buckets := (bid, Some []) # ly_buckets l\<rparr>)))"

text \<open>
  The bucket of an id as it was given out: the layered one, or the bucket below, which is a layer
  without data. Its methods act on the whole.
\<close>

definition layer_at :: "'d layerDB \<Rightarrow> string \<Rightarrow> 'd layerBucket" where
  "layer_at l bid = \<lparr>lb_data = (case map_of (ly_buckets l) bid of Some data \<Rightarrow> data | None \<Rightarrow> None), lb_real = ly_real l\<rparr>"

definition with_layer :: "string \<Rightarrow> 'd layerDB \<Rightarrow> 'd layerBucket \<Rightarrow> 'd layerDB" where
  "with_layer bid l bk = l\<lparr>ly_real := lb_real bk,
     ly_buckets := map (\<lambda>e. if fst e = bid then (bid, lb_data bk) else e) (ly_buckets l)\<rparr>"

definition layerDB_bucket :: "'d database \<Rightarrow> string \<Rightarrow> 'd layerDB bucket" where
  "layerDB_bucket M bid = (let B = layerBucket_of (db_bucket M bid) in
     \<lparr>bk_Get = (\<lambda>l k. bk_Get B (layer_at l bid) k), bk_Has = (\<lambda>l k. bk_Has B (layer_at l bid) k),
      bk_Set = (\<lambda>l k v. map_prod (\<lambda>e. e) (with_layer bid l) (bk_Set B (layer_at l bid) k v)),
      bk_Delete = (\<lambda>l k. map_prod (\<lambda>e. e) (with_layer bid l) (bk_Delete B (layer_at l bid) k))\<rparr>)"

type_synonym visiting = "(bytes \<times> bytes option) list \<Rightarrow> (bytes \<times> bytes option) list"

fun flushBuckets :: "'d database \<Rightarrow> visiting \<Rightarrow> bool \<Rightarrow> string list \<Rightarrow> 'd layerDB \<Rightarrow> err option \<times> 'd layerDB" where
  "flushBuckets M visit write [] l = (None, l)"
| "flushBuckets M visit write (bid # bids) l =
     (case layer_Flush (db_bucket M bid) visit write (layer_at l bid) of
        (Some e, bk) \<Rightarrow> (Some e, with_layer bid l bk)
      | (None, bk) \<Rightarrow> flushBuckets M visit write bids (with_layer bid l bk))"

text \<open>The buckets, too, are visited in an unspecified order, \<open>order\<close>.\<close>

definition layerDB_Flush ::
    "'d database \<Rightarrow> visiting \<Rightarrow> (string list \<Rightarrow> string list) \<Rightarrow> bool \<Rightarrow> 'd layerDB \<Rightarrow> err option \<times> 'd layerDB" where
  "layerDB_Flush M visit order write l = (case flushBuckets M visit write (order (map fst (ly_buckets l))) l of
     (Some e, l') \<Rightarrow> (Some e, l') | (None, l') \<Rightarrow> (None, l'\<lparr>ly_flushed := True\<rparr>))"

section \<open>What a bucket promises\<close>

text \<open>What is seen through a layer, given what is seen in the bucket below.\<close>

definition layer_view :: "('d \<Rightarrow> bytes \<rightharpoonup> bytes) \<Rightarrow> 'd layerBucket \<Rightarrow> bytes \<rightharpoonup> bytes" where
  "layer_view view bk = (\<lambda>k. case lb_data bk of None \<Rightarrow> view (lb_real bk) k
     | Some data \<Rightarrow> (case map_of data k of Some v \<Rightarrow> v | None \<Rightarrow> view (lb_real bk) k))"

definition layer_ok :: "('d \<Rightarrow> bool) \<Rightarrow> 'd layerBucket \<Rightarrow> bool" where
  "layer_ok ok bk \<longleftrightarrow> ok (lb_real bk) \<and> (\<forall>data. lb_data bk = Some data \<longrightarrow> distinct (map fst data))"

lemma map_of_put_entry: "map_of (put_entry k v data) x = (if x = k then Some v else map_of data x)"
  unfolding put_entry_def by (induction data) auto

lemma distinct_put_entry: "distinct (map fst data) \<Longrightarrow> distinct (map fst (put_entry k v data))"
  by (auto simp: put_entry_def distinct_map_filter)

lemmas layer_defs = layerBucket_of_def layer_Get_def layer_Has_def layer_Set_def layer_Delete_def layer_view_def layer_ok_def

text \<open>
  A bucket is a map from keys to values, its \<open>view\<close>; an operation may fail, and then the state is
  any that satisfies \<open>ok\<close>.
\<close>

locale bucket_map =
  fixes B :: "'d bucket" and ok :: "'d \<Rightarrow> bool" and view :: "'d \<Rightarrow> bytes \<rightharpoonup> bytes"
  assumes get: "ok d \<Longrightarrow> bk_Get B d k = Ret (view d k)"
    and has: "ok d \<Longrightarrow> bk_Has B d k = Ret (view d k \<noteq> None)"
    and set_view: "ok d \<Longrightarrow> bk_Set B d k v = (None, d') \<Longrightarrow> ok d' \<and> view d' = (view d)(k \<mapsto> v)"
    and del_view: "ok d \<Longrightarrow> bk_Delete B d k = (None, d') \<Longrightarrow> ok d' \<and> view d' = (view d)(k := None)"
begin

lemma DoGet_view:
  "ok d \<Longrightarrow> DoGet B d k = (case view d k of None \<Rightarrow> Fail (Errorc NotFoundError ''NotFound'') | Some b \<Rightarrow> Ret (Some b))"
  by (simp add: DoGet_def get)

lemma writeEntries_view:
  assumes "ok d" and "writeEntries B es d = (None, d')" and "distinct (map fst es)"
  shows "ok d' \<and> view d' = (\<lambda>k. case map_of es k of Some v \<Rightarrow> v | None \<Rightarrow> view d k)"
  using assms
proof (induction es arbitrary: d)
  case (Cons e es)
  obtain k v where e: "e = (k, v)" by fastforce
  from Cons.prems(2) obtain d1 where 1: "(case v of None \<Rightarrow> bk_Delete B d k | Some b \<Rightarrow> bk_Set B d k b) = (None, d1)"
    "writeEntries B es d1 = (None, d')" by (auto simp: e split: prod.splits option.splits)
  have d1: "ok d1 \<and> view d1 = (view d)(k := v)"
  proof (cases v)
    case None
    with 1(1) del_view [OF Cons.prems(1), of k d1] show ?thesis by simp
  next
    case (Some b)
    with 1(1) set_view [OF Cons.prems(1), of k b d1] show ?thesis by simp
  qed
  have k: "map_of es k = None" using Cons.prems(3) by (simp add: e map_of_eq_None_iff)
  from Cons.IH [OF conjunct1 [OF d1] 1(2)] Cons.prems(3)
  have "ok d'" "view d' = (\<lambda>x. case map_of es x of Some v \<Rightarrow> v | None \<Rightarrow> view d1 x)" by simp_all
  with d1 k show ?case by (auto simp: e fun_eq_iff split: option.splits)
qed simp

lemma layer_Flush_view:
  assumes "layer_ok ok bk" and "layer_Flush B visit True bk = (None, bk')" and "\<And>xs. mset (visit xs) = mset xs"
  shows "lb_data bk' = None \<and> ok (lb_real bk') \<and> view (lb_real bk') = layer_view view bk"
proof (cases "lb_data bk")
  case None
  with assms show ?thesis by (auto simp: layer_Flush_def layer_view_def layer_ok_def)
next
  case (Some data)
  with assms(2) obtain d where w: "writeEntries B (visit data) (lb_real bk) = (None, d)" "bk' = \<lparr>lb_data = None, lb_real = d\<rparr>"
    by (auto simp: layer_Flush_def split: prod.splits option.splits)
  have p: "mset (visit data) = mset data" by (rule assms(3))
  have dist: "distinct (map fst data)" "ok (lb_real bk)" using assms(1) Some by (auto simp: layer_ok_def)
  then have dv: "distinct (map fst (visit data))"
    using p by (metis mset_eq_imp_distinct_iff mset_map)
  have "map_of (visit data) = map_of data"
    using dist(1) dv p by (metis map_of_inject_set mset_eq_setD)
  with writeEntries_view [OF dist(2) w(1) dv] w(2) Some show ?thesis
    by (simp add: layer_view_def)
qed

text \<open>A layer over a bucket is a bucket.\<close>

lemma layer_bucket: "bucket_map (layerBucket_of B) (layer_ok ok) (layer_view view)"
proof (unfold_locales, goal_cases)
  case (1 d k)
  then show ?case by (auto simp: layer_defs get split: option.splits)
next
  case (2 d k)
  then show ?case by (auto simp: layer_defs has split: option.splits)
next
  case (3 d k v d')
  then show ?case
    by (cases "lb_data d"; cases "bk_Set B (lb_real d) k v")
      (auto simp: layer_defs map_of_put_entry distinct_put_entry fun_eq_iff dest: set_view split: option.splits)
next
  case (4 d k d')
  then show ?case
    by (cases "lb_data d"; cases "bk_Delete B (lb_real d) k")
      (auto simp: layer_defs map_of_put_entry distinct_put_entry fun_eq_iff dest: del_view split: option.splits)
qed

end

interpretation map_bucket: bucket_map mapBucket "\<lambda>_. True" "\<lambda>d. d"
  by unfold_locales (auto simp: mapBucket_def)

interpretation map_layer: bucket_map "layerBucket_of mapBucket" "layer_ok (\<lambda>_. True)" "layer_view (\<lambda>d. d)"
  by (rule map_bucket.layer_bucket)

section \<open>Databases\<close>

definition layerDB_view :: "('d \<Rightarrow> string \<Rightarrow> bytes \<rightharpoonup> bytes) \<Rightarrow> 'd layerDB \<Rightarrow> string \<Rightarrow> bytes \<rightharpoonup> bytes" where
  "layerDB_view dview l bid = layer_view (\<lambda>d. dview d bid) (layer_at l bid)"

definition layerDB_ok :: "('d \<Rightarrow> bool) \<Rightarrow> 'd layerDB \<Rightarrow> bool" where
  "layerDB_ok ok l \<longleftrightarrow> distinct (map fst (ly_buckets l)) \<and> (\<forall>bid. layer_ok ok (layer_at l bid))"

lemma layer_at_with:
  "layer_at (with_layer bid l bk) b = (if b = bid \<and> map_of (ly_buckets l) bid \<noteq> None then bk
     else (layer_at l b)\<lparr>lb_real := lb_real bk\<rparr>)"
proof -
  have "map_of (map (\<lambda>e. if fst e = bid then (bid, x) else e) es) b =
    (if b = bid \<and> map_of es bid \<noteq> None then Some x else map_of es b)" for es and x :: "(bytes \<times> bytes option) list option"
    by (induction es) auto
  then show ?thesis by (auto simp: layer_at_def with_layer_def)
qed

lemma layerDB_ok_at: "layerDB_ok ok l \<Longrightarrow> layer_ok ok (layer_at l bid)"
  by (simp add: layerDB_ok_def)

lemma layerDB_ok_with: "layerDB_ok ok l \<Longrightarrow> layer_ok ok bk \<Longrightarrow> layerDB_ok ok (with_layer bid l bk)"
proof -
  have "map fst (ly_buckets (with_layer bid l bk)) = map fst (ly_buckets l)"
    by (auto simp: with_layer_def)
  then show "layerDB_ok ok l \<Longrightarrow> layer_ok ok bk \<Longrightarrow> layerDB_ok ok (with_layer bid l bk)"
    by (simp add: layerDB_ok_def layer_at_with) (simp add: layer_ok_def)
qed

text \<open>Flushing without writing.\<close>

lemma flushBuckets_discard:
  "\<exists>l1. flushBuckets M visit False bids l = (None, l1) \<and> ly_real l1 = ly_real l \<and>
     (\<forall>b. lb_data (layer_at l1 b) = (if b \<in> set bids then None else lb_data (layer_at l b)))"
proof (induction bids arbitrary: l)
  case (Cons bid bids)
  let ?l = "with_layer bid l ((layer_at l bid)\<lparr>lb_data := None\<rparr>)"
  have "lb_data (layer_at ?l b) = (if b = bid then None else lb_data (layer_at l b))" for b
    by (auto simp: layer_at_with) (simp add: layer_at_def)
  moreover have "ly_real ?l = ly_real l" by (simp add: with_layer_def layer_at_def)
  ultimately show ?case using Cons.IH [of ?l] by (auto simp: layer_Flush_def)
qed simp

lemma layer_view_none: "lb_data (layer_at l b) = None \<Longrightarrow> layerDB_view dview l b = dview (ly_real l) b"
  by (simp add: layerDB_view_def layer_view_def) (simp add: layer_at_def)

lemma discard_view:
  assumes "mset (order (map fst (ly_buckets l))) = mset (map fst (ly_buckets l))"
  shows "\<exists>l'. layerDB_Flush M visit order False l = (None, l') \<and> ly_real l' = ly_real l \<and> layerDB_view dview l' = dview (ly_real l)"
proof -
  let ?ids = "order (map fst (ly_buckets l))"
  obtain l1 where l1: "flushBuckets M visit False ?ids l = (None, l1)" "ly_real l1 = ly_real l"
    "\<forall>b. lb_data (layer_at l1 b) = (if b \<in> set ?ids then None else lb_data (layer_at l b))"
    using flushBuckets_discard by blast
  have "lb_data (layer_at l1 b) = None" for b
  proof (cases "b \<in> set ?ids")
    case False
    then have "map_of (ly_buckets l) b = None" using mset_eq_setD [OF assms] by (simp add: map_of_eq_None_iff)
    with False l1(3) show ?thesis by (simp add: layer_at_def)
  qed (use l1(3) in simp)
  then have "layerDB_view dview l1 = dview (ly_real l)" using l1(2) by (auto simp: layer_view_none)
  moreover have "layerDB_view dview (l1\<lparr>ly_flushed := True\<rparr>) = layerDB_view dview l1"
    by (simp add: layerDB_view_def layer_at_def fun_eq_iff)
  ultimately show ?thesis using l1(1,2) by (simp add: layerDB_Flush_def)
qed

text \<open>A database whose buckets are maps that do not interfere with each other.\<close>

locale database_map =
  fixes M :: "'d database" and ok :: "'d \<Rightarrow> bool" and dview :: "'d \<Rightarrow> string \<Rightarrow> bytes \<rightharpoonup> bytes"
  assumes buckets: "bucket_map (db_bucket M bid) ok (\<lambda>d. dview d bid)"
    and opened: "ok d \<Longrightarrow> db_GetBucket M bid d = (e, d') \<Longrightarrow> ok d' \<and> dview d' = dview d"
    and set_frame: "ok d \<Longrightarrow> bk_Set (db_bucket M bid) d k v = (None, d') \<Longrightarrow> b \<noteq> bid \<Longrightarrow> dview d' b = dview d b"
    and del_frame: "ok d \<Longrightarrow> bk_Delete (db_bucket M bid) d k = (None, d') \<Longrightarrow> b \<noteq> bid \<Longrightarrow> dview d' b = dview d b"
begin

lemma writeEntries_frame:
  assumes "ok d" and "writeEntries (db_bucket M bid) es d = (None, d')" and "b \<noteq> bid"
  shows "dview d' b = dview d b"
  using assms
proof (induction es arbitrary: d)
  case (Cons e es)
  obtain k v where e: "e = (k, v)" by fastforce
  from Cons.prems(2) obtain d1 where
    1: "(case v of None \<Rightarrow> bk_Delete (db_bucket M bid) d k | Some x \<Rightarrow> bk_Set (db_bucket M bid) d k x) = (None, d1)"
    "writeEntries (db_bucket M bid) es d1 = (None, d')" by (auto simp: e split: prod.splits option.splits)
  have "ok d1 \<and> dview d1 b = dview d b"
  proof (cases v)
    case None
    with 1(1) Cons.prems show ?thesis
      using bucket_map.del_view [OF buckets Cons.prems(1)] del_frame [OF Cons.prems(1)] by simp
  next
    case (Some x)
    with 1(1) Cons.prems show ?thesis
      using bucket_map.set_view [OF buckets Cons.prems(1)] set_frame [OF Cons.prems(1)] by simp
  qed
  with Cons.IH [OF _ 1(2)] Cons.prems(3) show ?case by simp
qed simp

lemma layer_Flush_frame:
  assumes "layer_ok ok bk" and "layer_Flush (db_bucket M bid) visit w bk = (None, bk')" and "b \<noteq> bid"
  shows "dview (lb_real bk') b = dview (lb_real bk) b"
  using assms writeEntries_frame [of "lb_real bk" bid]
  by (auto simp: layer_Flush_def layer_ok_def split: option.splits prod.splits if_splits)

lemma flushBuckets_view:
  assumes "layerDB_ok ok l" and "flushBuckets M visit True bids l = (None, l')"
    and "\<And>xs. mset (visit xs) = mset xs" and "distinct bids" and "set bids \<subseteq> set (map fst (ly_buckets l))"
  shows "layerDB_ok ok l' \<and> layerDB_view dview l' = layerDB_view dview l \<and> (\<forall>b\<in>set bids. lb_data (layer_at l' b) = None) \<and>
    (\<forall>b. b \<notin> set bids \<longrightarrow> lb_data (layer_at l' b) = lb_data (layer_at l b))"
  using assms
proof (induction bids arbitrary: l)
  case (Cons bid bids)
  note at = layerDB_ok_at [OF Cons.prems(1), of bid]
  from Cons.prems(2) obtain bk where bk: "layer_Flush (db_bucket M bid) visit True (layer_at l bid) = (None, bk)"
    and rest: "flushBuckets M visit True bids (with_layer bid l bk) = (None, l')"
    by (auto split: prod.splits option.splits)
  note fl = bucket_map.layer_Flush_view [OF buckets at bk Cons.prems(3)]
  have ok: "layerDB_ok ok (with_layer bid l bk)"
    using layerDB_ok_with [OF Cons.prems(1)] fl by (simp add: layer_ok_def)
  have here: "map_of (ly_buckets l) bid \<noteq> None"
    using Cons.prems(5) by (auto simp: map_of_eq_None_iff)
  have v: "layerDB_view dview (with_layer bid l bk) = layerDB_view dview l"
  proof
    fix b
    show "layerDB_view dview (with_layer bid l bk) b = layerDB_view dview l b"
    proof (cases "b = bid")
      case True
      with fl here show ?thesis by (simp add: layerDB_view_def layer_at_with layer_view_def)
    next
      case False
      have "lb_real (layer_at l b) = ly_real l" for b by (simp add: layer_at_def)
      with layer_Flush_frame [OF at bk False] False show ?thesis
        by (simp add: layerDB_view_def layer_at_with layer_view_def fun_eq_iff split: option.split)
    qed
  qed
  have keys: "map fst (ly_buckets (with_layer bid l bk)) = map fst (ly_buckets l)" by (auto simp: with_layer_def)
  have at_b: "lb_data (layer_at (with_layer bid l bk) b) = (if b = bid then None else lb_data (layer_at l b))" for b
    using here fl by (simp add: layer_at_with)
  have "distinct bids" "set bids \<subseteq> set (map fst (ly_buckets (with_layer bid l bk)))" "bid \<notin> set bids"
    using Cons.prems(4,5) unfolding keys by auto
  from Cons.IH [OF ok rest Cons.prems(3) this(1,2)] this(3) v at_b show ?case by auto
qed simp

lemma layerDB_Flush_view:
  assumes "layerDB_ok ok l" and "layerDB_Flush M visit order True l = (None, l')"
    and "\<And>xs. mset (visit xs) = mset xs" and "\<And>xs. mset (order xs) = mset xs"
  shows "ly_flushed l' \<and> dview (ly_real l') = layerDB_view dview l \<and> layerDB_view dview l' = layerDB_view dview l"
proof -
  let ?ids = "order (map fst (ly_buckets l))"
  obtain l1 where l1: "flushBuckets M visit True ?ids l = (None, l1)" "l' = l1\<lparr>ly_flushed := True\<rparr>"
    using assms(2) by (auto simp: layerDB_Flush_def split: prod.splits option.splits)
  have p: "mset ?ids = mset (map fst (ly_buckets l))" by (rule assms(4))
  have "distinct ?ids" using assms(1) mset_eq_imp_distinct_iff [OF p] by (simp add: layerDB_ok_def)
  moreover have ids: "set ?ids = set (map fst (ly_buckets l))" using mset_eq_setD [OF p] .
  ultimately have fl: "layerDB_view dview l1 = layerDB_view dview l" "\<forall>b\<in>set ?ids. lb_data (layer_at l1 b) = None"
    "\<forall>b. b \<notin> set ?ids \<longrightarrow> lb_data (layer_at l1 b) = lb_data (layer_at l b)"
    using flushBuckets_view [OF assms(1) l1(1) assms(3)] by auto
  have "lb_data (layer_at l1 b) = None" for b
  proof (cases "b \<in> set ?ids")
    case False
    then have "map_of (ly_buckets l) b = None" unfolding ids by (simp add: map_of_eq_None_iff)
    with fl(3) False show ?thesis by (simp add: layer_at_def)
  qed (use fl(2) in simp)
  then have "layerDB_view dview l1 = dview (ly_real l1)" by (auto simp: layer_view_none)
  moreover have "layerDB_view dview l' = layerDB_view dview l1" "ly_real l' = ly_real l1"
    by (simp_all add: l1(2) layerDB_view_def layer_at_def fun_eq_iff)
  ultimately show ?thesis using fl(1) l1(2) by simp
qed

end

text \<open>A database whose writes never fail.\<close>

locale reliable_database = database_map +
  assumes set_works: "fst (bk_Set (db_bucket M bid) d k v) = None"
    and del_works: "fst (bk_Delete (db_bucket M bid) d k) = None"
begin

lemma writeEntries_works: "fst (writeEntries (db_bucket M bid) es d) = None"
proof (induction es arbitrary: d)
  case (Cons e es)
  obtain k v where e: "e = (k, v)" by fastforce
  obtain r d1 where "(case v of None \<Rightarrow> bk_Delete (db_bucket M bid) d k | Some x \<Rightarrow> bk_Set (db_bucket M bid) d k x) = (r, d1)"
    by fastforce
  moreover from this have "r = None" 
    using set_works [of bid d k] del_works [of bid d k] by (cases v) (auto dest: arg_cong [of _ _ fst])
  ultimately show ?case using Cons.IH by (simp add: e)
qed simp

lemma flushBuckets_works: "fst (flushBuckets M visit w bids l) = None"
proof (induction bids arbitrary: l)
  case (Cons bid bids)
  obtain r bk where "layer_Flush (db_bucket M bid) visit w (layer_at l bid) = (r, bk)" by fastforce
  moreover from this have "r = None" using writeEntries_works
    by (auto simp: layer_Flush_def split: option.splits prod.splits if_splits) (metis fst_conv option.distinct(1))
  ultimately show ?case using Cons.IH by simp
qed simp

lemma layerDB_Flush_works: "\<exists>l'. layerDB_Flush M visit order w l = (None, l')"
  using flushBuckets_works [of visit w "order (map fst (ly_buckets l))" l]
  by (auto simp: layerDB_Flush_def split: prod.splits option.splits)

lemma with_layer_frame:
  assumes "\<And>b. b \<noteq> bid \<Longrightarrow> dview (lb_real bk) b = dview (ly_real l) b" and "lb_data (layer_at l bid) = None \<Longrightarrow> lb_data bk = None"
  shows "layerDB_view dview (with_layer bid l bk) = (layerDB_view dview l)(bid := layer_view (\<lambda>d. dview d bid) bk)"
proof
  fix b
  have r: "lb_real (layer_at l b) = ly_real l" for b by (simp add: layer_at_def)
  have "layer_at (with_layer bid l bk) bid = bk"
  proof (cases "map_of (ly_buckets l) bid")
    case None
    then have "lb_data (layer_at l bid) = None" by (simp add: layer_at_def)
    with None assms(2) show ?thesis by (simp add: layer_at_with)
  qed (simp add: layer_at_with)
  then show "layerDB_view dview (with_layer bid l bk) b = ((layerDB_view dview l)(bid := layer_view (\<lambda>d. dview d bid) bk)) b"
    using assms(1) [of b]
    by (cases "b = bid") (simp_all add: layerDB_view_def layer_at_with, simp add: layer_view_def r fun_eq_iff split: option.split)
qed

lemma layer_set:
  assumes "layerDB_ok ok l"
  shows "\<exists>l'. bk_Set (layerDB_bucket M bid) l k v = (None, l') \<and>
    layerDB_view dview l' = (layerDB_view dview l)(bid := (layerDB_view dview l bid)(k \<mapsto> v)) \<and> layerDB_ok ok l' \<and>
    (lb_data (layer_at l bid) \<noteq> None \<longrightarrow> ly_real l' = ly_real l)"
proof -
  let ?B = "layerBucket_of (db_bucket M bid)"
  have r: "lb_real (layer_at l bid) = ly_real l" by (simp add: layer_at_def)
  obtain e0 d0 where s0: "bk_Set (db_bucket M bid) (ly_real l) k v = (e0, d0)" by fastforce
  obtain e bk where bk: "bk_Set ?B (layer_at l bid) k v = (e, bk)" by fastforce
  then have e: "e = None" using set_works [of bid "ly_real l" k v]
    by (auto simp: layerBucket_of_def layer_Set_def r s0 split: option.splits)
  have d: "lb_data (layer_at l bid) = None \<Longrightarrow> lb_data bk = None" "lb_data (layer_at l bid) \<noteq> None \<Longrightarrow> lb_real bk = ly_real l"
    using bk by (auto simp: layerBucket_of_def layer_Set_def r s0 split: option.splits)
  have "dview (lb_real bk) b = dview (ly_real l) b" if "b \<noteq> bid" for b
    using bk e layerDB_ok_at [OF assms, of bid] set_frame [of "ly_real l" bid k v _ b] that
    by (auto simp: layerBucket_of_def layer_Set_def r s0 layer_ok_def split: option.splits)
  note fr = with_layer_frame [OF this d(1)]
  note law = bucket_map.set_view [OF bucket_map.layer_bucket [OF buckets] layerDB_ok_at [OF assms], of bid bid k v]
  from law [of bk] bk e have "layer_ok ok bk" "layer_view (\<lambda>d. dview d bid) bk = (layerDB_view dview l bid)(k \<mapsto> v)"
    by (simp_all add: layerDB_view_def)
  with fr bk e d(2) layerDB_ok_with [OF assms] show ?thesis
    by (simp add: layerDB_bucket_def Let_def) (simp add: with_layer_def)
qed

lemma layer_delete:
  assumes "layerDB_ok ok l"
  shows "\<exists>l'. bk_Delete (layerDB_bucket M bid) l k = (None, l') \<and>
    layerDB_view dview l' = (layerDB_view dview l)(bid := (layerDB_view dview l bid)(k := None)) \<and> layerDB_ok ok l' \<and>
    (lb_data (layer_at l bid) \<noteq> None \<longrightarrow> ly_real l' = ly_real l)"
proof -
  let ?B = "layerBucket_of (db_bucket M bid)"
  have r: "lb_real (layer_at l bid) = ly_real l" by (simp add: layer_at_def)
  obtain e0 d0 where s0: "bk_Delete (db_bucket M bid) (ly_real l) k = (e0, d0)" by fastforce
  obtain e bk where bk: "bk_Delete ?B (layer_at l bid) k = (e, bk)" by fastforce
  then have e: "e = None" using del_works [of bid "ly_real l" k]
    by (auto simp: layerBucket_of_def layer_Delete_def r s0 split: option.splits)
  have d: "lb_data (layer_at l bid) = None \<Longrightarrow> lb_data bk = None" "lb_data (layer_at l bid) \<noteq> None \<Longrightarrow> lb_real bk = ly_real l"
    using bk by (auto simp: layerBucket_of_def layer_Delete_def r s0 split: option.splits)
  have "dview (lb_real bk) b = dview (ly_real l) b" if "b \<noteq> bid" for b
    using bk e layerDB_ok_at [OF assms, of bid] del_frame [of "ly_real l" bid k _ b] that
    by (auto simp: layerBucket_of_def layer_Delete_def r s0 layer_ok_def split: option.splits)
  note fr = with_layer_frame [OF this d(1)]
  note law = bucket_map.del_view [OF bucket_map.layer_bucket [OF buckets] layerDB_ok_at [OF assms], of bid bid k]
  from law [of bk] bk e have "layer_ok ok bk" "layer_view (\<lambda>d. dview d bid) bk = (layerDB_view dview l bid)(k := None)"
    by (simp_all add: layerDB_view_def)
  with fr bk e d(2) layerDB_ok_with [OF assms] show ?thesis
    by (simp add: layerDB_bucket_def Let_def) (simp add: with_layer_def)
qed

lemma layer_reads:
  assumes "layerDB_ok ok l"
  shows "bk_Get (layerDB_bucket M bid) l k = Ret (layerDB_view dview l bid k) \<and>
    bk_Has (layerDB_bucket M bid) l k = Ret (layerDB_view dview l bid k \<noteq> None)"
  using bucket_map.get [OF bucket_map.layer_bucket [OF buckets] layerDB_ok_at [OF assms], of bid bid k]
    bucket_map.has [OF bucket_map.layer_bucket [OF buckets] layerDB_ok_at [OF assms], of bid bid k]
  by (simp add: layerDB_bucket_def layerDB_view_def Let_def)

end

interpretation map_database: reliable_database map_db "\<lambda>_. True" mapDatabase_view
proof (unfold_locales, goal_cases)
  case (5 d bid e d')
  then show ?case
    by (auto simp: map_db_def mapDatabase_GetBucket_def mapDatabase_view_def intro!: ext split: option.splits)
qed (auto simp: map_db_def mapDatabase_bucket_def mapBucket_def mapDatabase_view_def)

text \<open>
  C39: flushing a layer with writing makes the database in memory show, in every bucket, exactly what was
  seen through the layer, whatever the order in which buckets and entries are visited, and the
  layer shows the same as before; flushing without writing leaves the database as it was, and the
  layer then shows the database.
\<close>
theorem layerDB_flush:
  assumes "layerDB_ok (\<lambda>_. True) l" and "\<And>xs. mset (visit xs) = mset xs" and "\<And>xs. mset (order xs) = mset xs"
  shows "(\<exists>l'. layerDB_Flush map_db visit order True l = (None, l') \<and> mapDatabase_view (ly_real l') = layerDB_view mapDatabase_view l \<and>
      layerDB_view mapDatabase_view l' = layerDB_view mapDatabase_view l) \<and>
    (\<exists>l'. layerDB_Flush map_db visit order False l = (None, l') \<and> ly_real l' = ly_real l \<and>
      layerDB_view mapDatabase_view l' = mapDatabase_view (ly_real l))"
proof
  obtain l' where "layerDB_Flush map_db visit order True l = (None, l')" using map_database.layerDB_Flush_works by blast
  with map_database.layerDB_Flush_view [OF assms(1) this assms(2,3)]
  show "\<exists>l'. layerDB_Flush map_db visit order True l = (None, l') \<and> mapDatabase_view (ly_real l') = layerDB_view mapDatabase_view l \<and>
      layerDB_view mapDatabase_view l' = layerDB_view mapDatabase_view l" by blast
  show "\<exists>l'. layerDB_Flush map_db visit order False l = (None, l') \<and> ly_real l' = ly_real l \<and>
      layerDB_view mapDatabase_view l' = mapDatabase_view (ly_real l)"
    by (rule discard_view) (rule assms(3))
qed

text \<open>A layer with a changed, a deleted and an untouched key.\<close>

definition sample_layer :: "mapDatabase layerDB" where
  "sample_layer = \<lparr>ly_flushed = False, ly_real = [''S'' \<mapsto> [[1] \<mapsto> [10], [2] \<mapsto> [20], [3] \<mapsto> [30]]],
     ly_buckets = [(''S'', Some [([2], None), ([1], Some [11])])]\<rparr>"

theorem layerDB_flush_witness:
  "\<exists>l'. layerDB_Flush map_db rev rev True sample_layer = (None, l') \<and>
     mapDatabase_view (ly_real l') ''S'' = [[1] \<mapsto> [11], [3] \<mapsto> [30]]"
proof -
  have "layerDB_ok (\<lambda>_. True) sample_layer" by (simp add: layerDB_ok_def sample_layer_def layer_ok_def layer_at_def)
  from layerDB_flush [OF this, of rev rev]
  obtain l' where l': "layerDB_Flush map_db rev rev True sample_layer = (None, l')"
    "mapDatabase_view (ly_real l') = layerDB_view mapDatabase_view sample_layer" by auto
  have "layerDB_view mapDatabase_view sample_layer ''S'' = [[1] \<mapsto> [11], [3] \<mapsto> [30]]"
    by (rule ext) (simp add: sample_layer_def layerDB_view_def layer_view_def layer_at_def mapDatabase_view_def)
  with l' show ?thesis by simp
qed

text \<open>
  A layered bucket of the database in memory is a map: after a write the key has the value, after a
  deletion none, the other keys of the bucket and the other buckets are as before, and Get and Has
  agree; while the layer holds data the database below is not touched.
\<close>
theorem layerDB_bucket_map:
  assumes "layerDB_ok (\<lambda>_. True) l" and "V = layerDB_view mapDatabase_view" and "T = layerDB_bucket map_db bid"
  shows "(\<exists>l'. bk_Set T l k v = (None, l') \<and> V l' = (V l)(bid := (V l bid)(k \<mapsto> v)) \<and> layerDB_ok (\<lambda>_. True) l' \<and>
      (lb_data (layer_at l bid) \<noteq> None \<longrightarrow> ly_real l' = ly_real l)) \<and>
    (\<exists>l'. bk_Delete T l k = (None, l') \<and> V l' = (V l)(bid := (V l bid)(k := None)) \<and> layerDB_ok (\<lambda>_. True) l' \<and>
      (lb_data (layer_at l bid) \<noteq> None \<longrightarrow> ly_real l' = ly_real l)) \<and>
    bk_Get T l k = Ret (V l bid k) \<and> bk_Has T l k = Ret (V l bid k \<noteq> None)"
  unfolding assms(2,3)
  using map_database.layer_set [OF assms(1), of bid k v] map_database.layer_delete [OF assms(1), of bid k]
    map_database.layer_reads [OF assms(1), of bid k] by blast

theorem layerDB_bucket_map_witness:
  "bk_Get (layerDB_bucket map_db ''S'') sample_layer [2] = Ret None \<and>
   (\<exists>l'. bk_Set (layerDB_bucket map_db ''S'') sample_layer [2] [9] = (None, l') \<and> ly_real l' = ly_real sample_layer)"
proof -
  have "layerDB_ok (\<lambda>_. True) sample_layer" by (simp add: layerDB_ok_def sample_layer_def layer_ok_def layer_at_def)
  moreover have "layerDB_view mapDatabase_view sample_layer ''S'' [2] = None" "lb_data (layer_at sample_layer ''S'') \<noteq> None"
    by (simp_all add: sample_layer_def layerDB_view_def layer_view_def layer_at_def)
  ultimately show ?thesis using layerDB_bucket_map [OF _ refl refl, of sample_layer "''S''" "[2]" "[9]"] by auto
qed

end
