(* ===== verification/Mta.thy ===== *)
theory Mta
  imports Codec Db
begin

text \<open>
  The Merkle tree accumulator of src/common/mta: a list of perfect Merkle trees of which the tree at
  index \<open>h\<close> has \<open>2 ^ h\<close> leaves, as the bits of the number of leaves say. Nodes cache their hashes, and are
  written to a bucket and read back from it. The hash function SHA3-256 (golang.org/x/crypto) is a
  parameter \<open>H\<close>. Indices are 64-bit in the code; here they are integers and the shifts are those of
  64-bit words.
\<close>

section \<open>Nodes\<close>

definition HashSize :: nat where "HashSize = 32"

datatype State = stateDirty | stateHashed | stateFlushed

fun State_rank :: "State \<Rightarrow> nat" where
  "State_rank stateDirty = 0" | "State_rank stateHashed = 1" | "State_rank stateFlushed = 2"

instantiation State :: linorder
begin

definition less_eq_State :: "State \<Rightarrow> State \<Rightarrow> bool" where
  "less_eq_State a b = (State_rank a \<le> State_rank b)"

definition less_State :: "State \<Rightarrow> State \<Rightarrow> bool" where
  "less_State a b = (State_rank a < State_rank b)"

instance
proof
  fix x y :: State
  show "x \<le> y \<Longrightarrow> y \<le> x \<Longrightarrow> x = y" by (cases x; cases y; simp add: less_eq_State_def)
qed (auto simp: less_eq_State_def less_State_def)

end

lemma State_less [simp]:
  "(stateDirty < stateHashed) = True" "(stateHashed < stateHashed) = False" "(stateFlushed < stateHashed) = False"
  "(stateDirty < stateFlushed) = True" "(stateHashed < stateFlushed) = True" "(stateFlushed < stateFlushed) = False"
  by (simp_all add: less_State_def)

datatype Direction = Left | Right

record Witness =
  Direction :: Direction
  HashValue :: bytes

datatype mnode =
    hashNode (n_hashValue: bytes)
  | branchNode (n_state: State) (n_hashValue: bytes) (serialized: bytes) (left: mnode) (right: mnode)
  | dataNode (n_state: State) (n_hashValue: bytes) (n_data: bytes)

text \<open>\<open>copy(dst, src)\<close>, and the buffer of two hashes: the copies overlap when a hash is too long.\<close>

definition copy :: "bytes \<Rightarrow> bytes \<Rightarrow> bytes" where
  "copy dst src = take (length dst) src @ drop (length src) dst"

definition copy2 :: "bytes \<Rightarrow> bytes \<Rightarrow> bytes \<Rightarrow> bytes" where
  "copy2 buf l r = (let b = copy buf l in take HashSize b @ copy (drop HashSize b) r)"

definition zeroes :: bytes where
  "zeroes = replicate (2 * HashSize) 0"

text \<open>\<open>Hash\<close>: the hash and the node with the hash cached.\<close>

fun Hash :: "(bytes \<Rightarrow> bytes) \<Rightarrow> mnode \<Rightarrow> bytes \<times> mnode" where
  "Hash H (hashNode hv) = (hv, hashNode hv)"
| "Hash H (branchNode st hv ser l r) = (if st < stateHashed
     then (case Hash H l of (lh, l') \<Rightarrow> case Hash H r of (rh, r') \<Rightarrow>
       let bs = copy2 zeroes lh rh in (H bs, branchNode stateHashed (H bs) bs l' r'))
     else (hv, branchNode st hv ser l r))"
| "Hash H (dataNode st hv d) = (if st < stateHashed then (H d, dataNode stateHashed (H d) d) else (hv, dataNode st hv d))"

text \<open>\<open>Flush\<close>: nodes are written to the bucket below them first; an error leaves what was written.\<close>

fun node_Flush :: "(bytes \<Rightarrow> bytes) \<Rightarrow> 'd bucket \<Rightarrow> mnode \<Rightarrow> 'd \<Rightarrow> err option \<times> mnode \<times> 'd" where
  "node_Flush H B (hashNode hv) d = (None, hashNode hv, d)"
| "node_Flush H B (branchNode st hv ser l r) d = (if st = stateFlushed then (None, branchNode st hv ser l r, d)
     else (case node_Flush H B l d of
         (Some e, l', d1) \<Rightarrow> (Some e, branchNode st hv ser l' r, d1)
       | (None, l', d1) \<Rightarrow> (case node_Flush H B r d1 of
           (Some e, r', d2) \<Rightarrow> (Some e, branchNode st hv ser l' r', d2)
         | (None, r', d2) \<Rightarrow> (case Hash H (branchNode st hv ser l' r') of (hv', n) \<Rightarrow>
             (case bk_Set B d2 hv' (serialized n) of
                (Some e, d3) \<Rightarrow> (Some e, n, d3)
              | (None, d3) \<Rightarrow> (None, branchNode stateFlushed (n_hashValue n) (serialized n) (left n) (right n), d3))))))"
| "node_Flush H B (dataNode st hv dt) d = (if st < stateFlushed
     then (case Hash H (dataNode st hv dt) of (hv', n) \<Rightarrow> (case bk_Set B d hv' dt of
         (Some e, d') \<Rightarrow> (Some e, n, d')
       | (None, d') \<Rightarrow> (None, dataNode stateFlushed (n_hashValue n) dt, d')))
     else (None, dataNode st hv dt, d))"

text \<open>\<open>resolve\<close>: the branch node of a hash, from the bucket; a nil value has no bytes.\<close>

definition resolve :: "'d bucket \<Rightarrow> 'd \<Rightarrow> bytes \<Rightarrow> mnode result" where
  "resolve B d hv = (case bk_Get B d hv of
      Fail e \<Rightarrow> Fail (the (Wrap (Some e) ''ResolveFailure''))
    | Ret v \<Rightarrow> (let bs = (case v of None \<Rightarrow> [] | Some b \<Rightarrow> b) in
        if length bs \<noteq> 2 * HashSize then Fail (New ''InvalidData'')
        else Ret (branchNode stateFlushed hv bs (hashNode (take HashSize bs)) (hashNode (drop HashSize bs))))
    | Panic \<Rightarrow> Panic | OutOfFuel \<Rightarrow> OutOfFuel)"

text \<open>\<open>int64(1) << uint(k)\<close>.\<close>

definition shl1 :: "int \<Rightarrow> int" where
  "shl1 k = sint (push_bit (nat k) 1 :: 64 word)"

text \<open>
  \<open>WitnessFor\<close> of a node: the node, with what was resolved on the way, and the witnesses from the
  leaf upwards. A branch node visits a child with the depth less one; a hash node of positive
  depth is resolved and visited as a branch node.
\<close>

fun node_size :: "mnode \<Rightarrow> nat" where
  "node_size (hashNode hv) = 1" | "node_size _ = 0"

function node_WitnessFor :: "(bytes \<Rightarrow> bytes) \<Rightarrow> 'd bucket \<Rightarrow> 'd \<Rightarrow> mnode \<Rightarrow> int \<Rightarrow> int \<Rightarrow> Witness list \<Rightarrow>
    mnode \<times> Witness list result" where
  "node_WitnessFor H B d (hashNode hv) depth idx w = (if depth < 1 then (hashNode hv, Ret w)
     else (case resolve B d hv of
         Ret (branchNode st hv' ser l r) \<Rightarrow> node_WitnessFor H B d (branchNode st hv' ser l r) depth idx w
       | Ret n \<Rightarrow> (n, Panic)
       | Fail e \<Rightarrow> (hashNode hv, Fail e) | Panic \<Rightarrow> (hashNode hv, Panic) | OutOfFuel \<Rightarrow> (hashNode hv, OutOfFuel)))"
| "node_WitnessFor H B d (branchNode st hv ser l r) depth idx w = (if depth < 1 then (branchNode st hv ser l r, Fail (New ''InvalidDepth''))
     else let bound = shl1 (depth - 1) in
       if idx < bound
       then (case node_WitnessFor H B d l (depth - 1) idx w of
           (l', Ret ws) \<Rightarrow> (case Hash H r of (rh, r') \<Rightarrow>
             (branchNode st hv ser l' r', Ret (ws @ [\<lparr>Direction = Right, HashValue = rh\<rparr>])))
         | (l', e) \<Rightarrow> (branchNode st hv ser l' r, e))
       else (case node_WitnessFor H B d r (depth - 1) (idx - bound) w of
           (r', Ret ws) \<Rightarrow> (case Hash H l of (lh, l') \<Rightarrow>
             (branchNode st hv ser l' r', Ret (ws @ [\<lparr>Direction = Left, HashValue = lh\<rparr>])))
         | (r', e) \<Rightarrow> (branchNode st hv ser l r', e)))"
| "node_WitnessFor H B d (dataNode st hv dt) depth idx w =
     (if depth > 0 then (dataNode st hv dt, Fail (New ''InvalidDepth'')) else (dataNode st hv dt, Ret w))"
  by pat_completeness auto
termination
  by (relation "measures [\<lambda>(H, B, d, n, depth, idx, w). nat depth, \<lambda>(H, B, d, n, depth, idx, w). node_size n]") auto

function GetNode :: "'d bucket \<Rightarrow> 'd \<Rightarrow> mnode \<Rightarrow> int \<Rightarrow> int \<Rightarrow> mnode result" where
  "GetNode B d (branchNode st hv ser l r) depth idx = (if depth < 1 then Fail (New ''InvalidDepth'')
     else let bound = shl1 (depth - 1) in
       if idx < bound then GetNode B d l (depth - 1) idx else GetNode B d r (depth - 1) (idx - bound))"
| "GetNode B d (hashNode hv) depth idx = (if depth < 1 then Ret (hashNode hv)
     else (case resolve B d hv of
         Ret (branchNode st hv' ser l r) \<Rightarrow> GetNode B d (branchNode st hv' ser l r) depth idx
       | Ret n \<Rightarrow> Panic | Fail e \<Rightarrow> Fail e | Panic \<Rightarrow> Panic | OutOfFuel \<Rightarrow> OutOfFuel))"
| "GetNode B d (dataNode st hv dt) depth idx = (if depth > 0 then Fail (New ''InvalidDepth'') else Ret (dataNode st hv dt))"
  by pat_completeness auto
termination
  by (relation "measures [\<lambda>(B, d, n, depth, idx). nat depth, \<lambda>(B, d, n, depth, idx). node_size n]") auto

section \<open>The accumulator\<close>

record Accumulator =
  KeyForState :: bytes
  roots :: "mnode option list"
  acc_length :: int

definition acc_Len :: "'x Accumulator_scheme \<Rightarrow> int" where
  "acc_Len a = acc_length a"

text \<open>
  \<open>addNode\<close>: carrying the node upwards through the roots; a root whose hash is empty counts as
  none. The length is an \<open>int64\<close> in the code and grows by one with each node; it is an unbounded integer here, which is
  the same as long as fewer than \<open>2 ^ 63\<close> nodes are added.
\<close>

function addNode :: "(bytes \<Rightarrow> bytes) \<Rightarrow> nat \<Rightarrow> mnode \<Rightarrow> Witness list \<Rightarrow> 'x Accumulator_scheme \<Rightarrow> Witness list \<times> 'x Accumulator_scheme" where
  "addNode H h n w a = (if h \<ge> length (roots a)
     then (w, a\<lparr>roots := roots a @ [Some n], acc_length := acc_length a + 1\<rparr>)
     else (case roots a ! h of
         None \<Rightarrow> (w, a\<lparr>roots := (roots a)[h := Some n], acc_length := acc_length a + 1\<rparr>)
       | Some root \<Rightarrow> (case Hash H root of (rh, root') \<Rightarrow>
           if rh = [] then (w, a\<lparr>roots := (roots a)[h := Some n], acc_length := acc_length a + 1\<rparr>)
           else addNode H (Suc h) (branchNode stateDirty [] [] root' n) (w @ [\<lparr>Direction = Left, HashValue = rh\<rparr>])
             (a\<lparr>roots := (roots a)[h := None]\<rparr>))))"
  by pat_completeness auto
termination
  by (relation "measure (\<lambda>(H, h, n, w, a). length (roots a) - h)") auto

declare addNode.simps [simp del]

definition AddNode :: "(bytes \<Rightarrow> bytes) \<Rightarrow> mnode \<Rightarrow> 'x Accumulator_scheme \<Rightarrow> Witness list \<times> 'x Accumulator_scheme" where
  "AddNode H n a = addNode H 0 n [] a"

definition AddHash :: "(bytes \<Rightarrow> bytes) \<Rightarrow> bytes \<Rightarrow> 'x Accumulator_scheme \<Rightarrow> Witness list \<times> 'x Accumulator_scheme" where
  "AddHash H h a = AddNode H (hashNode h) a"

definition AddData :: "(bytes \<Rightarrow> bytes) \<Rightarrow> bytes \<Rightarrow> 'x Accumulator_scheme \<Rightarrow> Witness list \<times> 'x Accumulator_scheme" where
  "AddData H d a = AddNode H (dataNode stateDirty [] d) a"

text \<open>\<open>WitnessFor\<close>: from the highest root on, until the index falls into a tree.\<close>

fun acc_WitnessFor_loop :: "(bytes \<Rightarrow> bytes) \<Rightarrow> 'd bucket \<Rightarrow> 'd \<Rightarrow> nat \<Rightarrow> int \<Rightarrow> 'x Accumulator_scheme \<Rightarrow> Witness list result \<times> 'x Accumulator_scheme" where
  "acc_WitnessFor_loop H B d 0 idx a = (Fail ErrNotFound, a)"
| "acc_WitnessFor_loop H B d (Suc offset) idx a = (case roots a ! offset of
      None \<Rightarrow> acc_WitnessFor_loop H B d offset idx a
    | Some root \<Rightarrow> let inbound = shl1 (int offset) in
        if idx < inbound then (case node_WitnessFor H B d root (int offset) idx [] of
          (root', r) \<Rightarrow> (r, a\<lparr>roots := (roots a)[offset := Some root']\<rparr>))
        else acc_WitnessFor_loop H B d offset (idx - inbound) a)"

definition acc_WitnessFor :: "(bytes \<Rightarrow> bytes) \<Rightarrow> 'd bucket \<Rightarrow> 'd \<Rightarrow> int \<Rightarrow> 'x Accumulator_scheme \<Rightarrow> Witness list result \<times> 'x Accumulator_scheme" where
  "acc_WitnessFor H B d idx a = (if idx \<ge> acc_length a then (Fail ErrNotFound, a)
     else acc_WitnessFor_loop H B d (length (roots a)) idx a)"

fun acc_GetNode_loop :: "'d bucket \<Rightarrow> 'd \<Rightarrow> nat \<Rightarrow> int \<Rightarrow> 'x Accumulator_scheme \<Rightarrow> mnode result" where
  "acc_GetNode_loop B d 0 idx a = Fail ErrNotFound"
| "acc_GetNode_loop B d (Suc offset) idx a = (case roots a ! offset of
      None \<Rightarrow> acc_GetNode_loop B d offset idx a
    | Some root \<Rightarrow> let inbound = shl1 (int offset) in
        if idx < inbound then GetNode B d root (int offset) idx
        else acc_GetNode_loop B d offset (idx - inbound) a)"

definition acc_GetNode :: "'d bucket \<Rightarrow> 'd \<Rightarrow> int \<Rightarrow> 'x Accumulator_scheme \<Rightarrow> mnode result" where
  "acc_GetNode B d idx a = (if idx \<ge> acc_length a then Fail ErrNotFound
     else acc_GetNode_loop B d (length (roots a)) idx a)"

text \<open>The loop of \<open>Verify\<close>; the buffer is reused.\<close>

fun verify_loop :: "(bytes \<Rightarrow> bytes) \<Rightarrow> bytes \<Rightarrow> Witness list \<Rightarrow> bytes \<Rightarrow> bytes" where
  "verify_loop H buf [] h = h"
| "verify_loop H buf (w # ws) h =
     (let buf' = (if Direction w = Left then copy2 buf (HashValue w) h else copy2 buf h (HashValue w))
      in verify_loop H buf' ws (H buf'))"

text \<open>The error, or none; a root is asked for its hash, which it may cache.\<close>

definition Verify :: "(bytes \<Rightarrow> bytes) \<Rightarrow> Witness list \<Rightarrow> bytes \<Rightarrow> 'x Accumulator_scheme \<Rightarrow> err option \<times> 'x Accumulator_scheme" where
  "Verify H ws h a = (let h' = verify_loop H zeroes ws h; height = length ws in
     if height \<ge> length (roots a) then (Wrap (Some ErrIllegalArgument) ''InvalidWitness newer witness'', a)
     else (case roots a ! height of
         None \<Rightarrow> (Some (Errorc IllegalArgumentError ''InvalidWitness not exists root''), a)
       | Some root \<Rightarrow> (case Hash H root of (rh, root') \<Rightarrow>
           (if rh \<noteq> h' then Some (Errorc IllegalArgumentError ''InvalidWitness not matched root'') else None,
            a\<lparr>roots := (roots a)[height := Some root']\<rparr>))))"

definition WitnessesToHashes :: "Witness list \<Rightarrow> bytes list" where
  "WitnessesToHashes w = map HashValue w"

text \<open>The index is halved towards zero.\<close>

fun HashesToWitness :: "bytes list \<Rightarrow> int \<Rightarrow> Witness list" where
  "HashesToWitness [] idx = []"
| "HashesToWitness (hv # hvs) idx =
     \<lparr>Direction = (if idx mod 2 = 0 then Right else Left), HashValue = hv\<rparr> #
       HashesToWitness hvs (if idx < 0 then - (- idx div 2) else idx div 2)"

text \<open>The loop of \<open>GetHeightFromWitness\<close> over the bits: the index and the offset.\<close>

fun height_loop :: "Witness list \<Rightarrow> int \<Rightarrow> nat \<Rightarrow> int \<times> int \<Rightarrow> int \<times> int" where
  "height_loop [] accLength i (idx, offset) = (idx, offset)"
| "height_loop (w # ws) accLength i (idx, offset) = height_loop ws accLength (Suc i)
     (if Direction w = Right then or idx (shl1 (int i)) else idx,
      if and accLength (shl1 (int i)) \<noteq> 0 then offset + shl1 (int i) else offset)"

definition GetHeightFromWitness :: "Witness list \<Rightarrow> int \<Rightarrow> int" where
  "GetHeightFromWitness ws accLength = (case height_loop ws accLength 0 (0, 0) of (idx, offset) \<Rightarrow>
     accLength - 1 - (idx + offset))"

text \<open>\<open>GetDepthByHeightAndAccLength\<close>: the number of bits, then from the highest bit downwards.\<close>

fun bit_count :: "nat \<Rightarrow> nat" where
  "bit_count v = (if 0 < v then Suc (bit_count (v div 2)) else 0)"

declare bit_count.simps [simp del]

fun depth_loop :: "nat \<Rightarrow> int \<Rightarrow> int \<Rightarrow> nat" where
  "depth_loop 0 height accLength = 0"
| "depth_loop (Suc depth) height accLength = (let bitFlag = shl1 (int depth) in
     if and accLength bitFlag = bitFlag
     then (if height < bitFlag then depth else depth_loop depth (height - bitFlag) accLength)
     else depth_loop depth height accLength)"

definition GetDepthByHeightAndAccLength :: "int \<Rightarrow> int \<Rightarrow> nat" where
  "GetDepthByHeightAndAccLength height accLength = depth_loop (bit_count (nat accLength)) height accLength"

text \<open>A slice beyond the length of the witnesses panics.\<close>

definition WitnessForWithAccLength ::
    "(bytes \<Rightarrow> bytes) \<Rightarrow> 'd bucket \<Rightarrow> 'd \<Rightarrow> int \<Rightarrow> int \<Rightarrow> 'x Accumulator_scheme \<Rightarrow> Witness list result \<times> 'x Accumulator_scheme" where
  "WitnessForWithAccLength H B d idx accLength a = (case acc_WitnessFor H B d idx a of
      (Ret w, a') \<Rightarrow> (let depth = GetDepthByHeightAndAccLength idx accLength in
        (if depth > length w then Panic else Ret (take depth w), a'))
    | (r, a') \<Rightarrow> (r, a'))"

text \<open>The depth of an older accumulator in which a height lies.\<close>

fun old_depth :: "nat \<Rightarrow> int \<Rightarrow> nat" where
  "old_depth 0 height = 0"
| "old_depth (Suc i) height = (if i = 0 then 0 else let bitFlag = shl1 (int i) in
     if height < bitFlag then i else old_depth i (height - bitFlag))"

text \<open>
  A witness is taken to be a slice that ends with its array: \<open>ws[:depth]\<close> beyond its length panics. A caller whose slice has room behind
  it would have the entries there verified.
\<close>

definition VerifyWithAccLength ::
    "(bytes \<Rightarrow> bytes) \<Rightarrow> 'd bucket \<Rightarrow> 'd \<Rightarrow> Witness list \<Rightarrow> bytes \<Rightarrow> int \<Rightarrow> 'x Accumulator_scheme \<Rightarrow> err option result \<times> 'x Accumulator_scheme" where
  "VerifyWithAccLength H B d ws h accLength a =
     (if acc_length a = accLength then (case Verify H ws h a of (e, a') \<Rightarrow> (Ret e, a'))
      else let height = GetHeightFromWitness ws accLength in
        if height \<ge> acc_length a then (Ret (Some (Errorc IllegalArgumentError ''InvalidWitness newer node'')), a)
        else if acc_length a > accLength then (case acc_WitnessFor H B d height a of
            (Ret nws, a') \<Rightarrow> if length nws < length ws then (Panic, a')
              else (case Verify H (ws @ drop (length ws) nws) h a' of (e, a'') \<Rightarrow> (Ret e, a''))
          | (Fail e, a') \<Rightarrow> (Ret (Some e), a') | (Panic, a') \<Rightarrow> (Panic, a') | (OutOfFuel, a') \<Rightarrow> (OutOfFuel, a'))
        else let depth = old_depth (length (roots a)) height in
          if depth > length ws then (Panic, a)
          else (case Verify H (take depth ws) h a of (e, a') \<Rightarrow> (Ret e, a')))"

section \<open>The extended accumulator\<close>

text \<open>\<open>ExtAccumulator\<close> embeds an \<open>Accumulator\<close>; its state is written with the RLP codec.\<close>

record ExtAccumulator = Accumulator +
  x_offset :: int
  limitRoots :: int
  x_serialized :: bytes

definition NewExtAccumulator :: "bytes \<Rightarrow> int \<Rightarrow> ExtAccumulator" where
  "NewExtAccumulator key off =
     \<lparr>KeyForState = key, roots = [], acc_length = 0, x_offset = off, limitRoots = 0, x_serialized = []\<rparr>"

definition ext_Height :: "ExtAccumulator \<Rightarrow> int" where
  "ext_Height a = acc_length a + x_offset a"

text \<open>The loop of \<open>Flush\<close> over the roots: an error, the roots, their hashes, and the bucket.\<close>

fun flushRoots :: "(bytes \<Rightarrow> bytes) \<Rightarrow> 'd bucket \<Rightarrow> mnode option list \<Rightarrow> 'd \<Rightarrow>
    err option \<times> mnode option list \<times> bytes option list \<times> 'd" where
  "flushRoots H B [] d = (None, [], [], d)"
| "flushRoots H B (None # rs) d = (case flushRoots H B rs d of (e, rs', hs, d') \<Rightarrow> (e, None # rs', None # hs, d'))"
| "flushRoots H B (Some n # rs) d = (case node_Flush H B n d of
      (Some e, n', d') \<Rightarrow> (Some e, Some n' # rs, [], d')
    | (None, n', d') \<Rightarrow> (case Hash H n' of (h, n'') \<Rightarrow> (case flushRoots H B rs d' of
        (e, rs', hs, d'') \<Rightarrow> (e, Some n'' # rs', Some h # hs, d''))))"

text \<open>\<open>serializedExtAccumulator\<close>.\<close>

definition ext_val :: "int \<Rightarrow> bytes option list \<Rightarrow> int \<Rightarrow> int \<Rightarrow> gval" where
  "ext_val height hs off lim = VStruct [VPrim (PInt (word_of_int height)), VSlice (Some (map VBytes hs)),
     VPrim (PInt (word_of_int off)), VPrim (PInt (word_of_int lim))]"

definition ext_type :: gtype where
  "ext_type = TStruct [TPrim (KInt 64), TSlice TBytes, TPrim (KInt 64), TPrim (KInt 64)]"

definition ext_Flush :: "(bytes \<Rightarrow> bytes) \<Rightarrow> 'd bucket \<Rightarrow> ExtAccumulator \<Rightarrow> 'd \<Rightarrow> unit result \<times> ExtAccumulator \<times> 'd" where
  "ext_Flush H B a d = (case flushRoots H B (roots a) d of
      (Some e, rs, hs, d') \<Rightarrow> (Fail e, a\<lparr>roots := rs\<rparr>, d')
    | (None, rs, hs, d') \<Rightarrow> (case MarshalToBytes (VPtr (Some (ext_val (ext_Height a) hs (x_offset a) (limitRoots a)))) of
        Ret b \<Rightarrow> (case bk_Set B d' (KeyForState a) b of
            (Some e, d'') \<Rightarrow> (Fail e, a\<lparr>roots := rs\<rparr>, d'')
          | (None, d'') \<Rightarrow> (Ret (), a\<lparr>roots := rs, x_serialized := b\<rparr>, d''))
      | Fail e \<Rightarrow> (Fail e, a\<lparr>roots := rs\<rparr>, d') | Panic \<Rightarrow> (Panic, a\<lparr>roots := rs\<rparr>, d') | OutOfFuel \<Rightarrow> (OutOfFuel, a\<lparr>roots := rs\<rparr>, d')))"

text \<open>The roots read back: a hash of another length than \<open>HashSize\<close> becomes no root.\<close>

definition recoverRoot :: "gval \<Rightarrow> mnode option" where
  "recoverRoot v = (case v of VBytes (Some hv) \<Rightarrow> if length hv = HashSize then Some (hashNode hv) else None | _ \<Rightarrow> None)"

definition recoverState :: "gval \<Rightarrow> (int \<times> mnode option list \<times> int)" where
  "recoverState v = (case v of
     VStruct [VPrim (PInt height), VSlice rs, VPrim (PInt off), VPrim (PInt lim)] \<Rightarrow>
       (sint height, map recoverRoot (case rs of None \<Rightarrow> [] | Some vs \<Rightarrow> vs), sint off)
   | _ \<Rightarrow> (0, [], 0))"

definition ext_Recover :: "'d bucket \<Rightarrow> ExtAccumulator \<Rightarrow> 'd \<Rightarrow> unit result \<times> ExtAccumulator" where
  "ext_Recover B a d = (case bk_Get B d (KeyForState a) of
      Ret v \<Rightarrow> (let b = (case v of None \<Rightarrow> [] | Some b \<Rightarrow> b) in
        if b = [] then (Ret (), a\<lparr>roots := [], acc_length := 0\<rparr>)
        else (case UnmarshalFromBytes b ext_type of
            Ret (s, rest) \<Rightarrow> (case recoverState s of (height, rs, off) \<Rightarrow>
              let a' = a\<lparr>roots := rs, acc_length := height - off, x_serialized := b\<rparr> in
              if x_offset a < off then (Fail (New ''not support recover to lower offset''), a')
              else if x_offset a > off then (Fail (New ''not support recover to higher offset''), a')
              else (Ret (), a'))
          | Fail e \<Rightarrow> (Fail e, a) | Panic \<Rightarrow> (Panic, a) | OutOfFuel \<Rightarrow> (OutOfFuel, a)))
    | Fail e \<Rightarrow> (Fail e, a) | Panic \<Rightarrow> (Panic, a) | OutOfFuel \<Rightarrow> (OutOfFuel, a))"

definition WitnessForAt :: "(bytes \<Rightarrow> bytes) \<Rightarrow> 'd bucket \<Rightarrow> 'd \<Rightarrow> int \<Rightarrow> int \<Rightarrow> int \<Rightarrow> ExtAccumulator \<Rightarrow>
    (int \<times> Witness list) result \<times> ExtAccumulator" where
  "WitnessForAt H B d height at offset a =
     (if x_offset a > offset then (Fail (New ''not support lower offset''), a)
      else if x_offset a < offset then (Fail (New ''not support higher offset yet''), a)
      else let idx = height - 1 - x_offset a; accLength = at - x_offset a;
             accLength' = (if accLength > acc_length a then acc_length a else accLength);
             at' = (if accLength > acc_length a then acc_length a + x_offset a else at)
        in (case WitnessForWithAccLength H B d idx accLength' a of
            (Ret w, a') \<Rightarrow> (Ret (at', w), a')
          | (Fail e, a') \<Rightarrow> (Fail e, a') | (Panic, a') \<Rightarrow> (Panic, a') | (OutOfFuel, a') \<Rightarrow> (OutOfFuel, a')))"

definition VerifyAt :: "(bytes \<Rightarrow> bytes) \<Rightarrow> 'd bucket \<Rightarrow> 'd \<Rightarrow> Witness list \<Rightarrow> bytes \<Rightarrow> int \<Rightarrow> int \<Rightarrow> ExtAccumulator \<Rightarrow>
    err option result \<times> ExtAccumulator" where
  "VerifyAt H B d w h at offset a =
     (if x_offset a > offset then (Ret (Some (New ''not support lower offset'')), a)
      else if x_offset a < offset then (Ret (Some (New ''not support higher offset yet'')), a)
      else let accLength = at - x_offset a in
        VerifyWithAccLength H B d w h (if accLength > acc_length a then acc_length a else accLength) a)"

definition ext_GetNode :: "'d bucket \<Rightarrow> 'd \<Rightarrow> int \<Rightarrow> ExtAccumulator \<Rightarrow> mnode result" where
  "ext_GetNode B d height a = acc_GetNode B d (height - 1 - x_offset a) a"

end
