(* ===== verification/Mta_Props.thy ===== *)
theory Mta_Props
  imports Mta
begin

text \<open>
  What the accumulator promises: it stands for the list of the hashes that were added, its witnesses
  verify, also after later additions and after its nodes went through the bucket, and a witness
  determines the place of its leaf.
\<close>

section \<open>Blocks and roots\<close>

definition hash_ok :: "(bytes \<Rightarrow> bytes) \<Rightarrow> bool" where
  "hash_ok H \<longleftrightarrow> (\<forall>x. length (H x) = HashSize)"

definition leaves_ok :: "bytes list \<Rightarrow> bool" where
  "leaves_ok ls \<longleftrightarrow> (\<forall>x\<in>set ls. length x = HashSize)"

text \<open>The Merkle root of \<open>2 ^ k\<close> leaves, and the aligned blocks of a list.\<close>

fun mta_root :: "(bytes \<Rightarrow> bytes) \<Rightarrow> nat \<Rightarrow> bytes list \<Rightarrow> bytes" where
  "mta_root H 0 ls = hd ls"
| "mta_root H (Suc k) ls = H (mta_root H k (take (2 ^ k) ls) @ mta_root H k (drop (2 ^ k) ls))"

definition block :: "nat \<Rightarrow> nat \<Rightarrow> bytes list \<Rightarrow> bytes list" where
  "block k c ls = take (2 ^ k) (drop (c * 2 ^ k) ls)"

lemma block_length: "(c + 1) * 2 ^ k \<le> length ls \<Longrightarrow> length (block k c ls) = 2 ^ k"
  by (simp add: block_def)

lemma block_ok: "leaves_ok ls \<Longrightarrow> leaves_ok (block k c ls)"
  by (auto simp: leaves_ok_def block_def dest!: in_set_takeD in_set_dropD)

lemma block_halves:
  "take (2 ^ k) (block (Suc k) c ls) = block k (2 * c) ls" "drop (2 ^ k) (block (Suc k) c ls) = block k (2 * c + 1) ls"
  by (simp_all add: block_def algebra_simps drop_take min_def)

lemma block_0: "c < length ls \<Longrightarrow> block 0 c ls = [ls ! c]"
  by (simp add: block_def take_Suc_conv_app_nth hd_drop_conv_nth)

lemma block_append: "(c + 1) * 2 ^ k \<le> length ls \<Longrightarrow> block k c (ls @ xs) = block k c ls"
  by (simp add: block_def)

lemma block_last: "block 0 (length ls) (ls @ [x]) = [x]"
  by (simp add: block_def)

lemma mta_root_block: "mta_root H (Suc k) (block (Suc k) c ls) =
    H (mta_root H k (block k (2 * c) ls) @ mta_root H k (block k (2 * c + 1) ls))"
  by (simp add: block_halves)

lemma leaves_ok_parts: "leaves_ok ls \<Longrightarrow> leaves_ok (take n ls)" "leaves_ok ls \<Longrightarrow> leaves_ok (drop n ls)"
  by (auto simp: leaves_ok_def dest!: in_set_takeD in_set_dropD)

lemma mta_root_length: "hash_ok H \<Longrightarrow> leaves_ok ls \<Longrightarrow> length ls = 2 ^ k \<Longrightarrow> length (mta_root H k ls) = HashSize"
  by (cases k; cases ls) (auto simp: hash_ok_def leaves_ok_def)

lemma shl1_eq: "k < 63 \<Longrightarrow> shl1 (int k) = 2 ^ k"
proof -
  assume k: "k < 63"
  have "(2 :: int) ^ k < 2 ^ 63" using k by (intro power_strict_increasing) simp_all
  then have "sint (word_of_int (2 ^ k) :: 64 word) = 2 ^ k"
    unfolding int_word_sint by simp
  then show ?thesis by (simp add: shl1_def)
qed

lemma copy2_exact: "length buf = 2 * HashSize \<Longrightarrow> length l = HashSize \<Longrightarrow> length r = HashSize \<Longrightarrow> copy2 buf l r = l @ r"
  by (simp add: copy2_def copy_def)

lemma length_zeroes [simp]: "length zeroes = 2 * HashSize"
  by (simp add: zeroes_def)

section \<open>What a node stands for\<close>

text \<open>
  \<open>stored H V k ls\<close>: the branches over the leaves \<open>ls\<close> are in the view \<open>V\<close> of the bucket.
  \<open>stands H V k ls n\<close>: the node is the root of the perfect tree over the leaves.
\<close>

fun stored :: "(bytes \<Rightarrow> bytes) \<Rightarrow> (bytes \<rightharpoonup> bytes) \<Rightarrow> nat \<Rightarrow> bytes list \<Rightarrow> bool" where
  "stored H V 0 ls \<longleftrightarrow> True"
| "stored H V (Suc k) ls \<longleftrightarrow> V (mta_root H (Suc k) ls) = Some (mta_root H k (take (2 ^ k) ls) @ mta_root H k (drop (2 ^ k) ls)) \<and>
     stored H V k (take (2 ^ k) ls) \<and> stored H V k (drop (2 ^ k) ls)"

fun stands :: "(bytes \<Rightarrow> bytes) \<Rightarrow> (bytes \<rightharpoonup> bytes) \<Rightarrow> nat \<Rightarrow> bytes list \<Rightarrow> mnode \<Rightarrow> bool" where
  "stands H V k ls (hashNode hv) \<longleftrightarrow> hv = mta_root H k ls \<and> stored H V k ls"
| "stands H V 0 ls (branchNode st hv ser l r) \<longleftrightarrow> False"
| "stands H V (Suc k) ls (branchNode st hv ser l r) \<longleftrightarrow> stands H V k (take (2 ^ k) ls) l \<and> stands H V k (drop (2 ^ k) ls) r \<and>
     (st \<noteq> stateDirty \<longrightarrow> hv = mta_root H (Suc k) ls \<and> ser = mta_root H k (take (2 ^ k) ls) @ mta_root H k (drop (2 ^ k) ls)) \<and>
     (st = stateFlushed \<longrightarrow> stored H V (Suc k) ls)"
| "stands H V 0 ls (dataNode st hv dt) \<longleftrightarrow> hd ls = H dt \<and> (st \<noteq> stateDirty \<longrightarrow> hv = H dt)"
| "stands H V (Suc k) ls (dataNode st hv dt) \<longleftrightarrow> False"

lemma State_dirty: "st < stateHashed \<longleftrightarrow> st = stateDirty"
  by (cases st) simp_all

lemma stands_Hash:
  "stands H V k ls n \<Longrightarrow> hash_ok H \<Longrightarrow> leaves_ok ls \<Longrightarrow> length ls = 2 ^ k \<Longrightarrow>
    fst (Hash H n) = mta_root H k ls \<and> stands H V k ls (snd (Hash H n))"
proof (induction H V k ls n rule: stands.induct)
  case (3 H V k ls st hv ser l r)
  let ?l = "take (2 ^ k) ls" and ?r = "drop (2 ^ k) ls"
  have ok: "leaves_ok ?l" "leaves_ok ?r" "length ?l = 2 ^ k" "length ?r = 2 ^ k"
    using "3.prems" by (simp_all add: leaves_ok_parts)
  show ?case
  proof (cases "st = stateDirty")
    case True
    obtain lh l' rh r' where h: "Hash H l = (lh, l')" "Hash H r = (rh, r')" by (meson surj_pair)
    from "3.IH" "3.prems"(1,2) ok h have "lh = mta_root H k ?l" "stands H V k ?l l'" "rh = mta_root H k ?r" "stands H V k ?r r'"
      by auto
    moreover have "copy2 zeroes (mta_root H k ?l) (mta_root H k ?r) = mta_root H k ?l @ mta_root H k ?r"
      using "3.prems"(2) ok by (intro copy2_exact) (auto intro: mta_root_length)
    ultimately show ?thesis using True h by (auto simp: Let_def)
  next
    case False
    with "3.prems" show ?thesis by (auto simp: State_dirty)
  qed
qed (auto simp: State_dirty)

section \<open>What the accumulator stands for\<close>

definition root_ok :: "(bytes \<Rightarrow> bytes) \<Rightarrow> (bytes \<rightharpoonup> bytes) \<Rightarrow> bytes list \<Rightarrow> nat \<Rightarrow> mnode option \<Rightarrow> bool" where
  "root_ok H V ls h r = (case r of None \<Rightarrow> even (length ls div 2 ^ h)
     | Some n \<Rightarrow> odd (length ls div 2 ^ h) \<and> stands H V h (block h (length ls div 2 ^ h - 1) ls) n)"

definition roots_ok :: "(bytes \<Rightarrow> bytes) \<Rightarrow> (bytes \<rightharpoonup> bytes) \<Rightarrow> bytes list \<Rightarrow> mnode option list \<Rightarrow> bool" where
  "roots_ok H V ls rs \<longleftrightarrow> (\<forall>h<length rs. root_ok H V ls h (rs ! h)) \<and> length ls < 2 ^ length rs \<and> (rs \<noteq> [] \<longrightarrow> last rs \<noteq> None)"

text \<open>The accumulator holds the leaves \<open>ls\<close>, over a bucket with the view \<open>V\<close>.\<close>

definition acc_holds :: "(bytes \<Rightarrow> bytes) \<Rightarrow> (bytes \<rightharpoonup> bytes) \<Rightarrow> 'x Accumulator_scheme \<Rightarrow> bytes list \<Rightarrow> bool" where
  "acc_holds H V a ls \<longleftrightarrow> acc_length a = int (length ls) \<and> leaves_ok ls \<and> roots_ok H V ls (roots a)"

lemma tree_in_range:
  assumes "odd (n div 2 ^ h)"
  shows "(n div 2 ^ h - 1 + 1) * 2 ^ h \<le> (n :: nat)"
proof -
  have "n div 2 ^ h - 1 + 1 = n div 2 ^ h" using assms by (cases "n div 2 ^ h") auto
  then show ?thesis by simp
qed

lemma root_ok_block: "odd (length ls div 2 ^ h) \<Longrightarrow> length (block h (length ls div 2 ^ h - 1) ls) = 2 ^ h"
  by (rule block_length) (rule tree_in_range)

text \<open>Adding one to a number: what the quotients by powers of two become.\<close>

lemma carry_div:
  assumes "N + 1 = q * 2 ^ h" and "odd q" and "h < i"
  shows "N div 2 ^ i = (N + 1) div (2 ^ i :: nat)"
proof -
  obtain j where i: "i = h + Suc j" using assms(3) less_iff_Suc_add by auto
  obtain p where q: "q = 2 * p + 1" using assms(2) by (elim oddE)
  have N: "N + 1 = 2 ^ h * Suc (2 * p)" using assms(1) by (simp add: q)
  have "2 ^ h * (2 * p) + 1 \<le> 2 ^ h * Suc (2 * p)" by (simp add: algebra_simps)
  with N have "2 ^ h * (2 * p) \<le> N" "N < 2 ^ h * Suc (2 * p)" by linarith+
  then have "N div 2 ^ h = 2 * p" by (rule div_nat_eqI)
  moreover have "(N + 1) div 2 ^ h = q" using assms(1) by simp
  moreover have "x div 2 ^ i = x div 2 ^ h div 2 div 2 ^ j" for x :: nat
    by (simp add: i power_add div_mult2_eq [symmetric] algebra_simps)
  ultimately show ?thesis by (simp add: q)
qed

lemma root_ok_snoc:
  assumes "root_ok H V ls i r" and "length ls div 2 ^ i = (length ls + 1) div 2 ^ i"
  shows "root_ok H V (ls @ [x]) i r"
proof (cases r)
  case (Some n)
  with assms(1) have "odd (length ls div 2 ^ i)" by (simp add: root_ok_def)
  then have "block i (length ls div 2 ^ i - 1) (ls @ [x]) = block i (length ls div 2 ^ i - 1) ls"
    by (intro block_append tree_in_range)
  with Some assms show ?thesis by (simp add: root_ok_def)
qed (use assms in \<open>simp add: root_ok_def\<close>)

lemma root_ok_low: "N + 1 = q * 2 ^ h \<Longrightarrow> i < h \<Longrightarrow> even ((N + 1) div (2 ^ i :: nat))"
proof -
  assume a: "N + 1 = q * 2 ^ h" "i < h"
  then obtain j where "h = i + Suc j" using less_iff_Suc_add by auto
  then have "N + 1 = 2 * (q * 2 ^ j) * 2 ^ i" using a by (simp add: power_add)
  then show ?thesis by (metis dvd_triv_left nonzero_mult_div_cancel_right power_not_zero zero_neq_numeral)
qed

text \<open>Placing the node at an index where there is no root.\<close>

lemma roots_ok_place:
  assumes "length ls + 1 = q * 2 ^ h" and "odd q" and "h \<le> length rs" and "length ls < 2 ^ length rs"
    and "\<forall>i<h. rs ! i = None" and "\<forall>i. h \<le> i \<longrightarrow> i < length rs \<longrightarrow> root_ok H V ls i (rs ! i)"
    and "h < length rs \<longrightarrow> last rs \<noteq> None"
    and "stands H V h (block h ((length ls + 1) div 2 ^ h - 1) (ls @ [x])) n"
  shows "roots_ok H V (ls @ [x]) (if h < length rs then rs[h := Some n] else rs @ [Some n])"
proof -
  have here: "root_ok H V (ls @ [x]) h (Some n)"
    using assms(1,2,8) by (simp add: root_ok_def)
  have low: "root_ok H V (ls @ [x]) i None" if "i < h" for i
    using root_ok_low [OF assms(1) that] by (simp add: root_ok_def)
  have high: "root_ok H V (ls @ [x]) i (rs ! i)" if "h < i" "i < length rs" for i
    using assms(6) that by (intro root_ok_snoc carry_div [OF assms(1,2)]) auto
  show ?thesis
  proof (cases "h < length rs")
    case True
    have "length ls + 1 < 2 ^ length rs"
    proof (rule ccontr)
      assume "\<not> ?thesis"
      with assms(4) have "q * 2 ^ h = 2 ^ length rs" using assms(1) by linarith
      moreover obtain j where "length rs = h + Suc j" using True less_iff_Suc_add by auto
      ultimately have "q = 2 * 2 ^ j" by (simp add: power_add)
      with assms(2) show False by simp
    qed
    moreover have "root_ok H V (ls @ [x]) i (rs[h := Some n] ! i)" if "i < length rs" for i
      using here low high assms(5) that by (cases "i < h"; cases "i = h") (auto simp: nth_list_update)
    moreover have "last (rs[h := Some n]) \<noteq> None"
      using assms(7) True last_list_update [of rs h "Some n"] by (cases "rs = []") auto
    ultimately show ?thesis using True by (simp add: roots_ok_def)
  next
    case False
    with assms(3) have h: "h = length rs" by simp
    then have "length ls + 1 \<le> 2 ^ h" using assms(4) by simp
    with assms(1) have "q * 2 ^ h \<le> 1 * 2 ^ h" by simp
    then have "q \<le> 1" by (simp only: mult_le_cancel2) simp
    moreover have "q \<noteq> 0" using assms(2) by (cases "q = 0") simp_all
    ultimately have "q = 1" by simp
    then have "length ls + 1 < 2 ^ Suc (length rs)" using assms(1) h by simp
    moreover have "root_ok H V (ls @ [x]) i ((rs @ [Some n]) ! i)" if "i < Suc (length rs)" for i
      using here low assms(5) that h by (cases "i = h") (auto simp: nth_append)
    ultimately show ?thesis using False by (simp add: roots_ok_def)
  qed
qed

text \<open>The witness at a level: the sibling of the block of the leaf.\<close>

definition sibling :: "nat \<Rightarrow> nat" where
  "sibling c = (if even c then c + 1 else c - 1)"

definition wit :: "(bytes \<Rightarrow> bytes) \<Rightarrow> bytes list \<Rightarrow> nat \<Rightarrow> nat \<Rightarrow> Witness" where
  "wit H ls idx j = \<lparr>Direction = (if even (idx div 2 ^ j) then Right else Left),
     HashValue = mta_root H j (block j (sibling (idx div 2 ^ j)) ls)\<rparr>"

lemma div_pow_Suc: "idx div 2 ^ Suc j = idx div 2 ^ j div (2 :: nat)"
  by (metis div_mult2_eq mult.commute power_Suc)

lemma verify_step:
  assumes "hash_ok H" and "leaves_ok ls" and "(idx div 2 ^ Suc j + 1) * 2 ^ Suc j \<le> length ls"
    and "length buf = 2 * HashSize" and "c = idx div 2 ^ j" and "g = mta_root H j (block j c ls)"
    and "buf' = (if Direction (wit H ls idx j) = Left then copy2 buf (HashValue (wit H ls idx j)) g
      else copy2 buf g (HashValue (wit H ls idx j)))"
  shows "H buf' = mta_root H (Suc j) (block (Suc j) (idx div 2 ^ Suc j) ls) \<and> length buf' = 2 * HashSize"
proof -
  let ?d = "idx div 2 ^ Suc j"
  have d: "?d = c div 2" unfolding assms(5) by (rule div_pow_Suc)
  have len: "length (mta_root H j (block j b ls)) = HashSize" if "b = 2 * ?d \<or> b = 2 * ?d + 1" for b
  proof (rule mta_root_length [OF assms(1) block_ok [OF assms(2)]], rule block_length)
    have "(b + 1) * 2 ^ j \<le> (2 * ?d + 2) * 2 ^ j" using that by (intro mult_right_mono) auto
    also have "\<dots> = (?d + 1) * 2 ^ Suc j" by (simp add: algebra_simps)
    finally show "(b + 1) * 2 ^ j \<le> length ls" using assms(3) by linarith
  qed
  have "buf' = mta_root H j (block j (2 * ?d) ls) @ mta_root H j (block j (2 * ?d + 1) ls)"
  proof (cases "even c")
    case True
    then have c: "c = 2 * ?d" "sibling c = 2 * ?d + 1" unfolding d by (auto simp: sibling_def)
    with True assms(4-7) len show ?thesis by (simp add: wit_def copy2_exact)
  next
    case False
    then have c: "c = 2 * ?d + 1" "sibling c = 2 * ?d" unfolding d by (auto simp: sibling_def)
    with False assms(4-7) len show ?thesis by (simp add: wit_def copy2_exact)
  qed
  with len show ?thesis by (simp add: mta_root_block del: mta_root.simps)
qed

text \<open>The block of a leaf lies within its block at a higher level.\<close>

lemma blocks_nest:
  assumes "j \<le> k"
  shows "(idx div 2 ^ j + 1) * 2 ^ j \<le> (idx div 2 ^ k + 1) * (2 ^ k :: nat)"
proof -
  obtain i where i: "k = j + i" using assms le_Suc_ex by blast
  let ?d = "idx div 2 ^ j"
  have "idx div 2 ^ k = ?d div 2 ^ i" unfolding i by (metis div_mult2_eq power_add)
  moreover have "?d + 1 \<le> (?d div 2 ^ i + 1) * 2 ^ i"
    using dividend_less_div_times [of "2 ^ i" ?d] by (simp add: algebra_simps)
  then have "(?d + 1) * 2 ^ j \<le> ((?d div 2 ^ i + 1) * 2 ^ i) * 2 ^ j" by (rule mult_right_mono) simp
  ultimately show ?thesis by (simp add: i power_add algebra_simps)
qed

text \<open>The witnesses from a level to another lead from the root of the one block to the root of the other.\<close>

lemma verify_up:
  assumes "hash_ok H" and "leaves_ok ls" and "j \<le> k" and "(idx div 2 ^ k + 1) * 2 ^ k \<le> length ls"
    and "length buf = 2 * HashSize"
  shows "verify_loop H buf (map (wit H ls idx) [j..<k]) (mta_root H j (block j (idx div 2 ^ j) ls)) =
    mta_root H k (block k (idx div 2 ^ k) ls)"
  using assms(3-5)
proof (induction "k - j" arbitrary: j buf)
  case (Suc n)
  then have j: "j < k" by simp
  have "(idx div 2 ^ Suc j + 1) * 2 ^ Suc j \<le> (idx div 2 ^ k + 1) * 2 ^ k" using j by (intro blocks_nest) simp
  with Suc.prems(2) have le: "(idx div 2 ^ Suc j + 1) * 2 ^ Suc j \<le> length ls" by linarith
  note st = verify_step [OF assms(1,2) le Suc.prems(3) refl refl refl]
  have "[j..<k] = j # [Suc j..<k]" using j by (simp add: upt_conv_Cons)
  with st Suc.hyps(1) [of "Suc j"] Suc.hyps(2) Suc.prems(2) j show ?case by (simp add: Let_def)
qed simp

section \<open>Adding\<close>

lemma addNode_holds:
  assumes "hash_ok H" and "leaves_ok (ls @ [x])" and "length ls + 1 = q * 2 ^ h" and "h \<le> length (roots a)"
    and "length ls < 2 ^ length (roots a)" and "\<forall>i<h. roots a ! i = None"
    and "\<forall>i. h \<le> i \<longrightarrow> i < length (roots a) \<longrightarrow> root_ok H V ls i (roots a ! i)"
    and "h < length (roots a) \<longrightarrow> last (roots a) \<noteq> None"
    and "stands H V h (block h (q - 1) (ls @ [x])) n"
  shows "\<exists>k rs. addNode H h n w a = (w @ map (wit H (ls @ [x]) (length ls)) [h..<k],
      a\<lparr>roots := rs, acc_length := acc_length a + 1\<rparr>) \<and> roots_ok H V (ls @ [x]) rs \<and> h \<le> k \<and> k < length rs \<and> rs ! k \<noteq> None \<and> 2 ^ k dvd length ls + 1"
  using assms(3-9)
proof (induction "length (roots a) - h" arbitrary: h q n w a)
  case 0
  then have h: "\<not> h < length (roots a)" "h = length (roots a)" by auto
  have "odd q"
  proof (rule ccontr)
    assume "\<not> odd q"
    then obtain p where "q = 2 * p" by blast
    with "0.prems"(1,3) h show False by (cases p) auto
  qed
  have "stands H V h (block h ((length ls + 1) div 2 ^ h - 1) (ls @ [x])) n" using "0.prems"(1,7) by simp
  from roots_ok_place [OF "0.prems"(1) \<open>odd q\<close> "0.prems"(2,3,4,5,6) this] h
  show ?case using "0.prems"(1) by (intro exI [of _ h] exI [of _ "roots a @ [Some n]"]) (simp add: addNode.simps)
next
  case (Suc m)
  then have h: "h < length (roots a)" by simp
  have div: "length ls div 2 ^ h = q - 1"
  proof (rule div_nat_eqI)
    have q: "1 \<le> q" using Suc.prems(1) by (cases q) auto
    then have e: "2 ^ h * (q - 1) + 2 ^ h = q * 2 ^ h" by (simp add: algebra_simps flip: mult_Suc_right)
    have p: "(1 :: nat) \<le> 2 ^ h" by simp
    show "2 ^ h * (q - 1) \<le> length ls" using Suc.prems(1) e p by linarith
    have "Suc (q - 1) = q" using q by simp
    then show "length ls < 2 ^ h * Suc (q - 1)" using Suc.prems(1) by (simp add: mult.commute)
  qed
  from Suc.prems(5) h have ok: "root_ok H V ls h (roots a ! h)" by simp
  show ?case
  proof (cases "roots a ! h")
    case None
    with ok div have "odd q" using Suc.prems(1) by (cases q) (auto simp: root_ok_def)
    have "stands H V h (block h ((length ls + 1) div 2 ^ h - 1) (ls @ [x])) n" using Suc.prems(1,7) by simp
    from roots_ok_place [OF Suc.prems(1) \<open>odd q\<close> Suc.prems(2,3,4,5,6) this] h None
    show ?thesis using Suc.prems(1) by (intro exI [of _ h] exI [of _ "(roots a)[h := Some n]"]) (simp add: addNode.simps)
  next
    case (Some root)
    with ok div have qe: "odd (q - 1)" and root: "stands H V h (block h (q - 1 - 1) ls) root"
      by (auto simp: root_ok_def)
    obtain p where "q - 1 = 2 * p + 1" using qe by (elim oddE)
    then have p: "q = 2 * Suc p" by simp
    have M: "length ls + 1 = Suc p * 2 ^ Suc h" using Suc.prems(1) p by simp
    have rng: "(2 * p + 1) * 2 ^ h \<le> length ls"
      using tree_in_range [of "length ls" h] div qe p by simp
    have blk: "block h (2 * p) (ls @ [x]) = block h (2 * p) ls" using rng by (intro block_append) simp
    have len: "length (block h (2 * p) ls) = 2 ^ h" using rng by (intro block_length) simp
    have lv: "leaves_ok ls" using assms(2) by (simp add: leaves_ok_def)
    obtain rh root' where hr: "Hash H root = (rh, root')" by fastforce
    have rh: "rh = mta_root H h (block h (2 * p) ls)" "stands H V h (block h (2 * p) ls) root'"
      using stands_Hash [OF root assms(1) block_ok [OF lv]] p len hr by simp_all
    then have "length rh = HashSize" using mta_root_length [OF assms(1) block_ok [OF lv] len] by simp
    then have ne: "rh \<noteq> []" by (auto simp: HashSize_def)
    let ?b = "branchNode stateDirty [] [] root' n" and ?a = "a\<lparr>roots := (roots a)[h := None]\<rparr>"
      and ?w = "\<lparr>Direction = Left, HashValue = rh\<rparr>"
    have "stands H V (Suc h) (block (Suc h) (Suc p - 1) (ls @ [x])) ?b"
      using rh(2) Suc.prems(7) p blk by (simp add: block_halves)
    moreover have "m = length (roots ?a) - Suc h" using Suc.hyps(2) by simp
    moreover have "Suc h < length (roots a) \<longrightarrow> last ((roots a)[h := None]) \<noteq> None"
      using Suc.prems(6) h last_list_update [of "roots a" h None] by (cases "roots a = []") auto
    ultimately obtain k rs where IH: "addNode H (Suc h) ?b (w @ [?w]) ?a =
        ((w @ [?w]) @ map (wit H (ls @ [x]) (length ls)) [Suc h..<k], ?a\<lparr>roots := rs, acc_length := acc_length ?a + 1\<rparr>)"
      "roots_ok H V (ls @ [x]) rs" "Suc h \<le> k" "k < length rs" "rs ! k \<noteq> None" "2 ^ k dvd length ls + 1"
      using Suc.hyps(1) [of ?a "Suc h" "Suc p" ?b "w @ [?w]"] M Suc.prems(3-6) h
      by (auto simp: nth_list_update less_Suc_eq)
    have "?w = wit H (ls @ [x]) (length ls) h"
      using div p blk rh(1) by (simp add: wit_def sibling_def)
    then have "w @ ?w # map (wit H (ls @ [x]) (length ls)) [Suc h..<k] = w @ map (wit H (ls @ [x]) (length ls)) [h..<k]"
      using IH(3) by (simp add: upt_conv_Cons)
    with IH h Some hr ne show ?thesis
      by (intro exI [of _ k] exI [of _ rs]) (subst addNode.simps, simp)
  qed
qed

lemma AddNode_holds:
  assumes "hash_ok H" and "acc_holds H V a ls" and "length x = HashSize" and "stands H V 0 [x] n"
  shows "\<exists>k rs. AddNode H n a = (map (wit H (ls @ [x]) (length ls)) [0..<k], a\<lparr>roots := rs, acc_length := acc_length a + 1\<rparr>) \<and>
    acc_holds H V (a\<lparr>roots := rs, acc_length := acc_length a + 1\<rparr>) (ls @ [x]) \<and> k < length rs \<and> rs ! k \<noteq> None \<and>
    2 ^ k dvd length ls + 1"
proof -
  have lv: "leaves_ok (ls @ [x])" using assms(2,3) by (auto simp: acc_holds_def leaves_ok_def)
  have "stands H V 0 (block 0 (length ls + 1 - 1) (ls @ [x])) n" using assms(4) block_last [of ls x] by simp
  with addNode_holds [OF assms(1) lv, of "length ls + 1" 0 a V n "[]"] assms(2) lv show ?thesis
    by (auto simp: acc_holds_def roots_ok_def AddNode_def)
qed

lemma stands_leaf: "stands H V 0 [x] (hashNode x)" "stands H V 0 [H d] (dataNode stateDirty [] d)"
  by simp_all

section \<open>Verifying\<close>

lemma leaf_block: "idx < length ls \<Longrightarrow> mta_root H 0 (block 0 (idx div 2 ^ 0) ls) = ls ! idx"
  by (simp add: block_0)

text \<open>The witnesses up to a root of the accumulator verify.\<close>

lemma Verify_wit:
  assumes "hash_ok H" and "acc_holds H V a ls" and "k < length (roots a)" and "roots a ! k \<noteq> None"
    and "idx div 2 ^ k = length ls div 2 ^ k - 1" and "idx < length ls"
  shows "\<exists>a'. Verify H (map (wit H ls idx) [0..<k]) (ls ! idx) a = (None, a') \<and> acc_holds H V a' ls"
proof -
  from assms(4) obtain root where root: "roots a ! k = Some root" by blast
  have lv: "leaves_ok ls" and rok: "root_ok H V ls k (Some root)"
    using assms(2,3) root by (auto simp: acc_holds_def roots_ok_def)
  then have od: "odd (length ls div 2 ^ k)" and st: "stands H V k (block k (idx div 2 ^ k) ls) root"
    by (simp_all add: root_ok_def assms(5))
  note rng = tree_in_range [OF od, folded assms(5)]
  obtain rh root' where hr: "Hash H root = (rh, root')" by fastforce
  have rh: "rh = mta_root H k (block k (idx div 2 ^ k) ls)" "stands H V k (block k (idx div 2 ^ k) ls) root'"
    using stands_Hash [OF st assms(1) block_ok [OF lv] block_length [OF rng]] hr by simp_all
  have "verify_loop H zeroes (map (wit H ls idx) [0..<k]) (ls ! idx) = rh"
    using verify_up [OF assms(1) lv _ rng, of 0 zeroes] leaf_block [OF assms(6)] rh(1) by simp
  moreover have "root_ok H V ls k (Some root')" using od rh(2) by (simp add: root_ok_def assms(5))
  then have "acc_holds H V (a\<lparr>roots := (roots a)[k := Some root']\<rparr>) ls"
    using assms(2,3) last_list_update [of "roots a" k "Some root'"]
    by (auto simp: acc_holds_def roots_ok_def nth_list_update split: if_splits)
  ultimately show ?thesis using assms(3) root hr by (simp add: Verify_def Let_def)
qed

section \<open>Witnesses\<close>

text \<open>Quotient and remainder by a power of two and by the next.\<close>

lemma bit_split:
  fixes n :: nat
  shows "even (n div 2 ^ m) \<Longrightarrow> n div 2 ^ Suc m * 2 ^ Suc m = n div 2 ^ m * 2 ^ m"
    and "even (n div 2 ^ m) \<Longrightarrow> n mod 2 ^ Suc m = n mod 2 ^ m"
    and "odd (n div 2 ^ m) \<Longrightarrow> n div 2 ^ Suc m * 2 ^ Suc m = (n div 2 ^ m - 1) * 2 ^ m"
    and "odd (n div 2 ^ m) \<Longrightarrow> n mod 2 ^ Suc m = 2 ^ m + n mod 2 ^ m"
proof -
  let ?q = "n div 2 ^ m"
  have s: "n div 2 ^ Suc m = ?q div 2" by (rule div_pow_Suc)
  have e: "n = n div 2 ^ Suc m * 2 ^ Suc m + n mod 2 ^ Suc m" "n = ?q * 2 ^ m + n mod 2 ^ m"
    by (rule div_mult_mod_eq [symmetric])+
  show ev: "even ?q \<Longrightarrow> n div 2 ^ Suc m * 2 ^ Suc m = ?q * 2 ^ m" unfolding s by auto
  show od: "odd ?q \<Longrightarrow> n div 2 ^ Suc m * 2 ^ Suc m = (?q - 1) * 2 ^ m" unfolding s by (elim oddE) simp
  show "even ?q \<Longrightarrow> n mod 2 ^ Suc m = n mod 2 ^ m" using e ev by linarith
  have "odd ?q \<Longrightarrow> (?q - 1) * 2 ^ m + 2 ^ m = ?q * 2 ^ m" by (elim oddE) simp
  then show "odd ?q \<Longrightarrow> n mod 2 ^ Suc m = 2 ^ m + n mod 2 ^ m" using e od by linarith
qed

context bucket_map
begin

lemma branch_WitnessFor:
  assumes IH: "\<forall>c i n w. (c + 1) * 2 ^ k \<le> length ls \<longrightarrow> stands H (view d) k (block k c ls) n \<longrightarrow> i < 2 ^ k \<longrightarrow>
      (\<exists>n'. node_WitnessFor H B d n (int k) (int i) w = (n', Ret (w @ map (wit H ls (c * 2 ^ k + i)) [0..<k])) \<and>
        stands H (view d) k (block k c ls) n')"
    and "hash_ok H" and "leaves_ok ls" and "k < 63" and "(c + 1) * 2 ^ Suc k \<le> length ls"
    and "stands H (view d) (Suc k) (block (Suc k) c ls) (branchNode st hv ser l r)" and "i < 2 ^ Suc k"
  shows "\<exists>n'. node_WitnessFor H B d (branchNode st hv ser l r) (int (Suc k)) (int i) w =
      (n', Ret (w @ map (wit H ls (c * 2 ^ Suc k + i)) [0..<Suc k])) \<and> stands H (view d) (Suc k) (block (Suc k) c ls) n'"
proof -
  let ?bl = "block k (2 * c) ls" and ?br = "block k (2 * c + 1) ls" and ?idx = "c * 2 ^ Suc k + i"
  have lr: "stands H (view d) k ?bl l" "stands H (view d) k ?br r" using assms(6) by (simp_all add: block_halves)
  have rng: "(2 * c + 1) * 2 ^ k \<le> length ls" "(2 * c + 1 + 1) * 2 ^ k \<le> length ls" using assms(5) by (simp_all add: algebra_simps)
  note hl = stands_Hash [OF lr(1) assms(2) block_ok [OF assms(3)] block_length [OF rng(1)]]
    and hr = stands_Hash [OF lr(2) assms(2) block_ok [OF assms(3)] block_length [OF rng(2)]]
  have b: "shl1 (int k) = 2 ^ k" "int (Suc k) - 1 = int k" using shl1_eq [OF assms(4)] by simp_all
  show ?thesis
  proof (cases "i < 2 ^ k")
    case True
    have div: "?idx div 2 ^ k = 2 * c"
    proof (rule div_nat_eqI)
      show "2 ^ k * (2 * c) \<le> ?idx" by (simp add: algebra_simps)
      show "?idx < 2 ^ k * Suc (2 * c)" using True by (simp add: algebra_simps)
    qed
    have idx: "2 * c * 2 ^ k + i = ?idx" by simp
    from IH [rule_format, OF rng(1) lr(1) True, of w] obtain l' where
      l': "node_WitnessFor H B d l (int k) (int i) w = (l', Ret (w @ map (wit H ls ?idx) [0..<k]))" "stands H (view d) k ?bl l'"
      unfolding idx by blast
    have "wit H ls ?idx k = \<lparr>Direction = Right, HashValue = mta_root H k ?br\<rparr>"
      by (simp add: wit_def div [unfolded power_Suc] sibling_def)
    moreover obtain rh r' where "Hash H r = (rh, r')" by fastforce
    moreover have "int i < 2 ^ k" using True by (simp flip: of_nat_power of_nat_less_iff)
    ultimately show ?thesis using l' hr assms(6) by (simp add: b Let_def block_halves del: of_nat_Suc)
  next
    case False
    let ?i = "i - 2 ^ k"
    have i: "?i < 2 ^ k" "i = 2 ^ k + ?i" using False assms(7) by simp_all
    have div: "?idx div 2 ^ k = 2 * c + 1"
    proof (rule div_nat_eqI)
      show "2 ^ k * (2 * c + 1) \<le> ?idx" using False by (simp add: algebra_simps)
      show "?idx < 2 ^ k * Suc (2 * c + 1)" using i by (simp add: algebra_simps)
    qed
    have idx: "(2 * c + 1) * 2 ^ k + ?i = ?idx" using False by (simp add: algebra_simps)
    from IH [rule_format, OF rng(2) lr(2) i(1), of w] obtain r' where
      r': "node_WitnessFor H B d r (int k) (int ?i) w = (r', Ret (w @ map (wit H ls ?idx) [0..<k]))" "stands H (view d) k ?br r'"
      unfolding idx by blast
    have "wit H ls ?idx k = \<lparr>Direction = Left, HashValue = mta_root H k ?bl\<rparr>"
      by (simp add: wit_def div [unfolded power_Suc] sibling_def)
    moreover obtain lh l' where "Hash H l = (lh, l')" by fastforce
    moreover have "\<not> int i < 2 ^ k" "int i - 2 ^ k = int ?i"
      using False by (simp_all add: of_nat_diff flip: of_nat_power of_nat_less_iff)
    ultimately show ?thesis using r' hl assms(6) by (simp add: b Let_def block_halves del: of_nat_Suc)
  qed
qed

lemma resolve_stands:
  assumes "ok d" and "hash_ok H" and "leaves_ok ls" and "length ls = 2 ^ Suc k" and "stands H (view d) (Suc k) ls (hashNode hv)"
  shows "\<exists>ser l r. resolve B d hv = Ret (branchNode stateFlushed hv ser l r) \<and>
    stands H (view d) (Suc k) ls (branchNode stateFlushed hv ser l r)"
proof -
  let ?l = "mta_root H k (take (2 ^ k) ls)" and ?r = "mta_root H k (drop (2 ^ k) ls)"
  have len: "length ?l = HashSize" "length ?r = HashSize"
    using assms(2-4) by (auto intro!: mta_root_length leaves_ok_parts)
  have "view d hv = Some (?l @ ?r)" using assms(5) by simp
  with assms(5) len show ?thesis by (simp add: resolve_def get [OF assms(1)] Let_def)
qed

lemma node_WitnessFor_stands:
  assumes "ok d" and "hash_ok H" and "leaves_ok ls"
  shows "k < 63 \<Longrightarrow> (c + 1) * 2 ^ k \<le> length ls \<Longrightarrow> stands H (view d) k (block k c ls) n \<Longrightarrow> i < 2 ^ k \<Longrightarrow>
    \<exists>n'. node_WitnessFor H B d n (int k) (int i) w = (n', Ret (w @ map (wit H ls (c * 2 ^ k + i)) [0..<k])) \<and>
      stands H (view d) k (block k c ls) n'"
proof (induction k arbitrary: c i n w)
  case 0
  then show ?case by (cases n) simp_all
next
  case (Suc k)
  then have k: "k < 63" by simp
  have "\<forall>c i n w. (c + 1) * 2 ^ k \<le> length ls \<longrightarrow> stands H (view d) k (block k c ls) n \<longrightarrow> i < 2 ^ k \<longrightarrow>
      (\<exists>n'. node_WitnessFor H B d n (int k) (int i) w = (n', Ret (w @ map (wit H ls (c * 2 ^ k + i)) [0..<k])) \<and>
        stands H (view d) k (block k c ls) n')" using Suc.IH [OF k] by blast
  note br = branch_WitnessFor [OF this assms(2,3) k Suc.prems(2)]
  show ?case
  proof (cases n)
    case (hashNode hv)
    from resolve_stands [OF assms(1,2) block_ok [OF assms(3)] block_length [OF Suc.prems(2)]] Suc.prems(3) hashNode
    obtain ser l r where re: "resolve B d hv = Ret (branchNode stateFlushed hv ser l r)"
      "stands H (view d) (Suc k) (block (Suc k) c ls) (branchNode stateFlushed hv ser l r)" by blast
    have "node_WitnessFor H B d n (int (Suc k)) (int i) w = node_WitnessFor H B d (branchNode stateFlushed hv ser l r) (int (Suc k)) (int i) w"
      using re(1) hashNode by simp
    with br [OF re(2) Suc.prems(4)] show ?thesis by simp
  next
    case (branchNode st hv ser l r)
    with br Suc.prems show ?thesis by simp
  qed (use Suc.prems in simp)
qed

lemma acc_loop_holds:
  assumes "ok d" and "hash_ok H" and "acc_holds H (view d) a ls" and "length (roots a) \<le> 63"
  shows "m \<le> length (roots a) \<Longrightarrow> r < length ls mod 2 ^ m \<Longrightarrow> idx = length ls div 2 ^ m * 2 ^ m + r \<Longrightarrow>
    \<exists>k a'. acc_WitnessFor_loop H B d m (int r) a = (Ret (map (wit H ls idx) [0..<k]), a') \<and> acc_holds H (view d) a' ls \<and>
      k < length (roots a') \<and> roots a' ! k \<noteq> None \<and> idx div 2 ^ k = length ls div 2 ^ k - 1 \<and> odd (length ls div 2 ^ k) \<and>
      (\<exists>rs. a' = a\<lparr>roots := rs\<rparr>)"
proof (induction m arbitrary: r)
  case (Suc m)
  let ?n = "length ls"
  have lv: "leaves_ok ls" and rok: "root_ok H (view d) ls m (roots a ! m)"
    using assms(3) Suc.prems(1) by (auto simp: acc_holds_def roots_ok_def)
  have m: "m \<le> length (roots a)" "m < 63" using Suc.prems(1) assms(4) by simp_all
  show ?case
  proof (cases "roots a ! m")
    case None
    then have "even (?n div 2 ^ m)" using rok by (simp add: root_ok_def)
    from Suc.IH [OF m(1), of r] Suc.prems(2,3) bit_split(1,2) [OF this] None show ?thesis by simp
  next
    case (Some root)
    then have od: "odd (?n div 2 ^ m)" and st: "stands H (view d) m (block m (?n div 2 ^ m - 1) ls) root"
      using rok by (simp_all add: root_ok_def)
    note sp = bit_split(3,4) [OF od]
    have base: "(?n div 2 ^ m - 1) * 2 ^ m + 2 ^ m = ?n div 2 ^ m * 2 ^ m" using od by (elim oddE) simp
    show ?thesis
    proof (cases "r < 2 ^ m")
      case True
      have idx: "(?n div 2 ^ m - 1) * 2 ^ m + r = idx" using Suc.prems(3) sp(1) by simp
      from node_WitnessFor_stands [OF assms(1,2) lv m(2) tree_in_range [OF od] st True, of "[]"]
      obtain root' where w: "node_WitnessFor H B d root (int m) (int r) [] = (root', Ret (map (wit H ls idx) [0..<m]))"
        "stands H (view d) m (block m (?n div 2 ^ m - 1) ls) root'" unfolding idx by auto
      let ?a = "a\<lparr>roots := (roots a)[m := Some root']\<rparr>"
      have "acc_holds H (view d) ?a ls"
        using assms(3) Suc.prems(1) od w(2) last_list_update [of "roots a" m "Some root'"]
        by (auto simp: acc_holds_def roots_ok_def nth_list_update root_ok_def split: if_splits)
      moreover have "idx div 2 ^ m = ?n div 2 ^ m - 1"
        unfolding idx [symmetric] using True by simp
      moreover have "int r < 2 ^ m" using True by (simp flip: of_nat_power of_nat_less_iff)
      ultimately show ?thesis using Some w(1) Suc.prems(1) od shl1_eq [OF m(2)]
        by (intro exI [of _ m] exI [of _ ?a]) (auto simp: Let_def)
    next
      case False
      then have r: "r - 2 ^ m < ?n mod 2 ^ m" "idx = ?n div 2 ^ m * 2 ^ m + (r - 2 ^ m)"
        using Suc.prems(2,3) sp base by linarith+
      have "\<not> int r < 2 ^ m" "int r - 2 ^ m = int (r - 2 ^ m)"
        using False by (simp_all add: of_nat_diff flip: of_nat_power of_nat_less_iff)
      with Suc.IH [OF m(1) r] Some shl1_eq [OF m(2)] show ?thesis by (simp add: Let_def)
    qed
  qed
qed simp

lemma roots_63: "acc_holds H V a ls \<Longrightarrow> length ls < 2 ^ 63 \<Longrightarrow> length (roots a) \<le> 63"
proof -
  assume a: "acc_holds H V a ls" "length ls < 2 ^ 63"
  show ?thesis
  proof (cases "roots a = []")
    case False
    let ?h = "length (roots a) - 1"
    have "root_ok H V ls ?h (last (roots a))" "last (roots a) \<noteq> None"
      using a(1) False by (auto simp: acc_holds_def roots_ok_def last_conv_nth)
    then have "odd (length ls div 2 ^ ?h)" by (auto simp: root_ok_def)
    then have "2 ^ ?h \<le> length ls" by (metis div_less even_zero not_le)
    with a(2) have "(2 :: nat) ^ ?h < 2 ^ 63" by linarith
    then show ?thesis using power_less_imp_less_exp [of "2 :: nat" ?h 63] by linarith
  qed simp
qed

lemma acc_WitnessFor_holds:
  assumes "ok d" and "hash_ok H" and "acc_holds H (view d) a ls" and "length ls < 2 ^ 63" and "idx < length ls"
  shows "\<exists>k a'. acc_WitnessFor H B d (int idx) a = (Ret (map (wit H ls idx) [0..<k]), a') \<and> acc_holds H (view d) a' ls \<and>
    k < length (roots a') \<and> roots a' ! k \<noteq> None \<and> idx div 2 ^ k = length ls div 2 ^ k - 1 \<and> odd (length ls div 2 ^ k) \<and>
    (\<exists>rs. a' = a\<lparr>roots := rs\<rparr>)"
proof -
  have n: "length ls < 2 ^ length (roots a)" "acc_length a = int (length ls)"
    using assms(3) by (auto simp: acc_holds_def roots_ok_def)
  then show ?thesis
    using acc_loop_holds [OF assms(1-3) roots_63 [OF assms(3,4)], of "length (roots a)" idx idx] assms(5)
    by (simp add: acc_WitnessFor_def)
qed

end

section \<open>Heights and depths\<close>

text \<open>The leaf \<open>idx\<close> of \<open>n\<close> is in the tree at index \<open>k\<close>.\<close>

definition lies :: "nat \<Rightarrow> nat \<Rightarrow> nat \<Rightarrow> bool" where
  "lies n idx k \<longleftrightarrow> odd (n div 2 ^ k) \<and> idx div 2 ^ k = n div 2 ^ k - 1"

lemma lies_above: "lies n idx k \<Longrightarrow> k < j \<Longrightarrow> idx div 2 ^ j = n div 2 ^ j"
proof -
  assume a: "lies n idx k" "k < j"
  then obtain i where j: "j = k + Suc i" using less_iff_Suc_add by auto
  have p: "x div 2 ^ j = x div 2 ^ k div 2 div 2 ^ i" for x :: nat
    by (simp add: j power_add div_mult2_eq [symmetric] algebra_simps)
  have "(n div 2 ^ k - 1) div 2 = n div 2 ^ k div 2" using a(1) unfolding lies_def by (elim conjE oddE) simp
  with a(1) show ?thesis by (simp add: p lies_def)
qed

lemma lies_unique: "lies n idx k \<Longrightarrow> lies n idx j \<Longrightarrow> k = j"
proof -
  have False if "lies n idx k" "lies n idx j" "k < j" for k j
    using lies_above [OF that(1,3)] that(2) by (cases "n div 2 ^ j") (auto simp: lies_def)
  then show "lies n idx k \<Longrightarrow> lies n idx j \<Longrightarrow> k = j" by (meson linorder_neqE_nat)
qed

lemma bit_nat: "bit (int n) i \<longleftrightarrow> odd (n div 2 ^ i)"
  by (simp add: bit_iff_odd) (metis even_of_nat of_nat_div of_nat_numeral of_nat_power)

lemma and_flag: "and (int n) (2 ^ i) = (if odd (n div 2 ^ i) then 2 ^ i else 0)"
proof (rule bit_eqI)
  fix m
  show "bit (and (int n) (2 ^ i)) m \<longleftrightarrow> bit (if odd (n div 2 ^ i) then 2 ^ i else (0 :: int)) m"
    by (auto simp: bit_and_iff bit_exp_iff simp flip: bit_nat)
qed

lemma or_flag: "x < 2 ^ i \<Longrightarrow> or (int x) (2 ^ i) = int x + 2 ^ i"
  using and_flag [of x i] by (simp add: disjunctive_add_eq_or)

lemma height_loop_eq:
  assumes "k \<le> 63" and "i \<le> k"
  shows "height_loop (map (wit H ls idx) [i..<k]) (int n) i (int (2 ^ i - 1 - idx mod 2 ^ i), int (n mod 2 ^ i)) =
    (int (2 ^ k - 1 - idx mod 2 ^ k), int (n mod 2 ^ k))"
  using assms(2)
proof (induction "k - i" arbitrary: i)
  case (Suc m)
  then have i: "i < k" "i < 63" using assms(1) by simp_all
  have up: "[i..<k] = i # [Suc i..<k]" using i(1) by (simp add: upt_conv_Cons)
  have lt: "idx mod 2 ^ i < 2 ^ i" "n mod 2 ^ i < 2 ^ i" by simp_all
  have x: "(if even (idx div 2 ^ i) then or (int (2 ^ i - 1 - idx mod 2 ^ i)) (2 ^ i) else int (2 ^ i - 1 - idx mod 2 ^ i)) =
    int (2 ^ Suc i - 1 - idx mod 2 ^ Suc i)"
  proof (cases "even (idx div 2 ^ i)")
    case True
    let ?y = "2 ^ i - 1 - idx mod 2 ^ i :: nat"
    have y: "?y < 2 ^ i" by (simp add: diff_less_mono2 less_imp_diff_less)
    have "?y + 2 ^ i = 2 ^ Suc i - 1 - idx mod 2 ^ Suc i" 
      using lt(1) bit_split(2) [OF True] unfolding power_Suc by linarith
    then have "int (2 ^ Suc i - 1 - idx mod 2 ^ Suc i) = int ?y + 2 ^ i" by (metis of_nat_add of_nat_numeral of_nat_power)
    then show ?thesis unfolding or_flag [OF y] using True by (simp only: if_True)
  next
    case False
    with bit_split(4) [OF False] lt(1) show ?thesis by (simp add: of_nat_diff Suc_le_eq)
  qed
  have o: "(if and (int n) (2 ^ i) \<noteq> 0 then int (n mod 2 ^ i) + 2 ^ i else int (n mod 2 ^ i)) = int (n mod 2 ^ Suc i)"
    using bit_split(2,4) [of n i] by (auto simp: and_flag)
  have d: "(Direction (wit H ls idx i) = Right) = even (idx div 2 ^ i)" by (simp add: wit_def)
  have "m = k - Suc i" "Suc i \<le> k" using Suc.hyps(2) i(1) by simp_all
  then show ?case
    unfolding up list.map height_loop.simps shl1_eq [OF i(2)] d x o by (rule Suc.hyps(1))
qed simp

lemma height_of_wit:
  assumes "lies n idx k" and "k \<le> 63"
  shows "GetHeightFromWitness (map (wit H ls idx) [0..<k]) (int n) = int idx"
proof -
  have h: "height_loop (map (wit H ls idx) [0..<k]) (int n) 0 (0, 0) = (int (2 ^ k - 1 - idx mod 2 ^ k), int (n mod 2 ^ k))"
    using height_loop_eq [OF assms(2), of 0 H ls idx n] by simp
  have "(n div 2 ^ k - 1) * 2 ^ k + 2 ^ k = n div 2 ^ k * 2 ^ k"
    using assms(1) unfolding lies_def by (elim conjE oddE) simp
  moreover have "idx = (n div 2 ^ k - 1) * 2 ^ k + idx mod 2 ^ k"
    using div_mult_mod_eq [of idx "2 ^ k"] assms(1) by (simp add: lies_def)
  ultimately have "idx + 2 ^ k + n mod 2 ^ k = n + idx mod 2 ^ k"
    using div_mult_mod_eq [of n "2 ^ k"] by linarith
  then have "int idx + 2 ^ k + int (n mod 2 ^ k) = int n + int (idx mod 2 ^ k)"
    by (metis (no_types) of_nat_add of_nat_numeral of_nat_power)
  moreover have "int (2 ^ k - 1 - idx mod 2 ^ k) = 2 ^ k - 1 - int (idx mod 2 ^ k)"
    by (simp add: of_nat_diff Suc_le_eq)
  ultimately show ?thesis using h by (simp add: GetHeightFromWitness_def)
qed

lemma depth_loop_lies:
  assumes "m \<le> 63"
  shows "r < n mod 2 ^ m \<Longrightarrow> idx = n div 2 ^ m * 2 ^ m + r \<Longrightarrow> lies n idx (depth_loop m (int r) (int n))"
  using assms
proof (induction m arbitrary: r)
  case (Suc m)
  have m: "m < 63" using Suc.prems(3) by simp
  note b = shl1_eq [OF m] and_flag [of n m]
  show ?case
  proof (cases "odd (n div 2 ^ m)")
    case True
    note sp = bit_split(3,4) [OF True]
    have base: "(n div 2 ^ m - 1) * 2 ^ m + 2 ^ m = n div 2 ^ m * 2 ^ m" using True by (elim oddE) simp
    show ?thesis
    proof (cases "r < 2 ^ m")
      case r: True
      have "idx = (n div 2 ^ m - 1) * 2 ^ m + r" using Suc.prems(2) sp(1) by simp
      then have "idx div 2 ^ m = n div 2 ^ m - 1" using r by simp
      moreover have "int r < 2 ^ m" using r by (simp flip: of_nat_power of_nat_less_iff)
      ultimately show ?thesis using True b by (simp add: Let_def lies_def)
    next
      case False
      then have r: "r - 2 ^ m < n mod 2 ^ m" "idx = n div 2 ^ m * 2 ^ m + (r - 2 ^ m)"
        using Suc.prems(1,2) sp base by linarith+
      have "\<not> int r < 2 ^ m" "int r - 2 ^ m = int (r - 2 ^ m)"
        using False by (simp_all add: of_nat_diff flip: of_nat_power of_nat_less_iff)
      with Suc.IH [OF r] m True b show ?thesis by (simp add: Let_def)
    qed
  next
    case False
    with Suc.IH [of r] Suc.prems(1,2) bit_split(1,2) [of n m] m b show ?thesis by (simp add: Let_def)
  qed
qed simp

lemma bit_count_bound: "n < 2 ^ bit_count n"
proof (induction n rule: bit_count.induct)
  case (1 v)
  then show ?case by (cases "0 < v") (auto simp: bit_count.simps [of v])
qed

lemma bit_count_le: "n < 2 ^ k \<Longrightarrow> bit_count n \<le> k"
proof (induction n arbitrary: k rule: bit_count.induct)
  case (1 v)
  then show ?case by (cases "0 < v"; cases k) (auto simp: bit_count.simps [of v] bit_count.simps [of 0])
qed

lemma depth_lies: "idx < n \<Longrightarrow> n < 2 ^ 63 \<Longrightarrow> lies n idx (GetDepthByHeightAndAccLength (int idx) (int n))"
  using depth_loop_lies [of "bit_count n" idx n idx] bit_count_bound [of n] bit_count_le [of n 63]
  by (simp add: GetDepthByHeightAndAccLength_def)

lemma hashes_of_wit:
  "HashesToWitness (WitnessesToHashes (map (wit H ls idx) [j..<k])) (int (idx div 2 ^ j)) = map (wit H ls idx) [j..<k]"
proof (induction "k - j" arbitrary: j)
  case (Suc m)
  then have "[j..<k] = j # [Suc j..<k]" by (simp add: upt_conv_Cons)
  moreover have "int (idx div 2 ^ j) div 2 = int (idx div 2 ^ Suc j)" unfolding div_pow_Suc by simp
  moreover have "(int (idx div 2 ^ j) mod 2 = 0) = even (idx div 2 ^ j)" by presburger
  ultimately show ?case using Suc.hyps(1) [of "Suc j"] Suc.hyps(2) by (simp add: WitnessesToHashes_def wit_def)
qed (simp add: WitnessesToHashes_def)

section \<open>Witnesses after later additions\<close>

lemma block_prefix: "(c + 1) * 2 ^ k \<le> m \<Longrightarrow> m \<le> length ls \<Longrightarrow> block k c (take m ls) = block k c ls"
  using block_append [of c k "take m ls" "drop m ls"] by simp

lemma lies_range: "lies n idx k \<Longrightarrow> (idx div 2 ^ k + 1) * 2 ^ k \<le> n"
  using tree_in_range [of n k] by (simp add: lies_def)

lemma lies_mono:
  assumes "lies m idx k" and "lies n idx k'" and "m \<le> n"
  shows "k \<le> k'"
proof (rule ccontr)
  assume "\<not> k \<le> k'"
  then have "idx div 2 ^ k = n div 2 ^ k" using lies_above [OF assms(2)] by simp
  then have "(n div 2 ^ k + 1) * 2 ^ k \<le> n" using lies_range [OF assms(1)] assms(3) by simp
  with dividend_less_div_times [of "2 ^ k" n] show False by (simp add: algebra_simps)
qed

lemma sibling_range:
  assumes "lies m idx k" and "j < k"
  shows "(sibling (idx div 2 ^ j) + 1) * 2 ^ j \<le> m"
proof -
  have "sibling (idx div 2 ^ j) + 1 \<le> (idx div 2 ^ j div 2 + 1) * 2" by (auto simp: sibling_def elim!: evenE oddE)
  then have "(sibling (idx div 2 ^ j) + 1) * 2 ^ j \<le> (idx div 2 ^ j div 2 + 1) * 2 * 2 ^ j" by (rule mult_right_mono) simp
  also have "\<dots> = (idx div 2 ^ Suc j + 1) * 2 ^ Suc j" unfolding div_pow_Suc by simp
  also have "\<dots> \<le> (idx div 2 ^ k + 1) * 2 ^ k" using assms(2) by (intro blocks_nest) simp
  finally show ?thesis using lies_range [OF assms(1)] by linarith
qed

text \<open>The witnesses of a prefix of the leaves are the first of the witnesses.\<close>

lemma wit_prefix:
  assumes "lies m idx k" and "m \<le> length ls" and "j < k"
  shows "wit H (take m ls) idx j = wit H ls idx j"
  using block_prefix [OF sibling_range [OF assms(1,3)] assms(2)] by (simp add: wit_def)

lemma wits_extend:
  assumes "lies m idx k" and "lies (length ls) idx k'" and "m \<le> length ls"
  shows "map (wit H (take m ls) idx) [0..<k] @ drop k (map (wit H ls idx) [0..<k']) = map (wit H ls idx) [0..<k']"
proof -
  have "[0..<k'] = [0..<k] @ [k..<k']" using lies_mono [OF assms] upt_add_eq_append [of 0 k "k' - k"] by simp
  moreover have "map (wit H (take m ls) idx) [0..<k] = map (wit H ls idx) [0..<k]"
    using wit_prefix [OF assms(1,3)] by simp
  ultimately show ?thesis by simp
qed

context bucket_map
begin

text \<open>What \<open>WitnessFor\<close> gives, with the tree in which the leaf lies.\<close>

lemma acc_WitnessFor_lies:
  assumes "ok d" and "hash_ok H" and "acc_holds H (view d) a ls" and "length ls < 2 ^ 63" and "idx < length ls"
  shows "\<exists>k a'. acc_WitnessFor H B d (int idx) a = (Ret (map (wit H ls idx) [0..<k]), a') \<and> lies (length ls) idx k \<and> k \<le> 63 \<and>
    acc_holds H (view d) a' ls \<and> (\<exists>a''. Verify H (map (wit H ls idx) [0..<k]) (ls ! idx) a' = (None, a'') \<and> acc_holds H (view d) a'' ls)"
proof -
  from acc_WitnessFor_holds [OF assms] obtain k a' where w:
    "acc_WitnessFor H B d (int idx) a = (Ret (map (wit H ls idx) [0..<k]), a')" "acc_holds H (view d) a' ls"
    "k < length (roots a')" "roots a' ! k \<noteq> None" "idx div 2 ^ k = length ls div 2 ^ k - 1" "odd (length ls div 2 ^ k)" by blast
  have "k \<le> 63" using w(3) roots_63 [OF w(2) assms(4)] by simp
  with w Verify_wit [OF assms(2) w(2-5) assms(5)] show ?thesis by (auto simp: lies_def)
qed

lemma VerifyWithAccLength_old:
  assumes "ok d" and "hash_ok H" and "acc_holds H (view d) a ls" and "length ls < 2 ^ 63"
    and "lies m idx k" and "idx < m" and "m < length ls" and "w = map (wit H (take m ls) idx) [0..<k]"
  shows "\<exists>a'. VerifyWithAccLength H B d w (ls ! idx) (int m) a = (Ret None, a') \<and> acc_holds H (view d) a' ls"
proof -
  have idx: "idx < length ls" using assms(6,7) by simp
  from acc_WitnessFor_lies [OF assms(1-4) idx] obtain k' a' a'' where
    new: "acc_WitnessFor H B d (int idx) a = (Ret (map (wit H ls idx) [0..<k']), a')" "lies (length ls) idx k'" "k' \<le> 63"
    "Verify H (map (wit H ls idx) [0..<k']) (ls ! idx) a' = (None, a'')" "acc_holds H (view d) a'' ls" by blast
  have k: "k \<le> k'" using lies_mono [OF assms(5) new(2)] assms(7) by simp
  have "GetHeightFromWitness w (int m) = int idx"
    unfolding assms(8) using height_of_wit [OF assms(5)] k new(3) by simp
  moreover have "acc_length a = int (length ls)" using assms(3) by (simp add: acc_holds_def)
  moreover have "w @ drop (length w) (map (wit H ls idx) [0..<k']) = map (wit H ls idx) [0..<k']"
    using wits_extend [OF assms(5) new(2)] assms(7,8) by simp
  ultimately show ?thesis using new(1,4,5) idx assms(7,8) k by (simp add: VerifyWithAccLength_def Let_def)
qed

end

end
