(* ===== verification/Mta_Thms.thy ===== *)
theory Mta_Thms
  imports Mta_Props
begin

text \<open>
  The promises of the accumulator over the bucket in memory: what is added can be proved, also from an
  older or newer state, and an accumulator that was flushed is recovered.
\<close>

section \<open>Adding and proving\<close>

lemma holds_root:
  assumes "acc_holds H V a ls" and "lies (length ls) idx k"
  shows "k < length (roots a) \<and> roots a ! k \<noteq> None"
proof -
  have od: "odd (length ls div 2 ^ k)" using assms(2) by (simp add: lies_def)
  have "k < length (roots a)"
  proof (rule ccontr)
    assume "\<not> ?thesis"
    then have "(2 :: nat) ^ length (roots a) \<le> 2 ^ k" by (intro power_increasing) simp_all
    moreover have "length ls < 2 ^ length (roots a)" using assms(1) by (simp add: acc_holds_def roots_ok_def)
    ultimately have "length ls < 2 ^ k" by linarith
    with od show False by simp
  qed
  moreover from this assms(1) have "root_ok H V ls k (roots a ! k)" by (simp add: acc_holds_def roots_ok_def)
  ultimately show ?thesis using od by (auto simp: root_ok_def split: option.splits)
qed

lemma Verify_lies:
  assumes "hash_ok H" and "acc_holds H V a ls" and "lies (length ls) idx k" and "idx < length ls"
  shows "\<exists>a'. Verify H (map (wit H ls idx) [0..<k]) (ls ! idx) a = (None, a') \<and> acc_holds H V a' ls"
  using holds_root [OF assms(2,3)] assms(3,4) by (intro Verify_wit assms(1,2)) (simp_all add: lies_def)

lemma AddNode_verifies:
  assumes "hash_ok H" and "acc_holds H V a ls" and "length x = HashSize" and "stands H V 0 [x] n"
  shows "\<exists>w a' a''. AddNode H n a = (w, a') \<and> acc_holds H V a' (ls @ [x]) \<and> Verify H w x a' = (None, a'')"
proof -
  from AddNode_holds [OF assms] obtain k rs where add:
    "AddNode H n a = (map (wit H (ls @ [x]) (length ls)) [0..<k], a\<lparr>roots := rs, acc_length := acc_length a + 1\<rparr>)"
    "acc_holds H V (a\<lparr>roots := rs, acc_length := acc_length a + 1\<rparr>) (ls @ [x])" "k < length rs" "rs ! k \<noteq> None"
    "2 ^ k dvd length ls + 1" by blast
  from add(5) obtain q where q: "length ls + 1 = q * 2 ^ k" by (auto simp: dvd_def mult.commute)
  have "root_ok H V (ls @ [x]) k (rs ! k)" using add(2,3) by (simp add: acc_holds_def roots_ok_def)
  then have od: "odd (length (ls @ [x]) div 2 ^ k)" using add(4) by (auto simp: root_ok_def)
  have "length ls div 2 ^ k = q - 1"
  proof (rule div_nat_eqI)
    have q1: "1 \<le> q" using q by (cases q) auto
    then have e: "2 ^ k * (q - 1) + 2 ^ k = q * 2 ^ k" by (simp add: algebra_simps flip: mult_Suc_right)
    have p: "(1 :: nat) \<le> 2 ^ k" by simp
    show "2 ^ k * (q - 1) \<le> length ls" using q e p by linarith
    have "Suc (q - 1) = q" using q1 by simp
    then show "length ls < 2 ^ k * Suc (q - 1)" using q by (simp add: mult.commute)
  qed
  then have "lies (length (ls @ [x])) (length ls) k" using od q by (simp add: lies_def)
  from Verify_lies [OF assms(1) add(2) this] add(1,2) show ?thesis by auto
qed

lemma empty_holds: "acc_holds H V (NewExtAccumulator key off) []"
  by (simp add: acc_holds_def NewExtAccumulator_def leaves_ok_def roots_ok_def)

text \<open>
  C27: adding a hash or a datum to an accumulator that holds some leaves gives one that holds the leaves
  followed by the new one, and the witness returned verifies in it at once; the new accumulator
  holds no leaves.
\<close>
theorem accumulator_add:
  assumes "hash_ok H" and "acc_holds H V a ls" and "length x = HashSize"
  shows "(\<exists>w a' a''. AddHash H x a = (w, a') \<and> acc_holds H V a' (ls @ [x]) \<and> Verify H w x a' = (None, a'')) \<and>
    (\<exists>w a' a''. AddData H dt a = (w, a') \<and> acc_holds H V a' (ls @ [H dt]) \<and> Verify H w (H dt) a' = (None, a'')) \<and>
    acc_holds H V (NewExtAccumulator key off) []"
proof -
  have "length (H dt) = HashSize" using assms(1) by (simp add: hash_ok_def)
  from AddNode_verifies [OF assms(1,2) this stands_leaf(2)] AddNode_verifies [OF assms stands_leaf(1)]
  show ?thesis by (simp add: AddHash_def AddData_def empty_holds)
qed

text \<open>A hash function for examples, and an accumulator with three data.\<close>

definition sumHash :: "bytes \<Rightarrow> bytes" where
  "sumHash x = replicate 31 0 @ [sum_list x]"

lemma sumHash_ok: "hash_ok sumHash"
  by (simp add: hash_ok_def sumHash_def HashSize_def)

definition three :: ExtAccumulator where
  "three = snd (AddData sumHash [5] (snd (AddData sumHash [2] (snd (AddData sumHash [1] (NewExtAccumulator [7] 10))))))"

definition three_leaves :: "bytes list" where
  "three_leaves = [sumHash [1], sumHash [2], sumHash [5]]"

lemma AddData_next: "hash_ok H \<Longrightarrow> acc_holds H V a ls \<Longrightarrow> acc_holds H V (snd (AddData H dt a)) (ls @ [H dt])"
proof -
  assume a: "hash_ok H" "acc_holds H V a ls"
  then have "length (H dt) = HashSize" by (simp add: hash_ok_def)
  from AddNode_holds [OF a this stands_leaf(2)] show ?thesis by (auto simp: AddData_def)
qed

lemma three_holds: "acc_holds sumHash V three three_leaves"
  using AddData_next [OF sumHash_ok AddData_next [OF sumHash_ok AddData_next [OF sumHash_ok empty_holds]]]
  by (simp add: three_def three_leaves_def)

theorem accumulator_add_witness:
  "\<exists>w a' a''. AddData sumHash [4] three = (w, a') \<and> acc_holds sumHash Map.empty a' (three_leaves @ [sumHash [4]]) \<and>
     Verify sumHash w (sumHash [4]) a' = (None, a'')"
proof -
  have "length (sumHash []) = HashSize" by (simp add: sumHash_def HashSize_def)
  from accumulator_add [OF sumHash_ok three_holds this] show ?thesis by blast
qed

text \<open>
  C28: in an accumulator of fewer than 2^63 leaves every leaf has a witness, which verifies; the witness
  alone determines the index of the leaf, its length is the depth computed from the index, and it is
  rebuilt from its hashes and the index.
\<close>
theorem accumulator_witness:
  assumes "hash_ok H" and "acc_holds H d a ls" and "length ls < 2 ^ 63" and "idx < length ls"
  shows "\<exists>w a' a''. acc_WitnessFor H mapBucket d (int idx) a = (Ret w, a') \<and> acc_holds H d a' ls \<and>
    Verify H w (ls ! idx) a' = (None, a'') \<and> GetHeightFromWitness w (int (length ls)) = int idx \<and>
    length w = GetDepthByHeightAndAccLength (int idx) (int (length ls)) \<and> HashesToWitness (WitnessesToHashes w) (int idx) = w"
proof -
  from map_bucket.acc_WitnessFor_lies [OF TrueI assms] obtain k a' a'' where w:
    "acc_WitnessFor H mapBucket d (int idx) a = (Ret (map (wit H ls idx) [0..<k]), a')" "lies (length ls) idx k" "k \<le> 63"
    "acc_holds H d a' ls" "Verify H (map (wit H ls idx) [0..<k]) (ls ! idx) a' = (None, a'')" by blast
  have "GetDepthByHeightAndAccLength (int idx) (int (length ls)) = k"
    by (rule lies_unique [OF depth_lies [OF assms(4,3)] w(2)])
  with w height_of_wit [OF w(2,3), of H ls] hashes_of_wit [of H ls idx 0 k] show ?thesis by auto
qed

theorem accumulator_witness_witness:
  "\<exists>w a' a''. acc_WitnessFor sumHash mapBucket Map.empty 1 three = (Ret w, a') \<and>
     Verify sumHash w (sumHash [2]) a' = (None, a'') \<and> GetHeightFromWitness w 3 = 1"
  using accumulator_witness [OF sumHash_ok three_holds [of Map.empty], of 1] by (auto simp: three_leaves_def)

text \<open>
  C29: witnesses between states: of an accumulator with the leaves \<open>ls\<close> and one that had the first \<open>m\<close> of
  them, the newer makes for every of the \<open>m\<close> leaves the witness that the older makes itself; it
  verifies in the older, and the newer accepts it too, given the older length.
\<close>
theorem accumulator_between_lengths:
  assumes "hash_ok H" and "acc_holds H d a ls" and "acc_holds H d' old (take m ls)" and "length ls < 2 ^ 63"
    and "idx < m" and "m \<le> length ls"
  shows "\<exists>w. (\<exists>a'. WitnessForWithAccLength H mapBucket d (int idx) (int m) a = (Ret w, a')) \<and>
    (\<exists>o'. acc_WitnessFor H mapBucket d' (int idx) old = (Ret w, o')) \<and> (\<exists>o'. Verify H w (ls ! idx) old = (None, o')) \<and>
    (\<exists>a'. VerifyWithAccLength H mapBucket d w (ls ! idx) (int m) a = (Ret None, a'))"
proof -
  have len: "length (take m ls) = m" "m < 2 ^ 63" "idx < length ls" "take m ls ! idx = ls ! idx" using assms(4-6) by simp_all
  from map_bucket.acc_WitnessFor_lies [OF TrueI assms(1,3), of idx] len assms(5) obtain k o' where old:
    "acc_WitnessFor H mapBucket d' (int idx) old = (Ret (map (wit H (take m ls) idx) [0..<k]), o')" "lies m idx k" by auto
  let ?w = "map (wit H (take m ls) idx) [0..<k]"
  from map_bucket.acc_WitnessFor_lies [OF TrueI assms(1,2,4) len(3)] obtain k' a' where new:
    "acc_WitnessFor H mapBucket d (int idx) a = (Ret (map (wit H ls idx) [0..<k']), a')" "lies (length ls) idx k'" by blast
  have k: "k \<le> k'" by (rule lies_mono [OF old(2) new(2) assms(6)])
  have "GetDepthByHeightAndAccLength (int idx) (int m) = k"
    by (rule lies_unique [OF depth_lies [OF assms(5) len(2)] old(2)])
  moreover have "take k (map (wit H ls idx) [0..<k']) = ?w"
    using k wit_prefix [OF old(2) assms(6)] by (simp add: take_map)
  ultimately have "WitnessForWithAccLength H mapBucket d (int idx) (int m) a = (Ret ?w, a')"
    using new(1) k by (simp add: WitnessForWithAccLength_def Let_def)
  moreover have "\<exists>o'. Verify H ?w (ls ! idx) old = (None, o')"
    using Verify_lies [OF assms(1,3), of idx k] old(2) len assms(5) by auto
  moreover have "\<exists>a'. VerifyWithAccLength H mapBucket d ?w (ls ! idx) (int m) a = (Ret None, a')"
  proof (cases "m = length ls")
    case True
    with Verify_lies [OF assms(1,2) _ len(3), of k] old(2) assms(2) show ?thesis
      by (auto simp: VerifyWithAccLength_def acc_holds_def)
  next
    case False
    with map_bucket.VerifyWithAccLength_old [OF TrueI assms(1,2,4) old(2) assms(5) _ refl] assms(6) show ?thesis by auto
  qed
  ultimately show ?thesis using old(1) by blast
qed

theorem accumulator_between_lengths_witness:
  "\<exists>w. (\<exists>a'. WitnessForWithAccLength sumHash mapBucket Map.empty 1 2 three = (Ret w, a')) \<and>
     (\<exists>a'. VerifyWithAccLength sumHash mapBucket Map.empty w (sumHash [2]) 2 three = (Ret None, a'))"
proof -
  let ?two = "snd (AddData sumHash [2] (snd (AddData sumHash [1] (NewExtAccumulator [7] 10))))"
  have "acc_holds sumHash Map.empty ?two (take 2 three_leaves)"
    using AddData_next [OF sumHash_ok AddData_next [OF sumHash_ok empty_holds]] by (simp add: three_leaves_def)
  from accumulator_between_lengths [OF sumHash_ok three_holds [of Map.empty] this, of 1] show ?thesis by (auto simp: three_leaves_def)
qed

text \<open>
  The other way round an older accumulator rejects a newer witness when a bit of its length is not
  set: the search for the depth subtracts the size of a tree that is not there. Here five leaves
  and the witness of the last of them, made after a sixth was added.
\<close>
theorem newer_witness_rejected:
  assumes "hash_ok H" and "acc_holds H d a ls" and "length ls = 5" and "acc_holds H d' new (ls @ [x])"
  shows "\<exists>w n'. acc_WitnessFor H mapBucket d' 4 new = (Ret w, n') \<and> VerifyWithAccLength H mapBucket d w (ls ! 4) 6 a =
    (Ret (Some (Errorc IllegalArgumentError ''InvalidWitness not exists root'')), a)"
proof -
  from map_bucket.acc_WitnessFor_lies [OF TrueI assms(1,4), of 4] assms(3) obtain k n' where w:
    "acc_WitnessFor H mapBucket d' 4 new = (Ret (map (wit H (ls @ [x]) 4) [0..<k]), n')" "lies 6 4 k" by auto
  have "lies 6 4 1" by (simp add: lies_def)
  from lies_unique [OF w(2) this] have k: "k = 1" .
  have "lies (length ls) 0 2" using assms(3) by (simp add: lies_def)
  with holds_root [OF assms(2)] have r: "2 < length (roots a)" by blast
  have ok: "root_ok H d ls h (roots a ! h)" if "h < length (roots a)" for h
    using assms(2) that by (simp add: acc_holds_def roots_ok_def)
  have len: "length (roots a) = 3"
  proof (rule ccontr)
    assume "length (roots a) \<noteq> 3"
    with r have l: "3 < length (roots a)" by simp
    let ?h = "length (roots a) - 1"
    have "roots a \<noteq> []" using l by auto
    then have "last (roots a) \<noteq> None" "last (roots a) = roots a ! ?h"
      using assms(2) last_conv_nth by (auto simp: acc_holds_def roots_ok_def)
    moreover have "?h < length (roots a)" using l by simp
    ultimately have "odd (5 div 2 ^ ?h :: nat)" using ok [of ?h] by (auto simp: root_ok_def assms(3))
    moreover have "(2 :: nat) ^ 3 \<le> 2 ^ ?h" using l by (intro power_increasing) simp_all
    then have "5 div 2 ^ ?h = (0 :: nat)" by simp
    ultimately show False by simp
  qed
  have "roots a ! 1 = None" using ok [of 1] len assms(3) by (auto simp: root_ok_def split: option.splits)
  moreover have "shl1 2 = 4" "shl1 1 = 2" using shl1_eq [of 2] shl1_eq [of 1] by simp_all
  moreover have "GetHeightFromWitness (map (wit H (ls @ [x]) 4) [0..<1]) 6 = 4"
    using height_of_wit [of 6 4 1 H "ls @ [x]"] by (simp add: lies_def)
  moreover have "acc_length a = 5" using assms(2,3) by (simp add: acc_holds_def)
  ultimately show ?thesis using w(1) len
    by (simp add: k VerifyWithAccLength_def Let_def eval_nat_numeral Verify_def)
qed

end
