(* ===== verification/Mta_Store.thy ===== *)
theory Mta_Store
  imports Mta_Thms
begin

text \<open>
  Flushing an accumulator to a bucket and recovering it. The nodes are stored under their hashes, so
  what is promised rests on the hash function having no collision among the contents that are written.
\<close>

section \<open>What is written\<close>

text \<open>The contents of the branches over the leaves, and the data of a node.\<close>

fun contents :: "(bytes \<Rightarrow> bytes) \<Rightarrow> nat \<Rightarrow> bytes list \<Rightarrow> bytes set" where
  "contents H 0 ls = {}"
| "contents H (Suc k) ls = insert (mta_root H k (take (2 ^ k) ls) @ mta_root H k (drop (2 ^ k) ls))
     (contents H k (take (2 ^ k) ls) \<union> contents H k (drop (2 ^ k) ls))"

fun datas :: "mnode \<Rightarrow> bytes set" where
  "datas (hashNode hv) = {}"
| "datas (branchNode st hv ser l r) = datas l \<union> datas r"
| "datas (dataNode st hv dt) = {dt}"

lemma datas_Hash [simp]: "datas (snd (Hash H n)) = datas n"
  by (induction n) (auto simp: Let_def split: prod.splits)

text \<open>The entries for the contents of \<open>U\<close> are kept.\<close>

definition preserves :: "(bytes \<Rightarrow> bytes) \<Rightarrow> bytes set \<Rightarrow> (bytes \<rightharpoonup> bytes) \<Rightarrow> (bytes \<rightharpoonup> bytes) \<Rightarrow> bool" where
  "preserves H U V V' \<longleftrightarrow> (\<forall>c\<in>U. V (H c) = Some c \<longrightarrow> V' (H c) = Some c)"

lemma preserves_refl [simp]: "preserves H U V V"
  by (simp add: preserves_def)

lemma preserves_trans: "preserves H U V V' \<Longrightarrow> preserves H U V' V'' \<Longrightarrow> preserves H U V V''"
  by (simp add: preserves_def)

lemma preserves_write: "inj_on H U \<Longrightarrow> c \<in> U \<Longrightarrow> preserves H U V (V(H c \<mapsto> c))"
  by (auto simp: preserves_def dest: inj_onD)

lemma preserves_other: "hash_ok H \<Longrightarrow> length key \<noteq> HashSize \<Longrightarrow> preserves H U V (V(key \<mapsto> v))"
  by (auto simp: preserves_def hash_ok_def)

lemma stored_preserves: "stored H V k ls \<Longrightarrow> contents H k ls \<subseteq> U \<Longrightarrow> preserves H U V V' \<Longrightarrow> stored H V' k ls"
  by (induction k arbitrary: ls) (auto simp: preserves_def)

lemma stands_preserves: "stands H V k ls n \<Longrightarrow> contents H k ls \<subseteq> U \<Longrightarrow> preserves H U V V' \<Longrightarrow> stands H V' k ls n"
proof (induction H V k ls n rule: stands.induct)
  case (3 H V k ls st hv ser l r)
  have "st = stateFlushed \<longrightarrow> stored H V' (Suc k) ls"
    using "3.prems" stored_preserves [of H V "Suc k" ls U V'] by (auto simp del: stored.simps)
  with 3 show ?case by (simp del: stored.simps)
qed (auto intro: stored_preserves)

section \<open>Flushing nodes\<close>

text \<open>What is known of a root at index \<open>k\<close> over the leaves \<open>ls\<close>.\<close>

definition sound :: "(bytes \<Rightarrow> bytes) \<Rightarrow> bytes set \<Rightarrow> (bytes \<rightharpoonup> bytes) \<Rightarrow> nat \<Rightarrow> bytes list \<Rightarrow> mnode \<Rightarrow> bool" where
  "sound H U V k ls n \<longleftrightarrow> stands H V k ls n \<and> length ls = 2 ^ k \<and> leaves_ok ls \<and> contents H k ls \<subseteq> U \<and> datas n \<subseteq> U"

lemma sound_preserves: "sound H U V k ls n \<Longrightarrow> preserves H U V V' \<Longrightarrow> sound H U V' k ls n"
  by (auto simp: sound_def intro: stands_preserves)

lemma sound_Hash: "hash_ok H \<Longrightarrow> sound H U V k ls n \<Longrightarrow> fst (Hash H n) = mta_root H k ls \<and> sound H U V k ls (snd (Hash H n))"
  using stands_Hash [of H V k ls n] by (simp add: sound_def)

lemma sound_branch:
  "sound H U V (Suc k) ls (branchNode st hv ser l r) \<longleftrightarrow> sound H U V k (take (2 ^ k) ls) l \<and> sound H U V k (drop (2 ^ k) ls) r \<and>
    length ls = 2 ^ Suc k \<and> leaves_ok ls \<and> mta_root H k (take (2 ^ k) ls) @ mta_root H k (drop (2 ^ k) ls) \<in> U \<and>
    (st \<noteq> stateDirty \<longrightarrow> hv = mta_root H (Suc k) ls \<and> ser = mta_root H k (take (2 ^ k) ls) @ mta_root H k (drop (2 ^ k) ls)) \<and>
    (st = stateFlushed \<longrightarrow> stored H V (Suc k) ls)"
  by (auto simp: sound_def leaves_ok_parts simp del: stored.simps)

lemma Hash_branch_shape: "\<exists>st' ser' l' r'. Hash H (branchNode st hv ser l r) =
    (n_hashValue (snd (Hash H (branchNode st hv ser l r))), branchNode st' (n_hashValue (snd (Hash H (branchNode st hv ser l r)))) ser' l' r') \<and>
    st' \<noteq> stateDirty \<and> (st' = stateFlushed \<longrightarrow> st = stateFlushed)"
  by (cases st) (auto simp: Let_def split: prod.splits)

lemma Set_map [simp]: "bk_Set mapBucket V k v = (None, V(k \<mapsto> v))"
  by (simp add: mapBucket_def)

text \<open>Flushing a branch whose children were flushed.\<close>

lemma flush_branch:
  assumes "hash_ok H" and "inj_on H U" and "sound H U V (Suc k) ls (branchNode st hv ser l r)"
    and "stored H V k (take (2 ^ k) ls)" and "stored H V k (drop (2 ^ k) ls)" and "st \<noteq> stateFlushed"
    and "Hash H (branchNode st hv ser l r) = (hv', n)" and "V' = V(hv' \<mapsto> serialized n)"
  shows "sound H U V' (Suc k) ls (branchNode stateFlushed (n_hashValue n) (serialized n) (left n) (right n)) \<and>
    stored H V' (Suc k) ls \<and> preserves H U V V'"
proof -
  let ?c = "mta_root H k (take (2 ^ k) ls) @ mta_root H k (drop (2 ^ k) ls)"
  from Hash_branch_shape [of H st hv ser l r] assms(7) obtain st' ser' l' r' where
    n: "n = branchNode st' hv' ser' l' r'" "st' \<noteq> stateDirty" by auto
  have s: "sound H U V (Suc k) ls n" using sound_Hash [OF assms(1,3)] assms(7) by simp
  then have e: "hv' = H ?c" "ser' = ?c" "?c \<in> U" using n by (auto simp: sound_branch)
  have V': "V' = V(H ?c \<mapsto> ?c)" using assms(8) n e by simp
  then have k: "preserves H U V V'" using preserves_write [OF assms(2) e(3)] by simp
  have sub: "contents H k (take (2 ^ k) ls) \<subseteq> U" "contents H k (drop (2 ^ k) ls) \<subseteq> U"
    using assms(3) by (auto simp: sound_def)
  have st: "stored H V' (Suc k) ls"
    using stored_preserves [OF assms(4) sub(1) k] stored_preserves [OF assms(5) sub(2) k] V' by simp
  from sound_preserves [OF s k] st n e k show ?thesis by (simp add: sound_branch del: stored.simps)
qed

lemma node_Flush_sound:
  "hash_ok H \<Longrightarrow> inj_on H U \<Longrightarrow> sound H U V k ls n \<Longrightarrow>
    \<exists>n' V'. node_Flush H mapBucket n V = (None, n', V') \<and> sound H U V' k ls n' \<and> stored H V' k ls \<and> preserves H U V V'"
proof (induction n arbitrary: k ls V)
  case (hashNode hv)
  then show ?case by (auto simp: sound_def)
next
  case (branchNode st hv ser l r)
  then obtain j where k: "k = Suc j" by (cases k) (auto simp: sound_def)
  note s = branchNode.prems(3) [unfolded k]
  have lr: "sound H U V j (take (2 ^ j) ls) l" "sound H U V j (drop (2 ^ j) ls) r" using s by (simp_all add: sound_branch)
  show ?case
  proof (cases "st = stateFlushed")
    case True
    with s k show ?thesis by (simp add: sound_branch)
  next
    case False
    from branchNode.IH(1) [OF branchNode.prems(1,2) lr(1)] obtain l' V1 where
      l': "node_Flush H mapBucket l V = (None, l', V1)" "sound H U V1 j (take (2 ^ j) ls) l'" "stored H V1 j (take (2 ^ j) ls)"
      "preserves H U V V1" by blast
    from branchNode.IH(2) [OF branchNode.prems(1,2) sound_preserves [OF lr(2) l'(4)]] obtain r' V2 where
      r': "node_Flush H mapBucket r V1 = (None, r', V2)" "sound H U V2 j (drop (2 ^ j) ls) r'" "stored H V2 j (drop (2 ^ j) ls)"
      "preserves H U V1 V2" by blast
    have "sound H U V2 (Suc j) ls (branchNode st hv ser l' r')"
      using s sound_preserves [OF l'(2) r'(4)] r'(2) False by (simp add: sound_branch)
    moreover have "stored H V2 j (take (2 ^ j) ls)" using l'(2,3) r'(4) stored_preserves by (auto simp: sound_def)
    moreover obtain hv' n where h: "Hash H (branchNode st hv ser l' r') = (hv', n)" by fastforce
    ultimately have "sound H U (V2(hv' \<mapsto> serialized n)) k ls (branchNode stateFlushed (n_hashValue n) (serialized n) (left n) (right n)) \<and>
        stored H (V2(hv' \<mapsto> serialized n)) k ls \<and> preserves H U V2 (V2(hv' \<mapsto> serialized n))"
      unfolding k using False r'(3) by (intro flush_branch [OF branchNode.prems(1,2)]) auto
    with l'(1,4) r'(1,4) h False show ?thesis by (auto intro: preserves_trans simp del: Hash.simps)
  qed
next
  case (dataNode st hv dt)
  then have k: "k = 0" by (cases k) (auto simp: sound_def)
  have "dt \<in> U" using dataNode.prems(3) by (simp add: sound_def)
  note kw = preserves_write [OF dataNode.prems(2) this, of V]
  show ?case
  proof (cases "st = stateFlushed")
    case False
    then have "st < stateFlushed" by (cases st) simp_all
    with dataNode.prems(3) kw k show ?thesis by (cases st) (auto simp: sound_def)
  qed (use dataNode.prems(3) k in simp)
qed

section \<open>Flushing and recovering the roots\<close>

text \<open>A root at an index, over the leaves that \<open>bl\<close> gives for the index.\<close>

definition item :: "(bytes \<Rightarrow> bytes) \<Rightarrow> bytes set \<Rightarrow> (bytes \<rightharpoonup> bytes) \<Rightarrow> (nat \<Rightarrow> bytes list) \<Rightarrow> nat \<Rightarrow> mnode option \<Rightarrow> bool" where
  "item H U V bl h r = (case r of None \<Rightarrow> True | Some n \<Rightarrow> sound H U V h (bl h) n)"

text \<open>The hash of a root, or none.\<close>

definition root_hash :: "(bytes \<Rightarrow> bytes) \<Rightarrow> (nat \<Rightarrow> bytes list) \<Rightarrow> nat \<Rightarrow> mnode option \<Rightarrow> bytes option" where
  "root_hash H bl h r = map_option (\<lambda>_. mta_root H h (bl h)) r"

lemma item_preserves: "item H U V bl h r \<Longrightarrow> preserves H U V V' \<Longrightarrow> item H U V' bl h r"
  by (auto simp: item_def intro: sound_preserves split: option.splits)

lemma all_less_Suc: "(\<forall>i<Suc n. P i) \<longleftrightarrow> P 0 \<and> (\<forall>i<n. P (Suc i))"
  by (metis less_Suc_eq_0_disj)

lemma upt_shift: "map f [0..<Suc n] = f 0 # map (\<lambda>i. f (Suc i)) [0..<n]"
  by (simp add: map_upt_Suc del: upt_Suc)

definition flushed :: "(bytes \<Rightarrow> bytes) \<Rightarrow> bytes set \<Rightarrow> (bytes \<rightharpoonup> bytes) \<Rightarrow> (nat \<Rightarrow> bytes list) \<Rightarrow> nat \<Rightarrow> mnode option \<Rightarrow> mnode option \<Rightarrow> bool" where
  "flushed H U V bl h r r' \<longleftrightarrow> item H U V bl h r' \<and> (r' = None \<longleftrightarrow> r = None) \<and> (r \<noteq> None \<longrightarrow> stored H V h (bl h))"

lemma flushed_none: "flushed H U V bl h None None"
  by (simp add: flushed_def item_def)

lemma flushed_preserves: "flushed H U V bl h r r' \<Longrightarrow> preserves H U V V' \<Longrightarrow> flushed H U V' bl h r r'"
  by (auto simp: flushed_def item_def sound_def intro: stored_preserves stands_preserves split: option.splits)

lemma flushRoots_sound:
  assumes "hash_ok H" and "inj_on H U"
  shows "(\<forall>i<length rs. item H U V bl (h + i) (rs ! i)) \<Longrightarrow>
    \<exists>rs' V'. flushRoots H mapBucket rs V = (None, rs', map (\<lambda>i. root_hash H bl (h + i) (rs ! i)) [0..<length rs], V') \<and>
      preserves H U V V' \<and> length rs' = length rs \<and> (\<forall>i<length rs. flushed H U V' bl (h + i) (rs ! i) (rs' ! i))"
proof (induction rs arbitrary: h V)
  case (Cons r rs)
  have it: "item H U V bl h r" "\<forall>i<length rs. item H U V bl (Suc h + i) (rs ! i)"
    using Cons.prems by (simp_all add: all_less_Suc)
  show ?case
  proof (cases r)
    case None
    from Cons.IH [OF it(2)] None it(1) show ?thesis
      by (auto simp: upt_shift all_less_Suc root_hash_def flushed_none simp del: upt_Suc)
  next
    case (Some n)
    then have "sound H U V h (bl h) n" using it(1) by (simp add: item_def)
    from node_Flush_sound [OF assms this] obtain n1 V1 where
      n1: "node_Flush H mapBucket n V = (None, n1, V1)" "sound H U V1 h (bl h) n1" "stored H V1 h (bl h)" "preserves H U V V1" by blast
    obtain g n2 where "Hash H n1 = (g, n2)" by fastforce
    with sound_Hash [OF assms(1) n1(2)] have n2: "Hash H n1 = (mta_root H h (bl h), n2)" "sound H U V1 h (bl h) n2" by auto
    from Cons.IH [of V1 "Suc h"] it(2) item_preserves [OF _ n1(4)] obtain rs' V2 where
      rs': "flushRoots H mapBucket rs V1 = (None, rs', map (\<lambda>i. root_hash H bl (Suc h + i) (rs ! i)) [0..<length rs], V2)"
      "preserves H U V1 V2" "length rs' = length rs" "\<forall>i<length rs. flushed H U V2 bl (Suc h + i) (rs ! i) (rs' ! i)" by blast
    have "flushed H U V1 bl h r (Some n2)" using Some n1(3) n2(2) by (simp add: flushed_def item_def)
    from flushed_preserves [OF this rs'(2)] rs' preserves_trans [OF n1(4) rs'(2)] n1(1) n2(1) Some show ?thesis
      by (auto simp: upt_shift all_less_Suc root_hash_def simp del: upt_Suc)
  qed
qed simp

text \<open>The leaves of the tree at an index, and all that a flush can write.\<close>

definition tree_leaves :: "bytes list \<Rightarrow> nat \<Rightarrow> bytes list" where
  "tree_leaves ls h = block h (length ls div 2 ^ h - 1) ls"

definition written :: "(bytes \<Rightarrow> bytes) \<Rightarrow> 'x Accumulator_scheme \<Rightarrow> bytes list \<Rightarrow> bytes set" where
  "written H a ls = (\<Union>h\<in>{h. h < length (roots a) \<and> roots a ! h \<noteq> None}. contents H h (tree_leaves ls h) \<union> datas (the (roots a ! h)))"

lemma holds_item:
  assumes "acc_holds H V a ls" and "h < length (roots a)"
  shows "item H (written H a ls) V (tree_leaves ls) h (roots a ! h)"
proof (cases "roots a ! h")
  case (Some n)
  have rok: "root_ok H V ls h (Some n)" and lv: "leaves_ok ls"
    using assms Some by (auto simp: acc_holds_def roots_ok_def)
  then have "length (tree_leaves ls h) = 2 ^ h" "stands H V h (tree_leaves ls h) n" "leaves_ok (tree_leaves ls h)"
    using root_ok_block [of ls h] block_ok by (auto simp: root_ok_def tree_leaves_def)
  moreover have "contents H h (tree_leaves ls h) \<union> datas n \<subseteq> written H a ls"
    using assms(2) Some by (force simp: written_def)
  ultimately show ?thesis by (simp add: item_def sound_def Some)
qed (simp add: item_def)

lemma roots_ok_same_shape:
  assumes "roots_ok H V ls rs" and "length rs' = length rs"
    and "\<And>h. h < length rs \<Longrightarrow> root_ok H V' ls h (rs' ! h) \<and> (rs' ! h = None \<longleftrightarrow> rs ! h = None)"
  shows "roots_ok H V' ls rs'"
proof (cases "rs = []")
  case True
  with assms(1,2) show ?thesis by (simp add: roots_ok_def)
next
  case False
  then have "length rs - 1 < length rs" "last rs = rs ! (length rs - 1)" by (simp_all add: last_conv_nth)
  moreover have "rs' \<noteq> []" using False assms(2) by (metis length_0_conv)
  then have "last rs' = rs' ! (length rs - 1)" by (simp add: last_conv_nth assms(2))
  moreover have "last rs \<noteq> None" using assms(1) False by (simp add: roots_ok_def)
  ultimately have "last rs' \<noteq> None" using assms(3) by presburger
  with assms show ?thesis by (simp add: roots_ok_def)
qed

lemma roots_ok_flushed:
  assumes "roots_ok H V ls rs" and "length rs' = length rs" and "\<forall>h<length rs. flushed H U V' (tree_leaves ls) h (rs ! h) (rs' ! h)"
  shows "roots_ok H V' ls rs'"
    and "roots_ok H V' ls (map (\<lambda>h. map_option hashNode (root_hash H (tree_leaves ls) h (rs ! h))) [0..<length rs])"
proof -
  have r: "root_ok H V ls h (rs ! h)" "flushed H U V' (tree_leaves ls) h (rs ! h) (rs' ! h)" if "h < length rs" for h
    using assms(1,3) that by (auto simp: roots_ok_def)
  show "roots_ok H V' ls rs'"
  proof (rule roots_ok_same_shape [OF assms(1,2)])
    fix h assume "h < length rs"
    from r [OF this] show "root_ok H V' ls h (rs' ! h) \<and> (rs' ! h = None \<longleftrightarrow> rs ! h = None)"
      by (cases "rs ! h"; cases "rs' ! h") (simp_all add: root_ok_def flushed_def item_def sound_def tree_leaves_def)
  qed
  show "roots_ok H V' ls (map (\<lambda>h. map_option hashNode (root_hash H (tree_leaves ls) h (rs ! h))) [0..<length rs])"
  proof (rule roots_ok_same_shape [OF assms(1)])
    fix h assume h: "h < length rs"
    with r [OF h] show "root_ok H V' ls h (map (\<lambda>h. map_option hashNode (root_hash H (tree_leaves ls) h (rs ! h))) [0..<length rs] ! h) \<and>
        (map (\<lambda>h. map_option hashNode (root_hash H (tree_leaves ls) h (rs ! h))) [0..<length rs] ! h = None \<longleftrightarrow> rs ! h = None)"
      by (cases "rs ! h") (simp_all add: root_ok_def flushed_def tree_leaves_def root_hash_def)
  qed simp
qed

section \<open>The encoded state\<close>

lemma sized_length: "int_len b \<Longrightarrow> length (sized base b) \<le> length b + 9"
  using sizeToBytes_size(3) [of "length b"] by (simp add: sized_def int_len_def)

lemma hash_bytes_length: "length b \<le> 1000 \<Longrightarrow> length (enc_bytes (Some b)) \<le> length b + 9"
  using sized_length [of b 128] by (simp add: enc_bytes_def int_len_def)

lemma enc_hashes_length:
  assumes "list_all (\<lambda>h. case h of None \<Rightarrow> True | Some b \<Rightarrow> length b = HashSize) hs"
  shows "length (concat (map enc (map VBytes hs))) \<le> 41 * length hs"
  using assms
proof (induction hs)
  case (Cons h hs)
  have "length (enc (VBytes h)) \<le> 41"
  proof (cases h)
    case (Some b)
    with Cons.prems hash_bytes_length [of b] show ?thesis by (simp add: HashSize_def)
  qed (simp add: enc_bytes_def nullSequence_def)
  with Cons show ?case by simp
qed simp

lemma ext_val_type: "has_type (ext_val height hs off lim) ext_type" "type_ok ext_type"
proof -
  have "intFits 64 v" for v unfolding intFits_def by (rule bit_word_eqI) (auto simp: bit_signed_take_bit_iff min_def le_less)
  then show "has_type (ext_val height hs off lim) ext_type" by (simp add: ext_val_def ext_type_def list_all_iff)
qed (simp add: ext_type_def)

lemma ext_val_length:
  assumes "list_all (\<lambda>h. case h of None \<Rightarrow> True | Some b \<Rightarrow> length b = HashSize) hs" and "length hs \<le> 63"
  shows "int_len (enc (ext_val height hs off lim))"
proof -
  have i: "length (enc_bytes (Some (Int64ToBytes v))) \<le> 17" for v
    using canonical_Int64ToBytes(2) [of v] hash_bytes_length [of "Int64ToBytes v"] by linarith
  let ?s = "concat (map enc (map VBytes hs))"
  have "length ?s \<le> 2583" using enc_hashes_length [OF assms(1)] assms(2) by linarith
  then have l: "length (enc_list ?s) \<le> 2592" using sized_length [of ?s 192] by (simp add: enc_list_def int_len_def)
  let ?c = "enc_bytes (Some (Int64ToBytes (word_of_int height))) @ enc_list ?s @
    enc_bytes (Some (Int64ToBytes (word_of_int off))) @ enc_bytes (Some (Int64ToBytes (word_of_int lim)))"
  have "length ?c \<le> 3000" using i [of "word_of_int height"] i [of "word_of_int off"] i [of "word_of_int lim"] l
    unfolding length_append by linarith
  then have "length (enc_list ?c) \<le> 3009" using sized_length [of ?c 192] by (simp add: enc_list_def int_len_def)
  moreover have "enc (ext_val height hs off lim) = enc_list ?c" by (simp add: ext_val_def)
  ultimately show ?thesis by (simp add: int_len_def)
qed

lemma ext_val_decodes:
  assumes "list_all (\<lambda>h. case h of None \<Rightarrow> True | Some b \<Rightarrow> length b = HashSize) hs" and "length hs \<le> 63"
  shows "UnmarshalFromBytes (enc (ext_val height hs off lim)) ext_type = Ret (ext_val height hs off lim, [])"
    and "enc (ext_val height hs off lim) \<noteq> []"
  using Unmarshal_enc [OF ext_val_type, of height hs off lim "[]"] ext_val_length [OF assms]
  by (simp_all) (simp add: ext_val_def enc_list_def sized_def)

lemma recover_roots:
  assumes "hash_ok H" and "\<And>h. h < length rs \<Longrightarrow> rs ! h \<noteq> None \<Longrightarrow> length (mta_root H h (bl h)) = HashSize"
  shows "map recoverRoot (map VBytes (map (\<lambda>h. root_hash H bl h (rs ! h)) [0..<length rs])) =
      map (\<lambda>h. map_option hashNode (root_hash H bl h (rs ! h))) [0..<length rs]"
    and "list_all (\<lambda>h. case h of None \<Rightarrow> True | Some b \<Rightarrow> length b = HashSize) (map (\<lambda>h. root_hash H bl h (rs ! h)) [0..<length rs])"
  using assms(2) by (auto simp: recoverRoot_def root_hash_def list_all_iff split: option.split)

lemma sint_in_range: "- (2 ^ 63) \<le> x \<Longrightarrow> x < 2 ^ 63 \<Longrightarrow> sint (word_of_int x :: 64 word) = x"
  unfolding int_word_sint by simp

text \<open>
  C30: an extended accumulator of fewer than 2^63 leaves flushed to the bucket in memory still holds its
  leaves, and a new accumulator with the same key and offset recovered from the bucket holds them
  too; assumed are a hash function without collision among what is written, a key for the state that
  is no hash, and heights within 64 bits.
\<close>
theorem ext_flush_recover:
  assumes "hash_ok H" and "acc_holds H d a ls" and "inj_on H (written H a ls)" and "length (KeyForState a) \<noteq> HashSize"
    and "length ls < 2 ^ 63" and "- (2 ^ 63) \<le> x_offset a" and "x_offset a + int (length ls) < 2 ^ 63"
  shows "\<exists>a' d'. ext_Flush H mapBucket a d = (Ret (), a', d') \<and> acc_holds H d' a' ls \<and>
    (\<exists>b. ext_Recover mapBucket (NewExtAccumulator (KeyForState a) (x_offset a)) d' = (Ret (), b) \<and> acc_holds H d' b ls \<and>
      x_serialized b = x_serialized a')"
proof -
  let ?rs = "roots a" and ?bl = "tree_leaves ls" and ?U = "written H a ls" and ?n = "int (length ls)"
  have a: "acc_length a = ?n" "leaves_ok ls" "roots_ok H d ls ?rs" using assms(2) by (simp_all add: acc_holds_def)
  from flushRoots_sound [OF assms(1,3), of ?rs d ?bl 0] holds_item [OF assms(2)] obtain rs' d1 where
    fl: "flushRoots H mapBucket ?rs d = (None, rs', map (\<lambda>h. root_hash H ?bl h (?rs ! h)) [0..<length ?rs], d1)"
    "preserves H ?U d d1" "length rs' = length ?rs" "\<forall>h<length ?rs. flushed H ?U d1 ?bl h (?rs ! h) (rs' ! h)" by auto
  let ?hs = "map (\<lambda>h. root_hash H ?bl h (?rs ! h)) [0..<length ?rs]"
  let ?v = "ext_val (ext_Height a) ?hs (x_offset a) (limitRoots a)"
  let ?d = "d1(KeyForState a \<mapsto> enc ?v)"
  have "length (mta_root H h (?bl h)) = HashSize" if "h < length ?rs" "?rs ! h \<noteq> None" for h
    using holds_item [OF assms(2) that(1)] that(2) mta_root_length [OF assms(1)] by (auto simp: item_def sound_def)
  note rr = recover_roots [OF assms(1) this]
  have len: "length ?hs \<le> 63" using map_bucket.roots_63 [OF assms(2,5)] by simp
  have "\<forall>h<length ?rs. flushed H ?U ?d ?bl h (?rs ! h) (rs' ! h)"
    using fl(4) flushed_preserves preserves_other [OF assms(1,4)] by blast
  note ok = roots_ok_flushed [OF a(3) fl(3) this]
  let ?a = "a\<lparr>roots := rs', x_serialized := enc ?v\<rparr>"
  have "ext_Flush H mapBucket a d = (Ret (), ?a, ?d)"
    using fl(1) by (simp add: ext_Flush_def MarshalToBytes_enc del: map_map)
  moreover have "acc_holds H ?d ?a ls" using a ok(1) by (simp add: acc_holds_def)
  moreover let ?b = "\<lparr>KeyForState = KeyForState a, roots = map (\<lambda>h. map_option hashNode (root_hash H ?bl h (?rs ! h))) [0..<length ?rs],
    acc_length = ?n, x_offset = x_offset a, limitRoots = 0, x_serialized = enc ?v\<rparr>"
  have "recoverState ?v = (ext_Height a, map (\<lambda>h. map_option hashNode (root_hash H ?bl h (?rs ! h))) [0..<length ?rs], x_offset a)"
    using rr(1) assms(6,7) a(1) sint_in_range [of "ext_Height a"] sint_in_range [of "x_offset a"]
    by (simp add: recoverState_def ext_val_def ext_Height_def)
  then have "ext_Recover mapBucket (NewExtAccumulator (KeyForState a) (x_offset a)) ?d = (Ret (), ?b)"
    using ext_val_decodes [OF rr(2) len, of "ext_Height a" "x_offset a" "limitRoots a"] a(1)
    by (simp add: ext_Recover_def NewExtAccumulator_def mapBucket_def Let_def ext_Height_def)
  moreover have "acc_holds H ?d ?b ls" using a(2) ok(2) by (simp add: acc_holds_def)
  ultimately show ?thesis by fastforce
qed

lemma three_roots: "roots three = [Some (dataNode stateDirty [] [5]),
    Some (branchNode stateDirty [] [] (dataNode stateHashed (sumHash [1]) [1]) (dataNode stateDirty [] [2]))]"
  by (simp add: three_def AddData_def AddNode_def addNode.simps NewExtAccumulator_def sumHash_def)

theorem ext_flush_recover_witness:
  "\<exists>a' d' b. ext_Flush sumHash mapBucket three Map.empty = (Ret (), a', d') \<and>
     ext_Recover mapBucket (NewExtAccumulator [7] 10) d' = (Ret (), b) \<and> acc_holds sumHash d' b three_leaves"
proof -
  have "written sumHash three three_leaves = {[5], sumHash [1] @ sumHash [2], [1], [2]}"
    by (auto simp: written_def three_roots tree_leaves_def block_def three_leaves_def less_Suc_eq)
  then have "inj_on sumHash (written sumHash three three_leaves)" by (simp add: sumHash_def sum_list_replicate)
  moreover have "KeyForState three = [7]" "x_offset three = 10"
    by (simp_all add: three_def AddData_def AddNode_def addNode.simps NewExtAccumulator_def sumHash_def)
  moreover have "length three_leaves = 3" by (simp add: three_leaves_def)
  ultimately show ?thesis using ext_flush_recover [OF sumHash_ok three_holds, of Map.empty] by (auto simp: HashSize_def)
qed

end
