(* ===== verification/Codec_Stream.thy ===== *)
theory Codec_Stream
  imports Codec
begin

text \<open>
  The encoder and the decoder a program uses step by step (src/common/codec/codec.go):
  \<open>EncodeList\<close> opens a list whose encoder is used until the encoder that opened it is used again,
  which closes the list. An encoder owns the encoder of the list it has open. A decoder owns the reader
  of the list it has open; the readers share the input. What a decoder does after one of its
  calls has failed is not modelled.
\<close>

section \<open>Encoder\<close>

datatype encoderImpl = encoderImpl (e_real: rlpWriter) (e_child: "encoderImpl option")

type_synonym 'a eproc = "(encoderImpl, err, 'a) proc"

fun enc_flush :: "unit eproc" where
  "enc_flush (encoderImpl w None) = (Ret (), encoderImpl w None)"
| "enc_flush (encoderImpl w (Some c)) = (case enc_flush c of
      (Ret _, c') \<Rightarrow> (case CloseWriter (e_real c') w of
          (Ret _, w') \<Rightarrow> (Ret (), encoderImpl w' None)
        | (r, w') \<Rightarrow> (r, encoderImpl w' (Some c')))
    | (r, c') \<Rightarrow> (r, encoderImpl w (Some c')))"

text \<open>A call of the writer of an encoder, and of the encoder of the list that is open.\<close>

definition on_real :: "'a wproc \<Rightarrow> 'a eproc" where
  "on_real m e = (case m (e_real e) of (r, w) \<Rightarrow> (r, encoderImpl w (e_child e)))"

definition on_child :: "'a eproc \<Rightarrow> 'a eproc" where
  "on_child m e = (case e_child e of
      None \<Rightarrow> (Panic, e)
    | Some c \<Rightarrow> (case m c of (r, c') \<Rightarrow> (r, encoderImpl (e_real e) (Some c'))))"

definition Encode :: "gval \<Rightarrow> unit eproc" where
  "Encode v = then_p enc_flush (on_real (encodeValue v))"

definition EncodeList :: "unit eproc" where
  "EncodeList = then_p enc_flush (bind_p (on_real WriteList)
     (\<lambda>writer. modify_p (\<lambda>e. encoderImpl (e_real e) (Some (encoderImpl writer None)))))"

definition EncodeMulti :: "gval list \<Rightarrow> unit eproc" where
  "EncodeMulti vs = seq_p (map Encode vs)"

definition EncodeListOf :: "gval list \<Rightarrow> unit eproc" where
  "EncodeListOf vs = then_p EncodeList (then_p (on_child (EncodeMulti vs)) enc_flush)"

text \<open>\<open>Close\<close>: the writer of the whole output has nothing to close.\<close>

definition enc_Close :: "unit eproc" where
  "enc_Close = enc_flush"

definition NewEncoder :: encoderImpl where
  "NewEncoder = encoderImpl emptyWriter None"

text \<open>
  A program with an encoder: it calls the encoder that it was given, at depth 0, and those of the open
  lists below it.
\<close>

datatype enc_call = CallEncode gval | CallEncodeList | CallEncodeListOf "gval list"

fun call_proc :: "enc_call \<Rightarrow> unit eproc" where
  "call_proc (CallEncode v) = Encode v"
| "call_proc CallEncodeList = EncodeList"
| "call_proc (CallEncodeListOf vs) = EncodeListOf vs"

fun at_depth :: "nat \<Rightarrow> 'a eproc \<Rightarrow> 'a eproc" where
  "at_depth 0 m = m"
| "at_depth (Suc k) m = on_child (at_depth k m)"

definition enc_script :: "(nat \<times> enc_call) list \<Rightarrow> unit eproc" where
  "enc_script cs = seq_p (map (\<lambda>(k, c). at_depth k (call_proc c)) cs)"

section \<open>Decoder\<close>

datatype decoderImpl = decoderImpl (d_real: rlpReader) (d_child: "rlpReader option")

type_synonym 'a dproc = "(decoderImpl, err, 'a) proc"

definition dec_flush :: "unit dproc" where
  "dec_flush d = (case d_child d of
      None \<Rightarrow> (Ret (), d)
    | Some c \<Rightarrow> (case Close c of (r, c') \<Rightarrow> (r, decoderImpl ((d_real d)\<lparr>rr_reader := inner (rr_reader c')\<rparr>) None)))"

definition on_reader :: "'a rproc \<Rightarrow> 'a dproc" where
  "on_reader m d = (case m (d_real d) of (r, s) \<Rightarrow> (r, decoderImpl s (d_child d)))"

text \<open>
  \<open>Decode\<close> of one value, on a decoder with no list open but the one \<open>DecodeList\<close> left. The code reads a struct, a slice or an array with
  \<open>DecodeList\<close> on the same decoder; when a nil inside a pointer ends one of these early its reader stays open until
  the next call, which skips what is left of it. This is not modelled: here no value leaves a reader open.
\<close>

definition Decode :: "gtype \<Rightarrow> gval dproc" where
  "Decode t = then_p dec_flush (on_reader (decodeValue t))"

definition DecodeBytes :: "bytes dproc" where
  "DecodeBytes = then_p dec_flush (on_reader ReadBytes)"

definition dec_Skip :: "nat \<Rightarrow> unit dproc" where
  "dec_Skip n = then_p dec_flush (on_reader (Skip n))"

text \<open>\<open>decodeNullable\<close>\<close>

definition decodeNullable :: "gtype \<Rightarrow> gval rproc" where
  "decodeNullable t = nullable (zero_val t) (decodeValue t)"

text \<open>The values of \<open>DecodeMulti\<close> as far as they were decoded, and the error that ended it.\<close>

fun decodeMulti_loop :: "gtype list \<Rightarrow> gval list \<Rightarrow> (gval list \<times> err option) rproc" where
  "decodeMulti_loop [] acc = ret_p (acc, None)"
| "decodeMulti_loop (t # ts) acc = bind_p (handle_p (bind_p (decodeNullable t) (\<lambda>v. ret_p (Inr v))) (\<lambda>e. Some (Inl e)))
     (\<lambda>r. case r of Inl e \<Rightarrow> ret_p (acc, Some e) | Inr v \<Rightarrow> decodeMulti_loop ts (acc @ [v]))"

definition DecodeMulti :: "gtype list \<Rightarrow> (gval list \<times> err option) dproc" where
  "DecodeMulti ts = then_p dec_flush (on_reader (decodeMulti_loop ts []))"

definition DecodeAll :: "gtype list \<Rightarrow> gval list dproc" where
  "DecodeAll ts = bind_p (DecodeMulti ts) (\<lambda>(vs, err). case err of None \<Rightarrow> ret_p vs | Some _ \<Rightarrow> fail_p ErrInvalidFormat)"

text \<open>\<open>decodeList\<close> gives the new reader to the decoder that opened the list and to the one that is returned.\<close>

definition DecodeList :: "rlpReader dproc" where
  "DecodeList = then_p dec_flush (bind_p (on_reader ReadList) (\<lambda>reader.
     then_p (modify_p (\<lambda>d. decoderImpl (d_real d) (Some reader))) (ret_p reader)))"

text \<open>The decoder of the open list reads; its decoder has no list open itself.\<close>

definition in_open_list :: "'a rproc \<Rightarrow> 'a dproc" where
  "in_open_list m d = (case d_child d of
      None \<Rightarrow> (Panic, d)
    | Some c \<Rightarrow> (case m c of (r, c') \<Rightarrow> (r, decoderImpl (d_real d) (Some c'))))"

fun decodeListOf_loop :: "gtype list \<Rightarrow> gval list rproc" where
  "decodeListOf_loop [] = ret_p []"
| "decodeListOf_loop (t # ts) = bind_p (handle_p (bind_p (decodeNullable t) (\<lambda>v. ret_p (Some v))) (\<lambda>e. Some None))
     (\<lambda>r. case r of None \<Rightarrow> fail_p ErrInvalidFormat | Some v \<Rightarrow> bind_p (decodeListOf_loop ts) (\<lambda>vs. ret_p (v # vs)))"

definition DecodeListOf :: "gtype list \<Rightarrow> gval list dproc" where
  "DecodeListOf ts = bind_p DecodeList (\<lambda>_. bind_p (in_open_list (decodeListOf_loop ts)) (\<lambda>vs. then_p dec_flush (ret_p vs)))"

definition NewDecoder :: "bytes \<Rightarrow> decoderImpl" where
  "NewDecoder b = decoderImpl \<lparr>rr_reader = Buffer b, rr_maxSB = length b\<rparr> None"

section \<open>Lists under construction\<close>

text \<open>
  The items of the lists that are open, outermost first. Using an encoder closes the lists below
  it: each becomes an item of the one around it.
\<close>

fun closed_items :: "gval list list \<Rightarrow> gval list" where
  "closed_items [] = []"
| "closed_items (f # fs) = [VStruct (f @ closed_items fs)]"

fun apply_call :: "enc_call \<Rightarrow> gval list \<Rightarrow> gval list list" where
  "apply_call (CallEncode v) f = [f @ [v]]"
| "apply_call CallEncodeList f = [f, []]"
| "apply_call (CallEncodeListOf vs) f = [f @ [VStruct vs]]"

fun call_at :: "nat \<Rightarrow> enc_call \<Rightarrow> gval list list \<Rightarrow> gval list list option" where
  "call_at k c [] = None"
| "call_at 0 c (f # fs) = Some (apply_call c (f @ closed_items fs))"
| "call_at (Suc k) c (f # fs) = map_option (\<lambda>gs. f # gs) (call_at k c fs)"

fun calls_at :: "(nat \<times> enc_call) list \<Rightarrow> gval list list \<Rightarrow> gval list list option" where
  "calls_at [] fs = Some fs"
| "calls_at ((k, c) # cs) fs = (case call_at k c fs of None \<Rightarrow> None | Some gs \<Rightarrow> calls_at cs gs)"

fun holds_items :: "bool option \<Rightarrow> encoderImpl \<Rightarrow> gval list list \<Rightarrow> bool" where
  "holds_items p e [] = False"
| "holds_items p (encoderImpl w None) (f # fs) =
     (w_buf w = concat (map enc f) \<and> map_option snd (w_parent w) = p \<and> fs = [])"
| "holds_items p (encoderImpl w (Some c)) (f # fs) =
     (w_buf w = concat (map enc f) \<and> map_option snd (w_parent w) = p \<and> holds_items (Some False) c fs)"

lemma holds_items_None: "holds_items p (encoderImpl w None) fs \<longleftrightarrow>
    (\<exists>f. fs = [f] \<and> w_buf w = concat (map enc f) \<and> map_option snd (w_parent w) = p)"
  by (cases fs) auto

lemma closes_list:
  assumes "w_buf c = concat (map enc f)" and "map_option snd (w_parent c) = Some False"
  shows "CloseWriter c w = (Ret (), w\<lparr>w_buf := w_buf w @ enc (VStruct f)\<rparr>)"
  using assms by (cases "w_parent c") (auto simp: CloseWriter_def writeList_buf)

lemma enc_flush_holds:
  "holds_items p e (f # fs) \<Longrightarrow> \<exists>w. enc_flush e = (Ret (), encoderImpl w None) \<and> holds_items p (encoderImpl w None) [f @ closed_items fs]"
proof (induction e arbitrary: p f fs)
  case (encoderImpl w ch)
  show ?case
  proof (cases ch)
    case None
    with encoderImpl.prems show ?thesis by (auto simp: holds_items_None)
  next
    case (Some c)
    with encoderImpl.prems have c: "holds_items (Some False) c fs" and w: "w_buf w = concat (map enc f)" "map_option snd (w_parent w) = p"
      by auto
    then obtain g gs where fs: "fs = g # gs" by (cases fs) auto
    from encoderImpl.IH [of c "Some False" g gs] Some c fs obtain u where
      u: "enc_flush c = (Ret (), encoderImpl u None)" "holds_items (Some False) (encoderImpl u None) [g @ closed_items gs]" by auto
    with closes_list [of u "g @ closed_items gs" w] w show ?thesis by (simp add: Some fs)
  qed
qed

lemma snd_incr [simp]: "map_option snd (map_option (\<lambda>(c, m). (Suc c, m)) x) = map_option snd x"
  by (cases x) auto

lemma Encode_holds:
  assumes "holds_items p e (f # fs)"
  shows "\<exists>e'. Encode v e = (Ret (), e') \<and> holds_items p e' [f @ closed_items fs @ [v]]"
proof -
  from enc_flush_holds [OF assms] obtain w where
    "enc_flush e = (Ret (), encoderImpl w None)" "holds_items p (encoderImpl w None) [f @ closed_items fs]" by auto
  then show ?thesis by (simp add: Encode_def bind_p_def on_real_def encodeValue_wrote wrote_def)
qed

lemma EncodeList_holds:
  assumes "holds_items p e (f # fs)"
  shows "\<exists>e'. EncodeList e = (Ret (), e') \<and> holds_items p e' [f @ closed_items fs, []]"
proof -
  from enc_flush_holds [OF assms] obtain w where
    "enc_flush e = (Ret (), encoderImpl w None)" "holds_items p (encoderImpl w None) [f @ closed_items fs]" by auto
  then show ?thesis by (simp add: EncodeList_def bind_p_def on_real_def WriteList_def countN_def modify_p_def ret_p_def)
qed

lemma EncodeMulti_holds:
  "holds_items p e [f] \<Longrightarrow> \<exists>e'. EncodeMulti vs e = (Ret (), e') \<and> holds_items p e' [f @ vs]"
proof (induction vs arbitrary: e f)
  case Nil
  then show ?case by (simp add: EncodeMulti_def ret_p_def)
next
  case (Cons v vs)
  from Encode_holds [OF Cons.prems, of v] obtain e1 where e1: "Encode v e = (Ret (), e1)" "holds_items p e1 [f @ [v]]" by auto
  from Cons.IH [OF e1(2)] e1(1) show ?case by (auto simp: EncodeMulti_def bind_p_def)
qed

lemma on_child_holds:
  assumes "holds_items p e (f # fs)" and "fs \<noteq> []"
    and "\<And>c. holds_items (Some False) c fs \<Longrightarrow> \<exists>c'. m c = (Ret (), c') \<and> holds_items (Some False) c' gs"
  shows "\<exists>e'. on_child m e = (Ret (), e') \<and> holds_items p e' (f # gs)"
proof (cases e)
  case (encoderImpl w ch)
  with assms(1,2) obtain c where c: "ch = Some c" "holds_items (Some False) c fs" by (cases ch) auto
  from assms(3) [OF c(2)] obtain c' where "m c = (Ret (), c')" "holds_items (Some False) c' gs" by auto
  with assms(1) c encoderImpl show ?thesis by (simp add: on_child_def)
qed

lemma EncodeListOf_holds:
  assumes "holds_items p e (f # fs)"
  shows "\<exists>e'. EncodeListOf vs e = (Ret (), e') \<and> holds_items p e' [f @ closed_items fs @ [VStruct vs]]"
proof -
  from EncodeList_holds [OF assms] obtain e1 where e1: "EncodeList e = (Ret (), e1)" "holds_items p e1 [f @ closed_items fs, []]" by auto
  from on_child_holds [OF e1(2), of "EncodeMulti vs" "[vs]"] EncodeMulti_holds [of "Some False" _ "[]" vs]
  obtain e2 where e2: "on_child (EncodeMulti vs) e1 = (Ret (), e2)" "holds_items p e2 [f @ closed_items fs, vs]" by auto
  from enc_flush_holds [OF e2(2)] e1(1) e2(1) show ?thesis by (auto simp: EncodeListOf_def bind_p_def)
qed

lemma call_holds:
  assumes "call_at k c fs = Some gs" and "holds_items p e fs"
  shows "\<exists>e'. at_depth k (call_proc c) e = (Ret (), e') \<and> holds_items p e' gs"
  using assms
proof (induction k c fs arbitrary: p e gs rule: call_at.induct)
  case (2 c f fs)
  then show ?case
    by (cases c) (auto dest: Encode_holds [of _ _ _ _ "_ :: gval"] EncodeList_holds EncodeListOf_holds)
next
  case (3 k c f fs)
  then obtain hs where hs: "call_at k c fs = Some hs" "gs = f # hs" by auto
  then have "fs \<noteq> []" by (cases fs) auto
  with on_child_holds [OF 3(3), of "at_depth k (call_proc c)" hs] 3(1) [OF hs(1)] hs(2) show ?case by auto
qed simp

lemma script_holds:
  "calls_at cs fs = Some gs \<Longrightarrow> holds_items p e fs \<Longrightarrow> \<exists>e'. enc_script cs e = (Ret (), e') \<and> holds_items p e' gs"
proof (induction cs arbitrary: fs e)
  case Nil
  then show ?case by (simp add: enc_script_def ret_p_def)
next
  case (Cons kc cs)
  obtain k c where kc: "kc = (k, c)" by (cases kc)
  with Cons.prems obtain hs where hs: "call_at k c fs = Some hs" "calls_at cs hs = Some gs" by (auto split: option.splits)
  from call_holds [OF hs(1) Cons.prems(2)] obtain e1 where
    "at_depth k (call_proc c) e = (Ret (), e1)" "holds_items p e1 hs" by auto
  with Cons.IH [OF hs(2)] show ?case by (auto simp: kc enc_script_def bind_p_def)
qed

text \<open>
  C9: encoding step by step. A program that uses an encoder and the encoders of the lists it opened, each only
  while its list is open, never sees an error, and after \<open>Close\<close> the output is the encoding of the items in the
  order of the calls, every list in the place where it was opened: the lists below an encoder are closed
  before the encoder writes again.
\<close>
theorem stream_encoder:
  assumes "calls_at cs [[]] = Some (f # fs)"
  shows "\<exists>e. then_p (enc_script cs) enc_Close NewEncoder = (Ret (), e) \<and>
    w_buf (e_real e) = concat (map enc (f @ closed_items fs)) \<and> e_child e = None"
proof -
  have "holds_items None NewEncoder [[]]" by (simp add: NewEncoder_def emptyWriter_def)
  from script_holds [OF assms this] obtain e1 where e1: "enc_script cs NewEncoder = (Ret (), e1)" "holds_items None e1 (f # fs)" by auto
  from enc_flush_holds [OF e1(2)] e1(1) show ?thesis by (auto simp: bind_p_def enc_Close_def)
qed

section \<open>Decoding lists\<close>

lemma Close_drains:
  assumes "rr_reader c = LimitReader r k" and "k \<le> length (avail r)"
  shows "Close c = (Ret (), c\<lparr>rr_reader := LimitReader (advance k r) 0\<rparr>)"
  using assms ReadUpTo_short [of "LimitReader r k" "Suc k"] by (simp add: Close_def proc_defs bind_p_def)

lemma decodeListOf_gives:
  assumes "list_all2 (\<lambda>v t. reads (decodeValue t) v) vs ts"
    and "next_bytes (concat (map enc vs)) c" and "length (concat (map enc vs)) \<le> rr_maxSB c"
  shows "gives (decodeListOf_loop ts) (concat (map enc vs)) c vs"
  using assms
proof (induction arbitrary: c rule: list_all2_induct)
  case Nil
  then show ?case by (simp add: gives_ret)
next
  case (Cons v vs t ts)
  have nb: "next_bytes (enc v) c" "next_bytes (concat (map enc vs)) (past (enc v) c)"
    using Cons.prems(1) by (simp_all add: next_bytes_append)
  have g: "gives (decodeNullable t) (enc v) c v"
    using reads_nullable [OF Cons.hyps(1)] Cons.prems(2) nb(1) by (simp add: reads_def decodeNullable_def)
  have "gives (decodeListOf_loop ts) (concat (map enc vs)) (past (enc v) c) vs"
    using Cons.prems nb(2) by (intro Cons.IH) simp_all
  with g show ?case by (simp add: gives_past handle_p_def ret_p_def past_append)
qed

lemma decodeListOf_short:
  assumes "list_all2 (\<lambda>v t. reads (decodeValue t) v) vs ts" and "type_ok t"
    and "next_bytes (concat (map enc vs)) c" and "length (concat (map enc vs)) \<le> rr_maxSB c" and "at_end (past (concat (map enc vs)) c)"
  shows "fst (decodeListOf_loop (ts @ t # us) c) = Fail ErrInvalidFormat"
  using assms(1,3-)
proof (induction arbitrary: c rule: list_all2_induct)
  case Nil
  then have "at_end c" by (simp add: past_def)
  then have "decodeNullable t c = (Fail EOF, c)"
    using decode_at_end [of c t] assms(2) by (simp add: decodeNullable_def nullable_at_end)
  then show ?case by (simp add: bind_p_def handle_p_def fail_p_def)
next
  case (Cons v vs t' ts)
  have nb: "next_bytes (enc v) c" "next_bytes (concat (map enc vs)) (past (enc v) c)"
    using Cons.prems(1) by (simp_all add: next_bytes_append)
  have g: "gives (decodeNullable t') (enc v) c v"
    using reads_nullable [OF Cons.hyps(1)] Cons.prems(2) nb(1) by (simp add: reads_def decodeNullable_def)
  have "fst (decodeListOf_loop (ts @ t # us) (past (enc v) c)) = Fail ErrInvalidFormat"
    using Cons.prems nb(2) by (intro Cons.IH) (simp_all add: past_append)
  with g show ?case
    by (cases "decodeListOf_loop (ts @ t # us) (past (enc v) c)")
      (simp add: gives_past handle_p_def ret_p_def bind_p_def)
qed

text \<open>The decoder of a list that was opened.\<close>

lemma DecodeList_opens:
  assumes "next_bytes (enc_list b) s" and "int_len b"
  shows "DecodeList (decoderImpl s None) =
    (Ret (listReader (past (hdr 0xC0 b) s) (length b)),
     decoderImpl (past (hdr 0xC0 b) s) (Some (listReader (past (hdr 0xC0 b) s) (length b))))"
  using readList_gives [OF assms]
  by (simp add: DecodeList_def bind_p_def dec_flush_def on_reader_def ReadList_def modify_p_def ret_p_def)

lemma DecodeListOf_prefix:
  assumes "next_bytes (enc_list (concat (map enc (vs @ ws)))) s" and "length (enc_list (concat (map enc (vs @ ws)))) \<le> rr_maxSB s"
    and "int_len (enc_list (concat (map enc (vs @ ws))))" and "list_all2 (\<lambda>v t. reads (decodeValue t) v) vs ts"
  shows "DecodeListOf ts (decoderImpl s None) = (Ret vs, decoderImpl (past (enc_list (concat (map enc (vs @ ws)))) s) None)"
proof -
  let ?b = "concat (map enc (vs @ ws))" and ?p = "concat (map enc vs)"
  let ?s = "past (hdr 0xC0 ?b) s"
  let ?c = "listReader ?s (length ?b)"
  note L = list_setup [OF assms(1-3)]
  have "next_bytes ?p ?c" "length ?p \<le> rr_maxSB ?c" using L(2,4) by (simp_all add: next_bytes_append)
  from decodeListOf_gives [OF assms(4) this] have g: "decodeListOf_loop ts ?c = (Ret vs, past ?p ?c)" by (simp add: gives_past)
  have "next_bytes ?b ?s" using assms(1) unfolding enc_list_def sized_hdr next_bytes_append [of "hdr 0xC0 ?b"] by (rule conjunct2)
  then have le: "length ?b \<le> length (avail (rr_reader ?s))" unfolding next_bytes_def by auto
  have r: "rr_reader (past ?p ?c) = LimitReader (advance (length ?p) (rr_reader ?s)) (length ?b - length ?p)"
    by (simp add: past_def listReader_def)
  have "length ?b - length ?p \<le> length (avail (advance (length ?p) (rr_reader ?s)))"
    using le by (subst avail_advance) auto
  from Close_drains [OF r this] have cl: "Close (past ?p ?c) = (Ret (), (past ?p ?c)\<lparr>rr_reader :=
      LimitReader (advance (length ?b) (rr_reader ?s)) 0\<rparr>)"
    by (simp add: advance_advance)
  show ?thesis
    using g cl DecodeList_opens [OF assms(1) L(1)]
    by (simp add: DecodeListOf_def bind_p_def in_open_list_def dec_flush_def ret_p_def enc_list_def sized_hdr past_append)
      (simp add: past_def advance_advance add.assoc)
qed

text \<open>
  A list that \<open>EncodeListOf\<close> wrote is read by \<open>DecodeListOf\<close>: asked for the first of its values it returns them,
  whatever the list holds beyond, and goes on behind the list; asked for more values than the list holds it
  fails with an invalid format.
\<close>
theorem list_of_roundtrip:
  assumes "list_all2 has_type vs ts" and "list_all type_ok (ts @ [t])"
    and "then_p (EncodeListOf vs) enc_Close NewEncoder = (Ret (), e)" and "int_len (w_buf (e_real e) @ rest)"
  shows "DecodeListOf (take j ts) (NewDecoder (w_buf (e_real e) @ rest)) =
      (Ret (take j vs), decoderImpl \<lparr>rr_reader = Buffer rest, rr_maxSB = length (w_buf (e_real e) @ rest)\<rparr> None) \<and>
    fst (DecodeListOf (ts @ t # us) (NewDecoder (w_buf (e_real e) @ rest))) = Fail ErrInvalidFormat"
proof -
  let ?b = "concat (map enc vs)"
  have "holds_items None NewEncoder [[]]" by (simp add: NewEncoder_def emptyWriter_def)
  from EncodeListOf_holds [OF this, of vs] obtain e1 where e1: "EncodeListOf vs NewEncoder = (Ret (), e1)" "holds_items None e1 [[VStruct vs]]"
    by auto
  from enc_flush_holds [OF e1(2)] assms(3) e1(1) have e: "w_buf (e_real e) = enc_list ?b" by (auto simp: bind_p_def enc_Close_def)
  let ?s = "\<lparr>rr_reader = Buffer (enc_list ?b @ rest), rr_maxSB = length (enc_list ?b @ rest)\<rparr>"
  have il: "int_len (enc_list ?b)" using assms(4) e by (simp add: int_len_def)
  have R: "list_all2 (\<lambda>v t. reads (decodeValue t) v) vs ts"
  proof (rule list_all2_all_nthI)
    show len: "length vs = length ts" using assms(1) by (rule list_all2_lengthD)
    fix i assume i: "i < length vs"
    with assms(1,2) len have "has_type (vs ! i) (ts ! i)" "type_ok (ts ! i)"
      by (auto simp: list_all2_conv_all_nth list_all_iff)
    moreover have "int_len (enc (vs ! i))" using il length_enc_item [of "vs ! i" vs] i by (auto intro: int_len_le)
    ultimately show "reads (decodeValue (ts ! i)) (vs ! i)" by (rule decode_enc)
  qed
  have n: "next_bytes (enc_list ?b) ?s" "length (enc_list ?b) \<le> rr_maxSB ?s" by (simp_all add: next_bytes_def)
  have v: "vs = take j vs @ drop j vs" by simp
  have "DecodeListOf (take j ts) (decoderImpl ?s None) = (Ret (take j vs), decoderImpl (past (enc_list ?b) ?s) None)"
    using DecodeListOf_prefix [of "take j vs" "drop j vs" ?s "take j ts", unfolded append_take_drop_id] n il list_all2_takeI [OF R, of j] by simp
  moreover
  note L = list_setup [OF n il]
  have "fst (DecodeListOf (ts @ t # us) (decoderImpl ?s None)) = Fail ErrInvalidFormat"
    using decodeListOf_short [OF R _ L(2,4,3), of t us] assms(2) DecodeList_opens [OF n(1) L(1)]
    by (cases "decodeListOf_loop (ts @ t # us) (listReader (past (hdr 0xC0 ?b) ?s) (length ?b))")
      (simp add: DecodeListOf_def bind_p_def in_open_list_def)
  ultimately show ?thesis by (simp add: e NewDecoder_def past_def)
qed

section \<open>The type of a decoded value\<close>

text \<open>What every value satisfies that a call returns.\<close>

definition yields :: "('s, 'e, 'a) proc \<Rightarrow> ('a \<Rightarrow> bool) \<Rightarrow> bool" where
  "yields m P \<longleftrightarrow> (\<forall>s x s'. m s = (Ret x, s') \<longrightarrow> P x)"

lemma yields_ret: "P x \<Longrightarrow> yields (ret_p x) P"
  by (simp add: yields_def ret_p_def)

lemma yields_bind: "yields m Q \<Longrightarrow> (\<And>x. Q x \<Longrightarrow> yields (k x) P) \<Longrightarrow> yields (bind_p m k) P"
  by (fastforce simp: yields_def bind_p_def split: prod.splits outcome.splits)

lemma yields_any: "yields m (\<lambda>_. True)"
  by (simp add: yields_def)

lemma yields_handle: "yields m P \<Longrightarrow> (\<And>e x. h e = Some x \<Longrightarrow> P x) \<Longrightarrow> yields (handle_p m h) P"
  by (fastforce simp: yields_def handle_p_def split: prod.splits outcome.splits option.splits)

lemma yields_get: "(\<And>s. yields (k s) P) \<Longrightarrow> yields (get_p k) P"
  by (simp add: yields_def get_p_def)

lemma yields_with_child: "yields body P \<Longrightarrow> yields (with_child body c) P"
proof -
  assume "yields body P"
  then have "yields (bind_p body (\<lambda>x. then_p Close (ret_p x))) P"
    by (rule yields_bind) (rule yields_bind [OF yields_any], rule yields_ret)
  then show ?thesis by (fastforce simp: yields_def with_child_def split: prod.splits)
qed

lemma yields_in_child: "yields body P \<Longrightarrow> yields (in_child body) P"
  unfolding in_child_def by (rule yields_bind [OF yields_any]) (rule yields_with_child)

lemma yields_in_child_or: "yields body P \<Longrightarrow> P z \<Longrightarrow> yields (in_child_or z body) P"
  unfolding in_child_or_def
  by (rule yields_bind [OF yields_any]) (auto split: option.split intro: yields_ret yields_with_child)

lemmas yields_intros = yields_ret yields_handle yields_get yields_in_child yields_in_child_or

lemma yields_items:
  "yields m P \<Longrightarrow> list_all P acc \<Longrightarrow> yields (decode_items n m acc) (list_all P)"
proof (induction n arbitrary: acc)
  case 0
  then show ?case by (simp add: yields_def lift_p_def)
next
  case (Suc n)
  have "yields (handle_p (bind_p m (\<lambda>v. ret_p (Some v))) (\<lambda>e. if e = EOF then Some None else None)) (pred_option P)"
    by (rule yields_handle, rule yields_bind [OF Suc.prems(1)]) (auto intro: yields_ret split: if_splits)
  then show ?case using Suc by (auto intro!: yields_bind yields_ret split: option.split)
qed

lemma yields_array:
  "yields m P \<Longrightarrow> P z \<Longrightarrow> yields (decode_array n z m) (\<lambda>vs. length vs = n \<and> list_all P vs)"
proof (induction n)
  case 0
  then show ?case by (simp add: yields_ret)
next
  case (Suc n)
  have "yields (handle_p (bind_p m (\<lambda>v. ret_p (Some v))) (\<lambda>e. if e = EOF then Some None else None)) (pred_option P)"
    by (rule yields_handle, rule yields_bind [OF Suc.prems(1)]) (auto intro: yields_ret split: if_splits)
  with Suc show ?case
    by (auto intro!: yields_bind [where Q = "pred_option P"] yields_ret yields_bind [OF Suc.IH] simp: list_all_iff split: option.split)
qed

lemma yields_fields:
  "list_all2 (\<lambda>(z, m) P. yields m P \<and> P z) fs Ps \<Longrightarrow> yields (decode_fields fs) (\<lambda>vs. list_all2 (\<lambda>v P. P v) vs Ps)"
proof (induction rule: list_all2_induct)
  case Nil
  then show ?case by (simp add: yields_ret)
next
  case (Cons zm fs P Ps)
  obtain z m where zm: "zm = (z, m)" by (cases zm)
  have "yields (handle_p m (\<lambda>e. if e = EOF then Some z else None)) P"
    using Cons.hyps(1) zm by (auto intro!: yields_handle split: if_splits)
  then show ?case using Cons.IH
    by (auto simp: zm intro!: yields_bind [where Q = P] yields_bind [OF Cons.IH] yields_ret)
qed

lemma zero_val_typed: "type_ok t \<Longrightarrow> has_type (zero_val t) t"
proof (induction t)
  case (TPrim k)
  then show ?case by (cases k) (auto simp: uintFits_def intFits_def)
qed (auto simp: list_all_iff list_all2_conv_all_nth)

lemma ReadValue_typed: "yields (ReadValue k) (\<lambda>p. has_type (VPrim p) (TPrim k))"
  by (cases k) (auto simp: ReadValue_def readUintValue_def readIntValue_def yields_def bind_p_def ret_p_def fail_p_def
      split: prod.splits outcome.splits option.splits if_splits)

lemma decodeValue_typed: "type_ok t \<Longrightarrow> yields (decodeValue t) (\<lambda>v. has_type v t)"
proof (induction t)
  case (TPrim k)
  show ?case by (auto intro!: yields_bind [OF ReadValue_typed] yields_ret)
next
  case TBytes
  show ?case by (auto intro!: yields_handle yields_bind [OF yields_any] yields_ret split: if_splits)
next
  case (TByteArray n)
  show ?case by (auto intro!: yields_bind [OF yields_any] yields_ret)
next
  case (TSlice t)
  then have "yields (nullable (zero_val t) (decodeValue t)) (\<lambda>v. has_type v t)"
    by (auto simp: nullable_def zero_val_typed intro!: yields_handle split: if_splits)
  note yields_items [OF this]
  then show ?case by (auto simp del: decode_items.simps intro!: yields_intros yields_bind [where Q = "list_all (\<lambda>v. has_type v t)"])
next
  case (TArray n t)
  then have "yields (nullable (zero_val t) (decodeValue t)) (\<lambda>v. has_type v t)"
    by (auto simp: nullable_def zero_val_typed intro!: yields_handle split: if_splits)
  from yields_array [OF this] TArray.prems show ?case
    by (auto simp: zero_val_typed intro!: yields_in_child yields_bind [where Q = "\<lambda>vs. length vs = n \<and> list_all (\<lambda>v. has_type v t) vs"] yields_ret)
next
  case (TPtr t)
  then show ?case by (auto intro!: yields_handle yields_bind [where Q = "\<lambda>v. has_type v t"] yields_ret split: if_splits)
next
  case (TStruct ts)
  have "list_all2 (\<lambda>(z, m) P. yields m P \<and> P z) (map (\<lambda>t. (zero_val t, decodeValue t)) ts) (map (\<lambda>t v. has_type v t) ts)"
    using TStruct by (auto simp: list_all2_conv_all_nth list_all_iff zero_val_typed)
  from yields_fields [OF this]
  show ?case by (auto intro!: yields_in_child yields_bind [where Q = "\<lambda>vs. list_all2 has_type vs ts"] yields_ret
      simp: list_all2_map2)
qed

text \<open>
  C8: whatever the input, a value that is decoded has the type it was decoded for: numbers fit their width, arrays have
  their length, structs all their fields. It can be encoded, and the encoding, shorter or longer than what was
  decoded, is decoded to the same value.
\<close>
theorem decoded_typed:
  assumes "UnmarshalFromBytes bs t = Ret (v, rest)" and "type_ok t"
  shows "has_type v t \<and> (\<exists>cs. MarshalToBytes v = Ret cs \<and> (int_len cs \<longrightarrow> UnmarshalFromBytes cs t = Ret (v, [])))"
proof -
  have "has_type v t" using assms(1) decodeValue_typed [OF assms(2)]
    by (auto simp: UnmarshalFromBytes_def yields_def split: prod.splits outcome.splits)
  then show ?thesis using Unmarshal_enc [of v t "[]"] assms(2) by (auto simp: MarshalToBytes_enc)
qed

section \<open>Witnesses\<close>

text \<open>A list within a list, both left open when the outer encoder is used again.\<close>

definition nested_calls :: "(nat \<times> enc_call) list" where
  "nested_calls = [(0, CallEncodeList), (1, CallEncode (VPrim (PUint 1))), (1, CallEncodeList), (2, CallEncode (VPrim (PUint 2))),
     (1, CallEncodeListOf [VPrim (PUint 3)]), (0, CallEncode (VPrim (PUint 4)))]"

theorem stream_encoder_witness:
  "\<exists>e. then_p (enc_script nested_calls) enc_Close NewEncoder = (Ret (), e) \<and>
    w_buf (e_real e) = [0xC5, 1, 0xC1, 2, 0xC1, 3, 4]"
proof -
  have "calls_at nested_calls [[]] = Some ([VStruct [VPrim (PUint 1), VStruct [VPrim (PUint 2)], VStruct [VPrim (PUint 3)]], VPrim (PUint 4)] # [])"
    by (simp add: nested_calls_def numeral_2_eq_2)
  from stream_encoder [OF this] obtain e where e: "then_p (enc_script nested_calls) enc_Close NewEncoder = (Ret (), e)"
    "w_buf (e_real e) = concat (map enc [VStruct [VPrim (PUint 1), VStruct [VPrim (PUint 2)], VStruct [VPrim (PUint 3)]], VPrim (PUint 4)])"
    by auto
  have "concat (map enc [VStruct [VPrim (PUint 1), VStruct [VPrim (PUint 2)], VStruct [VPrim (PUint 3)]], VPrim (PUint 4)]) =
    [0xC5, 1, 0xC1, 2, 0xC1, 3, 4]" by code_simp
  with e show ?thesis by auto
qed

theorem list_of_roundtrip_witness:
  "fst (DecodeListOf [TPrim KString] (NewDecoder [0xC3, 97, 98, 99])) = Ret [VPrim (PString [97])] \<and>
   fst (DecodeListOf [TPrim KString, TPrim KString, TPrim KString, TPrim KString] (NewDecoder [0xC3, 97, 98, 99])) = Fail ErrInvalidFormat"
proof -
  let ?vs = "[VPrim (PString [97]), VPrim (PString [98]), VPrim (PString [99])]" and ?ts = "[TPrim KString, TPrim KString, TPrim KString]"
  let ?e = "encoderImpl \<lparr>w_buf = [0xC3, 97, 98, 99], w_parent = None\<rparr> None"
  have e: "then_p (EncodeListOf ?vs) enc_Close NewEncoder = (Ret (), ?e)" by code_simp
  have "list_all2 has_type ?vs ?ts" "list_all type_ok (?ts @ [TPrim KString])" by simp_all
  from list_of_roundtrip [OF this e, of "[]" 1 "[]"]
  show ?thesis by (simp add: int_len_def)
qed

theorem decoded_typed_witness:
  "UnmarshalFromBytes [0xC2, 0x81, 5] (TStruct [TPrim (KUint 8), TBytes]) = Ret (VStruct [VPrim (PUint 5), VBytes None], []) \<and>
   UnmarshalFromBytes [0xC3, 5, 0xF8, 0] (TStruct [TPrim (KUint 8), TBytes]) = Ret (VStruct [VPrim (PUint 5), VBytes None], [])"
proof -
  have d: "UnmarshalFromBytes [0xC2, 0x81, 5] (TStruct [TPrim (KUint 8), TBytes]) = Ret (VStruct [VPrim (PUint 5), VBytes None], [])"
    by code_simp
  have m: "MarshalToBytes (VStruct [VPrim (PUint 5), VBytes None]) = Ret [0xC3, 5, 0xF8, 0]" by code_simp
  from decoded_typed [OF d] m d show ?thesis by (simp add: int_len_def)
qed

end
