(* ===== verification/Address_Text.thy ===== *)
theory Address_Text
  imports Icon_Client_Props Codec_Stream
begin

text \<open>
  Addresses of ICON accounts and contracts (src/common/address.go), byte strings in JSON
  (src/common/hexbytes.go) and the address text of the client (src/chain/icon/client/type.go). An address is
  a byte that tells a contract from an account, and twenty bytes; it is set in place. What
  \<open>encoding/json\<close> makes of a document is a \<open>jdoc\<close>: a string, null, or other text.
\<close>

section \<open>Addresses\<close>

definition AddressIDBytes :: nat where "AddressIDBytes = 20"
definition AddressBytes :: nat where "AddressBytes = AddressIDBytes + 1"

type_synonym Address = bytes

type_synonym 'a aproc = "(Address, err, 'a) proc"

definition newAddress :: Address where "newAddress = replicate AddressBytes 0"

definition IsContract :: "Address \<Rightarrow> bool" where "IsContract a \<longleftrightarrow> a ! 0 = 1"

definition Address_String :: "Address \<Rightarrow> string" where
  "Address_String a = (if a ! 0 = 1 then ''cx'' @ hex_EncodeToString (drop 1 a) else ''hx'' @ hex_EncodeToString (drop 1 a))"

definition Address_ID :: "Address \<Rightarrow> bytes" where "Address_ID a = drop 1 a"

text \<open>\<open>copy(a[k:], b)\<close>\<close>

definition copy_at :: "nat \<Rightarrow> bytes \<Rightarrow> bytes \<Rightarrow> bytes" where
  "copy_at k b a = take k a @ take (length a - k) b @ drop (k + length b) a"

definition SetTypeAndID :: "bool \<Rightarrow> bytes option \<Rightarrow> unit aproc" where
  "SetTypeAndID ic i = (case i of
      None \<Rightarrow> fail_p ErrIllegalArgument
    | Some b \<Rightarrow> modify_p (\<lambda>a.
        (if length b < AddressIDBytes then copy_at (AddressIDBytes - length b + 1) b a else copy_at 1 b a)[0 := if ic then 1 else 0]))"

text \<open>The first byte of an empty slice is out of range.\<close>

definition SetBytes :: "bytes option \<Rightarrow> unit aproc" where
  "SetBytes b = (case b of
      None \<Rightarrow> fail_p ErrIllegalArgument
    | Some [] \<Rightarrow> panic_p
    | Some (t # i) \<Rightarrow> if t = 0 then SetTypeAndID False (Some i) else if t = 1 then SetTypeAndID True (Some i)
        else fail_p ErrIllegalArgument)"

definition addr_SetString :: "string \<Rightarrow> unit aproc" where
  "addr_SetString s = (let isContract = (length s \<ge> 2 \<and> take 2 s = ''cx'');
      s1 = (if length s \<ge> 2 \<and> take 2 s \<in> {''cx'', ''hx'', ''0x''} then drop 2 s else s);
      s2 = (if odd (length s1) then CHR ''0'' # s1 else s1) in
    (case hex_DecodeString s2 of None \<Rightarrow> fail_p (StdError ''encoding/hex'') | Some b \<Rightarrow> SetTypeAndID isContract (Some b)))"

text \<open>The constructors ignore the error, except that for a text, which panics.\<close>

definition NewAccountAddress :: "bytes option \<Rightarrow> Address" where
  "NewAccountAddress b = snd (SetTypeAndID False b newAddress)"

definition NewContractAddress :: "bytes option \<Rightarrow> Address" where
  "NewContractAddress b = snd (SetTypeAndID True b newAddress)"

definition NewAddress :: "bytes option \<Rightarrow> Address result" where
  "NewAddress b = (case SetBytes b newAddress of (Panic, a) \<Rightarrow> Panic | (_, a) \<Rightarrow> Ret a)"

definition NewAddressFromString :: "string \<Rightarrow> Address result" where
  "NewAddressFromString s = (case addr_SetString s newAddress of (Ret _, a) \<Rightarrow> Ret a | (_, a) \<Rightarrow> Panic)"

text \<open>The digest of the uncompressed key without its format byte; \<open>H\<close> is SHA3-256.\<close>

definition NewAccountAddressFromPublicKey :: "(bytes \<Rightarrow> bytes) \<Rightarrow> bytes option \<Rightarrow> Address result" where
  "NewAccountAddressFromPublicKey H pk = (case pk of
      None \<Rightarrow> Panic
    | Some b \<Rightarrow> if length b < 1 then Panic else (let digest = H (drop 1 b) in
        if length digest < 20 then Panic else Ret (snd (SetTypeAndID False (Some (drop (length digest - 20) digest)) newAddress))))"

definition Address_Equal :: "Address option \<Rightarrow> Address option \<Rightarrow> bool" where
  "Address_Equal a a2 = (if a2 = None \<and> a = None then True else if a2 = None \<or> a = None then False else the a = the a2)"

definition addr_RLPEncodeSelf :: "Address \<Rightarrow> unit eproc" where
  "addr_RLPEncodeSelf a = Encode (VBytes (Some a))"

definition addr_RLPDecodeSelf :: "Address \<Rightarrow> Address dproc" where
  "addr_RLPDecodeSelf a = bind_p DecodeBytes (\<lambda>bs. case SetBytes (Some bs) a of
      (Ret _, a') \<Rightarrow> ret_p a' | (Fail e, _) \<Rightarrow> fail_p e | (Panic, _) \<Rightarrow> panic_p | (OutOfFuel, _) \<Rightarrow> lift_p OutOfFuel)"

section \<open>Texts in JSON\<close>

datatype jdoc = Quoted string | Null | OtherText string

text \<open>\<open>json.Unmarshal\<close> into a string, which null leaves as it is, and into a pointer to a string.\<close>

definition json_string :: "jdoc \<Rightarrow> string result" where
  "json_string d = (case d of Quoted s \<Rightarrow> Ret s | Null \<Rightarrow> Ret [] | OtherText s \<Rightarrow> Fail (StdError ''json''))"

definition json_string_ptr :: "jdoc \<Rightarrow> string option result" where
  "json_string_ptr d = (case d of Quoted s \<Rightarrow> Ret (Some s) | Null \<Rightarrow> Ret None | OtherText s \<Rightarrow> Fail (StdError ''json''))"

definition addr_MarshalJSON :: "Address \<Rightarrow> jdoc" where
  "addr_MarshalJSON a = Quoted (Address_String a)"

definition addr_UnmarshalJSON :: "jdoc \<Rightarrow> unit aproc" where
  "addr_UnmarshalJSON d = bind_p (lift_p (json_string d)) addr_SetString"

definition decode_hex :: "string \<Rightarrow> bytes option result" where
  "decode_hex s = (case hex_DecodeString s of None \<Rightarrow> Fail (StdError ''encoding/hex'') | Some b \<Rightarrow> Ret (Some b))"

definition RawHexBytes_String :: "bytes option \<Rightarrow> string" where
  "RawHexBytes_String rh = (case rh of None \<Rightarrow> ''null'' | Some b \<Rightarrow> hex_EncodeToString b)"

definition RawHexBytes_MarshalJSON :: "bytes option \<Rightarrow> jdoc" where
  "RawHexBytes_MarshalJSON rh = (case rh of None \<Rightarrow> Null | Some b \<Rightarrow> Quoted (hex_EncodeToString b))"

definition RawHexBytes_UnmarshalJSON :: "jdoc \<Rightarrow> bytes option result" where
  "RawHexBytes_UnmarshalJSON d = bind_r (json_string_ptr d) (\<lambda>os. case os of None \<Rightarrow> Ret None | Some s \<Rightarrow> decode_hex s)"

definition HexBytes_String :: "bytes option \<Rightarrow> string" where
  "HexBytes_String hs = (case hs of None \<Rightarrow> ''null'' | Some b \<Rightarrow> ''0x'' @ hex_EncodeToString b)"

definition HexBytes_MarshalJSON :: "bytes option \<Rightarrow> jdoc" where
  "HexBytes_MarshalJSON hs = (case hs of None \<Rightarrow> Null | Some b \<Rightarrow> Quoted (''0x'' @ hex_EncodeToString b))"

definition HexBytes_UnmarshalJSON :: "jdoc \<Rightarrow> bytes option result" where
  "HexBytes_UnmarshalJSON d = bind_r (json_string_ptr d) (\<lambda>os. case os of
      None \<Rightarrow> Ret None
    | Some s \<Rightarrow> decode_hex (if length s \<ge> 2 \<and> take 2 s = ''0x'' then drop 2 s else s))"

definition PrefixLen :: nat where "PrefixLen = 4"

definition HexPre :: "bytes option \<Rightarrow> string" where
  "HexPre bs = (case bs of None \<Rightarrow> ''<nil>''
    | Some b \<Rightarrow> if length b > PrefixLen then hex_EncodeToString (take PrefixLen b) @ ''..'' else hex_EncodeToString b)"

section \<open>The address text of the client\<close>

text \<open>\<open>hex.Decode\<close> into a destination of \<open>cap\<close> bytes: a byte beyond it is out of range.\<close>

fun hex_Decode :: "nat \<Rightarrow> string \<Rightarrow> bytes result" where
  "hex_Decode cap [] = Ret []"
| "hex_Decode cap (p # q # cs) = (case (hex_val p, hex_val q) of
      (Some a, Some b) \<Rightarrow> if cap = 0 then Panic
        else bind_r (hex_Decode (cap - 1) cs) (\<lambda>bs. Ret (word_of_nat (a * 16 + b) # bs))
    | _ \<Rightarrow> Fail (StdError ''encoding/hex''))"
| "hex_Decode cap [p] = Fail (StdError ''encoding/hex'')"

definition Address_Value :: "string \<Rightarrow> bytes result" where
  "Address_Value a = (if length a < 2 then Panic
     else if take 2 a \<notin> {''cx'', ''hx''} then Fail (StdError (''invalid prefix '' @ take 2 a))
     else bind_r (hex_Decode 20 (drop 2 a)) (\<lambda>b.
       if length b \<noteq> 20 then Fail (StdError ''invalid length'') else Ret ((if take 2 a = ''cx'' then 1 else 0) # b)))"

definition client_NewAddress :: "bytes \<Rightarrow> string" where
  "client_NewAddress b = (if length b \<noteq> 21 then [] else if b ! 0 = 1 then ''cx'' @ hex_EncodeToString (drop 1 b)
     else if b ! 0 = 0 then ''hx'' @ hex_EncodeToString (drop 1 b) else [])"

section \<open>Well-formed addresses\<close>

definition address_ok :: "Address \<Rightarrow> bool" where
  "address_ok a \<longleftrightarrow> length a = AddressBytes \<and> a ! 0 \<in> {0, 1}"

lemmas address_sizes = AddressBytes_def AddressIDBytes_def

lemma length_copy_at [simp]: "k \<le> length a \<Longrightarrow> length (copy_at k b a) = length a"
  by (simp add: copy_at_def)

lemma SetTypeAndID_ok:
  assumes "SetTypeAndID ic i a = (Ret (), a')" and "length a = AddressBytes"
  shows "address_ok a' \<and> IsContract a' = ic"
proof -
  from assms(1) obtain b where i: "i = Some b" by (cases i) (auto simp: SetTypeAndID_def fail_p_def)
  have "length (if length b < AddressIDBytes then copy_at (AddressIDBytes - length b + 1) b a else copy_at 1 b a) = 21"
    using assms(2) by (simp add: address_sizes)
  then show ?thesis using assms(1) by (cases ic) (auto simp: i SetTypeAndID_def modify_p_def address_ok_def IsContract_def address_sizes nth_list_update)
qed

lemma SetBytes_ok:
  assumes "SetBytes b a = (Ret (), a')" and "length a = AddressBytes"
  shows "address_ok a'"
  using assms SetTypeAndID_ok by (auto simp: SetBytes_def fail_p_def panic_p_def split: option.splits list.splits if_splits)

lemma SetString_ok:
  assumes "addr_SetString s a = (Ret (), a')" and "length a = AddressBytes"
  shows "address_ok a' \<and> IsContract a' = (take 2 s = ''cx'')"
  using assms SetTypeAndID_ok [of _ _ a a']
  by (auto simp: addr_SetString_def Let_def fail_p_def split: option.splits if_splits)

section \<open>Reading what was written\<close>

lemma address_cases: "address_ok a \<Longrightarrow> \<exists>i. a = (if IsContract a then 1 else 0) # i \<and> length i = 20"
  by (cases a) (auto simp: address_ok_def IsContract_def address_sizes)

lemma SetTypeAndID_full:
  assumes "length i = 20" and "length b = AddressBytes"
  shows "SetTypeAndID ic (Some i) b = (Ret (), (if ic then 1 else 0) # i)"
proof -
  obtain x y where "b = x # y" using assms(2) by (cases b) (auto simp: address_sizes)
  then show ?thesis using assms by (simp add: SetTypeAndID_def modify_p_def copy_at_def address_sizes)
qed

lemma length_hex: "length (hex_EncodeToString b) = 2 * length b"
  by (simp add: hex_EncodeToString_def length_concat comp_def sum_list_triv)

lemma hex_Decode_roundtrip: "length b \<le> cap \<Longrightarrow> hex_Decode cap (hex_EncodeToString b) = Ret b"
proof (induction b arbitrary: cap)
  case (Cons x b)
  have "unat x div 16 < 16" "unat x mod 16 < 16" using unsigned_less [of x, where ?'a = nat] by simp_all
  moreover have "unat x div 16 * 16 + unat x mod 16 = unat x" by (rule div_mult_mod_eq)
  moreover have "hex_Decode (cap - 1) (hex_EncodeToString b) = Ret b" using Cons by (cases cap) auto
  ultimately show ?case using Cons.prems by (simp add: hex_EncodeToString_def hex_val_digit)
qed (simp add: hex_EncodeToString_def)

lemma take2: "take 2 (a # b # xs) = [a, b]" by (simp add: numeral_2_eq_2)

lemma addr_SetString_String:
  assumes "address_ok a" and "length b = AddressBytes"
  shows "addr_SetString (Address_String a) b = (Ret (), a)"
proof -
  from address_cases [OF assms(1)] obtain i where i: "a = (if IsContract a then 1 else 0) # i" "length i = 20" by blast
  then show ?thesis
    using SetTypeAndID_full [OF i(2) assms(2)] i(1)
    by (auto simp: addr_SetString_def Address_String_def Let_def take2 length_hex hex_roundtrip IsContract_def)
qed

lemma address_bytes_read:
  assumes "address_ok a" and "length b = AddressBytes"
  shows "SetBytes (Some a) b = (Ret (), a)"
proof -
  from address_cases [OF assms(1)] obtain i where i: "a = (if IsContract a then 1 else 0) # i" "length i = 20" by blast
  then show ?thesis using SetTypeAndID_full [OF i(2) assms(2)] by (auto simp: SetBytes_def split: if_splits)
qed

text \<open>What an encoder has written after a call and \<open>Close\<close>.\<close>

definition written :: "unit eproc \<Rightarrow> bytes" where
  "written m = w_buf (e_real (snd (then_p m enc_Close NewEncoder)))"

lemma written_Encode: "written (Encode v) = enc v"
proof -
  have "holds_items None NewEncoder [[]]" by (simp add: NewEncoder_def emptyWriter_def)
  from Encode_holds [OF this, of v] obtain e where e: "Encode v NewEncoder = (Ret (), e)" "holds_items None e [[v]]" by auto
  from enc_flush_holds [OF e(2)] e(1) show ?thesis by (auto simp: written_def bind_p_def enc_Close_def)
qed

lemma DecodeBytes_written:
  assumes "int_len (enc_bytes (Some b) @ rest)"
  shows "DecodeBytes (NewDecoder (enc_bytes (Some b) @ rest)) =
    (Ret b, decoderImpl \<lparr>rr_reader = Buffer rest, rr_maxSB = length (enc_bytes (Some b) @ rest)\<rparr> None)"
proof -
  let ?s = "\<lparr>rr_reader = Buffer (enc_bytes (Some b) @ rest), rr_maxSB = length (enc_bytes (Some b) @ rest)\<rparr>"
  have "gives readBytes (enc_bytes (Some b)) ?s b"
    using assms enc_bytes_length [of b] by (intro readBytes_gives) (auto simp: next_bytes_def int_len_def)
  then show ?thesis by (simp add: DecodeBytes_def bind_p_def dec_flush_def NewDecoder_def on_reader_def ReadBytes_def gives_past past_def)
qed

text \<open>
  A well-formed address is read back from its text, from its bytes, from JSON and from RLP, into an address that
  held anything before; the client decodes the text to the same bytes, and writes the same text for the bytes.
\<close>
theorem address_roundtrip:
  assumes "address_ok a" and "length b = AddressBytes"
  shows "addr_SetString (Address_String a) b = (Ret (), a) \<and> SetBytes (Some a) b = (Ret (), a) \<and>
    addr_UnmarshalJSON (addr_MarshalJSON a) b = (Ret (), a) \<and>
    fst (addr_RLPDecodeSelf b (NewDecoder (written (addr_RLPEncodeSelf a)))) = Ret a \<and>
    Address_Value (Address_String a) = Ret a \<and> client_NewAddress a = Address_String a"
proof (intro conjI)
  note s = addr_SetString_String [OF assms] and sb = address_bytes_read [OF assms]
  show "addr_SetString (Address_String a) b = (Ret (), a)" "SetBytes (Some a) b = (Ret (), a)" by (rule s sb)+
  show "addr_UnmarshalJSON (addr_MarshalJSON a) b = (Ret (), a)"
    by (simp add: addr_UnmarshalJSON_def addr_MarshalJSON_def json_string_def lift_p_def bind_p_def s)
  from address_cases [OF assms(1)] obtain i where i: "a = (if IsContract a then 1 else 0) # i" "length i = 20" by blast
  have l: "length a = 21" using i by (metis length_Cons eval_nat_numeral(3) numeral_plus_one semiring_norm(5) Suc_eq_plus1)
  have "int_len (enc_bytes (Some a) @ [])" using l by (simp add: int_len_def enc_bytes_def sized_def)
  note d = DecodeBytes_written [OF this]
  show "fst (addr_RLPDecodeSelf b (NewDecoder (written (addr_RLPEncodeSelf a)))) = Ret a"
    using d by (simp add: addr_RLPDecodeSelf_def addr_RLPEncodeSelf_def written_Encode bind_p_def sb ret_p_def)
  show "Address_Value (Address_String a) = Ret a"
    using i hex_Decode_roundtrip [of i 20] by (cases "IsContract a") (auto simp: Address_Value_def Address_String_def IsContract_def take2)
  show "client_NewAddress a = Address_String a"
    using assms(1) by (auto simp: client_NewAddress_def Address_String_def address_ok_def address_sizes)
qed

text \<open>
  Every operation that sets an address leaves a well-formed one, a contract exactly when it was told so, whatever
  text or bytes it was given; a text without prefix is an account.
\<close>
theorem address_setters:
  assumes "length a = AddressBytes"
    and "SetTypeAndID ic i a = (Ret (), a') \<or> SetBytes (Some ((if ic then 1 else 0) # j)) a = (Ret (), a') \<or>
      addr_SetString s a = (Ret (), a') \<and> ic = (take 2 s = ''cx'')"
  shows "address_ok a' \<and> IsContract a' = ic \<and> Address_Value (Address_String a') = Ret a'"
proof -
  have "address_ok a' \<and> IsContract a' = ic"
    using assms SetTypeAndID_ok [of ic _ a a'] SetString_ok [of s a a'] by (auto simp: SetBytes_def split: if_splits)
  moreover from this address_cases [of a'] obtain i where "a' = (if IsContract a' then 1 else 0) # i" "length i = 20" by blast
  ultimately show ?thesis
    using hex_Decode_roundtrip [of i 20] by (cases "IsContract a'") (auto simp: Address_Value_def Address_String_def IsContract_def take2)
qed

lemma RawHexBytes_read: "RawHexBytes_UnmarshalJSON (RawHexBytes_MarshalJSON b) = Ret b"
  by (cases b) (simp_all add: RawHexBytes_UnmarshalJSON_def RawHexBytes_MarshalJSON_def json_string_ptr_def decode_hex_def hex_roundtrip)

text \<open>Byte strings in JSON, with and without prefix; nil is null.\<close>

theorem hexbytes_json_roundtrip:
  "RawHexBytes_UnmarshalJSON (RawHexBytes_MarshalJSON b) = Ret b \<and> HexBytes_UnmarshalJSON (HexBytes_MarshalJSON b) = Ret b"
  by (cases b) (simp_all add: RawHexBytes_UnmarshalJSON_def RawHexBytes_MarshalJSON_def HexBytes_UnmarshalJSON_def
      HexBytes_MarshalJSON_def json_string_ptr_def decode_hex_def hex_roundtrip take2)

text \<open>
  An address that is read from an empty byte string panics, and so does the value of a client address with more than
  forty digits; an address that is set again with a short identifier keeps bytes of the one before.
\<close>
theorem address_panics:
  "fst (addr_RLPDecodeSelf newAddress (NewDecoder [0x80])) = Panic \<and>
   Address_Value (''hx'' @ replicate 42 (CHR ''0'')) = Panic \<and>
   snd (addr_SetString ''hx01'' (snd (addr_SetString (''hx'' @ replicate 40 (CHR ''2'')) newAddress))) = 0 # replicate 19 0x22 @ [1]"
  by code_simp

section \<open>Witnesses\<close>

definition sample_address :: Address where
  "sample_address = 1 # replicate 19 0xAB @ [7]"

theorem address_roundtrip_witness:
  "addr_SetString (''cx'' @ concat (replicate 19 ''ab'') @ ''07'') newAddress = (Ret (), sample_address)"
proof -
  have "address_ok sample_address" "length newAddress = AddressBytes" by code_simp+
  from address_roundtrip [OF this] have "addr_SetString (Address_String sample_address) newAddress = (Ret (), sample_address)" by blast
  moreover have "Address_String sample_address = ''cx'' @ concat (replicate 19 ''ab'') @ ''07''" by code_simp
  ultimately show ?thesis by simp
qed

theorem address_setters_witness:
  "address_ok (NewAccountAddress (Some [1, 2, 3])) \<and> \<not> IsContract (NewAccountAddress (Some [1, 2, 3]))"
proof -
  have "length newAddress = AddressBytes" by code_simp
  moreover have "SetTypeAndID False (Some [1, 2, 3]) newAddress = (Ret (), NewAccountAddress (Some [1, 2, 3]))" by code_simp
  ultimately show ?thesis using address_setters [of newAddress False "Some [1, 2, 3]" "NewAccountAddress (Some [1, 2, 3])"] by blast
qed

end
