(* ===== verification/Signature.thy ===== *)
theory Signature
  imports Address_Text
begin

text \<open>
  Signatures in their formats (src/common/crypto/signature.go), private keys (key.go) and the wallet that signs transactions
  (src/common/wallet/wallet.go). Inside, a signature is \<open>[V|R|S]\<close> with the recovery flag of the ecdsa package, or \<open>[R|S]\<close>;
  outside it is \<open>[R|S|V]\<close> or \<open>[V|R|S]\<close> with a flag that starts at 0. The curve operations of the package
  dcrec/secp256k1 are parameters.
\<close>

section \<open>Formats\<close>

definition SignatureLenRawWithV :: nat where "SignatureLenRawWithV = 65"
definition SignatureLenRaw :: nat where "SignatureLenRaw = 64"
definition HashLen :: nat where "HashLen = 32"
definition PrivateKeyLen :: nat where "PrivateKeyLen = 32"
definition compactSigMagicOffset :: byte where "compactSigMagicOffset = 27"

lemmas signature_sizes = SignatureLenRawWithV_def SignatureLenRaw_def HashLen_def

type_synonym Signature = bytes

definition recoverFlagToECDSA :: "byte \<Rightarrow> byte" where
  "recoverFlagToECDSA flag = flag + compactSigMagicOffset"

definition recoverFlagToCompatible :: "byte \<Rightarrow> byte" where
  "recoverFlagToCompatible flag = flag - compactSigMagicOffset"

definition parseSignature :: "bytes \<Rightarrow> bytes result" where
  "parseSignature sig = (if length sig = 0 then Fail (StdError ''signature bytes are empty'')
     else if length sig = SignatureLenRawWithV then
       Ret ((copy_at 1 sig (replicate SignatureLenRawWithV 0))[0 := recoverFlagToECDSA (sig ! SignatureLenRaw)])
     else if length sig = SignatureLenRaw then Ret (copy_at 0 sig (replicate SignatureLenRaw 0))
     else Fail (StdError ''wrong raw signature format''))"

definition ParseSignature :: "bytes \<Rightarrow> Signature result" where
  "ParseSignature sig = bind_r (parseSignature sig) (\<lambda>data. Ret data)"

definition ParseSignatureVRS :: "bytes \<Rightarrow> Signature result" where
  "ParseSignatureVRS sig = (if length sig \<noteq> SignatureLenRawWithV then Fail (StdError ''wrong raw signature format'')
     else Ret (sig[0 := recoverFlagToECDSA (sig ! 0)]))"

definition HasV :: "Signature \<Rightarrow> bool" where
  "HasV sig \<longleftrightarrow> length sig = SignatureLenRawWithV"

definition SerializeRS :: "Signature \<Rightarrow> bytes result" where
  "SerializeRS sig = (if length sig = SignatureLenRaw then Ret sig
     else if length sig = SignatureLenRawWithV then Ret (drop 1 sig) else Fail (StdError ''not a valid signature''))"

definition SerializeVRS :: "Signature \<Rightarrow> bytes result" where
  "SerializeVRS sig = (if \<not> HasV sig then Fail (StdError ''no V value'')
     else (let s = copy_at 0 sig (replicate SignatureLenRawWithV 0) in Ret (s[0 := recoverFlagToCompatible (s ! 0)])))"

definition SerializeRSV :: "Signature \<Rightarrow> bytes result" where
  "SerializeRSV sig = (if \<not> HasV sig then Fail (StdError ''no V value'')
     else Ret ((copy_at 0 (drop 1 sig) (replicate SignatureLenRawWithV 0))[SignatureLenRaw := recoverFlagToCompatible (sig ! 0)]))"

definition Signature_String :: "Signature option \<Rightarrow> string" where
  "Signature_String sig = (case sig of None \<Rightarrow> ''[empty]'' | Some s \<Rightarrow>
     if length s = 0 then ''[empty]''
     else if length s = SignatureLenRawWithV
     then ''0x'' @ hex_EncodeToString (drop 1 s) @ hex_EncodeToString [recoverFlagToCompatible (s ! 0)]
     else ''0x'' @ hex_EncodeToString s @ ''[no V]'')"

definition sig_RLPEncodeSelf :: "Signature \<Rightarrow> unit eproc" where
  "sig_RLPEncodeSelf sig = bind_p (lift_p (SerializeRSV sig)) (\<lambda>bs. Encode (VBytes (Some bs)))"

definition sig_RLPDecodeSelf :: "Signature dproc" where
  "sig_RLPDecodeSelf = bind_p (Decode TBytes) (\<lambda>v. case v of
      VBytes None \<Rightarrow> fail_p ErrNilValue
    | VBytes (Some bs) \<Rightarrow> lift_p (parseSignature bs)
    | _ \<Rightarrow> panic_p)"

section \<open>Keys and wallets\<close>

text \<open>The operations of secp256k1: a key pair, signing, and verification of \<open>r\<close> and \<open>s\<close>, recovery from a compact signature.\<close>

record ('sk, 'pk) curve =
  cv_FromBytes :: "bytes \<Rightarrow> 'sk"
  cv_PubKey :: "'sk \<Rightarrow> 'pk"
  cv_SignCompact :: "'sk \<Rightarrow> bytes \<Rightarrow> bytes"
  cv_Verify :: "bytes \<Rightarrow> bytes \<Rightarrow> bytes \<Rightarrow> 'pk \<Rightarrow> bool"
  cv_RecoverCompact :: "bytes \<Rightarrow> bytes \<Rightarrow> 'pk result"
  cv_Uncompressed :: "'pk \<Rightarrow> bytes option"

definition ParsePrivateKey :: "('sk, 'pk) curve \<Rightarrow> bytes \<Rightarrow> 'sk result" where
  "ParsePrivateKey C b = (if length b \<noteq> PrivateKeyLen then Fail (StdError ''InvalidKeyLength'') else Ret (cv_FromBytes C b))"

definition NewSignature :: "('sk, 'pk) curve \<Rightarrow> bytes \<Rightarrow> 'sk option \<Rightarrow> Signature result" where
  "NewSignature C h privKey = (case privKey of
      None \<Rightarrow> Fail (StdError ''Invalid arguments'')
    | Some sk \<Rightarrow> if length h = 0 \<or> length h > HashLen then Fail (StdError ''Invalid arguments'') else Ret (cv_SignCompact C sk h))"

definition RecoverPublicKey :: "('sk, 'pk) curve \<Rightarrow> Signature \<Rightarrow> bytes \<Rightarrow> 'pk result" where
  "RecoverPublicKey C sig h = (if \<not> HasV sig then Fail (StdError ''signature has no V value'')
     else if length h = 0 \<or> length h > HashLen then Fail (StdError ''message hash is illegal'')
     else bind_r (cv_RecoverCompact C sig h) (\<lambda>pk. Ret pk))"

definition sig_Verify :: "('sk, 'pk) curve \<Rightarrow> Signature \<Rightarrow> bytes \<Rightarrow> 'pk option \<Rightarrow> bool" where
  "sig_Verify C sig m pubKey = (case pubKey of None \<Rightarrow> False | Some pk \<Rightarrow>
     if length m = 0 \<or> length m > HashLen \<or> length sig < SignatureLenRaw then False
     else (let offset = (if length sig = SignatureLenRawWithV then 1 else 0) in
       cv_Verify C (take 32 (drop offset sig)) (drop (offset + 32) sig) m pk))"

record ('sk, 'pk) softwareWallet =
  sw_skey :: 'sk
  sw_pkey :: 'pk

definition NewIcxWalletFromPrivateKey :: "('sk, 'pk) curve \<Rightarrow> 'sk \<Rightarrow> ('sk, 'pk) softwareWallet" where
  "NewIcxWalletFromPrivateKey C sk = \<lparr>sw_skey = sk, sw_pkey = cv_PubKey C sk\<rparr>"

definition wallet_Address :: "(bytes \<Rightarrow> bytes) \<Rightarrow> ('sk, 'pk) curve \<Rightarrow> ('sk, 'pk) softwareWallet \<Rightarrow> string result" where
  "wallet_Address H C w = bind_r (NewAccountAddressFromPublicKey H (cv_Uncompressed C (sw_pkey w))) (\<lambda>a. Ret (Address_String a))"

definition wallet_Sign :: "('sk, 'pk) curve \<Rightarrow> ('sk, 'pk) softwareWallet \<Rightarrow> bytes \<Rightarrow> bytes result" where
  "wallet_Sign C w data = bind_r (NewSignature C data (Some (sw_skey w))) SerializeRSV"

section \<open>Formats agree\<close>

lemma copy_all: "length b = length a \<Longrightarrow> copy_at 0 b a = b"
  by (simp add: copy_at_def)

lemma with_V: "HasV s \<Longrightarrow> \<exists>v rs. s = v # rs \<and> length rs = 64"
  by (cases s) (auto simp: HasV_def signature_sizes)

lemma SerializeRSV_V: "length rs = 64 \<Longrightarrow> SerializeRSV (v # rs) = Ret (rs @ [v - 27])"
  by (simp add: SerializeRSV_def HasV_def signature_sizes copy_at_def recoverFlagToCompatible_def compactSigMagicOffset_def
      list_update_append drop_replicate)

lemma ParseSignature_RSV: "length rs = 64 \<Longrightarrow> ParseSignature (rs @ [v]) = Ret ((v + 27) # rs)"
  by (simp add: ParseSignature_def parseSignature_def signature_sizes copy_at_def recoverFlagToECDSA_def compactSigMagicOffset_def
      nth_append numeral_eq_Suc)

lemma sig_Verify_RS: "length rs = 64 \<Longrightarrow> sig_Verify C (v # rs) m pk = sig_Verify C rs m pk"
  by (cases pk) (simp_all add: sig_Verify_def signature_sizes Let_def)

text \<open>
  The formats of a signature agree. One with a recovery flag is read back from \<open>[R|S|V]\<close>, from \<open>[V|R|S]\<close> and from RLP, flag
  included, whatever its value; the form \<open>[R|S]\<close> verifies exactly what the signature verifies, but gives no form with flag.
\<close>
theorem signature_formats:
  assumes "HasV s"
  shows "\<exists>rsv vrs rs. SerializeRSV s = Ret rsv \<and> ParseSignature rsv = Ret s \<and> SerializeVRS s = Ret vrs \<and> ParseSignatureVRS vrs = Ret s \<and>
    SerializeRS s = Ret rs \<and> ParseSignature rs = Ret rs \<and> (\<forall>m pk. sig_Verify C rs m pk = sig_Verify C s m pk) \<and>
    SerializeRSV rs = Fail (StdError ''no V value'') \<and>
    fst (sig_RLPDecodeSelf (NewDecoder (written (sig_RLPEncodeSelf s)))) = Ret s"
proof -
  from with_V [OF assms] obtain v rs where s: "s = v # rs" "length rs = 64" by blast
  have rsv: "SerializeRSV s = Ret (rs @ [v - 27])" using SerializeRSV_V [OF s(2)] s(1) by simp
  have vrs: "SerializeVRS s = Ret ((v - 27) # rs)" "ParseSignatureVRS ((v - 27) # rs) = Ret s"
    using s by (simp_all add: SerializeVRS_def HasV_def signature_sizes copy_all Let_def recoverFlagToCompatible_def
        ParseSignatureVRS_def recoverFlagToECDSA_def compactSigMagicOffset_def)
  have rs: "SerializeRS s = Ret rs" "ParseSignature rs = Ret rs" "SerializeRSV rs = Fail (StdError ''no V value'')"
    using s by (auto simp: SerializeRS_def ParseSignature_def parseSignature_def signature_sizes copy_all SerializeRSV_def HasV_def)
  have e: "sig_RLPEncodeSelf s = Encode (VBytes (Some (rs @ [v - 27])))"
    by (simp add: sig_RLPEncodeSelf_def rsv lift_p_def bind_p_def)
  have "sizeToBytes 65 = [65]" by code_simp
  then have "reads (decodeValue TBytes) (VBytes (Some (rs @ [v - 27])))"
    by (intro reads_bytes) (use s(2) in \<open>simp add: int_len_def enc_bytes_def sized_def\<close>)
  then have "Decode TBytes (NewDecoder (enc (VBytes (Some (rs @ [v - 27]))))) =
      (Ret (VBytes (Some (rs @ [v - 27]))), decoderImpl (past (enc (VBytes (Some (rs @ [v - 27]))))
        \<lparr>rr_reader = Buffer (enc (VBytes (Some (rs @ [v - 27])))), rr_maxSB = length (enc (VBytes (Some (rs @ [v - 27]))))\<rparr>) None)"
    by (simp add: reads_def gives_past Decode_def bind_p_def dec_flush_def NewDecoder_def on_reader_def next_bytes_def del: decodeValue.simps)
  moreover have p: "parseSignature (rs @ [v - 27]) = Ret s"
    using ParseSignature_RSV [OF s(2), of "v - 27"] s(1) by (cases "parseSignature (rs @ [v - 27])") (simp_all add: ParseSignature_def)
  ultimately have "fst (sig_RLPDecodeSelf (NewDecoder (written (sig_RLPEncodeSelf s)))) = Ret s"
    by (simp add: e written_Encode sig_RLPDecodeSelf_def bind_p_def lift_p_def del: decodeValue.simps enc.simps)
  with rsv vrs rs ParseSignature_RSV [OF s(2), of "v - 27"] sig_Verify_RS [OF s(2)] s(1) show ?thesis by auto
qed

section \<open>Signed transactions\<close>

text \<open>What the code relies on from the package: a compact signature has 65 bytes and verifies under the public key.\<close>

definition curve_ok :: "('sk, 'pk) curve \<Rightarrow> bool" where
  "curve_ok C \<longleftrightarrow> (\<forall>sk h. 0 < length h \<and> length h \<le> HashLen \<longrightarrow> length (cv_SignCompact C sk h) = SignatureLenRawWithV \<and>
     cv_Verify C (take 32 (drop 1 (cv_SignCompact C sk h))) (drop 33 (cv_SignCompact C sk h)) h (cv_PubKey C sk))"

lemma wallet_Sign_verifies:
  assumes "curve_ok C" and "0 < length h" and "length h \<le> HashLen"
  shows "\<exists>sig s. wallet_Sign C (NewIcxWalletFromPrivateKey C sk) h = Ret sig \<and> ParseSignature sig = Ret s \<and> HasV s \<and>
    sig_Verify C s h (Some (cv_PubKey C sk))"
proof -
  let ?s = "cv_SignCompact C sk h"
  from assms have l: "HasV ?s" and v: "cv_Verify C (take 32 (drop 1 ?s)) (drop 33 ?s) h (cv_PubKey C sk)"
    by (auto simp: curve_ok_def HasV_def)
  from with_V [OF l] obtain f rs where s: "?s = f # rs" "length rs = 64" by blast
  have "wallet_Sign C (NewIcxWalletFromPrivateKey C sk) h = Ret (rs @ [f - 27])"
    using assms s SerializeRSV_V [OF s(2)] by (auto simp: wallet_Sign_def NewIcxWalletFromPrivateKey_def NewSignature_def)
  moreover have "ParseSignature (rs @ [f - 27]) = Ret ?s" using ParseSignature_RSV [OF s(2), of "f - 27"] s(1) by simp
  moreover have "sig_Verify C ?s h (Some (cv_PubKey C sk))"
    using v l assms(2,3) by (auto simp: sig_Verify_def HasV_def signature_sizes Let_def)
  ultimately show ?thesis using l by blast
qed

text \<open>
  C11: signing a transaction with a software wallet always succeeds, and the signature it carries, in base64, is one that
  verifies under the key of the wallet for the hash of the signed transaction's own text.
\<close>
theorem wallet_signs_transaction:
  assumes "curve_ok C" and "\<And>b. length (H b) = 32"
  shows "\<exists>p' sig s. SignTransaction H (\<lambda>h. plain_errors (wallet_Sign C (NewIcxWalletFromPrivateKey C sk) h)) now p = Ret p' \<and>
    tx_Signature p' = base64_EncodeToString False sig \<and> ParseSignature sig = Ret s \<and>
    sig_Verify C s (H (signing_text p')) (Some (cv_PubKey C sk))"
proof -
  let ?sign = "\<lambda>h. plain_errors (wallet_Sign C (NewIcxWalletFromPrivateKey C sk) h)"
  let ?p = "p\<lparr>tx_Timestamp := NewHexInt now\<rparr>"
  obtain bs where bs: "SerializeMap (tx_json ?p) None (Some txSerializeExcludes) = Ret bs"
    using tx_text_total by blast
  let ?h = "H (string_bytes (''icx_sendTransaction.'' @ bs))"
  from wallet_Sign_verifies [OF assms(1), of ?h sk] assms(2) obtain sig s where
    sig: "wallet_Sign C (NewIcxWalletFromPrivateKey C sk) ?h = Ret sig" "ParseSignature sig = Ret s"
      "sig_Verify C s ?h (Some (cv_PubKey C sk))" by (auto simp: HashLen_def)
  let ?p' = "?p\<lparr>tx_TxHash := NewHexBytes ?h, tx_Signature := base64_EncodeToString False sig\<rparr>"
  have p': "SignTransaction H ?sign now p = Ret ?p'" using bs sig(1) by (simp add: SignTransaction_def Let_def plain_errors_def)
  have "NewHexBytes ?h = NewHexBytes (H (signing_text ?p'))" using signed_own_hash [OF p'] by simp
  then have "?h = H (signing_text ?p')" by (simp only: NewHexBytes_inj)
  with p' sig show ?thesis by (intro exI [of _ ?p'] exI [of _ sig] exI [of _ s]) simp
qed

section \<open>Witnesses\<close>

definition pad32 :: "bytes \<Rightarrow> bytes" where "pad32 b = take 32 (b @ replicate 32 0)"

text \<open>A curve for which a signature is the hash beside the key.\<close>

definition toy_curve :: "(bytes, bytes) curve" where
  "toy_curve = \<lparr>cv_FromBytes = pad32, cv_PubKey = pad32, cv_SignCompact = (\<lambda>sk h. 27 # pad32 h @ pad32 sk),
     cv_Verify = (\<lambda>r s m pk. r = pad32 m \<and> s = pk), cv_RecoverCompact = (\<lambda>s h. Ret (drop 33 s)), cv_Uncompressed = Some\<rparr>"

lemma toy_curve_ok: "curve_ok toy_curve"
  by (auto simp: curve_ok_def toy_curve_def pad32_def signature_sizes min_def)

theorem signature_formats_witness:
  "\<exists>rsv. SerializeRSV (28 # replicate 32 1 @ replicate 32 2) = Ret rsv \<and> ParseSignature rsv = Ret (28 # replicate 32 1 @ replicate 32 2)"
proof -
  have "HasV (28 # replicate 32 1 @ replicate 32 2)" by code_simp
  from signature_formats [OF this, of toy_curve] show ?thesis by blast
qed

theorem wallet_signs_transaction_witness:
  "\<exists>p' sig s. SignTransaction (\<lambda>b. replicate 32 9) (\<lambda>h. plain_errors (wallet_Sign toy_curve (NewIcxWalletFromPrivateKey toy_curve [5]) h)) 7 sample_param = Ret p' \<and>
    tx_Signature p' = base64_EncodeToString False sig \<and> ParseSignature sig = Ret s \<and> sig_Verify toy_curve s (replicate 32 9) (Some (pad32 [5]))"
  using wallet_signs_transaction [OF toy_curve_ok, of "\<lambda>b. replicate 32 9" "[5]" 7 sample_param] by (simp add: toy_curve_def)

end
