(* ===== verification/Key_Store.thy ===== *)
theory Key_Store
  imports Signature
begin

unbundle bit_operations_syntax

text \<open>
  Key stores (src/common/wallet/keystore.go): a private key, encrypted under a password, with the address it belongs to. The
  key derivation (scrypt), the key stream of AES in counter mode, the hashes, the curve, the random bytes and
  \<open>encoding/json\<close> are parameters; so is the key store of go-ethereum.
\<close>

section \<open>Data\<close>

record AES128CTRParams =
  IV :: "bytes option"

record ScryptParams =
  DKLen :: int
  sp_N :: int
  sp_R :: int
  sp_P :: int
  Salt :: "bytes option"

text \<open>The two parameter texts are what they decode to, \<open>None\<close> when they do not decode.\<close>

record CryptoData =
  Cipher :: string
  CipherParams :: "AES128CTRParams option"
  CipherText :: "bytes option"
  KDF :: string
  KDFParams :: "ScryptParams option"
  MAC :: "bytes option"

record KeyStoreData =
  ks_Address :: Address
  ks_ID :: string
  ks_Version :: int
  ks_CoinType :: string
  ks_Crypto :: CryptoData

text \<open>
  The same as \<open>encoding/json\<close> sees it: the fields with a \<open>MarshalJSON\<close> of their own are the texts it returns, \<open>None\<close> when the
  field is missing in a document.
\<close>

record AES128CTRText =
  xt_IV :: "jdoc option"

record ScryptText =
  xt_DKLen :: int
  xt_N :: int
  xt_R :: int
  xt_P :: int
  xt_Salt :: "jdoc option"

record CryptoText =
  xt_Cipher :: string
  xt_CipherParams :: "AES128CTRText option"
  xt_CipherText :: "jdoc option"
  xt_KDF :: string
  xt_KDFParams :: "ScryptText option"
  xt_MAC :: "jdoc option"

record KeyStoreText =
  xt_Address :: "jdoc option"
  xt_ID :: string
  xt_Version :: int
  xt_CoinType :: string
  xt_Crypto :: CryptoText

definition coinTypeICON :: string where "coinTypeICON = ''icx''"
definition coinTypeEVM :: string where "coinTypeEVM = ''evm''"
definition cipherAES128CTR :: string where "cipherAES128CTR = ''aes-128-ctr''"
definition kdfScrypt :: string where "kdfScrypt = ''scrypt''"

text \<open>
  What is called: \<open>kp_scrypt\<close> gives the array behind the slice that \<open>scrypt.Key\<close> returns, since slicing reaches up to its
  capacity; \<open>kp_keystream\<close> the bytes that \<open>XORKeyStream\<close> combines with the text; \<open>'d\<close> is the type of documents and \<open>'w\<close> that of
  EVM wallets.
\<close>

record ('sk, 'pk, 'd, 'w) key_prims =
  kp_curve :: "('sk, 'pk) curve"
  kp_Serialize :: "'sk \<Rightarrow> bytes"
  kp_scrypt :: "bytes \<Rightarrow> ScryptParams \<Rightarrow> bytes result"
  kp_keystream :: "bytes \<Rightarrow> bytes \<Rightarrow> nat \<Rightarrow> bytes"
  kp_Keccak :: "bytes \<Rightarrow> bytes"
  kp_SHA3 :: "bytes \<Rightarrow> bytes"
  kp_Marshal :: "KeyStoreText \<Rightarrow> 'd result"
  kp_Unmarshal :: "'d \<Rightarrow> KeyStoreText result"
  kp_DecryptEvm :: "'d \<Rightarrow> bytes \<Rightarrow> 'w result"

section \<open>Operations\<close>

definition bytes_of :: "bytes option \<Rightarrow> bytes" where
  "bytes_of b = (case b of None \<Rightarrow> [] | Some b \<Rightarrow> b)"

text \<open>
  A key store in JSON: the methods of \<open>common.Address\<close> and \<open>common.RawHexBytes\<close> on the fields that have these types. A
  field that is missing stays zero; parameters that do not decode are found out when they are used.
\<close>

definition marshal_store :: "KeyStoreData \<Rightarrow> KeyStoreText" where
  "marshal_store d = (let c = ks_Crypto d in \<lparr>xt_Address = Some (addr_MarshalJSON (ks_Address d)), xt_ID = ks_ID d, xt_Version = ks_Version d,
     xt_CoinType = ks_CoinType d, xt_Crypto = \<lparr>xt_Cipher = Cipher c,
       xt_CipherParams = map_option (\<lambda>a. \<lparr>xt_IV = Some (RawHexBytes_MarshalJSON (IV a))\<rparr>) (CipherParams c),
       xt_CipherText = Some (RawHexBytes_MarshalJSON (CipherText c)), xt_KDF = KDF c,
       xt_KDFParams = map_option (\<lambda>k. \<lparr>xt_DKLen = DKLen k, xt_N = sp_N k, xt_R = sp_R k, xt_P = sp_P k,
         xt_Salt = Some (RawHexBytes_MarshalJSON (Salt k))\<rparr>) (KDFParams c),
       xt_MAC = Some (RawHexBytes_MarshalJSON (MAC c))\<rparr>\<rparr>)"

definition unmarshal_hex :: "jdoc option \<Rightarrow> bytes option result" where
  "unmarshal_hex f = (case f of None \<Rightarrow> Ret None | Some t \<Rightarrow> RawHexBytes_UnmarshalJSON t)"

definition unmarshal_address :: "jdoc option \<Rightarrow> Address result" where
  "unmarshal_address f = (case f of None \<Rightarrow> Ret newAddress | Some t \<Rightarrow> (case addr_UnmarshalJSON t newAddress of
      (Ret _, a) \<Rightarrow> Ret a | (Fail e, a) \<Rightarrow> Fail e | (Panic, a) \<Rightarrow> Panic | (OutOfFuel, a) \<Rightarrow> OutOfFuel))"

definition unmarshal_params :: "(bytes option \<Rightarrow> 'p) \<Rightarrow> jdoc option \<Rightarrow> 'p option" where
  "unmarshal_params mk f = (case unmarshal_hex f of Ret b \<Rightarrow> Some (mk b) | _ \<Rightarrow> None)"

definition unmarshal_store :: "KeyStoreText \<Rightarrow> KeyStoreData result" where
  "unmarshal_store t = (let c = xt_Crypto t in
     bind_r (unmarshal_address (xt_Address t)) (\<lambda>addr.
     bind_r (unmarshal_hex (xt_CipherText c)) (\<lambda>ct.
     bind_r (unmarshal_hex (xt_MAC c)) (\<lambda>mac.
       Ret \<lparr>ks_Address = addr, ks_ID = xt_ID t, ks_Version = xt_Version t, ks_CoinType = xt_CoinType t, ks_Crypto =
         \<lparr>Cipher = xt_Cipher c, CipherParams = Option.bind (xt_CipherParams c) (\<lambda>a. unmarshal_params (\<lambda>b. \<lparr>IV = b\<rparr>) (xt_IV a)),
          CipherText = ct, KDF = xt_KDF c,
          KDFParams = Option.bind (xt_KDFParams c) (\<lambda>k. unmarshal_params
            (\<lambda>b. \<lparr>DKLen = xt_DKLen k, sp_N = xt_N k, sp_R = xt_R k, sp_P = xt_P k, Salt = b\<rparr>) (xt_Salt k)),
          MAC = mac\<rparr>\<rparr>))))"

text \<open>\<open>key[lo:hi]\<close>\<close>

definition slice :: "nat \<Rightarrow> nat \<Rightarrow> bytes \<Rightarrow> bytes result" where
  "slice lo hi b = (if hi \<le> length b then Ret (take (hi - lo) (drop lo b)) else Panic)"

definition XORKeyStream :: "('sk, 'pk, 'd, 'w) key_prims \<Rightarrow> bytes \<Rightarrow> bytes \<Rightarrow> bytes \<Rightarrow> bytes" where
  "XORKeyStream K key iv src = map2 (XOR) src (kp_keystream K key iv (length src))"

definition ScryptParams_Init :: "bytes result \<Rightarrow> ScryptParams result" where
  "ScryptParams_Init rnd = bind_r rnd (\<lambda>salt. Ret \<lparr>DKLen = 32, sp_N = 65536, sp_R = 8, sp_P = 1, Salt = Some salt\<rparr>)"

definition EncryptKeyAsKeyStore :: "('sk, 'pk, 'd, 'w) key_prims \<Rightarrow> bytes result \<Rightarrow> bytes result \<Rightarrow> string \<Rightarrow> 'sk \<Rightarrow> bytes \<Rightarrow> 'd result" where
  "EncryptKeyAsKeyStore K rnd_salt rnd_iv uuid s pw =
     bind_r (ScryptParams_Init rnd_salt) (\<lambda>k.
     bind_r (kp_scrypt K pw k) (\<lambda>key.
     bind_r (slice 0 16 key) (\<lambda>b.
     bind_r rnd_iv (\<lambda>iv.
     let cipherText = XORKeyStream K b iv (kp_Serialize K s) in
     bind_r (slice 16 32 key) (\<lambda>mk.
     bind_r (NewAccountAddressFromPublicKey (kp_SHA3 K) (cv_Uncompressed (kp_curve K) (cv_PubKey (kp_curve K) s))) (\<lambda>addr.
     bind_r (fst (SetBytes (Some addr) newAddress)) (\<lambda>_.
       kp_Marshal K (marshal_store \<lparr>ks_Address = snd (SetBytes (Some addr) newAddress), ks_ID = uuid, ks_Version = 3, ks_CoinType = coinTypeICON,
         ks_Crypto = \<lparr>Cipher = cipherAES128CTR, CipherParams = Some \<lparr>IV = Some iv\<rparr>, CipherText = Some cipherText, KDF = kdfScrypt,
           KDFParams = Some k, MAC = Some (kp_Keccak K (mk @ cipherText))\<rparr>\<rparr>))))))))"

definition NewKeyStoreData :: "('sk, 'pk, 'd, 'w) key_prims \<Rightarrow> 'd \<Rightarrow> KeyStoreData result" where
  "NewKeyStoreData K data = bind_r (kp_Unmarshal K data) unmarshal_store"

definition ReadAddressFromKeyStore :: "('sk, 'pk, 'd, 'w) key_prims \<Rightarrow> 'd \<Rightarrow> Address result" where
  "ReadAddressFromKeyStore K data = bind_r (bind_r (kp_Unmarshal K data) unmarshal_store) (\<lambda>d.
     if ks_CoinType d \<noteq> coinTypeICON then Fail (New ''InvalidCoinType'') else Ret (ks_Address d))"

text \<open>A counter mode panics when its initial vector is not one block.\<close>

definition DecryptICONKeyStore :: "('sk, 'pk, 'd, 'w) key_prims \<Rightarrow> KeyStoreData \<Rightarrow> bytes \<Rightarrow> 'sk result" where
  "DecryptICONKeyStore K ksData pw = (let c = ks_Crypto ksData in
     if Cipher c \<noteq> cipherAES128CTR then Fail (New ''UnsupportedCipher'')
     else case CipherParams c of None \<Rightarrow> Fail (StdError ''json'') | Some cipherParams \<Rightarrow>
     if KDF c \<noteq> kdfScrypt then Fail (New ''UnsupportedKDF'')
     else case KDFParams c of None \<Rightarrow> Fail (StdError ''json'') | Some kdfParams \<Rightarrow>
     bind_r (kp_scrypt K pw kdfParams) (\<lambda>key.
     bind_r (slice 16 32 key) (\<lambda>mk.
     let cipheredBytes = bytes_of (CipherText c) in
     if kp_Keccak K (mk @ cipheredBytes) \<noteq> bytes_of (MAC c) then Fail (New ''InvalidPassword'')
     else bind_r (slice 0 16 key) (\<lambda>block.
     if length (bytes_of (IV cipherParams)) \<noteq> 16 then Panic
     else let secretBytes = XORKeyStream K block (bytes_of (IV cipherParams)) cipheredBytes in
     bind_r (ParsePrivateKey (kp_curve K) secretBytes) (\<lambda>secret.
     bind_r (NewAccountAddressFromPublicKey (kp_SHA3 K) (cv_Uncompressed (kp_curve K) (cv_PubKey (kp_curve K) secret))) (\<lambda>address.
     if \<not> Address_Equal (Some address) (Some (ks_Address ksData)) then Fail (StdError ''recovered address is mismatched'')
     else Ret secret))))))"

datatype ('sk, 'pk, 'w) wallet = SoftwareWallet "('sk, 'pk) softwareWallet" | EvmWallet 'w

definition DecryptKeyStore :: "('sk, 'pk, 'd, 'w) key_prims \<Rightarrow> 'd \<Rightarrow> bytes \<Rightarrow> ('sk, 'pk, 'w) wallet result" where
  "DecryptKeyStore K data pw = bind_r (NewKeyStoreData K data) (\<lambda>ksdata.
     if ks_CoinType ksdata = coinTypeICON
     then bind_r (DecryptICONKeyStore K ksdata pw) (\<lambda>secret. Ret (SoftwareWallet (NewIcxWalletFromPrivateKey (kp_curve K) secret)))
     else if ks_CoinType ksdata = coinTypeEVM \<or> ks_CoinType ksdata = [] then bind_r (kp_DecryptEvm K data pw) (\<lambda>w. Ret (EvmWallet w))
     else Fail (New ''InvalidCoinType''))"

definition KeyStoreFromWallet :: "('sk, 'pk, 'd, 'w) key_prims \<Rightarrow> bytes result \<Rightarrow> bytes result \<Rightarrow> string \<Rightarrow> ('sk, 'pk, 'w) wallet \<Rightarrow> bytes \<Rightarrow> 'd option result" where
  "KeyStoreFromWallet K rnd_salt rnd_iv uuid w pw = (case w of
      SoftwareWallet s \<Rightarrow> bind_r (EncryptKeyAsKeyStore K rnd_salt rnd_iv uuid (sw_skey s) pw) (\<lambda>d. Ret (Some d))
    | EvmWallet _ \<Rightarrow> Ret None)"

section \<open>What is relied on\<close>

text \<open>
  The documents that JSON carries without loss: all fields present, texts of ASCII characters, integers within their width.
\<close>

definition ascii :: "string \<Rightarrow> bool" where
  "ascii s \<longleftrightarrow> list_all (\<lambda>c. of_char c < (128 :: nat)) s"

definition text_field :: "jdoc option \<Rightarrow> bool" where
  "text_field f \<longleftrightarrow> (\<exists>s. f = Some (Quoted s) \<and> ascii s)"

definition fits_int :: "int \<Rightarrow> bool" where
  "fits_int i \<longleftrightarrow> - (2 ^ 63) \<le> i \<and> i < 2 ^ 63"

definition json_ok :: "KeyStoreText \<Rightarrow> bool" where
  "json_ok t \<longleftrightarrow> (let c = xt_Crypto t in text_field (xt_Address t) \<and> ascii (xt_ID t) \<and> fits_int (xt_Version t) \<and> ascii (xt_CoinType t) \<and>
     ascii (xt_Cipher c) \<and> ascii (xt_KDF c) \<and> text_field (xt_CipherText c) \<and> text_field (xt_MAC c) \<and>
     (\<exists>a. xt_CipherParams c = Some a \<and> text_field (xt_IV a)) \<and>
     (\<exists>k. xt_KDFParams c = Some k \<and> text_field (xt_Salt k) \<and> list_all fits_int [xt_DKLen k, xt_N k, xt_R k, xt_P k]))"

text \<open>
  A serialized key is read back, the key stream is as long as is asked for, \<open>scrypt.Key\<close> accepts the cost of \<open>Init\<close>, and
  \<open>encoding/json\<close> reads back a document it wrote.
\<close>

definition prims_ok :: "('sk, 'pk, 'd, 'w) key_prims \<Rightarrow> bool" where
  "prims_ok K \<longleftrightarrow>
     (\<forall>sk. length (kp_Serialize K sk) = PrivateKeyLen \<and> cv_FromBytes (kp_curve K) (kp_Serialize K sk) = sk) \<and>
     (\<forall>key iv n. length (kp_keystream K key iv n) = n) \<and>
     (\<forall>pw salt. \<exists>key. kp_scrypt K pw \<lparr>DKLen = 32, sp_N = 65536, sp_R = 8, sp_P = 1, Salt = Some salt\<rparr> = Ret key \<and> 32 \<le> length key) \<and>
     (\<forall>b. 20 \<le> length (kp_SHA3 K b)) \<and> (\<forall>pk. \<exists>b. cv_Uncompressed (kp_curve K) pk = Some b \<and> b \<noteq> []) \<and>
     (\<forall>t. json_ok t \<longrightarrow> (\<exists>d. kp_Marshal K t = Ret d \<and> kp_Unmarshal K d = Ret t))"

lemma prims_okD:
  assumes "prims_ok K"
  shows prims_key: "length (kp_Serialize K sk) = PrivateKeyLen" "cv_FromBytes (kp_curve K) (kp_Serialize K sk) = sk"
    and prims_keystream: "length (kp_keystream K key iv n) = n"
    and prims_scrypt: "\<exists>key. kp_scrypt K pw \<lparr>DKLen = 32, sp_N = 65536, sp_R = 8, sp_P = 1, Salt = Some salt\<rparr> = Ret key \<and> 32 \<le> length key"
    and prims_digest: "20 \<le> length (kp_SHA3 K b)"
    and prims_point: "\<exists>b. cv_Uncompressed (kp_curve K) pk = Some b \<and> b \<noteq> []"
    and prims_json: "json_ok t \<Longrightarrow> \<exists>d. kp_Marshal K t = Ret d \<and> kp_Unmarshal K d = Ret t"
  using assms unfolding prims_ok_def by blast+

lemma ascii_hex: "ascii (hex_EncodeToString b)"
proof -
  have "n < 16 \<Longrightarrow> of_char (hex_digit n) < (128 :: nat)" for n
    by (simp add: hex_digit_def)
  moreover have "unat x div 16 < 16" for x :: byte using unsigned_less [of x, where ?'a = nat] by simp
  ultimately show ?thesis by (simp add: ascii_def hex_EncodeToString_def list_all_iff)
qed

lemma text_field_hex: "text_field (Some (RawHexBytes_MarshalJSON (Some b)))"
  by (simp add: text_field_def RawHexBytes_MarshalJSON_def ascii_hex)

lemma text_field_address: "text_field (Some (addr_MarshalJSON a))"
  using ascii_hex [of "drop 1 a"] by (simp add: text_field_def addr_MarshalJSON_def Address_String_def ascii_def)

text \<open>What the methods of the fields write, they read back.\<close>

lemma unmarshal_marshal:
  assumes "address_ok (ks_Address d)"
  shows "unmarshal_store (marshal_store d) = Ret d"
proof -
  have "addr_UnmarshalJSON (addr_MarshalJSON (ks_Address d)) newAddress = (Ret (), ks_Address d)"
    using addr_SetString_String [OF assms, of newAddress]
    by (simp add: addr_UnmarshalJSON_def addr_MarshalJSON_def json_string_def lift_p_def bind_p_def newAddress_def)
  moreover have "unmarshal_hex (Some (RawHexBytes_MarshalJSON b)) = Ret b" for b
    by (simp add: unmarshal_hex_def RawHexBytes_read)
  ultimately show ?thesis
    by (cases "CipherParams (ks_Crypto d)"; cases "KDFParams (ks_Crypto d)")
      (simp_all add: unmarshal_store_def marshal_store_def unmarshal_address_def unmarshal_params_def Let_def)
qed

lemma xor_twice: "length ks = length src \<Longrightarrow> map2 (XOR) (map2 (XOR) src ks) ks = (src :: bytes)"
  by (induction src ks rule: list_induct2') (auto simp: ac_simps)

lemma XORKeyStream_twice: "prims_ok K \<Longrightarrow> XORKeyStream K key iv (XORKeyStream K key iv src) = src"
  unfolding XORKeyStream_def by (simp add: prims_keystream xor_twice)

lemma account_address:
  assumes "prims_ok K"
  shows "\<exists>a. NewAccountAddressFromPublicKey (kp_SHA3 K) (cv_Uncompressed (kp_curve K) pk) = Ret a \<and> address_ok a \<and> \<not> IsContract a"
proof -
  from prims_point [OF assms] obtain b where b: "cv_Uncompressed (kp_curve K) pk = Some b" "b \<noteq> []" by blast
  let ?d = "kp_SHA3 K (drop 1 b)"
  let ?a = "snd (SetTypeAndID False (Some (drop (length ?d - 20) ?d)) newAddress)"
  have "SetTypeAndID False (Some (drop (length ?d - 20) ?d)) newAddress = (Ret (), ?a)" by (simp add: SetTypeAndID_def modify_p_def)
  from SetTypeAndID_ok [OF this] have "address_ok ?a \<and> IsContract ?a = False" by (simp add: newAddress_def)
  with b prims_digest [OF assms, of "drop 1 b"] show ?thesis by (auto simp: NewAccountAddressFromPublicKey_def Let_def Suc_le_eq)
qed

text \<open>
  C12: a key that was encrypted under a password is recovered with it: \<open>DecryptKeyStore\<close> of the key store gives the wallet of the
  key, and the address that is read from the key store without the password is the address of that wallet.
\<close>
theorem keystore_roundtrip:
  assumes "prims_ok K" and "length iv = 16" and "ascii uuid"
  shows "\<exists>d a. EncryptKeyAsKeyStore K (Ret salt) (Ret iv) uuid sk pw = Ret d \<and>
    DecryptKeyStore K d pw = Ret (SoftwareWallet (NewIcxWalletFromPrivateKey (kp_curve K) sk)) \<and>
    ReadAddressFromKeyStore K d = Ret a \<and>
    wallet_Address (kp_SHA3 K) (kp_curve K) (NewIcxWalletFromPrivateKey (kp_curve K) sk) = Ret (Address_String a)"
proof -
  let ?k = "\<lparr>DKLen = 32, sp_N = 65536, sp_R = 8, sp_P = 1, Salt = Some salt\<rparr>"
  from prims_scrypt [OF assms(1)] obtain key where key: "kp_scrypt K pw ?k = Ret key" "32 \<le> length key" by blast
  from account_address [OF assms(1)] obtain a where
    a: "NewAccountAddressFromPublicKey (kp_SHA3 K) (cv_Uncompressed (kp_curve K) (cv_PubKey (kp_curve K) sk)) = Ret a" "address_ok a" by blast
  have set: "SetBytes (Some a) newAddress = (Ret (), a)" by (rule address_bytes_read [OF a(2)]) (simp add: newAddress_def)
  let ?ct = "XORKeyStream K (take 16 key) iv (kp_Serialize K sk)"
  let ?d = "\<lparr>ks_Address = a, ks_ID = uuid, ks_Version = 3, ks_CoinType = coinTypeICON,
         ks_Crypto = \<lparr>Cipher = cipherAES128CTR, CipherParams = Some \<lparr>IV = Some iv\<rparr>, CipherText = Some ?ct, KDF = kdfScrypt,
           KDFParams = Some ?k, MAC = Some (kp_Keccak K (take 16 (drop 16 key) @ ?ct))\<rparr>\<rparr>"
  have "json_ok (marshal_store ?d)"
    using assms(3) by (simp add: json_ok_def marshal_store_def text_field_hex text_field_address)
      (simp add: fits_int_def ascii_def coinTypeICON_def cipherAES128CTR_def kdfScrypt_def)
  from prims_json [OF assms(1) this] obtain t where t: "kp_Marshal K (marshal_store ?d) = Ret t"
    "bind_r (kp_Unmarshal K t) unmarshal_store = Ret ?d" using unmarshal_marshal [of ?d] a(2) by auto
  have "EncryptKeyAsKeyStore K (Ret salt) (Ret iv) uuid sk pw = Ret t"
    using key a(1) set t(1) by (simp add: EncryptKeyAsKeyStore_def ScryptParams_Init_def slice_def Let_def)
  moreover have p: "ParsePrivateKey (kp_curve K) (XORKeyStream K (take 16 key) iv ?ct) = Ret sk"
    using assms(1) by (simp add: XORKeyStream_twice ParsePrivateKey_def prims_key)
  have "DecryptICONKeyStore K ?d pw = Ret sk"
    using key a(1) p assms(2) by (simp add: DecryptICONKeyStore_def Let_def slice_def bytes_of_def Address_Equal_def)
  then have "DecryptKeyStore K t pw = Ret (SoftwareWallet (NewIcxWalletFromPrivateKey (kp_curve K) sk))"
    by (simp add: DecryptKeyStore_def NewKeyStoreData_def t(2))
  moreover have "ReadAddressFromKeyStore K t = Ret a" by (simp add: ReadAddressFromKeyStore_def t(2))
  moreover have "wallet_Address (kp_SHA3 K) (kp_curve K) (NewIcxWalletFromPrivateKey (kp_curve K) sk) = Ret (Address_String a)"
    by (simp add: wallet_Address_def NewIcxWalletFromPrivateKey_def a(1))
  ultimately show ?thesis by blast
qed

text \<open>
  C13: whatever a key store holds, a key that comes out of it belongs to the address it names, and the password was checked
  against the code of the cipher text: a password for which it differs is refused before anything is decrypted.
\<close>
theorem keystore_guards:
  assumes "Cipher (ks_Crypto d) = cipherAES128CTR" and "CipherParams (ks_Crypto d) = Some cp" and "KDF (ks_Crypto d) = kdfScrypt"
    and "KDFParams (ks_Crypto d) = Some kp" and "kp_scrypt K pw kp = Ret key" and "32 \<le> length key"
  shows "(if kp_Keccak K (take 16 (drop 16 key) @ bytes_of (CipherText (ks_Crypto d))) \<noteq> bytes_of (MAC (ks_Crypto d))
    then DecryptICONKeyStore K d pw = Fail (New ''InvalidPassword'')
    else \<forall>sk. DecryptICONKeyStore K d pw = Ret sk \<longrightarrow>
      NewAccountAddressFromPublicKey (kp_SHA3 K) (cv_Uncompressed (kp_curve K) (cv_PubKey (kp_curve K) sk)) = Ret (ks_Address d) \<and>
      cv_FromBytes (kp_curve K) (XORKeyStream K (take 16 key) (bytes_of (IV cp)) (bytes_of (CipherText (ks_Crypto d)))) = sk)"
  using assms by (auto simp: DecryptICONKeyStore_def Let_def slice_def bind_r_Ret ParsePrivateKey_def Address_Equal_def split: if_splits)

section \<open>Witnesses\<close>

text \<open>Keys of one byte.\<close>

definition byte_curve :: "(byte, byte) curve" where
  "byte_curve = \<lparr>cv_FromBytes = hd, cv_PubKey = (\<lambda>sk. sk), cv_SignCompact = (\<lambda>sk h. 27 # pad32 h @ pad32 [sk]),
     cv_Verify = (\<lambda>r s m pk. r = pad32 m \<and> s = pad32 [pk]), cv_RecoverCompact = (\<lambda>s h. Ret (s ! 33)), cv_Uncompressed = (\<lambda>pk. Some [4, pk])\<rparr>"

definition byte_prims :: "(byte, byte, KeyStoreText, unit) key_prims" where
  "byte_prims = \<lparr>kp_curve = byte_curve, kp_Serialize = (\<lambda>sk. sk # replicate 31 0),
     kp_scrypt = (\<lambda>pw k. Ret (replicate 16 1 @ pw @ replicate 32 1)), kp_keystream = (\<lambda>key iv n. replicate n 7), kp_Keccak = (\<lambda>b. b),
     kp_SHA3 = (\<lambda>b. replicate 32 0 @ b), kp_Marshal = Ret, kp_Unmarshal = Ret, kp_DecryptEvm = (\<lambda>d pw. Fail (StdError ''evm''))\<rparr>"

lemma byte_prims_ok: "prims_ok byte_prims"
  by (simp add: prims_ok_def byte_prims_def byte_curve_def PrivateKeyLen_def)

theorem keystore_roundtrip_witness:
  "\<exists>d. EncryptKeyAsKeyStore byte_prims (Ret [1]) (Ret (replicate 16 2)) ''u'' 9 [5] = Ret d \<and>
    DecryptKeyStore byte_prims d [5] = Ret (SoftwareWallet \<lparr>sw_skey = 9, sw_pkey = 9\<rparr>)"
proof -
  have "length (replicate 16 2 :: bytes) = 16" by simp
  moreover have "ascii ''u''" by (simp add: ascii_def)
  ultimately show ?thesis using keystore_roundtrip [OF byte_prims_ok, of "replicate 16 2" "''u''" "[1]" 9 "[5]"]
    by (auto simp: NewIcxWalletFromPrivateKey_def byte_prims_def byte_curve_def)
qed

definition wrong_store :: KeyStoreData where
  "wrong_store = \<lparr>ks_Address = newAddress, ks_ID = ''u'', ks_Version = 3, ks_CoinType = coinTypeICON,
     ks_Crypto = \<lparr>Cipher = cipherAES128CTR, CipherParams = Some \<lparr>IV = None\<rparr>, CipherText = Some [1], KDF = kdfScrypt,
       KDFParams = Some \<lparr>DKLen = 32, sp_N = 2, sp_R = 8, sp_P = 1, Salt = None\<rparr>, MAC = Some [3]\<rparr>\<rparr>"

theorem keystore_guards_witness:
  "DecryptICONKeyStore byte_prims wrong_store [5] = Fail (New ''InvalidPassword'')"
  using keystore_guards [of wrong_store "\<lparr>IV = None\<rparr>" "\<lparr>DKLen = 32, sp_N = 2, sp_R = 8, sp_P = 1, Salt = None\<rparr>" byte_prims "[5]"
      "replicate 16 1 @ [5] @ replicate 32 1"]
  by (simp add: wrong_store_def byte_prims_def bytes_of_def)

end
