(* ===== verification/Logging.thy ===== *)
theory Logging
  imports BTP_Types "HOL-Library.AList"
begin

text \<open>
  The log of the relay (src/common/log): levels, the filter in front of the console and the file, the text of an entry, and the
  hooks of log forwarders. The package logrus, which delivers the entries and holds the level of the logger, and the vendors' hooks
  are parameters; \<open>logrus\<close> numbers its levels from 0 (panic) to 6 (trace).
\<close>

section \<open>Levels\<close>

type_synonym Level = int

definition PanicLevel :: Level where "PanicLevel = 0"
definition FatalLevel :: Level where "FatalLevel = 1"
definition ErrorLevel :: Level where "ErrorLevel = 2"
definition WarnLevel :: Level where "WarnLevel = 3"
definition InfoLevel :: Level where "InfoLevel = 4"
definition DebugLevel :: Level where "DebugLevel = 5"
definition TraceLevel :: Level where "TraceLevel = 6"

lemmas level_defs = PanicLevel_def FatalLevel_def ErrorLevel_def WarnLevel_def InfoLevel_def DebugLevel_def TraceLevel_def

definition Level_String :: "Level \<Rightarrow> string" where
  "Level_String l =
     (if l = TraceLevel then ''trace'' else if l = DebugLevel then ''debug'' else if l = InfoLevel then ''info''
      else if l = WarnLevel then ''warn'' else if l = ErrorLevel then ''error'' else if l = FatalLevel then ''fatal''
      else if l = PanicLevel then ''panic'' else ''unknown'')"

text \<open>
  \<open>strings.ToLower\<close> as far as a comparison with ASCII text can tell: besides the ASCII capitals, two characters have an
  ASCII letter as their lower case, the dotted capital I and the Kelvin sign.
\<close>

fun ToLower :: "string \<Rightarrow> string" where
  "ToLower [] = []"
| "ToLower (c # s) =
     (if c = CHR 0xC4 \<and> take 1 s = [CHR 0xB0] then CHR ''i'' # ToLower (drop 1 s)
      else if c = CHR 0xE2 \<and> take 2 s = [CHR 0x84, CHR 0xAA] then CHR ''k'' # ToLower (drop 2 s)
      else (if of_char c \<in> {65 .. (90 :: nat)} then char_of (of_char c + (32 :: nat)) else c) # ToLower s)"

definition ParseLevel :: "string \<Rightarrow> Level result" where
  "ParseLevel str = (let s = ToLower str in
      if s = ''panic'' then Ret PanicLevel else if s = ''fatal'' then Ret FatalLevel else if s = ''error'' then Ret ErrorLevel
      else if s = ''warn'' then Ret WarnLevel else if s = ''info'' then Ret InfoLevel else if s = ''debug'' then Ret DebugLevel
      else if s = ''trace'' then Ret TraceLevel else Fail (Errorc IllegalArgumentError (''Invalid log level str='' @ str)))"

section \<open>Entries\<close>

text \<open>A field holds a string, or another value by the text that it is printed as. Fields are listed in the order of iteration.\<close>

datatype fval = FString string | FOther string

fun sprint :: "fval \<Rightarrow> string" where
  "sprint (FString s) = s"
| "sprint (FOther s) = s"

record caller =
  c_Function :: string
  c_File :: string
  c_Line :: string

record log_entry =
  e_Level :: Level
  e_Time :: string
  e_Caller :: "caller option"
  e_Message :: string
  e_Data :: "(string \<times> fval) list"

definition FieldKeyWallet :: string where "FieldKeyWallet = ''wallet''"
definition FieldKeyChain :: string where "FieldKeyChain = ''chain''"
definition FieldKeyModule :: string where "FieldKeyModule = ''module''"
definition FieldKeyPrefix :: string where "FieldKeyPrefix = ''prefix''"

definition systemFields :: "string list" where
  "systemFields = [FieldKeyWallet, FieldKeyChain, FieldKeyModule, FieldKeyPrefix]"

text \<open>What follows the last slash.\<close>

definition after_slash :: "string \<Rightarrow> string" where
  "after_slash f = rev (takeWhile (\<lambda>c. c \<noteq> CHR ''/'') (rev f))"

definition getPackageName :: "string \<Rightarrow> string" where
  "getPackageName f = (let f = after_slash f in
     case str_index ''.'' f of Some (Suc i) \<Rightarrow> take (Suc i) f | _ \<Rightarrow> f)"

text \<open>\<open>path.Base\<close>\<close>

definition trim_right :: "char \<Rightarrow> string \<Rightarrow> string" where
  "trim_right c s = rev (dropWhile (\<lambda>d. d = c) (rev s))"

definition Base :: "string \<Rightarrow> string" where
  "Base path = (if path = [] then ''.'' else
     let s = after_slash (trim_right (CHR ''/'') path) in if s = [] then ''/'' else s)"

definition levelNames :: "string list" where
  "levelNames = [''P'', ''F'', ''E'', ''W'', ''I'', ''D'', ''T'']"

definition custom_Format :: "log_entry \<Rightarrow> string result" where
  "custom_Format e =
     (if e_Level e < 0 \<or> 7 \<le> e_Level e then Panic
      else Ret (levelNames ! nat (e_Level e) @ ''|'' @ e_Time e @ ''|'' @
        (case map_of (e_Data e) FieldKeyWallet of Some v \<Rightarrow> take 4 (sprint v @ ''----'') @ ''|'' | None \<Rightarrow> ''----|'') @
        (case map_of (e_Data e) FieldKeyChain of Some v \<Rightarrow> sprint v @ ''|'' | None \<Rightarrow> ''-|'') @
        (case map_of (e_Data e) FieldKeyModule of Some v \<Rightarrow> sprint v @ ''|''
         | None \<Rightarrow> (case e_Caller e of Some c \<Rightarrow> getPackageName (c_Function c) @ ''|'' | None \<Rightarrow> ''--|'')) @
        (case map_of (e_Data e) FieldKeyPrefix of Some v \<Rightarrow> sprint v | None \<Rightarrow> []) @
        (case e_Caller e of Some c \<Rightarrow> Base (c_File c) @ '':'' @ c_Line c @ '' '' | None \<Rightarrow> []) @
        trim_right (CHR 0x0A) (e_Message e) @
        concat (map (\<lambda>(k, v). '' '' @ k @ ''='' @ sprint v) (filter (\<lambda>(k, v). k \<notin> set systemFields) (e_Data e))) @
        [CHR 0x0A]))"

section \<open>Filter\<close>

text \<open>\<open>lf_file\<close> is what was written to the file, when there is one.\<close>

record logFilter =
  lf_defaultLevel :: Level
  lf_moduleLevels :: "(string \<times> Level) list"
  lf_file :: "string list option"

definition newLogFilter :: logFilter where
  "newLogFilter = \<lparr>lf_defaultLevel = TraceLevel, lf_moduleLevels = [], lf_file = None\<rparr>"

definition lf_SetModuleLevel :: "string \<Rightarrow> Level \<Rightarrow> logFilter \<Rightarrow> logFilter" where
  "lf_SetModuleLevel m lv f = f\<lparr>lf_moduleLevels := (m, lv) # lf_moduleLevels f\<rparr>"

definition lf_GetModuleLevel :: "string \<Rightarrow> logFilter \<Rightarrow> Level" where
  "lf_GetModuleLevel m f = (case map_of (lf_moduleLevels f) m of Some lv \<Rightarrow> lv | None \<Rightarrow> lf_defaultLevel f)"

definition lf_SetDefaultLevel :: "Level \<Rightarrow> logFilter \<Rightarrow> logFilter" where
  "lf_SetDefaultLevel lv f = f\<lparr>lf_defaultLevel := lv\<rparr>"

definition lf_SetFileWriter :: "logFilter \<Rightarrow> logFilter" where
  "lf_SetFileWriter f = f\<lparr>lf_file := Some []\<rparr>"

definition module_of :: "log_entry \<Rightarrow> string result" where
  "module_of e = (case map_of (e_Data e) FieldKeyModule of
      None \<Rightarrow> Ret (case e_Caller e of Some c \<Rightarrow> getPackageName (c_Function c) | None \<Rightarrow> [])
    | Some (FString s) \<Rightarrow> Ret s
    | Some (FOther s) \<Rightarrow> Panic)"

definition level_of :: "string \<Rightarrow> logFilter \<Rightarrow> Level" where
  "level_of module f = (if module = [] then lf_defaultLevel f
     else case map_of (lf_moduleLevels f) module of Some lv \<Rightarrow> lv | None \<Rightarrow> lf_defaultLevel f)"

definition lf_write :: "string \<Rightarrow> logFilter \<Rightarrow> logFilter" where
  "lf_write buf f = (if buf = [] then f else f\<lparr>lf_file := map_option (\<lambda>ws. ws @ [buf]) (lf_file f)\<rparr>)"

text \<open>\<open>None\<close> is the nil result, which logrus prints as nothing. The formatter of a filter is \<open>customFormatter\<close>.\<close>

definition lf_Format :: "log_entry \<Rightarrow> (logFilter, err, string option) proc" where
  "lf_Format e = bind_p (lift_p (module_of e)) (\<lambda>module. get_p (\<lambda>f.
     if level_of module f < e_Level e \<and> lf_file f = None then ret_p None
     else bind_p (lift_p (custom_Format e)) (\<lambda>buf. then_p (modify_p (lf_write buf))
       (if level_of module f < e_Level e then ret_p None else ret_p (Some buf)))))"

section \<open>Forwarders\<close>

record ForwarderConfig =
  fc_Vendor :: string
  fc_Address :: string
  fc_Level :: string
  fc_Name :: string
  fc_TimeFormat :: string

definition HookLevels :: "ForwarderConfig \<Rightarrow> Level list result" where
  "HookLevels c = bind_r (ParseLevel (fc_Level c)) (\<lambda>lv. Ret
     ((if lv = TraceLevel then [TraceLevel] else []) @
      (if lv = TraceLevel \<or> lv = DebugLevel then [DebugLevel] else []) @
      (if lv = TraceLevel \<or> lv = DebugLevel \<or> lv = InfoLevel then [InfoLevel] else []) @
      (if lv = TraceLevel \<or> lv = DebugLevel \<or> lv = InfoLevel \<or> lv = WarnLevel then [WarnLevel] else []) @
      (if lv = TraceLevel \<or> lv = DebugLevel \<or> lv = InfoLevel \<or> lv = WarnLevel \<or> lv = ErrorLevel then [ErrorLevel] else []) @
      (if lv = TraceLevel \<or> lv = DebugLevel \<or> lv = InfoLevel \<or> lv = WarnLevel \<or> lv = ErrorLevel \<or> lv = FatalLevel then [FatalLevel] else []) @
      (if lv = TraceLevel \<or> lv = DebugLevel \<or> lv = InfoLevel \<or> lv = WarnLevel \<or> lv = ErrorLevel \<or> lv = FatalLevel \<or> lv = PanicLevel
       then [PanicLevel] else [])))"

record 'h HookWrapper =
  hw_h :: 'h
  hw_lvs :: "Level list"
  hw_c :: ForwarderConfig

definition newHook :: "ForwarderConfig \<Rightarrow> (ForwarderConfig \<Rightarrow> 'h result) \<Rightarrow> 'h HookWrapper result" where
  "newHook c f = bind_r (HookLevels c) (\<lambda>lvs. bind_r (f c) (\<lambda>h. Ret \<lparr>hw_h = h, hw_lvs = lvs, hw_c = c\<rparr>))"

text \<open>\<open>time.RFC3339Nano\<close> is a constant of the standard library.\<close>

definition with_defaults :: "ForwarderConfig \<Rightarrow> ForwarderConfig" where
  "with_defaults c = c\<lparr>fc_Level := (if fc_Level c = [] then ''info'' else fc_Level c),
     fc_Name := (if fc_Name c = [] then ''btp'' else fc_Name c),
     fc_TimeFormat := (if fc_TimeFormat c = [] then ''2006-01-02T15:04:05.999999999Z07:00'' else fc_TimeFormat c)\<rparr>"

text \<open>The hooks of the global logger are the state.\<close>

definition AddForwarder :: "(ForwarderConfig \<Rightarrow> 'h result) \<Rightarrow> (ForwarderConfig \<Rightarrow> 'h result) \<Rightarrow> ForwarderConfig
    \<Rightarrow> ('h HookWrapper list, err, unit) proc" where
  "AddForwarder fluentHookCreater logstashHookCreater c = (let c = with_defaults c in
     bind_p (lift_p
        (if fc_Vendor c = ''fluentd'' then newHook c fluentHookCreater
         else if fc_Vendor c = ''logstash'' then newHook c logstashHookCreater
         else Fail (StdError (''not supported forwarder '' @ fc_Vendor c))))
       (\<lambda>h. modify_p (\<lambda>hs. hs @ [h])))"

text \<open>\<open>Fire\<close>: the entry that the vendor's hook is called with; the entry itself gets its fields back. \<open>t\<close> is the text of its time in nanoseconds.\<close>

definition fired :: "string \<Rightarrow> log_entry \<Rightarrow> log_entry" where
  "fired t e = (let d = AList.update ''logtime'' (FOther t) (e_Data e) in
     e\<lparr>e_Data := (case e_Caller e of None \<Rightarrow> d | Some c \<Rightarrow>
       let d = (if map_of d FieldKeyModule = None then AList.update FieldKeyModule (FString (getPackageName (c_Function c))) d else d) in
       AList.update ''src'' (FString (Base (c_File c) @ '':'' @ c_Line c)) d)\<rparr>)"

section \<open>What is logged where\<close>

lemma levels_range: "0 \<le> lv \<and> lv < 7 \<longleftrightarrow> lv \<in> {PanicLevel, FatalLevel, ErrorLevel, WarnLevel, InfoLevel, DebugLevel, TraceLevel}"
  by (auto simp: level_defs)

lemma ParseLevel_range: "ParseLevel s = Ret lv \<Longrightarrow> 0 \<le> lv \<and> lv < 7"
  by (auto simp: ParseLevel_def Let_def levels_range split: if_splits)

lemma ParseLevel_String: "0 \<le> lv \<and> lv < 7 \<Longrightarrow> ParseLevel (Level_String lv) = Ret lv"
  by (auto simp: levels_range ParseLevel_def Level_String_def level_defs Let_def)

lemma ToLower_String: "ToLower (Level_String lv) = Level_String lv"
  by (auto simp: Level_String_def)

lemma custom_Format_ends: "custom_Format e = Ret t \<Longrightarrow> t \<noteq> [] \<and> last t = CHR 0x0A"
  by (auto simp: custom_Format_def split: if_splits)

lemma custom_Format_total: "0 \<le> e_Level e \<and> e_Level e < 7 \<Longrightarrow> \<exists>t. custom_Format e = Ret t"
  by (simp add: custom_Format_def)

lemma HookLevels_below:
  assumes "ParseLevel (fc_Level c) = Ret lv"
  shows "HookLevels c = Ret (rev [0..lv])"
proof -
  have "lv \<in> {0, 1, 2, 3, 4, 5, 6}" using ParseLevel_range [OF assms] by auto
  then show ?thesis using assms by (auto simp: HookLevels_def level_defs upto.simps)
qed

lemma module_level_set:
  "lf_GetModuleLevel m (lf_SetModuleLevel m' lv f) = (if m = m' then lv else lf_GetModuleLevel m f)"
  by (simp add: lf_GetModuleLevel_def lf_SetModuleLevel_def split: option.split)

text \<open>
  An entry with a name of its module and a level that exists is written to the file whatever its level, and goes on to the
  console exactly when its level is at most that of its module, which is the one set last for it and else the default.
\<close>
theorem log_filter:
  assumes "module_of e = Ret m" and "0 \<le> e_Level e" and "e_Level e < 7"
  shows "\<exists>t. custom_Format e = Ret t \<and>
    lf_Format e f = (Ret (if e_Level e \<le> (if m = [] then lf_defaultLevel f else lf_GetModuleLevel m f) then Some t else None),
      f\<lparr>lf_file := map_option (\<lambda>ws. ws @ [t]) (lf_file f)\<rparr>)"
proof -
  obtain t where t: "custom_Format e = Ret t" using custom_Format_total assms by blast
  have l: "level_of m f = (if m = [] then lf_defaultLevel f else lf_GetModuleLevel m f)"
    by (simp add: level_of_def lf_GetModuleLevel_def)
  have w: "lf_write t f = f\<lparr>lf_file := map_option (\<lambda>ws. ws @ [t]) (lf_file f)\<rparr>"
    using custom_Format_ends [OF t] by (simp add: lf_write_def)
  show ?thesis
    by (rule exI [of _ t]) (auto simp: lf_Format_def bind_p_def proc_defs assms(1) t l [symmetric] w)
qed

definition sample_entry :: log_entry where
  "sample_entry = \<lparr>e_Level = DebugLevel, e_Time = ''12:00:00.000000'',
     e_Caller = Some \<lparr>c_Function = ''github.com/icon-project/btp2/common/link.(*Link).Start'', c_File = ''/src/link.go'', c_Line = ''7''\<rparr>,
     e_Message = ''start'' @ [CHR 0x0A], e_Data = [(FieldKeyChain, FString ''0x1.icon''), (''seq'', FOther ''3'')]\<rparr>"

theorem log_filter_witness:
  "lf_Format sample_entry (lf_SetFileWriter (lf_SetModuleLevel ''link'' InfoLevel newLogFilter)) =
    (Ret None, \<lparr>lf_defaultLevel = TraceLevel, lf_moduleLevels = [(''link'', InfoLevel)],
       lf_file = Some [''D|12:00:00.000000|----|0x1.icon|link|link.go:7 start seq=3'' @ [CHR 0x0A]]\<rparr>)"
proof -
  have m: "module_of sample_entry = Ret ''link''" by code_simp
  have t: "custom_Format sample_entry = Ret (''D|12:00:00.000000|----|0x1.icon|link|link.go:7 start seq=3'' @ [CHR 0x0A])" by code_simp
  have l: "0 \<le> e_Level sample_entry" "e_Level sample_entry < 7" by (simp_all add: sample_entry_def level_defs)
  from log_filter [OF m l, of "lf_SetFileWriter (lf_SetModuleLevel ''link'' InfoLevel newLogFilter)"] show ?thesis
    by (simp add: t lf_SetFileWriter_def lf_SetModuleLevel_def newLogFilter_def lf_GetModuleLevel_def) (simp add: sample_entry_def level_defs)
qed

end
