(* ===== verification/Relay_Service.thy ===== *)
theory Relay_Service
  imports Key_Store Logging
begin

text \<open>
  How a relay is put together (src/common/relay/relay.go, src/common/link/factory.go and the factories of the three chains under
  src/chain): from the configurations of two chains, the registered factories make links and senders, one pair for each
  direction. A receiver, a link or a sender is described by the constructor that made it and what it was given. Files, the
  decoding of JSON and the opening of connections and databases are parameters.
\<close>

section \<open>Configuration\<close>

record ChainConfigCommon =
  cc_Type :: string
  cc_Address :: string

record BaseConfig =
  bc_Address :: string
  bc_Endpoint :: string
  bc_KeyStore :: string
  bc_Type :: string
  bc_KeyStorePass :: string
  bc_KeySecret :: string
  bc_Options :: string

record WriterConfig =
  wc_Filename :: string

record RelayConfig =
  rc_Direction :: string
  rc_BaseDir :: string
  rc_LogLevel :: string
  rc_ConsoleLevel :: string
  rc_LogForwarder :: "ForwarderConfig option"
  rc_LogWriter :: "WriterConfig option"

record 'raw Config =
  cf_RelayConfig :: RelayConfig
  cf_Src :: 'raw
  cf_Dst :: 'raw

text \<open>
  \<open>v_Options t o\<close>: the options \<open>o\<close> decode for a constructor of the chain type \<open>t\<close>; \<open>v_Database t d\<close>: its database opens under the directory \<open>d\<close>;
  \<open>v_Dial\<close>: the node of an endpoint answers.
\<close>

record ('raw, 'sk, 'pk, 'w) env =
  v_Common :: "'raw \<Rightarrow> ChainConfigCommon result"
  v_Base :: "'raw \<Rightarrow> BaseConfig result"
  v_ReadFile :: "string \<Rightarrow> bytes result"
  v_Prims :: "('sk, 'pk, bytes, 'w) key_prims"
  v_Options :: "string \<Rightarrow> string \<Rightarrow> bool"
  v_Database :: "string \<Rightarrow> string \<Rightarrow> unit result"
  v_Dial :: "string \<Rightarrow> bool"

section \<open>Wallets\<close>

definition resolvePassword :: "('raw, 'sk, 'pk, 'w) env \<Rightarrow> string \<Rightarrow> string \<Rightarrow> bytes result" where
  "resolvePassword V keySecret keyStorePass =
     (if keySecret \<noteq> [] then v_ReadFile V keySecret
      else if keyStorePass \<noteq> [] then Ret (map of_char keyStorePass) else Ret [])"

definition newWallet :: "('raw, 'sk, 'pk, 'w) env \<Rightarrow> string \<Rightarrow> string \<Rightarrow> string \<Rightarrow> ('sk, 'pk, 'w) wallet result" where
  "newWallet V passwd secret keyStorePath = (case v_ReadFile V keyStorePath of
      Ret keyStore \<Rightarrow> bind_r (resolvePassword V secret passwd) (\<lambda>pw. DecryptKeyStore (v_Prims V) keyStore pw)
    | Panic \<Rightarrow> Panic
    | _ \<Rightarrow> Fail (StdError (''fail to open KeyStore file path='' @ keyStorePath)))"

section \<open>Receivers and senders of the chains\<close>

definition TYPE_btp2 :: string where "TYPE_btp2 = ''icon-btpblock''"
definition TYPE_bridge :: string where "TYPE_bridge = ''icon-bridge''"
definition TYPE_ethbr :: string where "TYPE_ethbr = ''eth-bridge''"

record made_receiver =
  mr_type :: string
  mr_src :: BaseConfig
  mr_dst :: string

datatype sender_kind = IconSender | EthbrSender

record ('sk, 'pk, 'w) made_sender =
  ms_kind :: sender_kind
  ms_srcAddr :: string
  ms_dst :: BaseConfig
  ms_w :: "('sk, 'pk, 'w) wallet"

text \<open>\<open>ParseChainConfig\<close> is the same in the three packages, with the package's own type.\<close>

definition ParseChainConfig :: "string \<Rightarrow> ('raw, 'sk, 'pk, 'w) env \<Rightarrow> 'raw \<Rightarrow> BaseConfig result" where
  "ParseChainConfig type V raw = bind_r (v_Base V raw) (\<lambda>cfg.
     if bc_Type cfg \<noteq> type then Fail (StdError (''invalid type (type:'' @ bc_Type cfg @ '')'')) else Ret cfg)"

definition btp2_NewReceiver :: "('raw, 'sk, 'pk, 'w) env \<Rightarrow> BaseConfig \<Rightarrow> string \<Rightarrow> string \<Rightarrow> made_receiver result" where
  "btp2_NewReceiver V src dstAddr baseDir = bind_r (v_Database V TYPE_btp2 baseDir)
     (\<lambda>_. Ret \<lparr>mr_type = TYPE_btp2, mr_src = src, mr_dst = dstAddr\<rparr>)"

definition bridge_NewReceiver :: "('raw, 'sk, 'pk, 'w) env \<Rightarrow> BaseConfig \<Rightarrow> string \<Rightarrow> string \<Rightarrow> made_receiver result" where
  "bridge_NewReceiver V src dstAddr baseDir = Ret \<lparr>mr_type = TYPE_bridge, mr_src = src, mr_dst = dstAddr\<rparr>"

text \<open>\<open>Fatal\<close> ends the process as an uncaught panic does.\<close>

definition ethbr_NewReceiver :: "('raw, 'sk, 'pk, 'w) env \<Rightarrow> BaseConfig \<Rightarrow> string \<Rightarrow> string \<Rightarrow> made_receiver result" where
  "ethbr_NewReceiver V src dstAddr baseDir =
     (if \<not> v_Dial V (bc_Endpoint src) \<or> \<not> v_Options V TYPE_ethbr (bc_Options src) then Panic
      else bind_r (v_Database V TYPE_ethbr baseDir) (\<lambda>_. Ret \<lparr>mr_type = TYPE_ethbr, mr_src = src, mr_dst = dstAddr\<rparr>))"

definition icon_NewSender :: "string \<Rightarrow> ('raw, 'sk, 'pk, 'w) env \<Rightarrow> string \<Rightarrow> BaseConfig \<Rightarrow> string \<Rightarrow> ('sk, 'pk, 'w) made_sender result" where
  "icon_NewSender type V srcAddr dst baseDir =
     bind_r (newWallet V (bc_KeyStorePass dst) (bc_KeySecret dst) (bc_KeyStore dst)) (\<lambda>w.
       if \<not> v_Options V type (bc_Options dst) then Panic
       else Ret \<lparr>ms_kind = IconSender, ms_srcAddr = srcAddr, ms_dst = dst, ms_w = w\<rparr>)"

definition ethbr_NewSender :: "('raw, 'sk, 'pk, 'w) env \<Rightarrow> string \<Rightarrow> BaseConfig \<Rightarrow> string \<Rightarrow> ('sk, 'pk, 'w) made_sender result" where
  "ethbr_NewSender V srcAddr dst baseDir =
     bind_r (newWallet V (bc_KeyStorePass dst) (bc_KeySecret dst) (bc_KeyStore dst)) (\<lambda>w.
       if \<not> v_Options V TYPE_ethbr (bc_Options dst) \<or> \<not> v_Dial V (bc_Endpoint dst) then Panic
       else Ret \<lparr>ms_kind = EthbrSender, ms_srcAddr = srcAddr, ms_dst = dst, ms_w = w\<rparr>)"

section \<open>Factories\<close>

text \<open>A link of the program, with its receiver, or one that a factory brings itself. A nil function is \<open>None\<close>.\<close>

datatype 'l made_link = StandardLink BaseConfig made_receiver | OwnLink 'l

record ('raw, 'sk, 'pk, 'w, 'l) Factory =
  f_Type :: string
  f_ParseChainConfig :: "'raw \<Rightarrow> BaseConfig result"
  f_NewReceiver :: "(BaseConfig \<Rightarrow> string \<Rightarrow> string \<Rightarrow> made_receiver result) option"
  f_NewLink :: "(BaseConfig \<Rightarrow> string \<Rightarrow> string \<Rightarrow> 'l result) option"
  f_NewSender :: "string \<Rightarrow> BaseConfig \<Rightarrow> string \<Rightarrow> ('sk, 'pk, 'w) made_sender result"

type_synonym ('raw, 'sk, 'pk, 'w, 'l) factories = "(string \<times> ('raw, 'sk, 'pk, 'w, 'l) Factory) list"

definition RegisterFactory :: "('raw, 'sk, 'pk, 'w, 'l) Factory \<Rightarrow> (('raw, 'sk, 'pk, 'w, 'l) factories, err, unit) proc" where
  "RegisterFactory f = get_p (\<lambda>fs.
     if (case f_NewLink f of None \<Rightarrow> True | Some _ \<Rightarrow> False) \<and> (case f_NewReceiver f of None \<Rightarrow> True | Some _ \<Rightarrow> False) then panic_p
     else if f_Type f \<in> set (map fst fs) then panic_p
     else modify_p (\<lambda>fs. (f_Type f, f) # fs))"

definition RegisterIconBtp2 :: "('raw, 'sk, 'pk, 'w) env \<Rightarrow> (('raw, 'sk, 'pk, 'w, 'l) factories, err, unit) proc" where
  "RegisterIconBtp2 V = RegisterFactory \<lparr>f_Type = TYPE_btp2, f_ParseChainConfig = ParseChainConfig TYPE_btp2 V,
     f_NewReceiver = Some (btp2_NewReceiver V), f_NewLink = None, f_NewSender = icon_NewSender TYPE_btp2 V\<rparr>"

definition RegisterIconBridge :: "('raw, 'sk, 'pk, 'w) env \<Rightarrow> (('raw, 'sk, 'pk, 'w, 'l) factories, err, unit) proc" where
  "RegisterIconBridge V = RegisterFactory \<lparr>f_Type = TYPE_bridge, f_ParseChainConfig = ParseChainConfig TYPE_bridge V,
     f_NewReceiver = Some (bridge_NewReceiver V), f_NewLink = None, f_NewSender = icon_NewSender TYPE_bridge V\<rparr>"

definition RegisterEthBridge :: "('raw, 'sk, 'pk, 'w) env \<Rightarrow> (('raw, 'sk, 'pk, 'w, 'l) factories, err, unit) proc" where
  "RegisterEthBridge V = RegisterFactory \<lparr>f_Type = TYPE_ethbr, f_ParseChainConfig = ParseChainConfig TYPE_ethbr V,
     f_NewReceiver = Some (ethbr_NewReceiver V), f_NewLink = None, f_NewSender = ethbr_NewSender V\<rparr>"

text \<open>\<open>init\<close> of the command\<close>

definition init_factories :: "('raw, 'sk, 'pk, 'w) env \<Rightarrow> (('raw, 'sk, 'pk, 'w, 'l) factories, err, unit) proc" where
  "init_factories V = then_p (RegisterIconBridge V) (then_p (RegisterIconBtp2 V) (RegisterEthBridge V))"

definition CreateLink :: "('raw, 'sk, 'pk, 'w) env \<Rightarrow> ('raw, 'sk, 'pk, 'w, 'l) factories \<Rightarrow> 'raw \<Rightarrow> 'raw \<Rightarrow> string \<Rightarrow> 'l made_link result" where
  "CreateLink V fs srcRaw dstRaw baseDir =
     bind_r (v_Common V srcRaw) (\<lambda>srcCfgCommon.
     if cc_Type srcCfgCommon = [] then Fail (Errorc IllegalArgumentError ''empty type in source config'')
     else bind_r (v_Common V dstRaw) (\<lambda>dstCfgCommon.
     case map_of fs (cc_Type srcCfgCommon) of
       None \<Rightarrow> Fail (Errorc NotFoundError (''UnknownSourceType(type='' @ cc_Type srcCfgCommon @ '')''))
     | Some f \<Rightarrow> bind_r (f_ParseChainConfig f srcRaw) (\<lambda>srcCfg.
         case f_NewLink f of
           Some mk \<Rightarrow> bind_r (mk srcCfg (cc_Address dstCfgCommon) baseDir) (\<lambda>l. Ret (OwnLink l))
         | None \<Rightarrow> (case f_NewReceiver f of
             None \<Rightarrow> Panic
           | Some mk \<Rightarrow> bind_r (mk srcCfg (cc_Address dstCfgCommon) baseDir) (\<lambda>receiver. Ret (StandardLink srcCfg receiver))))))"

definition CreateSender :: "('raw, 'sk, 'pk, 'w) env \<Rightarrow> ('raw, 'sk, 'pk, 'w, 'l) factories \<Rightarrow> 'raw \<Rightarrow> 'raw \<Rightarrow> string
    \<Rightarrow> ('sk, 'pk, 'w) made_sender result" where
  "CreateSender V fs srcRaw dstRaw baseDir =
     bind_r (v_Common V srcRaw) (\<lambda>srcCfgCommon.
     bind_r (v_Common V dstRaw) (\<lambda>dstCfgCommon.
     if cc_Type dstCfgCommon = [] then Fail (Errorc IllegalArgumentError ''empty type in dst config'')
     else case map_of fs (cc_Type dstCfgCommon) of
       None \<Rightarrow> Fail (Errorc NotFoundError (''UnknownSourceType(type='' @ cc_Type dstCfgCommon @ '')''))
     | Some f \<Rightarrow> bind_r (f_ParseChainConfig f dstRaw) (\<lambda>dstCfg. f_NewSender f (cc_Address srcCfgCommon) dstCfg baseDir)))"

section \<open>Relay\<close>

text \<open>
  The state is that of the one logger behind all entries: its level, its filter and its hooks. \<open>Panicf\<close> panics and \<open>Fatalf\<close> ends the
  process. \<open>ResolveAbsolute\<close> only names the file. \<open>mk\<close> are the hooks of the two vendors.
\<close>

record 'h log_state =
  lg_level :: Level
  lg_filter :: logFilter
  lg_hooks :: "'h HookWrapper list"

definition or_panic :: "'a result \<Rightarrow> ('s, err, 'a) proc" where
  "or_panic r = (case r of Ret x \<Rightarrow> ret_p x | _ \<Rightarrow> panic_p)"

fun setModuleLevels :: "(string \<times> string) list \<Rightarrow> ('h log_state, err, unit) proc" where
  "setModuleLevels [] = ret_p ()"
| "setModuleLevels ((m, lvStr) # ms) = bind_p (or_panic (ParseLevel lvStr)) (\<lambda>lv.
     then_p (modify_p (\<lambda>l. l\<lparr>lg_filter := lf_SetModuleLevel m lv (lg_filter l)\<rparr>)) (setModuleLevels ms))"

definition on_hooks :: "('h HookWrapper list, err, unit) proc \<Rightarrow> ('h log_state, err, unit) proc" where
  "on_hooks m l = (case m (lg_hooks l) of (r, hs) \<Rightarrow> (case r of Ret u \<Rightarrow> Ret u | _ \<Rightarrow> Panic, l\<lparr>lg_hooks := hs\<rparr>))"

definition setLogger :: "('raw, 'sk, 'pk, 'w) env \<Rightarrow> (ForwarderConfig \<Rightarrow> 'h result) \<times> (ForwarderConfig \<Rightarrow> 'h result) \<Rightarrow> 'raw \<Rightarrow> RelayConfig
    \<Rightarrow> (string \<times> string) list \<Rightarrow> ('h log_state, err, unit) proc" where
  "setLogger V mk srcRaw lc modLevels =
     bind_p (lift_p (v_Common V srcRaw)) (\<lambda>_.
     then_p (case rc_LogWriter lc of None \<Rightarrow> ret_p () | Some w \<Rightarrow>
       if wc_Filename w = [] then ret_p () else modify_p (\<lambda>l. l\<lparr>lg_filter := lf_SetFileWriter (lg_filter l)\<rparr>))
     (bind_p (or_panic (ParseLevel (rc_LogLevel lc))) (\<lambda>lv. then_p (modify_p (\<lambda>l. l\<lparr>lg_level := lv\<rparr>))
     (bind_p (or_panic (ParseLevel (rc_ConsoleLevel lc))) (\<lambda>lv. then_p (modify_p (\<lambda>l. l\<lparr>lg_filter := lf_SetDefaultLevel lv (lg_filter l)\<rparr>))
     (then_p (setModuleLevels modLevels)
     (case rc_LogForwarder lc of None \<Rightarrow> ret_p () | Some c \<Rightarrow>
       if fc_Vendor c = [] \<and> fc_Address c = [] then ret_p () else on_hooks (AddForwarder (fst mk) (snd mk) c))))))))"

record ('sk, 'pk, 'w, 'l) linkFactory =
  lk_link :: "'l made_link"
  lk_sender :: "('sk, 'pk, 'w) made_sender"

definition newLinkFactory :: "('raw, 'sk, 'pk, 'w) env \<Rightarrow> ('raw, 'sk, 'pk, 'w, 'l) factories \<Rightarrow> (ForwarderConfig \<Rightarrow> 'h result) \<times> (ForwarderConfig \<Rightarrow> 'h result)
    \<Rightarrow> 'raw \<Rightarrow> 'raw \<Rightarrow> RelayConfig \<Rightarrow> (string \<times> string) list \<Rightarrow> ('h log_state, err, ('sk, 'pk, 'w, 'l) linkFactory) proc" where
  "newLinkFactory V fs mk srcRaw dstRaw relayCfg modLevels =
     then_p (setLogger V mk srcRaw relayCfg modLevels)
     (bind_p (lift_p (CreateLink V fs srcRaw dstRaw (rc_BaseDir relayCfg))) (\<lambda>l.
      bind_p (lift_p (CreateSender V fs srcRaw dstRaw (rc_BaseDir relayCfg))) (\<lambda>s. ret_p \<lparr>lk_link = l, lk_sender = s\<rparr>)))"

definition NewRelay :: "('raw, 'sk, 'pk, 'w) env \<Rightarrow> ('raw, 'sk, 'pk, 'w, 'l) factories \<Rightarrow> (ForwarderConfig \<Rightarrow> 'h result) \<times> (ForwarderConfig \<Rightarrow> 'h result)
    \<Rightarrow> 'raw Config \<Rightarrow> (string \<times> string) list \<Rightarrow> ('h log_state, err, ('sk, 'pk, 'w, 'l) linkFactory list) proc" where
  "NewRelay V fs mk cfg modLevels = (let rc = cf_RelayConfig cfg; new = (\<lambda>s d. newLinkFactory V fs mk s d rc modLevels) in
     if rc_Direction rc = ''front'' then bind_p (new (cf_Src cfg) (cf_Dst cfg)) (\<lambda>lf. ret_p [lf])
     else if rc_Direction rc = ''reverse'' then bind_p (new (cf_Dst cfg) (cf_Src cfg)) (\<lambda>lf. ret_p [lf])
     else if rc_Direction rc = ''both'' then
       bind_p (new (cf_Src cfg) (cf_Dst cfg)) (\<lambda>frontLf.
       bind_p (new (cf_Dst cfg) (cf_Src cfg)) (\<lambda>reverseLf. ret_p [frontLf, reverseLf]))
     else ret_p [])"

text \<open>
  \<open>Start\<close>: the links are started in order; then the first error that is not nil ends the relay. \<open>None\<close>: the relay still waits on its
  channel, after everything in \<open>errs\<close> has arrived.
\<close>

fun start_links :: "('x \<Rightarrow> err option) \<Rightarrow> 'x list \<Rightarrow> err option" where
  "start_links start [] = None"
| "start_links start (lf # lfs) = (case start lf of Some e \<Rightarrow> Some e | None \<Rightarrow> start_links start lfs)"

fun wait_errors :: "err option list \<Rightarrow> err option" where
  "wait_errors [] = None"
| "wait_errors (Some e # es) = Some e"
| "wait_errors (None # es) = wait_errors es"

definition Relay_Start :: "('x \<Rightarrow> err option) \<Rightarrow> err option list \<Rightarrow> 'x list \<Rightarrow> err option" where
  "Relay_Start start errs lfs = (case start_links start lfs of Some e \<Rightarrow> Some e | None \<Rightarrow> wait_errors errs)"

section \<open>How a relay is wired\<close>

text \<open>What both readings of one configuration agree on.\<close>

definition json_agrees :: "('raw, 'sk, 'pk, 'w) env \<Rightarrow> bool" where
  "json_agrees V \<longleftrightarrow> (\<forall>raw cfg. v_Base V raw = Ret cfg \<longrightarrow> v_Common V raw = Ret \<lparr>cc_Type = bc_Type cfg, cc_Address = bc_Address cfg\<rparr>)"

definition chain_types :: "string list" where
  "chain_types = [TYPE_ethbr, TYPE_btp2, TYPE_bridge]"

lemmas type_defs = TYPE_btp2_def TYPE_bridge_def TYPE_ethbr_def

definition directions :: "'raw Config \<Rightarrow> ('raw \<times> 'raw) list" where
  "directions cfg = (let dir = rc_Direction (cf_RelayConfig cfg) in
     (if dir = ''front'' \<or> dir = ''both'' then [(cf_Src cfg, cf_Dst cfg)] else []) @
     (if dir = ''reverse'' \<or> dir = ''both'' then [(cf_Dst cfg, cf_Src cfg)] else []))"

text \<open>
  A pair that relays from \<open>s\<close> to \<open>d\<close>: its link has the receiver of the chain type of \<open>s\<close>, for messages to the address of \<open>d\<close>; its
  sender is one for the chain type of \<open>d\<close>, for messages from the address of \<open>s\<close>, and signs with the key store of \<open>d\<close>.
\<close>

definition wired :: "('raw, 'sk, 'pk, 'w) env \<Rightarrow> 'raw \<Rightarrow> 'raw \<Rightarrow> ('sk, 'pk, 'w, 'l) linkFactory \<Rightarrow> bool" where
  "wired V s d lf \<longleftrightarrow> (\<exists>sc dc w. v_Base V s = Ret sc \<and> v_Base V d = Ret dc \<and> bc_Type sc \<in> set chain_types \<and> bc_Type dc \<in> set chain_types \<and>
     lk_link lf = StandardLink sc \<lparr>mr_type = bc_Type sc, mr_src = sc, mr_dst = bc_Address dc\<rparr> \<and>
     newWallet V (bc_KeyStorePass dc) (bc_KeySecret dc) (bc_KeyStore dc) = Ret w \<and>
     lk_sender lf = \<lparr>ms_kind = (if bc_Type dc = TYPE_ethbr then EthbrSender else IconSender), ms_srcAddr = bc_Address sc, ms_dst = dc, ms_w = w\<rparr>)"

definition registered :: "('raw, 'sk, 'pk, 'w) env \<Rightarrow> ('raw, 'sk, 'pk, 'w, 'l) factories" where
  "registered V = snd (init_factories V [])"

lemma init_registers:
  "fst (init_factories V []) = Ret () \<and> map fst (registered V) = chain_types"
  by (simp add: registered_def init_factories_def RegisterIconBridge_def RegisterIconBtp2_def RegisterEthBridge_def RegisterFactory_def
      bind_p_def proc_defs type_defs chain_types_def)

lemma registered_factory:
  assumes "map_of (registered V) t = Some f"
  shows "t \<in> set chain_types \<and> f_ParseChainConfig f = ParseChainConfig t V \<and> f_NewLink f = None \<and>
    (\<exists>mk. f_NewReceiver f = Some mk \<and> (\<forall>src dst dir r. mk src dst dir = Ret r \<longrightarrow> r = \<lparr>mr_type = t, mr_src = src, mr_dst = dst\<rparr>)) \<and>
    (\<forall>src dst dir s. f_NewSender f src dst dir = Ret s \<longrightarrow> (\<exists>w. newWallet V (bc_KeyStorePass dst) (bc_KeySecret dst) (bc_KeyStore dst) = Ret w \<and>
      s = \<lparr>ms_kind = (if t = TYPE_ethbr then EthbrSender else IconSender), ms_srcAddr = src, ms_dst = dst, ms_w = w\<rparr>))"
  using assms
  by (auto simp: registered_def init_factories_def RegisterIconBridge_def RegisterIconBtp2_def RegisterEthBridge_def RegisterFactory_def
      bind_p_def proc_defs type_defs chain_types_def btp2_NewReceiver_def bridge_NewReceiver_def ethbr_NewReceiver_def icon_NewSender_def
      ethbr_NewSender_def bind_r_Ret split: if_splits)

lemma CreateLink_registered:
  assumes "json_agrees V" and "CreateLink V fs s d dir = Ret l" and "v_Base V d = Ret dc" and fs: "fs = registered V"
  shows "\<exists>sc. v_Base V s = Ret sc \<and> bc_Type sc \<in> set chain_types \<and>
    l = StandardLink sc \<lparr>mr_type = bc_Type sc, mr_src = sc, mr_dst = bc_Address dc\<rparr>"
proof -
  have d: "v_Common V d = Ret \<lparr>cc_Type = bc_Type dc, cc_Address = bc_Address dc\<rparr>" using assms(1,3) by (simp add: json_agrees_def)
  from assms(2) obtain cs f where f: "map_of fs (cc_Type cs) = Some f" and cs: "v_Common V s = Ret cs"
    by (auto simp: CreateLink_def bind_r_Ret split: if_splits option.splits)
  note r = registered_factory [OF f [unfolded fs]]
  then obtain mk where mk: "f_NewReceiver f = Some mk"
    "\<And>src dst dir r. mk src dst dir = Ret r \<Longrightarrow> r = \<lparr>mr_type = cc_Type cs, mr_src = src, mr_dst = dst\<rparr>" by blast
  from assms(2) f cs d r mk(1) obtain sc r' where sc: "ParseChainConfig (cc_Type cs) V s = Ret sc" and r': "mk sc (bc_Address dc) dir = Ret r'"
    and l: "l = StandardLink sc r'" by (auto simp: CreateLink_def bind_r_Ret split: if_splits)
  from sc have "v_Base V s = Ret sc" "bc_Type sc = cc_Type cs" by (auto simp: ParseChainConfig_def bind_r_Ret split: if_splits)
  with r l mk(2) [OF r'] show ?thesis by auto
qed

lemma CreateSender_registered:
  assumes "json_agrees V" and "CreateSender V fs s d dir = Ret x" and "v_Base V s = Ret sc" and fs: "fs = registered V"
  shows "\<exists>dc w. v_Base V d = Ret dc \<and> bc_Type dc \<in> set chain_types \<and> newWallet V (bc_KeyStorePass dc) (bc_KeySecret dc) (bc_KeyStore dc) = Ret w \<and>
    x = \<lparr>ms_kind = (if bc_Type dc = TYPE_ethbr then EthbrSender else IconSender), ms_srcAddr = bc_Address sc, ms_dst = dc, ms_w = w\<rparr>"
proof -
  have s: "v_Common V s = Ret \<lparr>cc_Type = bc_Type sc, cc_Address = bc_Address sc\<rparr>" using assms(1,3) by (simp add: json_agrees_def)
  from assms(2) s obtain t f dc where f: "map_of fs t = Some f" and dc: "f_ParseChainConfig f d = Ret dc"
    and x: "f_NewSender f (bc_Address sc) dc dir = Ret x"
    by (auto simp: CreateSender_def bind_r_Ret split: if_splits option.splits)
  note r = registered_factory [OF f [unfolded fs]]
  with dc have "v_Base V d = Ret dc" "bc_Type dc = t" by (auto simp: ParseChainConfig_def bind_r_Ret split: if_splits)
  with r x show ?thesis by blast
qed

lemma sender_reads_dst: "CreateSender V fs s d dir = Ret x \<Longrightarrow> fs = registered V \<Longrightarrow> \<exists>dc. v_Base V d = Ret dc"
  by (auto simp: CreateSender_def bind_r_Ret ParseChainConfig_def dest!: registered_factory split: if_splits option.splits)

lemma newLinkFactory_wired:
  assumes "json_agrees V" and "newLinkFactory V fs mk s d rc ml lg = (Ret lf, lg')" and fs: "fs = registered V"
  shows "wired V s d lf"
proof -
  from assms(2) obtain l x where l: "CreateLink V fs s d (rc_BaseDir rc) = Ret l"
    and x: "CreateSender V fs s d (rc_BaseDir rc) = Ret x" and lf: "lf = \<lparr>lk_link = l, lk_sender = x\<rparr>"
    by (auto simp: newLinkFactory_def proc_defs elim!: bind_p_RetE)
  from sender_reads_dst [OF x fs] obtain dc where dc: "v_Base V d = Ret dc" ..
  from CreateLink_registered [OF assms(1) l dc fs] obtain sc where sc: "v_Base V s = Ret sc" "bc_Type sc \<in> set chain_types"
    "l = StandardLink sc \<lparr>mr_type = bc_Type sc, mr_src = sc, mr_dst = bc_Address dc\<rparr>" by blast
  from CreateSender_registered [OF assms(1) x sc(1) fs] dc sc lf show ?thesis by (auto simp: wired_def)
qed

text \<open>
  C6: a relay that is made from the registered chains has one pair of link and sender for each direction of its configuration, and
  none else: the link follows the chain it relays from with the receiver of its type, and the sender writes to the other chain
  with the wallet of that chain's key store. For both directions the roles are exchanged.
\<close>
theorem relay_wired:
  assumes "json_agrees V" and "NewRelay V (registered V) mk cfg ml lg = (Ret lfs, lg')"
  shows "list_all2 (\<lambda>(s, d). wired V s d) (directions cfg) lfs"
  using assms(2)
  by (auto simp: NewRelay_def Let_def directions_def proc_defs elim!: bind_p_RetE split: if_splits intro: newLinkFactory_wired [OF assms(1) _ refl])

text \<open>A direction that is none of the three makes a relay without links, which waits for ever instead of reporting the mistake.\<close>

theorem relay_idle:
  assumes "rc_Direction (cf_RelayConfig cfg) \<notin> {''front'', ''reverse'', ''both''}"
  shows "NewRelay V fs mk cfg ml lg = (Ret [], lg) \<and> Relay_Start start [] [] = None"
  using assms by (simp add: NewRelay_def Let_def proc_defs Relay_Start_def)

text \<open>A started relay ends with the first error of a link, and only then.\<close>

lemma relay_ends: "Relay_Start start errs lfs = (case filter (\<lambda>e. e \<noteq> None) (map start lfs @ errs) of [] \<Rightarrow> None | e # es \<Rightarrow> e)"
proof -
  have "wait_errors errs = (case filter (\<lambda>e. e \<noteq> None) errs of [] \<Rightarrow> None | e # es \<Rightarrow> e)"
    by (induction errs rule: wait_errors.induct) simp_all
  then show ?thesis by (induction lfs) (auto simp: Relay_Start_def split: option.splits)
qed

section \<open>Witnesses\<close>

definition evm_prims :: "(byte, byte, bytes, bytes) key_prims" where
  "evm_prims = \<lparr>kp_curve = byte_curve, kp_Serialize = (\<lambda>sk. sk # replicate 31 0), kp_scrypt = (\<lambda>pw k. Ret pw),
     kp_keystream = (\<lambda>key iv n. replicate n 7), kp_Keccak = (\<lambda>b. b), kp_SHA3 = (\<lambda>b. b), kp_Marshal = (\<lambda>d. Fail (StdError ''json'')),
     kp_Unmarshal = (\<lambda>b. Ret (marshal_store (wrong_store\<lparr>ks_CoinType := []\<rparr>))), kp_DecryptEvm = (\<lambda>d pw. Ret (d @ pw))\<rparr>"

definition test_env :: "(BaseConfig, byte, byte, bytes) env" where
  "test_env = \<lparr>v_Common = (\<lambda>c. Ret \<lparr>cc_Type = bc_Type c, cc_Address = bc_Address c\<rparr>), v_Base = Ret,
     v_ReadFile = (\<lambda>path. Ret (map of_char path)), v_Prims = evm_prims, v_Options = (\<lambda>t opt. True),
     v_Database = (\<lambda>t dir. Ret ()), v_Dial = (\<lambda>e. True)\<rparr>"

definition icon_chain :: BaseConfig where
  "icon_chain = \<lparr>bc_Address = ''btp://0x1.icon/cx1'', bc_Endpoint = ''e'', bc_KeyStore = ''k'', bc_Type = TYPE_btp2, bc_KeyStorePass = ''p'',
     bc_KeySecret = [], bc_Options = []\<rparr>"

definition eth_chain :: BaseConfig where
  "eth_chain = \<lparr>bc_Address = ''btp://0x2.eth/0x2'', bc_Endpoint = ''f'', bc_KeyStore = ''l'', bc_Type = TYPE_ethbr, bc_KeyStorePass = [],
     bc_KeySecret = ''s'', bc_Options = []\<rparr>"

definition both_config :: "BaseConfig Config" where
  "both_config = \<lparr>cf_RelayConfig = \<lparr>rc_Direction = ''both'', rc_BaseDir = ''d'', rc_LogLevel = ''DEBUG'', rc_ConsoleLevel = ''trace'',
     rc_LogForwarder = None, rc_LogWriter = None\<rparr>, cf_Src = icon_chain, cf_Dst = eth_chain\<rparr>"

definition both_relay :: "(unit log_state, err, (byte, byte, bytes, unit) linkFactory list) proc" where
  "both_relay = NewRelay test_env (registered test_env) (\<lambda>c. Ret (), \<lambda>c. Ret ()) both_config []"

definition quiet :: "unit log_state" where
  "quiet = \<lparr>lg_level = DebugLevel, lg_filter = newLogFilter, lg_hooks = []\<rparr>"

lemma both_relay_made: "(case fst (both_relay quiet) of Ret lfs \<Rightarrow> length lfs = 2 | _ \<Rightarrow> False)"
  by code_simp

theorem relay_wired_witness:
  "\<exists>front reverse. fst (both_relay quiet) = Ret [front, reverse] \<and> wired test_env icon_chain eth_chain front \<and> wired test_env eth_chain icon_chain reverse"
proof -
  from both_relay_made obtain lfs where l: "fst (both_relay quiet) = Ret lfs" by (auto split: outcome.splits)
  then obtain lg where "both_relay quiet = (Ret lfs, lg)" by (cases "both_relay quiet") auto
  then have "NewRelay test_env (registered test_env) (\<lambda>c. Ret (), \<lambda>c. Ret ()) both_config [] quiet = (Ret lfs, lg)" by (simp add: both_relay_def)
  moreover have "json_agrees test_env" by (simp add: json_agrees_def test_env_def)
  ultimately have "list_all2 (\<lambda>(s, d). wired test_env s d) (directions both_config) lfs" by (intro relay_wired)
  then show ?thesis by (auto simp: directions_def both_config_def list_all2_Cons1 l)
qed

end
