(* ===== verification/Jsonrpc.thy ===== *)
theory Jsonrpc
  imports Icon_Client "HOL-Library.AList"
begin

text \<open>
  The JSON-RPC client (src/common/jsonrpc/client.go) whose answers the ICON client interprets, and the header with the options of
  the ICON node (src/chain/icon/client/client.go). The HTTP exchange and \<open>encoding/json\<close> are parameters.
\<close>

section \<open>Answers\<close>

record jr_Error =
  je_Code :: int
  je_Message :: string

text \<open>The result as the JSON value \<open>'v\<close>, and the error, nil when it is absent.\<close>

record 'v Response =
  jr_Result :: 'v
  jr_Err :: "jr_Error option"

text \<open>An HTTP response: whether its content type names JSON, and its body unless reading it fails.\<close>

record 'b http_response =
  hr_StatusCode :: int
  hr_isJson :: bool
  hr_Body :: "'b list result"

text \<open>
  \<open>jc_Request\<close>: the request made of a method and parameters, an error when they do not marshal or the endpoint is no URL;
  \<open>jc_Pre\<close>: the check of a request, when there is one; \<open>jc_Decode\<close>: \<open>json.NewDecoder(..).Decode\<close>
  of a body as a response, nil for the document null, whatever follows the first document; \<open>jc_Unmarshal\<close>: \<open>json.Unmarshal\<close> of a
  body, which has to be one document; \<open>jc_Assign\<close>: the value of a result in the variable of the caller.
\<close>

record ('q, 'r, 'b, 'v, 'a) jr_client =
  jc_Request :: "string \<Rightarrow> 'q option \<Rightarrow> 'r result"
  jc_Pre :: "('r \<Rightarrow> err option) option"
  jc_Send :: "'r \<Rightarrow> (go_error, 'b http_response) outcome"
  jc_Decode :: "'b list \<Rightarrow> 'v Response option result"
  jc_Unmarshal :: "'b list \<Rightarrow> 'v Response option result"
  jc_Assign :: "'v \<Rightarrow> 'a result"

record 'b httpError =
  he_status :: int
  he_response :: "'b list"

definition NewHttpError :: "'b http_response \<Rightarrow> 'b httpError" where
  "NewHttpError r = \<lparr>he_status = hr_StatusCode r, he_response = (case hr_Body r of Ret b \<Rightarrow> b | _ \<Rightarrow> [])\<rparr>"

text \<open>The errors that \<open>Do\<close> returns. A nil pointer to an error of JSON-RPC is an error that is not nil.\<close>

datatype 'b do_error = GoError go_error | DoHttp "'b httpError" | RpcError "jr_Error option" | DecodeError err

definition do_http :: "('q, 'r, 'b, 'v, 'a) jr_client \<Rightarrow> 'r \<Rightarrow> ('b http_response option \<times> 'b do_error option) result" where
  "do_http C req = (case (case jc_Pre C of None \<Rightarrow> None | Some pre \<Rightarrow> pre req) of
      Some e \<Rightarrow> Ret (None, Some (GoError (Plain e)))
    | None \<Rightarrow> (case jc_Send C req of
        Fail e \<Rightarrow> Ret (None, Some (GoError e)) | Panic \<Rightarrow> Panic | OutOfFuel \<Rightarrow> OutOfFuel
      | Ret resp \<Rightarrow> Ret (Some resp, if hr_StatusCode resp \<noteq> 200 then Some (DoHttp (NewHttpError resp)) else None)))"

text \<open>
  \<open>Do\<close>: the response, the error, and what was assigned to the variable of the caller (\<open>want\<close>: it gave one). Both \<open>jrResp.Error\<close> panic on the
  document null.
\<close>

definition decodeResponseBody :: "('q, 'r, 'b, 'v, 'a) jr_client \<Rightarrow> 'b http_response \<Rightarrow> 'v Response option result" where
  "decodeResponseBody C resp = bind_r (hr_Body resp) (jc_Decode C)"

definition on_http_error :: "('q, 'r, 'b, 'v, 'a) jr_client \<Rightarrow> 'b http_response option \<Rightarrow> 'b do_error \<Rightarrow> ('v Response option \<times> 'b do_error option \<times> 'a option) result" where
  "on_http_error C resp e = (case (e, resp) of
      (DoHttp hErr, Some r) \<Rightarrow>
        if he_response hErr \<noteq> [] \<and> hr_isJson r then
          (case jc_Unmarshal C (he_response hErr) of
             Ret None \<Rightarrow> Panic
           | Ret (Some jr) \<Rightarrow> Ret (Some jr, Some (RpcError (jr_Err jr)), None)
           | Fail dErr \<Rightarrow> Ret (None, Some (DecodeError dErr), None)
           | Panic \<Rightarrow> Panic | OutOfFuel \<Rightarrow> OutOfFuel)
        else Ret (None, Some e, None)
    | _ \<Rightarrow> Ret (None, Some e, None))"

definition jr_Do :: "('q, 'r, 'b, 'v, 'a) jr_client \<Rightarrow> string \<Rightarrow> 'q option \<Rightarrow> bool \<Rightarrow> ('v Response option \<times> 'b do_error option \<times> 'a option) result" where
  "jr_Do C method reqPtr want = (case jc_Request C method reqPtr of
      Fail e \<Rightarrow> Ret (None, Some (GoError (Plain e)), None) | Panic \<Rightarrow> Panic | OutOfFuel \<Rightarrow> OutOfFuel
    | Ret req \<Rightarrow> bind_r (do_http C req) (\<lambda>(resp, err).
        case err of Some e \<Rightarrow> on_http_error C resp e
        | None \<Rightarrow> (case resp of None \<Rightarrow> Panic
          | Some r \<Rightarrow> (case decodeResponseBody C r of
              Fail e \<Rightarrow> Ret (None, Some (DecodeError e), None) | Panic \<Rightarrow> Panic | OutOfFuel \<Rightarrow> OutOfFuel
            | Ret None \<Rightarrow> Panic
            | Ret (Some jr) \<Rightarrow>
                if jr_Err jr \<noteq> None then Ret (Some jr, Some (RpcError (jr_Err jr)), None)
                else if \<not> want then Ret (Some jr, None, None)
                else (case jc_Assign C (jr_Result jr) of
                  Ret a \<Rightarrow> Ret (Some jr, None, Some a)
                | Fail e \<Rightarrow> Ret (Some jr, Some (GoError (Plain e)), None)
                | Panic \<Rightarrow> Panic | OutOfFuel \<Rightarrow> OutOfFuel)))))"

text \<open>
  What a call of the ICON client makes of it: an error of JSON-RPC is told apart by its code, which a nil pointer does not have.
\<close>

definition as_answer :: "('v Response option \<times> 'b do_error option \<times> 'a option) result \<Rightarrow> 'a answer" where
  "as_answer r = (case r of
      Ret (jr, Some (RpcError (Some e)), a) \<Rightarrow> Fail (JsonrpcError (je_Code e) (je_Message e))
    | Ret (jr, Some (RpcError None), a) \<Rightarrow> Panic
    | Ret (jr, Some (DoHttp h), a) \<Rightarrow> Fail HttpError
    | Ret (jr, Some (GoError e), a) \<Rightarrow> Fail e
    | Ret (jr, Some (DecodeError e), a) \<Rightarrow> Fail (Plain e)
    | Ret (jr, None, Some a) \<Rightarrow> Ret a
    | Ret (jr, None, None) \<Rightarrow> Panic
    | Fail e \<Rightarrow> Fail (Plain e) | Panic \<Rightarrow> Panic | OutOfFuel \<Rightarrow> OutOfFuel)"

section \<open>Options of a node\<close>

text \<open>Options in the order of iteration.\<close>

type_synonym IconOptions = "(string \<times> string) list"

definition opts_Set :: "string \<Rightarrow> string \<Rightarrow> IconOptions \<Rightarrow> IconOptions" where
  "opts_Set key v opts = AList.update key v opts"

definition opts_Get :: "string \<Rightarrow> IconOptions option \<Rightarrow> string" where
  "opts_Get key opts = (case opts of None \<Rightarrow> [] | Some opts \<Rightarrow> (case map_of opts key of None \<Rightarrow> [] | Some v \<Rightarrow> v))"

definition opts_Del :: "string \<Rightarrow> IconOptions \<Rightarrow> IconOptions" where
  "opts_Del key opts = AList.delete key opts"

definition opts_SetBool :: "string \<Rightarrow> bool \<Rightarrow> IconOptions \<Rightarrow> IconOptions" where
  "opts_SetBool key v opts = opts_Set key (if v then ''true'' else ''false'') opts"

fun join_comma :: "string list \<Rightarrow> string" where
  "join_comma [] = []"
| "join_comma [s] = s"
| "join_comma (s # ss) = s @ '','' @ join_comma ss"

definition ToHeaderValue :: "IconOptions option \<Rightarrow> string" where
  "ToHeaderValue opts = (case opts of None \<Rightarrow> [] | Some opts \<Rightarrow> join_comma (map (\<lambda>(k, v). k @ ''='' @ v) opts))"

fun add_option :: "IconOptions \<Rightarrow> string \<Rightarrow> IconOptions" where
  "add_option m kv = (if kv = [] then m else case str_index ''='' kv of
      Some (Suc i) \<Rightarrow> AList.update (take (Suc i) kv) (drop (Suc (Suc i)) kv) m
    | _ \<Rightarrow> AList.update kv [] m)"

definition NewIconOptionsByHeader :: "string \<Rightarrow> IconOptions option" where
  "NewIconOptionsByHeader s = (if s = [] then None else Some (foldl add_option [] (str_split (CHR '','') s)))"

section \<open>What a call reports\<close>

text \<open>
  C10: a call reports no error only when the server answered with the status 200 and a response without an error, and then what
  the caller gets is the result of that response. An error that the server names, with the status 200 or, in a JSON body, with any
  other, reaches the caller with its code and message.
\<close>
theorem jr_Do_reports:
  assumes "jc_Request C method q = Ret req" and "jc_Pre C = None" and "jc_Send C req = Ret resp" and "hr_Body resp = Ret body" and "body \<noteq> []"
  shows "(\<forall>a. as_answer (jr_Do C method q True) = Ret a \<longrightarrow>
      hr_StatusCode resp = 200 \<and> (\<exists>jr. jc_Decode C body = Ret (Some jr) \<and> jr_Err jr = None \<and> jc_Assign C (jr_Result jr) = Ret a)) \<and>
    (\<forall>jr e. (hr_StatusCode resp = 200 \<and> jc_Decode C body = Ret (Some jr) \<or>
        hr_StatusCode resp \<noteq> 200 \<and> hr_isJson resp \<and> jc_Unmarshal C body = Ret (Some jr)) \<and> jr_Err jr = Some e \<longrightarrow>
      as_answer (jr_Do C method q True) = Fail (JsonrpcError (je_Code e) (je_Message e)))"
  using assms
  by (auto simp: jr_Do_def do_http_def on_http_error_def NewHttpError_def decodeResponseBody_def as_answer_def
      split: if_splits outcome.splits option.splits)

text \<open>A JSON body without an error under another status is an error that panics whoever reads its code, and so is the body null.\<close>

theorem jr_Do_nil_error:
  assumes "jc_Request C method q = Ret req" and "jc_Pre C = None" and "jc_Send C req = Ret resp" and "hr_Body resp = Ret body" and "body \<noteq> []"
  shows "hr_StatusCode resp \<noteq> 200 \<Longrightarrow> hr_isJson resp \<Longrightarrow> jc_Unmarshal C body = Ret (Some jr) \<Longrightarrow> jr_Err jr = None \<Longrightarrow>
      jr_Do C method q want = Ret (Some jr, Some (RpcError None), None) \<and> as_answer (jr_Do C method q want) = Panic"
    and "hr_StatusCode resp = 200 \<Longrightarrow> jc_Decode C body = Ret None \<Longrightarrow> jr_Do C method q want = Panic"
  using assms by (simp_all add: jr_Do_def do_http_def on_http_error_def NewHttpError_def decodeResponseBody_def as_answer_def)

section \<open>Options round trip\<close>

definition plain_option :: "string \<times> string \<Rightarrow> bool" where
  "plain_option = (\<lambda>(k, v). k \<noteq> [] \<and> CHR '','' \<notin> set k \<and> CHR ''='' \<notin> set k \<and> CHR '','' \<notin> set v)"

lemma str_index_char: "c \<notin> set p \<Longrightarrow> str_index [c] (p @ c # t) = Some (length p)"
  by (induction p) auto

lemma add_option_new:
  assumes "plain_option (k, v)" and "k \<notin> fst ` set m"
  shows "add_option m (k @ ''='' @ v) = m @ [(k, v)]"
proof -
  obtain i where "length k = Suc i" using assms(1) by (cases k) (auto simp: plain_option_def)
  moreover have "AList.update k v m = m @ [(k, v)]" using assms(2) by (induction m) auto
  ultimately show ?thesis using assms(1) str_index_char [of "CHR ''=''" k v] by (simp add: plain_option_def)
qed

lemma join_split:
  "ss \<noteq> [] \<Longrightarrow> list_all (\<lambda>s. CHR '','' \<notin> set s) ss \<Longrightarrow> str_split (CHR '','') (join_comma ss) = ss"
  by (induction ss rule: join_comma.induct) (auto simp: str_split_none str_split_append)

lemma add_options:
  "list_all plain_option opts \<Longrightarrow> distinct (map fst (m @ opts)) \<Longrightarrow> foldl add_option m (map (\<lambda>(k, v). k @ ''='' @ v) opts) = m @ opts"
proof (induction opts arbitrary: m)
  case (Cons o' opts)
  obtain k v where o: "o' = (k, v)" by force
  then have "add_option m (k @ ''='' @ v) = m @ [(k, v)]" using Cons.prems by (intro add_option_new) auto
  then show ?case using Cons.prems Cons.IH [of "m @ [(k, v)]"] o by (simp del: add_option.simps)
qed simp

lemma options_roundtrip:
  assumes "opts \<noteq> []" and "list_all plain_option opts" and "distinct (map fst opts)"
  shows "NewIconOptionsByHeader (ToHeaderValue (Some opts)) = Some opts"
proof -
  let ?ss = "map (\<lambda>(k, v). k @ ''='' @ v) opts"
  have c: "list_all (\<lambda>s. CHR '','' \<notin> set s) ?ss" using assms(2) by (auto simp: list_all_iff plain_option_def)
  have "join_comma ?ss \<noteq> []" using assms(1) by (cases opts; cases "tl opts") auto
  with join_split [of ?ss] c add_options [of opts "[]"] assms show ?thesis
    by (simp add: NewIconOptionsByHeader_def ToHeaderValue_def del: add_option.simps)
qed

section \<open>Witnesses\<close>

definition busy_client :: "(unit, unit, byte, unit, unit) jr_client" where
  "busy_client = \<lparr>jc_Request = (\<lambda>m q. Ret ()), jc_Pre = None,
     jc_Send = (\<lambda>r. Ret \<lparr>hr_StatusCode = 500, hr_isJson = True, hr_Body = Ret [1]\<rparr>),
     jc_Decode = (\<lambda>b. Ret (Some \<lparr>jr_Result = (), jr_Err = None\<rparr>)),
     jc_Unmarshal = (\<lambda>b. Ret (Some \<lparr>jr_Result = (), jr_Err = Some \<lparr>je_Code = JsonrpcErrorCodePending, je_Message = ''Pending''\<rparr>\<rparr>)),
     jc_Assign = (\<lambda>v. Ret ())\<rparr>"

theorem jr_Do_reports_witness:
  "as_answer (jr_Do busy_client ''icx_getTransactionResult'' None True) = Fail (JsonrpcError JsonrpcErrorCodePending ''Pending'')"
  using jr_Do_reports [of busy_client "''icx_getTransactionResult''" None "()" "\<lparr>hr_StatusCode = 500, hr_isJson = True, hr_Body = Ret [1]\<rparr>" "[1]"]
  by (simp add: busy_client_def)

end
