(* ===== verification/Mpt.thy ===== *)
theory Mpt
  imports Codec_Stream
begin

unbundle bit_operations_syntax

text \<open>
  Proofs of a Merkle Patricia trie (src/common/mpt/mpt.go): the nodes on the path from the root to a leaf, read from RLP
  and linked by their hashes. The hash function is a parameter. A pointer to a node of the proof is its index.
\<close>

section \<open>Nodes\<close>

record MptHeader =
  Prefix :: byte
  Nibbles :: bytes

definition IsLeaf :: "MptHeader \<Rightarrow> bool" where
  "IsLeaf mh \<longleftrightarrow> Prefix mh AND 0x20 \<noteq> 0"

record MptLink =
  Hash :: bytes
  lk_ptr :: "nat option"

record MptNode =
  Header :: "MptHeader option"
  Link :: "MptLink list"
  Data :: bytes

definition mpt_RLPEncodeSelf :: "MptNode \<Rightarrow> unit eproc" where
  "mpt_RLPEncodeSelf n = fail_p (StdError ''not implemented'')"

definition new_link :: "bytes \<Rightarrow> MptLink" where
  "new_link b = \<lparr>Hash = b, lk_ptr = None\<rparr>"

text \<open>The cases of \<open>RLPDecodeSelf\<close>; \<open>bl[0][0]\<close> is out of range for an empty first element.\<close>

definition node_of :: "bytes list \<Rightarrow> MptNode result" where
  "node_of bl =
     (if length bl = 2 then
        (case bl ! 0 of [] \<Rightarrow> Panic | p # ns \<Rightarrow>
           let h = \<lparr>Prefix = p, Nibbles = ns\<rparr> in
           Ret (if IsLeaf h then \<lparr>Header = Some h, Link = [], Data = bl ! 1\<rparr>
                else \<lparr>Header = Some h, Link = [new_link (bl ! 1)], Data = []\<rparr>))
      else if length bl = 17 then Ret \<lparr>Header = None, Link = map new_link (take 16 bl), Data = bl ! 16\<rparr>
      else Fail (StdError ''invalid list length''))"

fun elem_bytes :: "gval \<Rightarrow> bytes" where
  "elem_bytes (VBytes (Some b)) = b"
| "elem_bytes _ = []"

definition mpt_RLPDecodeSelf :: "MptNode dproc" where
  "mpt_RLPDecodeSelf = bind_p (Decode (TSlice TBytes)) (\<lambda>v. case v of
      VSlice bl \<Rightarrow> lift_p (node_of (map elem_bytes (case bl of None \<Rightarrow> [] | Some l \<Rightarrow> l)))
    | _ \<Rightarrow> panic_p)"

text \<open>\<open>codec.RLP.UnmarshalFromBytes\<close> into a node; \<open>tryCustom\<close> flushes the decoder after the node was read.\<close>

definition unmarshal_node :: "bytes \<Rightarrow> MptNode result" where
  "unmarshal_node b = fst (bind_p mpt_RLPDecodeSelf (\<lambda>n. then_p dec_flush (ret_p n)) (NewDecoder b))"

section \<open>Proofs\<close>

record MptProof =
  Nodes :: "MptNode list"
  Hashes :: "bytes list"

definition Leaf :: "MptProof \<Rightarrow> MptNode result" where
  "Leaf mp = (if Nodes mp = [] then Panic else Ret (last (Nodes mp)))"

fun read_nodes :: "bytes list \<Rightarrow> MptNode list result" where
  "read_nodes [] = Ret []"
| "read_nodes (b # bl) = bind_r (unmarshal_node b) (\<lambda>n. bind_r (read_nodes bl) (\<lambda>ns. Ret (n # ns)))"

definition hash_at :: "bytes list \<Rightarrow> nat \<Rightarrow> bytes result" where
  "hash_at hs i = (if i < length hs then Ret (hs ! i) else Panic)"

fun find_link :: "bytes \<Rightarrow> MptLink list \<Rightarrow> nat option" where
  "find_link x [] = None"
| "find_link x (ml # mls) = (if Hash ml \<noteq> [] \<and> Hash ml = x then Some 0 else map_option Suc (find_link x mls))"

text \<open>
  The body of the loop for the node at \<open>i\<close>. A branch at the end of the proof reads \<open>mp.Hashes[i+1]\<close> in any case: for a link
  with a hash, or for the message of the error when there is none.
\<close>

definition link_node :: "bytes list \<Rightarrow> nat \<Rightarrow> MptNode \<Rightarrow> MptNode result" where
  "link_node hs i mn = (case Header mn of
      Some h \<Rightarrow>
        if IsLeaf h then Ret mn
        else bind_r (hash_at hs (Suc i)) (\<lambda>x.
          if Hash (Link mn ! 0) \<noteq> x then Fail (StdError ''invalid link'')
          else Ret (mn\<lparr>Link := (Link mn)[0 := (Link mn ! 0)\<lparr>lk_ptr := Some (Suc i)\<rparr>]\<rparr>))
    | None \<Rightarrow>
        bind_r (hash_at hs (Suc i)) (\<lambda>x. case find_link x (Link mn) of
            None \<Rightarrow> Fail (StdError ''invalid branch'')
          | Some j \<Rightarrow> Ret (mn\<lparr>Link := (Link mn)[j := (Link mn ! j)\<lparr>lk_ptr := Some (Suc i)\<rparr>]\<rparr>)))"

text \<open>The loop with \<open>k\<close> rounds to go.\<close>

fun link_loop :: "nat \<Rightarrow> bytes list \<Rightarrow> MptNode list \<Rightarrow> MptNode list result" where
  "link_loop 0 hs ns = Ret ns"
| "link_loop (Suc k) hs ns = (let i = length ns - Suc k in
     bind_r (link_node hs i (ns ! i)) (\<lambda>n. link_loop k hs (ns[i := n])))"

definition NewMptProof :: "(bytes \<Rightarrow> bytes) \<Rightarrow> bytes list \<Rightarrow> MptProof result" where
  "NewMptProof sha bl = bind_r (read_nodes bl) (\<lambda>ns.
     let hs = map sha bl in
     bind_r (link_loop (length bl) hs ns) (\<lambda>ns. Ret \<lparr>Nodes = ns, Hashes = hs\<rparr>))"

section \<open>What a proof shows\<close>

text \<open>Nodes as they are read: an extension has one link and a branch sixteen, and none points to a node yet.\<close>

definition leaf_node :: "MptNode \<Rightarrow> bool" where
  "leaf_node n \<longleftrightarrow> (case Header n of Some h \<Rightarrow> IsLeaf h | None \<Rightarrow> False)"

definition fresh_node :: "MptNode \<Rightarrow> bool" where
  "fresh_node n \<longleftrightarrow> length (Link n) = (case Header n of None \<Rightarrow> 16 | Some h \<Rightarrow> if IsLeaf h then 0 else 1) \<and>
     list_all (\<lambda>l. lk_ptr l = None) (Link n)"

text \<open>The node at \<open>i\<close> names the hash of its successor: an extension by its only link, a branch by one of its links that is not empty.\<close>

definition names_next :: "bytes list \<Rightarrow> nat \<Rightarrow> MptNode \<Rightarrow> bool" where
  "names_next hs i n \<longleftrightarrow> Suc i < length hs \<and> hs ! Suc i \<in> Hash ` set (Link n) \<and> (Header n = None \<longrightarrow> hs ! Suc i \<noteq> [])"

lemma node_of_fresh: "node_of bl = Ret n \<Longrightarrow> fresh_node n"
  by (auto simp: node_of_def fresh_node_def Let_def new_link_def list_all_iff split: if_splits list.splits)

lemma unmarshal_fresh: "unmarshal_node b = Ret n \<Longrightarrow> fresh_node n"
  by (auto simp: unmarshal_node_def mpt_RLPDecodeSelf_def bind_p_def proc_defs node_of_fresh
      split: prod.splits outcome.splits gval.splits)

lemma read_nodes_all: "read_nodes bl = Ret ns \<longleftrightarrow> list_all2 (\<lambda>b n. unmarshal_node b = Ret n) bl ns"
  by (induction bl arbitrary: ns) (auto simp: bind_r_Ret list_all2_Cons1)

lemma read_nodes_fresh: "read_nodes bl = Ret ns \<Longrightarrow> i < length ns \<Longrightarrow> fresh_node (ns ! i)"
  by (auto simp: read_nodes_all list_all2_conv_all_nth intro: unmarshal_fresh)

lemma find_link_Some: "find_link x ls = Some j \<Longrightarrow> j < length ls \<and> Hash (ls ! j) = x \<and> x \<noteq> []"
  by (induction ls arbitrary: j) (auto split: if_splits)

lemma find_link_None: "find_link x ls = None \<longleftrightarrow> x = [] \<or> x \<notin> Hash ` set ls"
  by (induction ls) auto

lemma link_node_iff:
  assumes "fresh_node n"
  shows "(\<exists>n'. link_node hs i n = Ret n') \<longleftrightarrow> leaf_node n \<or> names_next hs i n"
proof (cases "Header n")
  case None
  then show ?thesis
    by (auto simp: link_node_def leaf_node_def names_next_def hash_at_def find_link_None split: option.splits)
       (metis find_link_None not_None_eq image_eqI)+
next
  case (Some h)
  have "\<not> IsLeaf h \<Longrightarrow> \<exists>l. Link n = [l]" using assms Some by (simp add: fresh_node_def length_Suc_conv)
  with Some show ?thesis by (auto simp: link_node_def leaf_node_def names_next_def hash_at_def)
qed

lemma link_node_ptr:
  assumes "fresh_node n" and "link_node hs i n = Ret n'"
  shows "Header n' = Header n \<and> Data n' = Data n \<and> map Hash (Link n') = map Hash (Link n) \<and>
    (if leaf_node n then n' = n
     else \<exists>j<length (Link n'). Hash (Link n' ! j) = hs ! Suc i \<and> lk_ptr (Link n' ! j) = Some (Suc i))"
proof (cases "Header n")
  case None
  with assms(2) show ?thesis
    by (auto simp: link_node_def leaf_node_def hash_at_def map_update dest!: find_link_Some split: option.splits if_splits)
       (metis find_link_Some list_update_id map_update nth_map length_map)+
next
  case (Some h)
  have "\<not> IsLeaf h \<Longrightarrow> \<exists>l. Link n = [l]" using assms Some by (simp add: fresh_node_def length_Suc_conv)
  with Some assms(2) show ?thesis by (auto simp: link_node_def leaf_node_def hash_at_def split: if_splits)
qed

lemma link_loop_Ret:
  "k \<le> length ns \<Longrightarrow> link_loop k hs ns = Ret ms \<longleftrightarrow>
    length ms = length ns \<and> (\<forall>i<length ns. if i < length ns - k then ms ! i = ns ! i else link_node hs i (ns ! i) = Ret (ms ! i))"
proof (induction k arbitrary: ns)
  case 0
  then show ?case by (auto simp: list_eq_iff_nth_eq)
next
  case (Suc k)
  let ?j = "length ns - Suc k"
  have j: "?j < length ns" and less: "\<And>i. i < length ns - k \<longleftrightarrow> i < ?j \<or> i = ?j" using Suc.prems by auto
  show ?case
  proof (cases "link_node hs ?j (ns ! ?j)")
    case (Ret n)
    have "link_loop (Suc k) hs ns = Ret ms \<longleftrightarrow> link_loop k hs (ns[?j := n]) = Ret ms" using Ret by (simp add: Let_def)
    also have "\<dots> \<longleftrightarrow> length ms = length ns \<and>
        (\<forall>i<length ns. if i < ?j \<or> i = ?j then ms ! i = ns[?j := n] ! i else link_node hs i (ns[?j := n] ! i) = Ret (ms ! i))"
      using Suc.IH [of "ns[?j := n]"] Suc.prems by (simp add: less)
    also have "\<dots> \<longleftrightarrow> length ms = length ns \<and>
        (\<forall>i<length ns. if i < ?j then ms ! i = ns ! i else link_node hs i (ns ! i) = Ret (ms ! i))"
      using j Ret by (metis (no_types, lifting) nth_list_update_eq nth_list_update_neq outcome.inject(1) nat_neq_iff)
    finally show ?thesis .
  qed (use j in \<open>auto simp: Let_def intro!: exI [of _ ?j]\<close>)
qed

lemma NewMptProof_Ret:
  assumes "NewMptProof sha bl = Ret mp"
  obtains ns where "read_nodes bl = Ret ns" "length ns = length bl" "length (Nodes mp) = length bl" "Hashes mp = map sha bl"
    "\<And>i. i < length bl \<Longrightarrow> link_node (map sha bl) i (ns ! i) = Ret (Nodes mp ! i)"
proof -
  from assms obtain ns ms where r: "read_nodes bl = Ret ns" and l: "link_loop (length bl) (map sha bl) ns = Ret ms"
    and mp: "mp = \<lparr>Nodes = ms, Hashes = map sha bl\<rparr>" by (auto simp: NewMptProof_def Let_def bind_r_Ret)
  from r have "length ns = length bl" by (auto simp: read_nodes_all dest: list_all2_lengthD)
  with r l mp show thesis by (intro that) (auto simp: link_loop_Ret)
qed

lemma NewMptProof_iff:
  "(\<exists>mp. NewMptProof sha bl = Ret mp) \<longleftrightarrow>
     (\<exists>ns. read_nodes bl = Ret ns \<and> (\<forall>i<length bl. leaf_node (ns ! i) \<or> names_next (map sha bl) i (ns ! i)))"
proof
  assume "\<exists>mp. NewMptProof sha bl = Ret mp"
  then obtain mp where "NewMptProof sha bl = Ret mp" ..
  then show "\<exists>ns. read_nodes bl = Ret ns \<and> (\<forall>i<length bl. leaf_node (ns ! i) \<or> names_next (map sha bl) i (ns ! i))"
    by (rule NewMptProof_Ret) (metis link_node_iff read_nodes_fresh)
next
  assume "\<exists>ns. read_nodes bl = Ret ns \<and> (\<forall>i<length bl. leaf_node (ns ! i) \<or> names_next (map sha bl) i (ns ! i))"
  then obtain ns where ns: "read_nodes bl = Ret ns" "\<And>i. i < length bl \<Longrightarrow> leaf_node (ns ! i) \<or> names_next (map sha bl) i (ns ! i)" by blast
  have l: "length ns = length bl" using ns(1) by (auto simp: read_nodes_all dest: list_all2_lengthD)
  have "\<exists>n'. link_node (map sha bl) i (ns ! i) = Ret n'" if "i < length bl" for i
    using link_node_iff [OF read_nodes_fresh [OF ns(1)]] ns(2) l that by metis
  then obtain f where f: "\<And>i. i < length bl \<Longrightarrow> link_node (map sha bl) i (ns ! i) = Ret (f i)" by metis
  have "link_loop (length bl) (map sha bl) ns = Ret (map f [0..<length bl])" using f l by (subst link_loop_Ret) auto
  then show "\<exists>mp. NewMptProof sha bl = Ret mp" by (simp add: NewMptProof_def ns(1) Let_def)
qed

definition points_next :: "bytes list \<Rightarrow> nat \<Rightarrow> MptNode \<Rightarrow> bool" where
  "points_next hs i n \<longleftrightarrow> Suc i < length hs \<and>
     (\<exists>j<length (Link n). Hash (Link n ! j) = hs ! Suc i \<and> lk_ptr (Link n ! j) = Some (Suc i))"

lemma NewMptProof_points:
  assumes "NewMptProof sha bl = Ret mp" and i: "i < length bl"
  shows "leaf_node (Nodes mp ! i) \<or> points_next (map sha bl) i (Nodes mp ! i)"
proof -
  from assms(1) obtain ns where ns: "read_nodes bl = Ret ns" "length ns = length bl"
    and n: "link_node (map sha bl) i (ns ! i) = Ret (Nodes mp ! i)" by (rule NewMptProof_Ret) (use i in blast)
  have fr: "fresh_node (ns ! i)" using read_nodes_fresh [OF ns(1)] ns(2) i by simp
  show ?thesis
  proof (cases "leaf_node (ns ! i)")
    case False
    have "names_next (map sha bl) i (ns ! i)" using False link_node_iff [OF fr, of "map sha bl" i] n by blast
    then have "Suc i < length bl" by (simp add: names_next_def)
    with False link_node_ptr [OF fr n] show ?thesis by (auto simp: points_next_def)
  qed (use link_node_ptr [OF fr n] in simp)
qed

text \<open>
  C26: a proof is accepted exactly when its nodes can be read and every one of them is a leaf or names the hash of the node after
  it. In an accepted proof every node that is not a leaf points to its successor by a link with the hash of that node, and the
  node at the end, which is what \<open>Leaf\<close> answers, is a leaf: the hash of the first node commits to all nodes up to the first leaf.
\<close>
theorem mpt_proof:
  "((\<exists>mp. NewMptProof sha bl = Ret mp) \<longleftrightarrow>
     (\<exists>ns. read_nodes bl = Ret ns \<and> (\<forall>i<length bl. leaf_node (ns ! i) \<or> names_next (map sha bl) i (ns ! i)))) \<and>
   (\<forall>mp. NewMptProof sha bl = Ret mp \<longrightarrow> Hashes mp = map sha bl \<and>
     (\<forall>i<length bl. leaf_node (Nodes mp ! i) \<or> points_next (map sha bl) i (Nodes mp ! i)) \<and>
     (bl = [] \<and> Leaf mp = Panic \<or> (\<exists>n. Leaf mp = Ret n \<and> leaf_node n)))"
proof (intro conjI allI impI)
  fix mp assume mp: "NewMptProof sha bl = Ret mp"
  then have l: "length (Nodes mp) = length bl" "Hashes mp = map sha bl" by (rule NewMptProof_Ret, blast)+
  show "Hashes mp = map sha bl" by (rule l(2))
  show "leaf_node (Nodes mp ! i) \<or> points_next (map sha bl) i (Nodes mp ! i)" if "i < length bl" for i
    using mp that by (rule NewMptProof_points)
  show "bl = [] \<and> Leaf mp = Panic \<or> (\<exists>n. Leaf mp = Ret n \<and> leaf_node n)"
  proof (cases "bl = []")
    case False
    with NewMptProof_points [OF mp, of "length bl - 1"] l(1) show ?thesis by (auto simp: Leaf_def last_conv_nth points_next_def)
  qed (use l(1) in \<open>simp add: Leaf_def\<close>)
qed (rule NewMptProof_iff)

section \<open>Witnesses\<close>

definition len_hash :: "bytes \<Rightarrow> bytes" where
  "len_hash b = [of_nat (length b)]"

definition leaf_rlp :: bytes where "leaf_rlp = [0xc2, 0x20, 0x05]"
definition extension_rlp :: bytes where "extension_rlp = [0xc2, 0x11, 0x03]"

theorem mpt_proof_witness:
  "\<exists>mp n. NewMptProof len_hash [extension_rlp, leaf_rlp] = Ret mp \<and> Leaf mp = Ret n \<and> leaf_node n"
proof -
  have "bind_r (NewMptProof len_hash [extension_rlp, leaf_rlp]) (\<lambda>_. Ret ()) = Ret ()" by code_simp
  then have "\<exists>mp. NewMptProof len_hash [extension_rlp, leaf_rlp] = Ret mp" by (auto simp: bind_r_Ret)
  with mpt_proof [of len_hash "[extension_rlp, leaf_rlp]"] show ?thesis by blast
qed

text \<open>A proof that ends before a leaf is not refused but panics, and so does the leaf of an empty proof; nodes after a leaf are accepted unread.\<close>

theorem mpt_truncated:
  "NewMptProof len_hash [extension_rlp] = Panic \<and> bind_r (NewMptProof len_hash []) Leaf = Panic \<and>
   bind_r (NewMptProof len_hash [leaf_rlp, leaf_rlp]) (\<lambda>_. Ret ()) = Ret ()"
  by code_simp

end
