(* ===== verification/Hex_Int.thy ===== *)
theory Hex_Int
  imports Address_Text
begin

text \<open>
  Integers in JSON and RLP (src/common/hexint.go): one type for integers without bound and six for the words of 16, 32 and 64
  bits. A value is a word of its width; the conversions of the code to \<open>int64\<close> and back are written out.
\<close>

section \<open>Numbers without bound\<close>

definition HexInt_String :: "int \<Rightarrow> string" where
  "HexInt_String i = FormatBigInt i"

definition HexInt_MarshalJSON :: "int \<Rightarrow> jdoc" where
  "HexInt_MarshalJSON i = Quoted (HexInt_String i)"

definition HexInt_UnmarshalJSON :: "jdoc \<Rightarrow> int result" where
  "HexInt_UnmarshalJSON d = (case d of
      OtherText s \<Rightarrow> (case SetString s 0 of Some i \<Rightarrow> Ret i | None \<Rightarrow> Fail (StdError ''json''))
    | _ \<Rightarrow> bind_r (json_string d) ParseBigInt)"

definition HexInt_Bytes :: "int \<Rightarrow> bytes" where
  "HexInt_Bytes i = BigIntToBytes (Some i)"

definition HexInt_SetBytes :: "bytes \<Rightarrow> int" where
  "HexInt_SetBytes bs = BigIntSetBytes bs"

section \<open>Words\<close>

text \<open>What is parsed: the string, or the text of a document that is no string.\<close>

definition number_text :: "jdoc \<Rightarrow> string" where
  "number_text d = (case d of Quoted s \<Rightarrow> s | Null \<Rightarrow> [] | OtherText s \<Rightarrow> s)"

text \<open>\<open>d.Decode(&i.Value)\<close>\<close>

definition decode_word :: "kind \<Rightarrow> 'w::len word dproc" where
  "decode_word k = bind_p (Decode (TPrim k)) (\<lambda>v. case v of
      VPrim (PInt w) \<Rightarrow> ret_p (ucast w) | VPrim (PUint w) \<Rightarrow> ret_p (ucast w) | _ \<Rightarrow> panic_p)"

definition HexInt16_String :: "16 word \<Rightarrow> string" where "HexInt16_String v = FormatInt (scast v)"
definition HexInt16_UnmarshalJSON :: "jdoc \<Rightarrow> 16 word result" where
  "HexInt16_UnmarshalJSON d = bind_r (ParseInt (number_text d) 16) (\<lambda>v64. Ret (word_of_int v64))"
definition HexInt16_RLPEncodeSelf :: "16 word \<Rightarrow> unit eproc" where
  "HexInt16_RLPEncodeSelf v = Encode (VPrim (PInt (scast v)))"
definition HexInt16_RLPDecodeSelf :: "16 word dproc" where "HexInt16_RLPDecodeSelf = decode_word (KInt 16)"
definition HexInt16_Bytes :: "16 word \<Rightarrow> bytes" where "HexInt16_Bytes v = Int64ToBytes (scast v)"

definition HexUint16_String :: "16 word \<Rightarrow> string" where "HexUint16_String v = FormatInt (ucast v)"
definition HexUint16_UnmarshalJSON :: "jdoc \<Rightarrow> 16 word result" where
  "HexUint16_UnmarshalJSON d = bind_r (ParseUint (number_text d) 16) (\<lambda>v64. Ret (word_of_nat v64))"
definition HexUint16_RLPEncodeSelf :: "16 word \<Rightarrow> unit eproc" where
  "HexUint16_RLPEncodeSelf v = Encode (VPrim (PInt (ucast v)))"
definition HexUint16_RLPDecodeSelf :: "16 word dproc" where "HexUint16_RLPDecodeSelf = decode_word (KUint 16)"
definition HexUint16_Bytes :: "16 word \<Rightarrow> bytes" where "HexUint16_Bytes v = Int64ToBytes (ucast v)"

definition HexInt32_String :: "32 word \<Rightarrow> string" where "HexInt32_String v = FormatInt (scast v)"
definition HexInt32_UnmarshalJSON :: "jdoc \<Rightarrow> 32 word result" where
  "HexInt32_UnmarshalJSON d = bind_r (ParseInt (number_text d) 32) (\<lambda>v64. Ret (word_of_int v64))"
definition HexInt32_RLPEncodeSelf :: "32 word \<Rightarrow> unit eproc" where
  "HexInt32_RLPEncodeSelf v = Encode (VPrim (PInt (scast v)))"
definition HexInt32_RLPDecodeSelf :: "32 word dproc" where "HexInt32_RLPDecodeSelf = decode_word (KInt 32)"

definition HexUint32_String :: "32 word \<Rightarrow> string" where "HexUint32_String v = FormatUint (ucast v)"
definition HexUint32_UnmarshalJSON :: "jdoc \<Rightarrow> 32 word result" where
  "HexUint32_UnmarshalJSON d = bind_r (ParseUint (number_text d) 32) (\<lambda>v64. Ret (word_of_nat v64))"
definition HexUint32_RLPEncodeSelf :: "32 word \<Rightarrow> unit eproc" where
  "HexUint32_RLPEncodeSelf v = Encode (VPrim (PInt (ucast v)))"
definition HexUint32_RLPDecodeSelf :: "32 word dproc" where "HexUint32_RLPDecodeSelf = decode_word (KUint 32)"

definition HexInt64_String :: "64 word \<Rightarrow> string" where "HexInt64_String v = FormatInt v"
definition HexInt64_UnmarshalJSON :: "jdoc \<Rightarrow> 64 word result" where
  "HexInt64_UnmarshalJSON d = bind_r (ParseInt (number_text d) 64) (\<lambda>v64. Ret (word_of_int v64))"
definition HexInt64_RLPEncodeSelf :: "64 word \<Rightarrow> unit eproc" where
  "HexInt64_RLPEncodeSelf v = Encode (VPrim (PInt v))"
definition HexInt64_RLPDecodeSelf :: "64 word dproc" where "HexInt64_RLPDecodeSelf = decode_word (KInt 64)"

definition HexUint64_String :: "64 word \<Rightarrow> string" where "HexUint64_String v = FormatUint v"
definition HexUint64_UnmarshalJSON :: "jdoc \<Rightarrow> 64 word result" where
  "HexUint64_UnmarshalJSON d = bind_r (ParseUint (number_text d) 64) (\<lambda>v64. Ret (word_of_nat v64))"
definition HexUint64_RLPEncodeSelf :: "64 word \<Rightarrow> unit eproc" where
  "HexUint64_RLPEncodeSelf v = Encode (VPrim (PUint v))"
definition HexUint64_RLPDecodeSelf :: "64 word dproc" where "HexUint64_RLPDecodeSelf = decode_word (KUint 64)"

lemmas hex_string_defs = HexInt16_String_def HexUint16_String_def HexInt32_String_def HexUint32_String_def HexInt64_String_def HexUint64_String_def
lemmas hex_unmarshal_defs = HexInt16_UnmarshalJSON_def HexUint16_UnmarshalJSON_def HexInt32_UnmarshalJSON_def HexUint32_UnmarshalJSON_def
  HexInt64_UnmarshalJSON_def HexUint64_UnmarshalJSON_def
lemmas hex_rlp_defs = HexInt16_RLPEncodeSelf_def HexUint16_RLPEncodeSelf_def HexInt32_RLPEncodeSelf_def HexUint32_RLPEncodeSelf_def
  HexInt64_RLPEncodeSelf_def HexUint64_RLPEncodeSelf_def HexInt16_RLPDecodeSelf_def HexUint16_RLPDecodeSelf_def HexInt32_RLPDecodeSelf_def
  HexUint32_RLPDecodeSelf_def HexInt64_RLPDecodeSelf_def HexUint64_RLPDecodeSelf_def

section \<open>Texts are read back\<close>

lemma number_text_simps [simp]: "number_text (Quoted s) = s" "number_text (OtherText s) = s"
  by (simp_all add: number_text_def)

text \<open>A text that is a number of 64 bits is one of fewer bits when the number fits.\<close>

lemma ParseInt_narrow:
  assumes "ParseInt s 64 = Ret v" and "- (2 ^ (b - Suc 0)) \<le> v" and "v < 2 ^ (b - Suc 0)"
  shows "ParseInt s b = Ret v"
proof -
  from assms(1) obtain n where n: "parse_literal (strip_sign s) = Some n" "v = (if s ! 0 = CHR ''-'' then - int n else int n)"
    by (auto simp: ParseInt_def strconv_ParseInt_def Let_def split: option.splits if_splits)
  show ?thesis
  proof (cases "s ! 0 = CHR ''-''")
    case True
    with assms(2) n(2) have "n \<le> 2 ^ (b - 1)" by simp
    with True n show ?thesis by (simp add: ParseInt_def strconv_ParseInt_def Let_def)
  next
    case False
    with assms(3) n(2) have "n < 2 ^ (b - 1)" by simp
    with False n show ?thesis by (simp add: ParseInt_def strconv_ParseInt_def Let_def)
  qed
qed

lemma ParseUint_narrow:
  "ParseUint s 64 = Ret n \<Longrightarrow> n < 2 ^ b \<Longrightarrow> ParseUint s b = Ret n"
  by (auto simp: ParseUint_def split: option.splits if_splits)

lemma FormatUint_read: "ParseUint (FormatUint v) 64 = Ret (unat v)"
proof -
  have "FormatBigInt (uint v) = ''0x'' @ hex_nat (unat v)" using FormatBigInt_hex [of "uint v"] by simp
  then show ?thesis using FormatInt_hex [of v] parse_hex_literal [of "unat v"] unsigned_less [of v, where ?'a = nat] by (simp add: ParseUint_def)
qed

lemma FormatInt_nonneg: "0 \<le> sint v \<Longrightarrow> FormatInt v = FormatUint v"
  by (simp add: FormatInt_def FormatUint_def)

lemma sint_scast_16: "sint (scast (v :: 16 word) :: 64 word) = sint v"
  and sint_scast_32: "sint (scast (w :: 32 word) :: 64 word) = sint w"
  by (simp_all add: sint_up_scast is_up)

lemma unat_ucast_16: "unat (ucast (v :: 16 word) :: 64 word) = unat v"
  and unat_ucast_32: "unat (ucast (w :: 32 word) :: 64 word) = unat w"
  using unsigned_less [of v, where ?'a = nat] unsigned_less [of w, where ?'a = nat]
  by (simp_all add: unsigned_ucast_eq take_bit_nat_eq_self_iff)

lemma sint_small: "unat v < 2 ^ 63 \<Longrightarrow> sint v = int (unat v)" for v :: "64 word"
proof -
  assume "unat v < 2 ^ 63"
  then have "int (unat v) < int (2 ^ 63)" by (simp only: of_nat_less_iff)
  then have "uint v < 2 ^ 63" by simp
  moreover have "- (2 ^ 63) \<le> uint v" by (rule order_trans [of _ 0]) simp_all
  ultimately have "signed_take_bit 63 (uint v) = uint v" by (intro signed_take_bit_int_eq_self)
  then show ?thesis by (simp add: sint_uint)
qed


lemma signed_json:
  assumes "sint (x :: 64 word) = sint (v :: 'w::len word)"
  shows "bind_r (ParseInt (number_text (Quoted (FormatInt x))) LENGTH('w)) (\<lambda>v64. Ret (word_of_int v64)) = Ret v"
proof -
  have "ParseInt (FormatInt x) 64 = Ret (sint v)" using ParseInt_FormatInt [of x] unfolding assms .
  from ParseInt_narrow [OF this sint_greater_eq sint_less]
  have "ParseInt (FormatInt x) LENGTH('w) = Ret (sint v)" .
  then show ?thesis unfolding number_text_simps by simp
qed

lemma unsigned_json:
  assumes "unat (x :: 64 word) = unat (v :: 'w::len word)"
  shows "bind_r (ParseUint (number_text (Quoted (FormatUint x))) LENGTH('w)) (\<lambda>v64. Ret (word_of_nat v64)) = Ret v"
proof -
  have "ParseUint (FormatUint x) 64 = Ret (unat v)" using FormatUint_read [of x] unfolding assms .
  from ParseUint_narrow [OF this unsigned_less]
  have "ParseUint (FormatUint x) LENGTH('w) = Ret (unat v)" .
  then show ?thesis unfolding number_text_simps by simp
qed

text \<open>
  Every integer type is read back from the text of its values, and from the same text without quotes for the unbounded one.
\<close>
theorem hexint_json_roundtrip:
  "HexInt_UnmarshalJSON (HexInt_MarshalJSON i) = Ret i \<and> HexInt_UnmarshalJSON (OtherText (HexInt_String i)) = Ret i \<and>
   HexInt_SetBytes (HexInt_Bytes i) = i \<and>
   HexInt16_UnmarshalJSON (Quoted (HexInt16_String a)) = Ret a \<and> HexUint16_UnmarshalJSON (Quoted (HexUint16_String a)) = Ret a \<and>
   HexInt32_UnmarshalJSON (Quoted (HexInt32_String b)) = Ret b \<and> HexUint32_UnmarshalJSON (Quoted (HexUint32_String b)) = Ret b \<and>
   HexInt64_UnmarshalJSON (Quoted (HexInt64_String c)) = Ret c \<and> HexUint64_UnmarshalJSON (Quoted (HexUint64_String c)) = Ret c"
proof (intro conjI)
  have lit: "SetString (FormatBigInt i) 0 = Some i"
    using FormatBigInt_hex [of i] parse_hex_literal [of "nat \<bar>i\<bar>"] by (auto simp: SetString_def strip_sign_def Let_def)
  have "ParseBigInt (FormatBigInt i) = Ret i"
    using FormatBigInt_hex [of i] lit by (auto simp: ParseBigInt_def Let_def)
  then show "HexInt_UnmarshalJSON (HexInt_MarshalJSON i) = Ret i"
    by (simp add: HexInt_UnmarshalJSON_def HexInt_MarshalJSON_def HexInt_String_def json_string_def)
  show "HexInt_UnmarshalJSON (OtherText (HexInt_String i)) = Ret i" by (simp add: HexInt_UnmarshalJSON_def HexInt_String_def lit)
  show "HexInt_SetBytes (HexInt_Bytes i) = i"
    using canonical_BigIntToBytes [of i] by (simp add: HexInt_SetBytes_def HexInt_Bytes_def BigIntSetBytes_twos canonical_def)
  show "HexInt16_UnmarshalJSON (Quoted (HexInt16_String a)) = Ret a"
    using signed_json [OF sint_scast_16 [of a]] by (simp add: hex_string_defs hex_unmarshal_defs)
  have "unat a < 2 ^ 63" using unsigned_less [of a, where ?'a = nat] by simp
  then have "FormatInt (ucast a) = FormatUint (ucast a)" by (intro FormatInt_nonneg) (simp add: sint_small unat_ucast_16)
  then show "HexUint16_UnmarshalJSON (Quoted (HexUint16_String a)) = Ret a"
    using unsigned_json [OF unat_ucast_16 [of a]] by (simp add: hex_string_defs hex_unmarshal_defs)
  show "HexInt32_UnmarshalJSON (Quoted (HexInt32_String b)) = Ret b"
    using signed_json [OF sint_scast_32 [of b]] by (simp add: hex_string_defs hex_unmarshal_defs)
  show "HexUint32_UnmarshalJSON (Quoted (HexUint32_String b)) = Ret b"
    using unsigned_json [OF unat_ucast_32 [of b]] by (simp add: hex_string_defs hex_unmarshal_defs)
  show "HexInt64_UnmarshalJSON (Quoted (HexInt64_String c)) = Ret c"
    using signed_json [of c c] by (simp add: hex_string_defs hex_unmarshal_defs)
  show "HexUint64_UnmarshalJSON (Quoted (HexUint64_String c)) = Ret c"
    using unsigned_json [of c c] by (simp add: hex_string_defs hex_unmarshal_defs)
qed

section \<open>RLP\<close>

lemma Decode_written:
  assumes "gives (decodeValue t) b \<lparr>rr_reader = Buffer b, rr_maxSB = length b\<rparr> v"
  shows "fst (Decode t (NewDecoder b)) = Ret v"
  using assms by (simp add: Decode_def bind_p_def dec_flush_def NewDecoder_def on_reader_def gives_past del: decodeValue.simps)

lemma decode_word_written:
  assumes "gives (ReadValue k) b \<lparr>rr_reader = Buffer b, rr_maxSB = length b\<rparr> p" and "p = PInt w \<or> p = PUint w"
  shows "fst (decode_word k (NewDecoder b)) = Ret (ucast w)"
proof -
  have "fst (Decode (TPrim k) (NewDecoder b)) = Ret (VPrim p)"
    using assms(1) by (intro Decode_written) (simp add: gives_past ret_p_def)
  with assms(2) show ?thesis
    by (cases "Decode (TPrim k) (NewDecoder b)") (auto simp: decode_word_def bind_p_def ret_p_def)
qed

lemma signed_written:
  assumes "intFits n w"
  shows "fst (decode_word (KInt n) (NewDecoder (written (Encode (VPrim (PInt w)))))) = Ret (ucast w)"
  unfolding written_Encode
proof (rule decode_word_written)
  show "gives (ReadValue (KInt n)) (enc (VPrim (PInt w))) \<lparr>rr_reader = Buffer (enc (VPrim (PInt w))), rr_maxSB = length (enc (VPrim (PInt w)))\<rparr> (PInt w)"
    using assms by (simp add: ReadValue_def next_bytes_def readInt_gives)
qed simp

lemma unsigned_written:
  assumes "uintFits n w" and "bs = Int64ToBytes w \<and> 0 \<le> sint w \<or> bs = Uint64ToBytes w"
  shows "fst (decode_word (KUint n) (NewDecoder (enc_bytes (Some bs)))) = Ret (ucast w)"
proof (rule decode_word_written)
  let ?s = "\<lparr>rr_reader = Buffer (enc_bytes (Some bs)), rr_maxSB = length (enc_bytes (Some bs))\<rparr>"
  have "length bs \<le> 9" using assms(2) canonical_Int64ToBytes(2) [of w] canonical_Uint64ToBytes(2) [of w] by auto
  then have g: "gives readBytes (enc_bytes (Some bs)) ?s bs" by (intro readBytes_short) (auto simp: next_bytes_def)
  have u: "SafeBytesToUint64 bs = Some w"
    using assms(2)
  proof
    assume "bs = Int64ToBytes w \<and> 0 \<le> sint w"
    then show ?thesis
      using SafeBytesToUint64_canonical [OF canonical_Int64ToBytes(1) [of w]] sint_less [of w] by simp
  next
    assume "bs = Uint64ToBytes w"
    then show ?thesis
      using SafeBytesToUint64_canonical [OF canonical_Uint64ToBytes(1) [of w]] unsigned_less [of w, where ?'a = int] by simp
  qed
  have "gives (readUintValue (KUint n)) (enc_bytes (Some bs)) ?s (PUint w)"
    unfolding readUintValue_def by (rule gives_bind_ret [OF g]) (simp add: u assms(1))
  then show "gives (ReadValue (KUint n)) (enc_bytes (Some bs)) ?s (PUint w)" by (simp add: ReadValue_def)
qed simp

lemma bits_below: "bit (a :: 16 word) n \<Longrightarrow> n < 16" "bit (b :: 32 word) n \<Longrightarrow> n < 32" "bit (c :: 64 word) n \<Longrightarrow> n < 64"
  using bit_imp_le_length [of a n] bit_imp_le_length [of b n] bit_imp_le_length [of c n] by simp_all

lemma fits_scast:
  "intFits 16 (scast (a :: 16 word))" "intFits 32 (scast (b :: 32 word))" "uintFits 16 (ucast (a :: 16 word))" "uintFits 32 (ucast (b :: 32 word))"
  unfolding intFits_def uintFits_def by (auto intro!: bit_word_eqI simp: bit_simps dest: bits_below)

text \<open>
  Every integer type is decoded to the value it was encoded from. The unsigned types of 16 and 32 bits are written as signed
  numbers of 64 bits and read as unsigned ones.
\<close>
theorem hexint_rlp_roundtrip:
  "fst (HexInt16_RLPDecodeSelf (NewDecoder (written (HexInt16_RLPEncodeSelf a)))) = Ret a \<and>
   fst (HexUint16_RLPDecodeSelf (NewDecoder (written (HexUint16_RLPEncodeSelf a)))) = Ret a \<and>
   fst (HexInt32_RLPDecodeSelf (NewDecoder (written (HexInt32_RLPEncodeSelf b)))) = Ret b \<and>
   fst (HexUint32_RLPDecodeSelf (NewDecoder (written (HexUint32_RLPEncodeSelf b)))) = Ret b \<and>
   fst (HexInt64_RLPDecodeSelf (NewDecoder (written (HexInt64_RLPEncodeSelf c)))) = Ret c \<and>
   fst (HexUint64_RLPDecodeSelf (NewDecoder (written (HexUint64_RLPEncodeSelf c)))) = Ret c"
proof -
  have "unat a < 2 ^ 63" "unat b < 2 ^ 63" using unsigned_less [of a, where ?'a = nat] unsigned_less [of b, where ?'a = nat] by simp_all
  then have pos: "0 \<le> sint (ucast a :: 64 word)" "0 \<le> sint (ucast b :: 64 word)" by (simp_all add: sint_small unat_ucast_16 unat_ucast_32)
  have bk: "ucast (scast a :: 64 word) = a" "ucast (scast b :: 64 word) = b" "ucast (ucast a :: 64 word) = a" "ucast (ucast b :: 64 word) = b"
    by (auto intro!: bit_word_eqI simp: bit_simps dest: bits_below)
  have u: "uintFits 64 c" by (auto simp: uintFits_def intro!: bit_word_eqI simp: bit_simps dest: bits_below)
  note r = hex_rlp_defs signed_written [OF fits_scast(1)] signed_written [OF fits_scast(2)] signed_written [OF intFits_64]
  have w: "written (Encode (VPrim (PInt (ucast a)))) = enc_bytes (Some (Int64ToBytes (ucast a)))"
    "written (Encode (VPrim (PInt (ucast b)))) = enc_bytes (Some (Int64ToBytes (ucast b)))"
    "written (Encode (VPrim (PUint c))) = enc_bytes (Some (Uint64ToBytes c))" by (simp_all add: written_Encode)
  have "fst (HexInt16_RLPDecodeSelf (NewDecoder (written (HexInt16_RLPEncodeSelf a)))) = Ret a"
    "fst (HexInt32_RLPDecodeSelf (NewDecoder (written (HexInt32_RLPEncodeSelf b)))) = Ret b"
    "fst (HexInt64_RLPDecodeSelf (NewDecoder (written (HexInt64_RLPEncodeSelf c)))) = Ret c"
    unfolding r bk by simp_all
  moreover have "fst (HexUint16_RLPDecodeSelf (NewDecoder (written (HexUint16_RLPEncodeSelf a)))) = Ret a"
    unfolding hex_rlp_defs w by (subst unsigned_written [OF fits_scast(3) [of a]]) (use pos in \<open>simp_all add: bk\<close>)
  moreover have "fst (HexUint32_RLPDecodeSelf (NewDecoder (written (HexUint32_RLPEncodeSelf b)))) = Ret b"
    unfolding hex_rlp_defs w by (subst unsigned_written [OF fits_scast(4) [of b]]) (use pos in \<open>simp_all add: bk\<close>)
  moreover have "fst (HexUint64_RLPDecodeSelf (NewDecoder (written (HexUint64_RLPEncodeSelf c)))) = Ret c"
    unfolding hex_rlp_defs w by (subst unsigned_written [OF u]) simp_all
  ultimately show ?thesis by blast
qed

end
