(* ===== verification/Spec2Isabelle.thy ===== *)
theory Spec2Isabelle
  imports Sender_Link Mta_Store Relay_Service Jsonrpc Mpt Hex_Int
begin

text \<open>
  This development models the BTP relay (src/, module icon-project/btp2) and proves what its parts promise. A relay
  carries messages from a source chain to a destination chain. A \<^emph>\<open>receiver\<close> follows the blocks of the source chain and
  builds block updates and proofs; a \<^emph>\<open>link\<close> asks the receiver for them, collects them into relay messages and hands these
  to a \<^emph>\<open>sender\<close>, which puts them into transactions of the destination chain and reports the results back to the link.
  Below these are the codec, the Merkle structures, the database and the texts in which nodes are spoken to.

  \<^bold>\<open>Shared vocabulary.\<close> \<open>BTP_Prelude\<close>: bytes are \<open>8 word\<close> lists; a Go call has an \<open>outcome\<close> \<open>Ret\<close>, \<open>Fail\<close>, \<open>Panic\<close> or
  \<open>OutOfFuel\<close>; a stateful call is a \<open>proc\<close> that returns an outcome and the new state. \<open>Go_Errors\<close>: src/common/errors, and the
  copy of the revert errors in src/chain/ethbr/client/error.go. \<open>BTP_Types\<close>: src/common/types.

  \<^bold>\<open>The link.\<close> \<open>BTP_Link\<close> is src/common/link/link.go: the record \<open>link\<close> is the struct \<open>Link\<close>, receivers and senders are records of
  functions as the interfaces of link/type.go and types/type.go are, and the handlers of the two goroutines are the steps of
  \<open>link_step\<close>. \<open>BTP_Link_Inv\<close> carries invariants through every handler once, in a locale that is interpreted for the open items,
  for the order of sending and for the order of messages; \<open>BTP_Link_Props\<close> has the promises: what a handler has achieved when it
  returns, that it returns when the receiver serves the link (shown for the ethbr receiver in \<open>Ethbr_Receiver\<close>), what each relay
  result does, and what can go wrong when the two goroutines overlap.

  \<^bold>\<open>Receivers.\<close> \<open>Receiver_Base\<close> holds the items and windows the receivers share and, as a locale, the contract a receiver has to meet
  for the link's invariants; \<open>Receive_DB\<close> the database of received blocks over an ordered store, a locale as well;
  \<open>Btp2_Receiver\<close>, \<open>Bridge_Receiver\<close> and \<open>Ethbr_Receiver\<close> the three receivers (src/chain/icon/btp2, src/chain/icon/bridge,
  src/chain/ethbr). Each is interpreted as a receiver of the link, which the theorem below composes; that the relay loop of the
  link ends is proved for the ethbr receiver and a window whose events are numbered without a gap.

  \<^bold>\<open>Senders and clients.\<close> \<open>Relay_Queue\<close> is the queue of both senders, its operations and the reads and writes they consist of as the
  interleaved steps of several goroutines, and, as a locale, what a sender owes for every message it accepts, interpreted for both
  senders; \<open>Sender_Link\<close> has the senders as the link sees them and the locale that ties the messages the link marks as sent to
  those a sender accepted, again with both as instances; \<open>Icon_Sender\<close> and \<open>Icon_Sender_Props\<close> are src/chain/icon/sender.go, \<open>Ethbr_Sender\<close> is
  src/chain/ethbr/sender.go; \<open>Icon_Client\<close> and \<open>Icon_Client_Props\<close> are the calls of src/chain/icon/client they make, and
  \<open>Serialize\<close> the text of a transaction that is hashed and signed. \<open>Signature\<close> has the formats of signatures and the wallet,
  \<open>Key_Store\<close> the encrypted keys it is read from (src/common/wallet/keystore.go), and \<open>Jsonrpc\<close> the calls below the ICON
  client (src/common/jsonrpc) with its option header.

  \<^bold>\<open>The relay.\<close> \<open>Relay_Service\<close> is src/common/relay/relay.go with the factories (src/common/link/factory.go and one per chain): which
  links and senders a configuration makes and when the relay ends. \<open>Logging\<close> is src/common/log, which it sets up.

  \<^bold>\<open>Data.\<close> \<open>Int_Conv\<close> and \<open>Parse_Int\<close> are src/common/intconv; \<open>Rlp\<close>, \<open>Codec\<close> and \<open>Codec_Stream\<close> are src/common/codec, from the bytes
  to the reflective codec and to the encoders used step by step; \<open>Address_Text\<close> and \<open>Hex_Int\<close> are address.go, hexbytes.go
  and hexint.go of src/common; \<open>Mbt\<close> and \<open>Mbt_Props\<close> are the Merkle binary tree of src/common/mbt; \<open>Mta\<close>, \<open>Mta_Props\<close>, \<open>Mta_Thms\<close> and
  \<open>Mta_Store\<close> the accumulator of src/common/mta; \<open>Mpt\<close> the trie proofs of src/common/mpt; \<open>Db\<close> the databases of src/common/db.

  \<^bold>\<open>Integers.\<close> Where the code computes with wrap-around or widths matter (intconv, codec, flags of signatures, accumulator
  heights) the model uses words. Heights and sequence numbers of the link and the receivers are unbounded integers: they
  count blocks and messages from 0, and reaching \<open>2 ^ 63\<close> is outside of what is claimed; so is an accumulator of that many leaves.

  \<^bold>\<open>Fuel.\<close> A loop without a bound of its own takes fuel and gives \<open>OutOfFuel\<close> when it is used up. Where the code is claimed to return,
  the theorem gives an amount that is enough (for \<open>handleRelayMessage\<close> the distance to the newest receive status, for polling
  the number of answers that there is no block yet, for results the number of pending answers), and where it is claimed not to
  return, that no amount is. \<open>decode_items\<close> gets one round more than the list has bytes, which is always enough.

  \<^bold>\<open>Concurrency.\<close> A link has one goroutine for receive statuses and one for relay results. Only \<open>handleRelayMessage\<close> takes the mutex
  \<open>rmsMtx\<close>; the receive status is appended, and a relay result removes messages and resets the link status, without it. The
  promises about the order of messages are therefore stated for a handler that runs to its end undisturbed
  (\<open>handlers_keep_order\<close>, \<open>receivers_keep_link\<close>), and \<open>append_races_result\<close> shows that the code does not keep the order when
  the handlers overlap. \<open>link_reachable\<close> has whole handlers as its steps; what is proved of it (messages sent come first,
  one open list of items with its size) concerns what is written with the mutex held, or removed from the front. The queue of
  a sender has no lock: \<open>queue_step\<close> has its single reads and writes as steps, of which the bound on the queue is proved and
  the races are exhibited (\<open>queue_races\<close>); the runs of the senders (\<open>sender_run\<close>, \<open>ethbr_run\<close>) let every step find the queue and the
  node in any state, and claim nothing of the queue. Channels are the lists of what was sent on them.

  \<^bold>\<open>Parameters.\<close> Nodes (JSON-RPC, websockets, go-ethereum), the ordered store of goleveldb, hash functions, the secp256k1 curve, the ABI
  decoder and \<open>encoding/json\<close> are parameters. What is relied on is a hypothesis with a name (\<open>leveldb_laws\<close>, \<open>hash_ok\<close>,
  \<open>curve_ok\<close>, \<open>prims_ok\<close>, \<open>json_agrees\<close>), and a witness has an instance. Where \<open>encoding/json\<close> calls marshalling methods of the repository,
  these are applied by the model (\<open>marshal_store\<close>), and the hypothesis is about the document of texts that is left.

  \<^bold>\<open>Not modelled.\<close> The command line, files of configuration, the delivery of log entries and the hooks of log vendors, which are input
  and output; the HTTP transport below the clients and the websocket loops, whose notifications are the arguments of the
  handlers; generated bindings; the backends of goleveldb and RocksDB and msgpack, which call external packages; maps in the codec
  and types with marshalling methods of their own there, except where a method is modelled with its type; stack traces and
  formatting verbs of errors; \<open>Stop\<close> and \<open>Close\<close> of connections; the capacity of a slice beyond its length; the list a decoder of
  \<open>Codec_Stream\<close> leaves open when a nil inside a pointer ends the reading of it.
\<close>

text \<open>
  C3: with the btp2, the bridge or the ethbr receiver, in any state in which its window is in order (and, for
  btp2, the node answers with the headers it was asked for), and with any sender, the handling of
  a receive status or of a relay result, run to its end without the other goroutine in between, keeps the pending
  messages of the link ascending and none beyond the link status, and the recorded size
  the length of the open items; also when the handler fails or panics.
\<close>
theorem receivers_keep_link:
  assumes "(\<exists>s. btp2_ok s \<and> R = btp2_of s) \<or> (\<exists>s. bridge_ok s \<and> R = bridge_of s) \<or> (\<exists>s. ethbr_ok s \<and> R = ethbr_of s)"
    and "sorted_wrt bls_le (map rm_bls (l_rms l) @ [l_bls l])" and "l_rmis l = [is]" and "l_size l = sum_list (map item_Len is)"
    and "l' = snd (onReceiveStatus R S fuel rs l) \<or> l' = snd (onRelayResult R S fuel rr l)"
  shows "sorted_wrt bls_le (map rm_bls (l_rms l') @ [l_bls l']) \<and>
    (\<exists>is'. l_rmis l' = [is'] \<and> l_size l' = sum_list (map item_Len is'))"
proof -
  have "in_order l" using assms(2-4) by (auto simp: in_order_def ordered_def items_ok_def)
  then have keep: "in_order (snd (onReceiveStatus R S fuel rs l)) \<and> in_order (snd (onRelayResult R S fuel rr l))"
    using assms(1)
  proof (elim disjE exE conjE)
    fix s assume "btp2_ok s" and R: "R = btp2_of s"
    then show ?thesis using btp2.handlers_in_order [of s l] \<open>in_order l\<close> unfolding R by (intro conjI)
  next
    fix s assume "bridge_ok s" and R: "R = bridge_of s"
    then show ?thesis using bridge.handlers_in_order [of s l] \<open>in_order l\<close> unfolding R by (intro conjI)
  next
    fix s assume "ethbr_ok s" and R: "R = ethbr_of s"
    then show ?thesis using ethbr.handlers_in_order [of s l] \<open>in_order l\<close> unfolding R by (intro conjI)
  qed
  have "in_order l'" using assms(5)
  proof
    assume "l' = snd (onReceiveStatus R S fuel rs l)" then show ?thesis using keep by (simp only:)
  next
    assume "l' = snd (onRelayResult R S fuel rr l)" then show ?thesis using keep by (simp only:)
  qed
  then show ?thesis by (simp add: in_order_def ordered_def items_ok_def)
qed

text \<open>The three receivers, each with a link that is told of a block with two messages.\<close>

theorem receivers_keep_link_witness:
  "map (\<lambda>l. length (l_rms l)) [relaying, bridge_relaying, eth_relaying] = [1, 1, 1] \<and>
   sorted_wrt bls_le (map rm_bls (l_rms relaying) @ [l_bls relaying]) \<and>
   sorted_wrt bls_le (map rm_bls (l_rms bridge_relaying) @ [l_bls bridge_relaying]) \<and>
   sorted_wrt bls_le (map rm_bls (l_rms eth_relaying) @ [l_bls eth_relaying])"
proof -
  have o: "sorted_wrt bls_le (map rm_bls (l_rms opened) @ [l_bls opened])" "l_rmis opened = [[]]"
    "l_size opened = sum_list (map item_Len [])" by (simp_all add: opened_def NewLink_def)
  have b: "btp2_ok (one_block, toy_hash, noticed)" by (rule noticed_ok)
  have g: "bridge_ok (one_block, bridge_noticed)" by (simp add: bridge_noticed_def ascending_def)
  have e: "ethbr_ok (pair_enc, eth_plain)" by (simp add: ethbr_window_def eth_plain_def plain_status_def)
  have "sorted_wrt bls_le (map rm_bls (l_rms relaying) @ [l_bls relaying])"
    by (rule conjunct1 [OF receivers_keep_link [where R = "btp2_of (one_block, toy_hash, noticed)" and l' = relaying and
        S = "calm_sender (status_at 95 4)" and fuel = "Suc (Suc (Suc 0))" and rs = "\<lparr>rs_Height = 100, rs_Seq = 6\<rparr>", OF _ o disjI1]])
      (use b in blast, simp only: relaying_run snd_conv split)
  moreover have "sorted_wrt bls_le (map rm_bls (l_rms bridge_relaying) @ [l_bls bridge_relaying])"
    by (rule conjunct1 [OF receivers_keep_link [where R = "bridge_of (one_block, bridge_noticed)" and l' = bridge_relaying and
        S = "calm_sender (status_at 95 4)" and fuel = "Suc (Suc (Suc 0))" and rs = "\<lparr>rs_Height = 100, rs_Seq = 5\<rparr>", OF _ o disjI1]])
      (use g in blast, simp only: bridge_relaying_run snd_conv split bridge_of.simps)
  moreover have "sorted_wrt bls_le (map rm_bls (l_rms eth_relaying) @ [l_bls eth_relaying])"
    by (rule conjunct1 [OF receivers_keep_link [where R = "ethbr_of (pair_enc, eth_plain)" and l' = eth_relaying and
        S = "calm_sender (status_at 95 4)" and fuel = "Suc (Suc (Suc 0))" and rs = "\<lparr>rs_Height = 100, rs_Seq = 6\<rparr>", OF _ o disjI1]])
      (use e in blast, simp only: eth_relaying_run snd_conv split ethbr_of.simps)
  ultimately show ?thesis by (simp add: relaying_def bridge_relaying_def eth_relaying_def)
qed

end
